(* ===== verification/Py_Prelude.thy ===== *)
theory Py_Prelude
  imports Main "HOL-Library.Word" "HOL-Library.AList"
begin

text \<open>
  Shared vocabulary of the development: Python exceptions as values, byte strings, the
  \<^verbatim>\<open>struct\<close> and \<^verbatim>\<open>int.from_bytes\<close> conversions the sources use, slices, and
  insertion-ordered dictionaries (association lists under \<open>AList.update\<close>, which keeps the
  position of an existing key and appends a new one, as a Python dictionary does).
  The fact collections \<open>py_simps\<close>, \<open>codec_simps\<close> and \<open>dict_simps\<close> carry the component proofs.
\<close>

named_theorems py_simps
named_theorems codec_simps
named_theorems dict_simps

section \<open>Exceptions as values\<close>

datatype py_error =
    ValueError string
  | IndexError
  | KeyError
  | TypeError
  | StructError
  | ZeroDivisionError
  | NotImplementedError
  | RuntimeError string
  | SystemExit string
  | AltPlaneMiss string

type_synonym 'a res = "py_error + 'a"

definition rbind :: "'a res \<Rightarrow> ('a \<Rightarrow> 'b res) \<Rightarrow> 'b res" where
  "rbind m f = (case m of Inl e \<Rightarrow> Inl e | Inr x \<Rightarrow> f x)"

lemma rbind_simps [simp, py_simps]:
  "rbind (Inl e) f = Inl e"
  "rbind (Inr x) f = f x"
  by (simp_all add: rbind_def)

lemma rbind_Inr_iff [py_simps]: "rbind m f = Inr y \<longleftrightarrow> (\<exists>x. m = Inr x \<and> f x = Inr y)"
  by (cases m) auto

lemma rbind_Inl_iff: "rbind m f = Inl e \<longleftrightarrow> m = Inl e \<or> (\<exists>x. m = Inr x \<and> f x = Inl e)"
  by (cases m) auto

lemma rbind_cong [fundef_cong]:
  "m = m' \<Longrightarrow> (\<And>x. m' = Inr x \<Longrightarrow> f x = g x) \<Longrightarrow> rbind m f = rbind m' g"
  by (cases m') auto

text \<open>\<^verbatim>\<open>[f(x) for x in xs]\<close> where \<open>f\<close> may raise: the first exception wins.\<close>

fun rmap :: "('a \<Rightarrow> 'b res) \<Rightarrow> 'a list \<Rightarrow> 'b list res" where
  "rmap f [] = Inr []"
| "rmap f (x # xs) = rbind (f x) (\<lambda>y. rbind (rmap f xs) (\<lambda>ys. Inr (y # ys)))"

lemma rmap_Inr_length: "rmap f xs = Inr ys \<Longrightarrow> length ys = length xs"
  by (induction xs arbitrary: ys) (auto simp: rbind_Inr_iff)

lemma rmap_Inr_all: "(\<And>x. x \<in> set xs \<Longrightarrow> f x = Inr (g x)) \<Longrightarrow> rmap f xs = Inr (map g xs)"
  by (induction xs) auto

section \<open>Byte strings\<close>

type_synonym byte = "8 word"
type_synonym bytes = "byte list"

definition slice :: "nat \<Rightarrow> nat \<Rightarrow> 'a list \<Rightarrow> 'a list" where
  "slice a b xs = take (b - a) (drop a xs)"

lemma length_slice [simp]: "length (slice a b xs) = min (b - a) (length xs - a)"
  by (simp add: slice_def)

lemma slice_append_left [codec_simps]:
  "b \<le> length xs \<Longrightarrow> slice a b (xs @ ys) = slice a b xs"
  by (simp add: slice_def)

lemma slice_append_right [codec_simps]:
  "length xs \<le> a \<Longrightarrow> slice a b (xs @ ys) = slice (a - length xs) (b - length xs) ys"
  by (simp add: slice_def)

lemma slice_whole [codec_simps]: "length xs \<le> b \<Longrightarrow> slice 0 b xs = xs"
  by (simp add: slice_def)

lemma slice_middle: "length xs = a \<Longrightarrow> length ys = b - a \<Longrightarrow> slice a b (xs @ ys @ zs) = ys"
  by (simp add: slice_def)

lemma nth_slice: "i < b - a \<Longrightarrow> a + i < length xs \<Longrightarrow> slice a b xs ! i = xs ! (a + i)"
  by (simp add: slice_def)

definition zeros :: "nat \<Rightarrow> bytes" where
  "zeros n = replicate n 0"

lemma length_zeros [simp]: "length (zeros n) = n"
  by (simp add: zeros_def)

text \<open>\<^verbatim>\<open>buf[a:a+len(v)] = v\<close> on a bytearray, for a target range inside the buffer.\<close>

definition splice :: "bytes \<Rightarrow> nat \<Rightarrow> bytes \<Rightarrow> bytes" where
  "splice buf a v = take a buf @ v @ drop (a + length v) buf"

lemma length_splice [simp, codec_simps]:
  "a + length v \<le> length buf \<Longrightarrow> length (splice buf a v) = length buf"
  by (simp add: splice_def)

lemma slice_splice_same [codec_simps]:
  "a + length v \<le> length buf \<Longrightarrow> b = a + length v \<Longrightarrow> slice a b (splice buf a v) = v"
  by (simp add: splice_def slice_def min_def)

lemma nth_splice:
  "a + length v \<le> length buf \<Longrightarrow> i < length buf \<Longrightarrow>
     splice buf a v ! i = (if a \<le> i \<and> i < a + length v then v ! (i - a) else buf ! i)"
  by (auto simp: splice_def nth_append min_def)

lemma slice_splice_before [codec_simps]:
  "b \<le> a \<Longrightarrow> a + length v \<le> length buf \<Longrightarrow> slice c b (splice buf a v) = slice c b buf"
  by (rule nth_equalityI) (auto simp: nth_slice nth_splice)

lemma slice_splice_after [codec_simps]:
  "a + length v \<le> c \<Longrightarrow> a + length v \<le> length buf \<Longrightarrow> slice c b (splice buf a v) = slice c b buf"
  by (rule nth_equalityI) (auto simp: nth_slice nth_splice)

section \<open>Integers in bytes\<close>

text \<open>\<^verbatim>\<open>int.from_bytes(bs, "little")\<close>\<close>

fun le_nat :: "bytes \<Rightarrow> nat" where
  "le_nat [] = 0"
| "le_nat (b # bs) = unat b + 256 * le_nat bs"

lemma unat_byte_lt [simp]: "unat (b :: byte) < 256"
  using unsigned_less [of b, where 'a = nat] by simp

lemma le_nat_bound: "le_nat bs < 256 ^ length bs"
proof (induction bs)
  case (Cons b bs)
  have "unat b + 256 * le_nat bs < 256 * (le_nat bs + 1)" by simp
  also have "\<dots> \<le> 256 * 256 ^ length bs"
    using Cons by (intro mult_le_mono) auto
  finally show ?case by simp
qed simp

text \<open>\<^verbatim>\<open>n.to_bytes(k, "little")\<close> for a value that fits\<close>

fun le_bytes :: "nat \<Rightarrow> nat \<Rightarrow> bytes" where
  "le_bytes 0 n = []"
| "le_bytes (Suc k) n = word_of_nat (n mod 256) # le_bytes k (n div 256)"

lemma length_le_bytes [simp, codec_simps]: "length (le_bytes k n) = k"
  by (induction k arbitrary: n) auto

lemma unat_byte_of_mod [simp]: "unat (word_of_nat (n mod 256) :: byte) = n mod 256"
  by (simp add: unat_of_nat)

lemma le_nat_le_bytes [codec_simps]: "n < 256 ^ k \<Longrightarrow> le_nat (le_bytes k n) = n"
proof (induction k arbitrary: n)
  case (Suc k)
  then have "n div 256 < 256 ^ k"
    by (simp add: less_mult_imp_div_less mult.commute)
  with Suc.IH show ?case by simp
qed simp

lemma word_of_nat_unat_byte: "word_of_nat ((unat b + 256 * n) mod 256) = (b :: byte)"
  by (simp add: mod_mult_self1 [of _ n 256, simplified mult.commute])

lemma le_bytes_le_nat [codec_simps]: "length bs = k \<Longrightarrow> le_bytes k (le_nat bs) = bs"
proof (induction bs arbitrary: k)
  case (Cons b bs)
  have "unat b < 256" by simp
  then have "(unat b + 256 * le_nat bs) div 256 = le_nat bs" by simp
  with Cons show ?case by (auto simp: word_of_nat_unat_byte)
qed simp

lemma le_nat_append: "le_nat (xs @ ys) = le_nat xs + 256 ^ length xs * le_nat ys"
  by (induction xs) (auto simp: algebra_simps)

lemma le_nat_zeros [simp]: "le_nat (zeros k) = 0"
  by (induction k) (auto simp: zeros_def)

text \<open>\<^verbatim>\<open>int.from_bytes(bs, "big")\<close>\<close>

definition be_nat :: "bytes \<Rightarrow> nat" where
  "be_nat bs = le_nat (rev bs)"

definition uint_le :: "bytes \<Rightarrow> int" where
  "uint_le bs = int (le_nat bs)"

text \<open>\<^verbatim>\<open>int.from_bytes(bs, "little", signed=True)\<close>\<close>

definition sint_le :: "bytes \<Rightarrow> int" where
  "sint_le bs = (let n = int (le_nat bs); m = 256 ^ length bs
                 in if bs \<noteq> [] \<and> m \<le> 2 * n then n - m else n)"

lemma uint_le_bounds: "0 \<le> uint_le bs" "uint_le bs < 256 ^ length bs"
  using le_nat_bound [of bs] by (simp_all add: uint_le_def flip: of_nat_less_iff)

lemma sint_le_bounds:
  assumes "bs \<noteq> []"
  shows "- (256 ^ length bs) \<le> 2 * sint_le bs" "2 * sint_le bs < 256 ^ length bs"
proof -
  define n m where "n = uint_le bs" and "m = (256 :: int) ^ length bs"
  have b: "0 \<le> n" "n < m" using uint_le_bounds [of bs] by (simp_all add: n_def m_def)
  have "sint_le bs = (if m \<le> 2 * n then n - m else n)"
    using assms by (simp add: sint_le_def uint_le_def Let_def n_def m_def)
  with b show "- (256 ^ length bs) \<le> 2 * sint_le bs" "2 * sint_le bs < 256 ^ length bs"
    by (simp_all flip: m_def)
qed

text \<open>\<^verbatim>\<open>struct.pack\<close> of one unsigned or signed field of \<open>k\<close> bytes; out of range raises.\<close>

definition pack_u :: "nat \<Rightarrow> int \<Rightarrow> bytes res" where
  "pack_u k v = (if 0 \<le> v \<and> v < 256 ^ k then Inr (le_bytes k (nat v)) else Inl StructError)"

definition pack_i :: "nat \<Rightarrow> int \<Rightarrow> bytes res" where
  "pack_i k v = (if - (256 ^ k) \<le> 2 * v \<and> 2 * v < 256 ^ k
                 then Inr (le_bytes k (nat (v mod 256 ^ k))) else Inl StructError)"

text \<open>\<^verbatim>\<open>struct.unpack_from\<close> of one field: raises when the buffer is too short.\<close>

definition unpack_u :: "nat \<Rightarrow> bytes \<Rightarrow> nat \<Rightarrow> int res" where
  "unpack_u k data off =
     (if off + k \<le> length data then Inr (uint_le (slice off (off + k) data)) else Inl StructError)"

definition unpack_i :: "nat \<Rightarrow> bytes \<Rightarrow> nat \<Rightarrow> int res" where
  "unpack_i k data off =
     (if off + k \<le> length data then Inr (sint_le (slice off (off + k) data)) else Inl StructError)"

text \<open>\<^verbatim>\<open>data[i]\<close>: IndexError past the end.\<close>

definition byte_at :: "bytes \<Rightarrow> nat \<Rightarrow> int res" where
  "byte_at data i = (if i < length data then Inr (int (unat (data ! i))) else Inl IndexError)"

text \<open>Fields read from a buffer whose length the caller has checked.\<close>

definition u_at :: "nat \<Rightarrow> bytes \<Rightarrow> nat \<Rightarrow> int" where
  "u_at k data off = uint_le (slice off (off + k) data)"

definition i_at :: "nat \<Rightarrow> bytes \<Rightarrow> nat \<Rightarrow> int" where
  "i_at k data off = sint_le (slice off (off + k) data)"

lemma unpack_checked [codec_simps]:
  "off + k \<le> length data \<Longrightarrow> unpack_u k data off = Inr (u_at k data off)"
  "off + k \<le> length data \<Longrightarrow> unpack_i k data off = Inr (i_at k data off)"
  by (simp_all add: unpack_u_def unpack_i_def u_at_def i_at_def)

lemma pack_u_length [codec_simps]: "pack_u k v = Inr bs \<Longrightarrow> length bs = k"
  by (auto simp: pack_u_def split: if_splits)

lemma pack_i_length [codec_simps]: "pack_i k v = Inr bs \<Longrightarrow> length bs = k"
  by (auto simp: pack_i_def split: if_splits)

lemma uint_le_pack_u [codec_simps]: "pack_u k v = Inr bs \<Longrightarrow> uint_le bs = v"
  by (auto simp: pack_u_def uint_le_def le_nat_le_bytes nat_less_iff split: if_splits)

lemma sint_le_pack_i [codec_simps]:
  assumes "pack_i k v = Inr bs" and "0 < k"
  shows "sint_le bs = v"
proof -
  define m :: int where "m = 256 ^ k"
  have m: "0 < m" "m = 256 ^ k" by (simp_all add: m_def)
  from assms have v: "- m \<le> 2 * v" "2 * v < m" and bs: "bs = le_bytes k (nat (v mod m))"
    by (auto simp: pack_i_def m_def split: if_splits)
  have "nat (v mod m) < 256 ^ k"
    using m by (simp add: nat_less_iff)
  then have n: "int (le_nat bs) = v mod m"
    using m by (simp add: bs le_nat_le_bytes)
  have ne: "bs \<noteq> []" and len: "length bs = k"
    using assms by (auto simp: bs) (cases k; simp)
  show ?thesis
  proof (cases "0 \<le> v")
    case True
    then have "v mod m = v" using v by simp
    then show ?thesis using v ne by (simp add: sint_le_def n len flip: m_def)
  next
    case False
    then have "v mod m = v + m" using v by (intro int_mod_pos_eq [where q = "- 1"]) auto
    then show ?thesis using v False ne by (simp add: sint_le_def n len flip: m_def)
  qed
qed

section \<open>Fixed-width codecs\<close>

text \<open>
  What a fixed-layout record relies on: an encoder of constant width on a domain of values
  and a decoder that inverts it. A field can then be read back at its offset out of any
  record that has it there.
\<close>

locale fixed_codec =
  fixes enc :: "'a \<Rightarrow> bytes res" and dec :: "bytes \<Rightarrow> 'a" and width :: nat
  assumes enc_length: "enc x = Inr bs \<Longrightarrow> length bs = width"
    and dec_enc: "enc x = Inr bs \<Longrightarrow> dec bs = x"
begin

lemma read_field:
  assumes "enc x = Inr bs" and "length pre = off"
  shows "dec (slice off (off + width) (pre @ bs @ post)) = x"
proof -
  have "slice off (off + width) (pre @ bs @ post) = bs"
    using assms enc_length by (intro slice_middle) auto
  then show ?thesis using assms dec_enc by simp
qed

lemma read_patched:
  assumes "enc x = Inr bs" and "off + width \<le> length buf"
  shows "dec (slice off (off + width) (splice buf off bs)) = x"
  using assms enc_length dec_enc by (simp add: slice_splice_same)

lemma patch_frame:
  assumes "enc x = Inr bs" and "off + width \<le> length buf" and "i < length buf"
    and "i < off \<or> off + width \<le> i"
  shows "splice buf off bs ! i = buf ! i"
  using assms enc_length by (auto simp: nth_splice)

end

interpretation u8: fixed_codec "pack_u 1" uint_le 1
  by unfold_locales (simp_all add: codec_simps)

interpretation u16: fixed_codec "pack_u 2" uint_le 2
  by unfold_locales (simp_all add: codec_simps)

interpretation u32: fixed_codec "pack_u 4" uint_le 4
  by unfold_locales (simp_all add: codec_simps)

interpretation u64: fixed_codec "pack_u 8" uint_le 8
  by unfold_locales (simp_all add: codec_simps)

interpretation i32: fixed_codec "pack_i 4" sint_le 4
  by unfold_locales (simp_all add: codec_simps)

interpretation i64: fixed_codec "pack_i 8" sint_le 8
  by unfold_locales (simp_all add: codec_simps)

section \<open>Hexadecimal text\<close>

definition HEX :: string where "HEX = ''0123456789abcdef''"

definition hex_digits :: "nat \<Rightarrow> string" where
  "hex_digits n = [HEX ! (n div 16), HEX ! (n mod 16)]"

text \<open>\<^verbatim>\<open>bs.hex()\<close>\<close>

definition to_hex :: "bytes \<Rightarrow> string" where
  "to_hex bs = concat (map (\<lambda>b. hex_digits (unat b)) bs)"

definition hex_value :: "char \<Rightarrow> nat option" where
  "hex_value c = (let n = of_char c :: nat in
     if 48 \<le> n \<and> n \<le> 57 then Some (n - 48)
     else if 97 \<le> n \<and> n \<le> 102 then Some (n - 87)
     else if 65 \<le> n \<and> n \<le> 70 then Some (n - 55) else None)"

definition is_space :: "char \<Rightarrow> bool" where
  "is_space c = (let n = of_char c :: nat in n = 32 \<or> (9 \<le> n \<and> n \<le> 13))"

text \<open>\<^verbatim>\<open>bytes.fromhex(s)\<close>: pairs of digits, white space allowed between pairs.\<close>

fun from_hex :: "string \<Rightarrow> bytes res" where
  "from_hex [] = Inr []"
| "from_hex [c] = (if is_space c then Inr [] else Inl (ValueError ''fromhex''))"
| "from_hex (c # d # cs) =
     (if is_space c then from_hex (d # cs)
      else case hex_value c of
        None \<Rightarrow> Inl (ValueError ''fromhex'')
      | Some a \<Rightarrow> (case hex_value d of
            None \<Rightarrow> Inl (ValueError ''fromhex'')
          | Some b \<Rightarrow> rbind (from_hex cs) (\<lambda>bs. Inr (of_nat (16 * a + b) # bs))))"

lemma HEX_digit:
  assumes "n < 16"
  shows "hex_value (HEX ! n) = Some n" "\<not> is_space (HEX ! n)"
proof -
  have "n \<in> {0, 1, 2, 3, 4, 5, 6, 7, 8, 9, 10, 11, 12, 13, 14, 15}" using assms by (simp; presburger)
  then have "hex_value (HEX ! n) = Some n \<and> \<not> is_space (HEX ! n)"
    by (elim insertE emptyE) (simp_all add: HEX_def hex_value_def is_space_def of_char_def)
  then show "hex_value (HEX ! n) = Some n" "\<not> is_space (HEX ! n)" by auto
qed

lemma from_hex_to_hex: "from_hex (to_hex bs) = Inr bs"
proof (induction bs)
  case (Cons b bs)
  have "unat b < 256" by simp
  then have "unat b div 16 < 16" "unat b mod 16 < 16" by (simp_all add: less_mult_imp_div_less)
  moreover have "word_of_nat (16 * (unat b div 16) + unat b mod 16) = b"
    by (simp add: word_of_nat_unat_byte)
  moreover have "to_hex (b # bs) = HEX ! (unat b div 16) # HEX ! (unat b mod 16) # to_hex bs"
    by (simp add: to_hex_def hex_digits_def)
  ultimately show ?case using Cons HEX_digit by simp
qed (simp add: to_hex_def)

lemma length_to_hex [simp]: "length (to_hex bs) = 2 * length bs"
  by (induction bs) (auto simp: to_hex_def hex_digits_def)

section \<open>Insertion-ordered dictionaries\<close>

type_synonym ('k, 'v) dict = "('k \<times> 'v) list"

text \<open>\<^verbatim>\<open>d.get(k)\<close>, \<^verbatim>\<open>d[k] = v\<close>, \<^verbatim>\<open>d.pop(k, None)\<close>\<close>

abbreviation dget :: "('k, 'v) dict \<Rightarrow> 'k \<Rightarrow> 'v option" where
  "dget d k \<equiv> map_of d k"

abbreviation dput :: "'k \<Rightarrow> 'v \<Rightarrow> ('k, 'v) dict \<Rightarrow> ('k, 'v) dict" where
  "dput k v d \<equiv> AList.update k v d"

abbreviation dpop :: "'k \<Rightarrow> ('k, 'v) dict \<Rightarrow> ('k, 'v) dict" where
  "dpop k d \<equiv> AList.delete k d"

definition dict_ok :: "('k, 'v) dict \<Rightarrow> bool" where
  "dict_ok d \<longleftrightarrow> distinct (map fst d)"

lemma dget_dput [simp, dict_simps]: "dget (dput k v d) x = (if x = k then Some v else dget d x)"
  by (simp add: update_conv)

lemma dget_dpop [simp, dict_simps]: "dget (dpop k d) x = (if x = k then None else dget d x)"
  by (simp add: delete_conv)

lemma dict_ok_Nil [simp, dict_simps]: "dict_ok []"
  by (simp add: dict_ok_def)

lemma dict_ok_dput [simp, dict_simps]: "dict_ok d \<Longrightarrow> dict_ok (dput k v d)"
  by (simp add: dict_ok_def distinct_update)

lemma dict_ok_dpop [simp, dict_simps]: "dict_ok d \<Longrightarrow> dict_ok (dpop k d)"
  by (simp add: dict_ok_def distinct_delete)

lemma dict_ok_tl [simp, dict_simps]: "dict_ok d \<Longrightarrow> dict_ok (tl d)"
  by (cases d) (auto simp: dict_ok_def)

lemma dput_absent: "dget d k = None \<Longrightarrow> dput k v d = d @ [(k, v)]"
  by (induction d) (auto split: if_splits)

lemma length_dput: "length (dput k v d) = (if dget d k = None then Suc (length d) else length d)"
  by (induction d) auto

lemma length_dput_bounds: "length (dput k v d) \<le> Suc (length d)"
  by (simp add: length_dput)

lemma set_dput: "set (dput k v d) \<subseteq> insert (k, v) (set d)"
  by (induction d) auto

text \<open>What holds of every entry is kept by storing an entry for which it holds.\<close>

definition dict_all :: "('k \<Rightarrow> 'v \<Rightarrow> bool) \<Rightarrow> ('k, 'v) dict \<Rightarrow> bool" where
  "dict_all P d \<longleftrightarrow> list_all (\<lambda>(k, v). P k v) d"

lemma dict_all_Nil [simp, dict_simps]: "dict_all P []"
  by (simp add: dict_all_def)

lemma dict_all_dput [dict_simps]: "dict_all P d \<Longrightarrow> P k v \<Longrightarrow> dict_all P (dput k v d)"
  using set_dput [of k v d] by (auto simp: dict_all_def list_all_iff)

lemma dict_all_dget: "dict_all P d \<Longrightarrow> dget d k = Some v \<Longrightarrow> P k v"
  by (auto simp: dict_all_def list_all_iff dest: map_of_SomeD)

lemma dict_all_sub: "dict_all P d \<Longrightarrow> set d' \<subseteq> set d \<Longrightarrow> dict_all P d'"
  by (auto simp: dict_all_def list_all_iff)

lemma dict_all_tl [dict_simps]: "dict_all P d \<Longrightarrow> dict_all P (tl d)"
  by (cases d) (auto simp: dict_all_def)

lemma dict_all_dpop [dict_simps]: "dict_all P d \<Longrightarrow> dict_all P (dpop k d)"
  by (rule dict_all_sub) (auto simp: AList.delete_eq)

lemma dict_all_imp: "dict_all P d \<Longrightarrow> (\<And>k v. P k v \<Longrightarrow> Q k v) \<Longrightarrow> dict_all Q d"
  by (auto simp: dict_all_def list_all_iff)

lemma keys_dput: "set (map fst (dput k v d)) = insert k (set (map fst d))"
  by (induction d) auto

lemma dget_None_iff: "dget d k = None \<longleftrightarrow> k \<notin> set (map fst d)"
  by (induction d) auto

lemma dget_in_set: "dget d k = Some v \<Longrightarrow> (k, v) \<in> set d"
  by (rule map_of_SomeD)

lemma dict_ok_dget: "dict_ok d \<Longrightarrow> (k, v) \<in> set d \<Longrightarrow> dget d k = Some v"
  by (simp add: dict_ok_def)

text \<open>
  \<^verbatim>\<open>while len(d) > cap: d.pop(next(iter(d)))\<close>: the oldest keys go first.
\<close>

definition evict :: "nat \<Rightarrow> ('k, 'v) dict \<Rightarrow> ('k, 'v) dict" where
  "evict cap d = drop (length d - cap) d"

lemma length_evict: "length (evict cap d) = min cap (length d)"
  by (simp add: evict_def)

lemma evict_id [simp, dict_simps]: "length d \<le> cap \<Longrightarrow> evict cap d = d"
  by (simp add: evict_def)

lemma evict_step: "cap < length d \<Longrightarrow> evict cap d = evict cap (tl d)"
  by (cases d) (auto simp: evict_def Suc_diff_le)

lemma dict_ok_evict [simp, dict_simps]: "dict_ok d \<Longrightarrow> dict_ok (evict cap d)"
  by (simp add: dict_ok_def evict_def flip: drop_map)

lemma evict_snoc: "0 < cap \<Longrightarrow> (k, v) \<in> set (evict cap (d @ [(k, v)]))"
  by (auto simp: evict_def Suc_diff_le)

lemma dget_evict_new:
  assumes "dict_ok d" and "length d \<le> cap" and "0 < cap"
  shows "dget (evict cap (dput k v d)) k = Some v"
proof (cases "dget d k")
  case None
  then have "(k, v) \<in> set (evict cap (dput k v d))"
    using assms by (simp add: dput_absent evict_snoc)
  then show ?thesis
    by (intro dict_ok_dget) (use assms in simp_all)
next
  case (Some w)
  then show ?thesis using assms by (simp add: length_dput)
qed

lemma dget_evict_sub:
  "dict_ok d \<Longrightarrow> dget (evict cap d) k = Some v \<Longrightarrow> dget d k = Some v"
  by (auto intro!: dict_ok_dget dest!: dget_in_set simp: evict_def dest: in_set_dropD)

text \<open>\<^verbatim>\<open>list(dict.fromkeys(xs))\<close>\<close>

fun uniq :: "'a list \<Rightarrow> 'a list" where
  "uniq [] = []"
| "uniq (x # xs) = x # filter (\<lambda>y. y \<noteq> x) (uniq xs)"

lemma set_uniq [simp]: "set (uniq xs) = set xs"
  by (induction xs) auto

lemma distinct_uniq [simp]: "distinct (uniq xs)"
  by (induction xs) auto

lemma uniq_Nil [simp]: "uniq xs = [] \<longleftrightarrow> xs = []"
  by (cases xs) auto

section \<open>Sequences of guarded steps\<close>

text \<open>
  The contract of an operation that may refuse: whatever it returns keeps an invariant and
  moves the state up in a preorder. A sequence of such operations, stopping at the first
  refusal, then has the same two properties.
\<close>

locale guarded_steps =
  fixes step :: "'s \<Rightarrow> 'c \<Rightarrow> 's option" and inv :: "'s \<Rightarrow> bool" and up :: "'s \<Rightarrow> 's \<Rightarrow> bool"
  assumes step_inv: "inv s \<Longrightarrow> step s c = Some s' \<Longrightarrow> inv s'"
    and step_up: "inv s \<Longrightarrow> step s c = Some s' \<Longrightarrow> up s s'"
    and up_refl: "up s s"
    and up_trans: "up a b \<Longrightarrow> up b c' \<Longrightarrow> up a c'"
begin

fun run_steps :: "'s \<Rightarrow> 'c list \<Rightarrow> 's option" where
  "run_steps s [] = Some s"
| "run_steps s (c # cs) = (case step s c of None \<Rightarrow> None | Some s' \<Rightarrow> run_steps s' cs)"

lemma run_keeps:
  "inv s \<Longrightarrow> run_steps s cs = Some s' \<Longrightarrow> inv s' \<and> up s s'"
proof (induction cs arbitrary: s)
  case Nil
  then show ?case by (simp add: up_refl)
next
  case (Cons c cs)
  then obtain s1 where "step s c = Some s1" "run_steps s1 cs = Some s'"
    by (auto split: option.splits)
  then show ?case using Cons step_inv step_up up_trans by meson
qed

end

section \<open>Filling an amount against layers of inventory\<close>

text \<open>
  The contract of one layer of inventory: an amount put against it splits into what it used
  and what is left over, and what it pays is bounded by what it holds. Putting an amount
  against one layer after another then conserves the amount and is bounded by the total.
\<close>

locale layered_fill =
  fixes fill :: "'l \<Rightarrow> int \<Rightarrow> (int \<times> int \<times> int) option" and cap :: "'l \<Rightarrow> int" and ok :: "'l \<Rightarrow> bool"
  assumes fill_split: "ok l \<Longrightarrow> 0 \<le> a \<Longrightarrow> fill l a = Some (u, r, out) \<Longrightarrow> u + r = a \<and> 0 \<le> u \<and> 0 \<le> r"
    and fill_pays: "ok l \<Longrightarrow> 0 \<le> a \<Longrightarrow> fill l a = Some (u, r, out) \<Longrightarrow> 0 \<le> out \<and> out \<le> cap l"
begin

fun fill_all :: "'l list \<Rightarrow> int \<Rightarrow> (int \<times> int \<times> int) option" where
  "fill_all [] a = Some (0, a, 0)"
| "fill_all (l # ls) a = (case fill l a of None \<Rightarrow> None | Some (u, r, out) \<Rightarrow>
     (case fill_all ls r of None \<Rightarrow> None | Some (u', r', out') \<Rightarrow> Some (u + u', r', out + out')))"

lemma fill_all_sound:
  assumes "list_all ok ls" "0 \<le> a" "fill_all ls a = Some (u, r, out)"
  shows "u + r = a \<and> 0 \<le> u \<and> 0 \<le> r \<and> 0 \<le> out \<and> out \<le> sum_list (map cap ls)"
  using assms
proof (induction ls arbitrary: a u r out)
  case (Cons l ls)
  obtain u1 r1 o1 where 1: "fill l a = Some (u1, r1, o1)"
    using Cons.prems(3) by (cases "fill l a") auto
  obtain u2 o2 where 2: "fill_all ls r1 = Some (u2, r, o2)" and eq: "u = u1 + u2" "out = o1 + o2"
    using Cons.prems(3) 1 by (cases "fill_all ls r1") auto
  have ok: "ok l" "list_all ok ls" using Cons.prems by auto
  have r1: "u1 + r1 = a" "0 \<le> u1" "0 \<le> r1" using fill_split [OF ok(1) Cons.prems(2) 1] by auto
  with Cons.IH [OF ok(2) r1(3) 2] fill_pays [OF ok(1) Cons.prems(2) 1] eq show ?case by auto
qed simp

end

section \<open>State with exceptions\<close>

text \<open>
  Code that changes a state and may raise: an exception ends the computation and leaves the
  state as it was when it was raised. \<open>leads P Q m\<close> says that \<open>m\<close> started in \<open>P\<close> ends in \<open>Q\<close> whenever
  it returns; \<open>keeps P m\<close> that it preserves \<open>P\<close>.
\<close>

type_synonym ('s, 'a) sx = "'s \<Rightarrow> 'a res \<times> 's"

named_theorems keeps_intros

definition sret :: "'a \<Rightarrow> ('s, 'a) sx" where
  "sret x = (\<lambda>s. (Inr x, s))"

definition slift :: "'a res \<Rightarrow> ('s, 'a) sx" where
  "slift r = (\<lambda>s. (r, s))"

definition sget :: "('s \<Rightarrow> 'a) \<Rightarrow> ('s, 'a) sx" where
  "sget f = (\<lambda>s. (Inr (f s), s))"

definition smod :: "('s \<Rightarrow> 's) \<Rightarrow> ('s, unit) sx" where
  "smod f = (\<lambda>s. (Inr (), f s))"

definition sbind :: "('s, 'a) sx \<Rightarrow> ('a \<Rightarrow> ('s, 'b) sx) \<Rightarrow> ('s, 'b) sx" where
  "sbind m f = (\<lambda>s. case m s of (Inl e, s') \<Rightarrow> (Inl e, s') | (Inr x, s') \<Rightarrow> f x s')"

definition sseq :: "('s, unit) sx \<Rightarrow> ('s, 'b) sx \<Rightarrow> ('s, 'b) sx" where
  "sseq m n = sbind m (\<lambda>_. n)"

fun sfor :: "'a list \<Rightarrow> ('a \<Rightarrow> ('s, unit) sx) \<Rightarrow> ('s, unit) sx" where
  "sfor [] f = sret ()"
| "sfor (x # xs) f = sseq (f x) (sfor xs f)"

definition swhen :: "bool \<Rightarrow> ('s, unit) sx \<Rightarrow> ('s, unit) sx" where
  "swhen c m = (if c then m else sret ())"

definition leads :: "('s \<Rightarrow> bool) \<Rightarrow> ('s \<Rightarrow> bool) \<Rightarrow> ('s, 'a) sx \<Rightarrow> bool" where
  "leads P Q m \<longleftrightarrow> (\<forall>s x s'. P s \<longrightarrow> m s = (Inr x, s') \<longrightarrow> Q s')"

abbreviation keeps :: "('s \<Rightarrow> bool) \<Rightarrow> ('s, 'a) sx \<Rightarrow> bool" where
  "keeps P m \<equiv> leads P P m"

lemma leadsD: "leads P Q m \<Longrightarrow> P s \<Longrightarrow> m s = (Inr x, s') \<Longrightarrow> Q s'"
  by (auto simp: leads_def)

lemma leadsI: "(\<And>s x s'. P s \<Longrightarrow> m s = (Inr x, s') \<Longrightarrow> Q s') \<Longrightarrow> leads P Q m"
  by (auto simp: leads_def)

lemma sx_simps [simp]:
  "sret x s = (Inr x, s)" "slift r s = (r, s)" "sget f s = (Inr (f s), s)" "smod g s = (Inr (), g s)"
  by (simp_all add: sret_def slift_def sget_def smod_def)

lemma sbind_Inr: "sbind m f s = (Inr y, s') \<longleftrightarrow> (\<exists>x t. m s = (Inr x, t) \<and> f x t = (Inr y, s'))"
  by (auto simp: sbind_def split: prod.split sum.split)

lemma sbind_sget [simp]: "sbind (sget f) g s = g (f s) s"
  by (simp add: sbind_def)

lemma sseq_smod [simp]: "sseq (smod f) m s = m (f s)"
  by (simp add: sseq_def sbind_def)

lemma leads_sbind: "leads P Q m \<Longrightarrow> (\<And>x. leads Q R (f x)) \<Longrightarrow> leads P R (sbind m f)"
  unfolding leads_def sbind_Inr by blast

lemma leads_sseq: "leads P Q m \<Longrightarrow> leads Q R n \<Longrightarrow> leads P R (sseq m n)"
  unfolding sseq_def by (rule leads_sbind)

lemma leads_sget: "(\<And>v. leads (\<lambda>s. P s \<and> f s = v) Q (g v)) \<Longrightarrow> leads P Q (sbind (sget f) g)"
  by (auto simp: leads_def)

lemma keeps_sret [keeps_intros]: "keeps P (sret x)"
  by (simp add: leads_def)

lemma keeps_slift [keeps_intros]: "keeps P (slift r)"
  by (simp add: leads_def)

lemma keeps_sget [keeps_intros]: "keeps P (sget f)"
  by (simp add: leads_def)

lemma leads_smod: "(\<And>s. P s \<Longrightarrow> Q (f s)) \<Longrightarrow> leads P Q (smod f)"
  by (simp add: leads_def)

lemma keeps_sbind [keeps_intros]: "keeps P m \<Longrightarrow> (\<And>x. keeps P (f x)) \<Longrightarrow> keeps P (sbind m f)"
  by (rule leads_sbind)

lemma keeps_sseq [keeps_intros]: "keeps P m \<Longrightarrow> keeps P n \<Longrightarrow> keeps P (sseq m n)"
  by (rule leads_sseq)

lemma keeps_sfor [keeps_intros]: "(\<And>x. x \<in> set xs \<Longrightarrow> keeps P (f x)) \<Longrightarrow> keeps P (sfor xs f)"
  by (induction xs) (auto intro: keeps_intros)

lemma keeps_swhen [keeps_intros]: "(c \<Longrightarrow> keeps P m) \<Longrightarrow> keeps P (swhen c m)"
  by (simp add: swhen_def keeps_sret)

lemma keeps_if [keeps_intros]: "(c \<Longrightarrow> keeps P m) \<Longrightarrow> (\<not> c \<Longrightarrow> keeps P n) \<Longrightarrow> keeps P (if c then m else n)"
  by simp

lemma keeps_option [keeps_intros]:
  "keeps P m \<Longrightarrow> (\<And>x. v = Some x \<Longrightarrow> keeps P (f x)) \<Longrightarrow> keeps P (case v of None \<Rightarrow> m | Some x \<Rightarrow> f x)"
  by (cases v) auto

lemma keeps_sum [keeps_intros]:
  "(\<And>e. v = Inl e \<Longrightarrow> keeps P (f e)) \<Longrightarrow> (\<And>x. v = Inr x \<Longrightarrow> keeps P (g x)) \<Longrightarrow> keeps P (case v of Inl e \<Rightarrow> f e | Inr x \<Rightarrow> g x)"
  by (cases v) auto

lemma keeps_prod [keeps_intros]: "(\<And>a b. v = (a, b) \<Longrightarrow> keeps P (f a b)) \<Longrightarrow> keeps P (case v of (a, b) \<Rightarrow> f a b)"
  by (cases v) auto

text \<open>A loop that discharges one obligation per element.\<close>

lemma leads_sfor:
  assumes "\<And>X x. x \<in> set xs \<Longrightarrow> leads (P X) (P (X - {h x})) (f x)"
  shows "leads (P X) (P (X - h ` set xs)) (sfor xs f)"
  using assms
proof (induction xs arbitrary: X)
  case Nil
  show ?case by (simp add: leads_def)
next
  case (Cons x xs)
  have "leads (P X) (P (X - {h x})) (f x)" by (rule Cons.prems) simp
  moreover have "leads (P (X - {h x})) (P (X - {h x} - h ` set xs)) (sfor xs f)"
    by (rule Cons.IH) (rule Cons.prems, simp)
  moreover have "X - {h x} - h ` set xs = X - h ` set (x # xs)" by auto
  ultimately show ?case unfolding sfor.simps by (metis leads_sseq)
qed

section \<open>Reachable states\<close>

text \<open>
  A component that handles events one at a time, each of which it always answers with a
  next state: an invariant of the initial state and of every step holds at the end of every
  sequence of events.
\<close>

locale event_machine =
  fixes handle :: "'s \<Rightarrow> 'e \<Rightarrow> 's" and inv :: "'s \<Rightarrow> bool" and start :: 's
  assumes inv_start: "inv start"
    and inv_step: "inv s \<Longrightarrow> inv (handle s e)"
begin

lemma inv_run_from: "inv s \<Longrightarrow> inv (foldl handle s es)"
  by (induction es arbitrary: s) (auto intro: inv_step)

lemma inv_run: "inv (foldl handle start es)"
  by (rule inv_run_from) (rule inv_start)

end

end
