(* ===== verification/Dlmm_Quote.thy ===== *)
theory Dlmm_Quote
  imports Py_Prelude "HOL-Library.Monad_Syntax"
begin

text \<open>
  The quoting kernel of \<^verbatim>\<open>arb-cap/timer_decay/dlmm_quote.py\<close>: Q64.64 multiplication and
  division, the bin price, the dynamic fee, the fill of one bin, the bin walk
  \<open>quote_dlmm\<close>, the constant-product quote \<open>quote_pump\<close> and the two-leg cycle.
  Python integers are \<^typ>\<open>int\<close>; \<^verbatim>\<open>x & U64\<close> is \<open>x mod 2 ^ 64\<close> and \<^verbatim>\<open>x >> 64\<close> is
  \<open>x div 2 ^ 64\<close>; a \<^verbatim>\<open>None\<close> result is \<^const>\<open>None\<close>.
\<close>

unbundle bit_operations_syntax

section \<open>Q64.64 arithmetic\<close>

definition U64 :: int where "U64 = 2 ^ 64 - 1"
definition U128 :: int where "U128 = 2 ^ 128 - 1"
definition FEE_PREC :: int where "FEE_PREC = 1000000000"
definition MAX_FEE :: int where "MAX_FEE = 100000000"
definition BPS :: int where "BPS = 10000"
definition ONE_Q64 :: int where "ONE_Q64 = 2 ^ 64"
definition MIN_BIN :: int where "MIN_BIN = - 443636"
definition MAX_BIN :: int where "MAX_BIN = 443636"
definition PUMP_DEN :: int where "PUMP_DEN = 10000"

lemmas quote_consts = U64_def U128_def FEE_PREC_def MAX_FEE_def BPS_def ONE_Q64_def
  MIN_BIN_def MAX_BIN_def PUMP_DEN_def

definition mul_shr64 :: "int \<Rightarrow> int \<Rightarrow> bool \<Rightarrow> int option" where
  "mul_shr64 a b round_up =
    (let a0 = a mod 2 ^ 64; a1 = a div 2 ^ 64;
         b0 = b mod 2 ^ 64; b1 = b div 2 ^ 64;
         p00 = a0 * b0; p01 = a0 * b1; p10 = a1 * b0; p11 = a1 * b1;
         mid = p00 div 2 ^ 64 + p01 mod 2 ^ 64 + p10 mod 2 ^ 64;
         hi = p11 + p01 div 2 ^ 64 + p10 div 2 ^ 64 + mid div 2 ^ 64
     in if hi \<noteq> 0 then None
        else let r = mid mod 2 ^ 64
             in if round_up \<and> p00 mod 2 ^ 64 \<noteq> 0
                then (if r = U128 then None else Some (r + 1))
                else Some r)"

definition shl64_div :: "int \<Rightarrow> int \<Rightarrow> bool \<Rightarrow> int option" where
  "shl64_div num den round_up =
    (if den = 0 \<or> num > U128 div 2 ^ 64 then None
     else let q = (num * 2 ^ 64) div den; rem = (num * 2 ^ 64) mod den
          in if round_up \<and> rem \<noteq> 0
             then (if q = U128 then None else Some (q + 1))
             else Some q)"

text \<open>The loop \<^verbatim>\<open>for bit in range(19)\<close>; \<open>n\<close> counts the iterations still to run.\<close>

fun price_loop :: "nat \<Rightarrow> nat \<Rightarrow> int \<Rightarrow> int \<Rightarrow> int \<Rightarrow> int option" where
  "price_loop 0 k exp squared result = Some result"
| "price_loop (Suc n) k exp squared result =
     do { result' \<leftarrow> (if odd (exp div 2 ^ k) then mul_shr64 result squared False else Some result);
          squared' \<leftarrow> (if k + 1 < 19 then mul_shr64 squared squared False else Some squared);
          price_loop n (k + 1) exp squared' result' }"

definition price_from_id :: "int \<Rightarrow> int \<Rightarrow> int option" where
  "price_from_id bin_id bin_step =
    (if bin_id = 0 then Some ONE_Q64
     else let invert = bin_id < 0;
              exp = (if invert then - bin_id else bin_id)
          in if exp \<ge> 0x80000 then None
             else let bps = (bin_step * 2 ^ 64) div BPS;
                      base = ONE_Q64 + bps;
                      flip = base \<ge> ONE_Q64;
                      squared = (if flip then U128 div base else base);
                      invert' = (if flip then \<not> invert else invert)
                  in do { result \<leftarrow> price_loop 19 0 exp squared ONE_Q64;
                          if result = 0 then None
                          else if invert' then Some (U128 div result)
                          else Some result })"

definition amount_out :: "int \<Rightarrow> int \<Rightarrow> bool \<Rightarrow> int option" where
  "amount_out amt_in price swap_for_y =
    (case (if swap_for_y then mul_shr64 price amt_in False else shl64_div amt_in price False) of
       None \<Rightarrow> None
     | Some r \<Rightarrow> if r > U64 then None else Some r)"

definition amount_in :: "int \<Rightarrow> int \<Rightarrow> bool \<Rightarrow> bool \<Rightarrow> int option" where
  "amount_in amt_out price swap_for_y round_up =
    (case (if swap_for_y then shl64_div amt_out price round_up
           else mul_shr64 amt_out price round_up) of
       None \<Rightarrow> None
     | Some r \<Rightarrow> if r > U64 then None else Some r)"

section \<open>Pool states\<close>

record Bin =
  bin_id :: int
  bin_x :: int
  bin_y :: int
  bin_price :: int

record Dlmm =
  active_id :: int
  bin_step :: int
  dl_status :: int
  base_factor :: int
  filter_period :: int
  decay_period :: int
  reduction_factor :: int
  variable_fee_control :: int
  max_volatility_accumulator :: int
  protocol_share :: int
  base_fee_power_factor :: int
  collect_fee_mode :: int
  vol_acc :: int
  vol_ref :: int
  idx_ref :: int
  last_upd :: int
  reserve_x :: int
  reserve_y :: int
  now_ts :: int
  bins :: "Bin list"

record Pump =
  reserve_base :: int
  reserve_quote :: int
  virtual_quote :: int
  lp_fee_bps :: int
  protocol_fee_bps :: int
  creator_fee_bps :: int
  pm_disabled :: int
  pm_status :: int

section \<open>Fees\<close>

definition total_fee_rate :: "Dlmm \<Rightarrow> int option" where
  "total_fee_rate s =
    (let base = base_factor s * bin_step s * 10 * 10 ^ nat (base_fee_power_factor s);
         variable = (if variable_fee_control s > 0
                     then let vfa = vol_acc s * bin_step s;
                              v_fee = variable_fee_control s * vfa * vfa
                          in (v_fee + 99999999999) div 100000000000
                     else 0);
         total = base + variable
     in Some (if total > MAX_FEE then MAX_FEE else total))"

definition update_references :: "Dlmm \<Rightarrow> Dlmm" where
  "update_references s =
    (let elapsed = now_ts s - last_upd s
     in if elapsed \<ge> filter_period s
        then s \<lparr> idx_ref := active_id s,
                 vol_ref := (if elapsed < decay_period s
                             then (vol_acc s * reduction_factor s) div BPS else 0) \<rparr>
        else s)"

definition update_volatility :: "Dlmm \<Rightarrow> Dlmm" where
  "update_volatility s =
    (let delta = \<bar>idx_ref s - active_id s\<bar>;
         acc = vol_ref s + delta * BPS
     in s \<lparr> vol_acc := (if acc > max_volatility_accumulator s
                        then max_volatility_accumulator s else acc) \<rparr>)"

definition fee_on_input :: "Dlmm \<Rightarrow> bool \<Rightarrow> bool" where
  "fee_on_input s swap_for_y = (if collect_fee_mode s = 1 then \<not> swap_for_y else True)"

definition compute_fee :: "Dlmm \<Rightarrow> int \<Rightarrow> int option" where
  "compute_fee s amount =
    do { rate \<leftarrow> total_fee_rate s;
         let den = FEE_PREC - rate;
         if den = 0 then None
         else let f = (amount * rate + den - 1) div den in
              if f > U64 then None else Some f }"

definition compute_fee_from_amount :: "Dlmm \<Rightarrow> int \<Rightarrow> int option" where
  "compute_fee_from_amount s amount_with_fees =
    do { rate \<leftarrow> total_fee_rate s;
         let f = (amount_with_fees * rate + (FEE_PREC - 1)) div FEE_PREC;
         if f > U64 then None else Some f }"

section \<open>The bin walk\<close>

definition find_bin :: "Dlmm \<Rightarrow> int \<Rightarrow> Bin option" where
  "find_bin s bid = find (\<lambda>b. bin_id b = bid) (bins s)"

text \<open>\<^verbatim>\<open>bin.price = p\<close> on the object \<^const>\<open>find_bin\<close> returned: the first bin with that id.\<close>

fun set_price :: "int \<Rightarrow> int \<Rightarrow> Bin list \<Rightarrow> Bin list" where
  "set_price bid p [] = []"
| "set_price bid p (b # bs) =
     (if bin_id b = bid then b \<lparr> bin_price := p \<rparr> # bs else b # set_price bid p bs)"

definition fill_mm :: "Bin \<Rightarrow> int \<Rightarrow> bool \<Rightarrow> (int \<times> int \<times> int) option" where
  "fill_mm b amount swap_for_y =
    (let max_out = (if swap_for_y then bin_y b else bin_x b)
     in if max_out = 0 then Some (0, amount, 0)
        else do { max_in \<leftarrow> amount_in max_out (bin_price b) swap_for_y True;
                  if amount \<ge> max_in then Some (max_in, amount - max_in, max_out)
                  else do { out_amt \<leftarrow> amount_out amount (bin_price b) swap_for_y;
                            Some (amount, 0, out_amt) } })"

text \<open>
  One pass of the loop body of \<^verbatim>\<open>quote_dlmm\<close>, on the cloned state, the input left and the
  output so far.
\<close>

definition priced_bin :: "Dlmm \<Rightarrow> (Dlmm \<times> Bin) option" where
  "priced_bin after =
    do { b \<leftarrow> find_bin after (active_id after);
         if bin_price b = 0
         then do { p \<leftarrow> price_from_id (bin_id b) (bin_step after);
                   Some (after \<lparr> bins := set_price (active_id after) p (bins after) \<rparr>,
                         b \<lparr> bin_price := p \<rparr>) }
         else Some (after, b) }"

definition quote_fill :: "Dlmm \<Rightarrow> Bin \<Rightarrow> bool \<Rightarrow> bool \<Rightarrow> int \<Rightarrow> (int \<times> int) option" where
  "quote_fill after b foi swap_for_y left =
    do { fee \<leftarrow> (if foi then compute_fee_from_amount after left else Some 0);
         if fee > left \<and> foi then None else do {
         let excluded = (if foi then left - fee else left);
         (used_in, leftover, out_amt) \<leftarrow> fill_mm b excluded swap_for_y;
         included \<leftarrow> (if leftover > 0
                     then (if foi then do { f \<leftarrow> compute_fee after (excluded - leftover);
                                            Some (excluded - leftover + f) }
                           else Some (excluded - leftover))
                     else Some left);
         out' \<leftarrow> (if \<not> foi
                 then do { f \<leftarrow> compute_fee_from_amount after out_amt;
                           if f > out_amt then None else Some (out_amt - f) }
                 else Some out_amt);
         if included > left then None else Some (included, out') } }"

definition next_bin :: "Dlmm \<Rightarrow> bool \<Rightarrow> Dlmm option" where
  "next_bin after swap_for_y =
    (if swap_for_y
     then (if active_id after \<le> MIN_BIN then None
           else Some (after \<lparr> active_id := active_id after - 1 \<rparr>))
     else (if active_id after \<ge> MAX_BIN then None
           else Some (after \<lparr> active_id := active_id after + 1 \<rparr>)))"

definition quote_step :: "bool \<Rightarrow> bool \<Rightarrow> Dlmm \<Rightarrow> int \<Rightarrow> int \<Rightarrow> (Dlmm \<times> int \<times> int) option" where
  "quote_step foi swap_for_y after left total_out =
    do { (after1, b) \<leftarrow> priced_bin after;
         let after2 = update_volatility after1;
         (included, out_amt) \<leftarrow> quote_fill after2 b foi swap_for_y left;
         let left' = left - included;
         after3 \<leftarrow> (if left' > 0 then next_bin after2 swap_for_y else Some after2);
         Some (after3, left', total_out + out_amt) }"

text \<open>\<^verbatim>\<open>while left > 0 and guard < 256\<close>; \<open>n\<close> is \<open>256 - guard\<close>.\<close>

fun quote_loop :: "nat \<Rightarrow> bool \<Rightarrow> bool \<Rightarrow> Dlmm \<Rightarrow> int \<Rightarrow> int \<Rightarrow> (Dlmm \<times> int \<times> int) option" where
  "quote_loop 0 foi swap_for_y after left total_out = Some (after, left, total_out)"
| "quote_loop (Suc n) foi swap_for_y after left total_out =
     (if left > 0
      then do { (after', left', total') \<leftarrow> quote_step foi swap_for_y after left total_out;
                quote_loop n foi swap_for_y after' left' total' }
      else Some (after, left, total_out))"

definition quote_dlmm :: "Dlmm \<Rightarrow> int \<Rightarrow> bool \<Rightarrow> int option" where
  "quote_dlmm state amount_in_amt swap_for_y =
    (if dl_status state \<noteq> 0 \<or> amount_in_amt = 0 then None
     else let after = update_references state;
              foi = fee_on_input after swap_for_y
          in do { (s, left, total_out) \<leftarrow> quote_loop 256 foi swap_for_y after amount_in_amt 0;
                  if left > 0 then None else Some total_out })"

definition fee_after_time :: "Dlmm \<Rightarrow> int \<Rightarrow> int \<times> int \<times> int" where
  "fee_after_time state now =
    (let s = update_volatility (update_references (state \<lparr> now_ts := now \<rparr>));
         rate = (case total_fee_rate s of None \<Rightarrow> 0 | Some r \<Rightarrow> r)
     in (rate, vol_acc s, vol_ref s))"

definition next_boundaries :: "Dlmm \<Rightarrow> int \<Rightarrow> (string \<times> int) list" where
  "next_boundaries state now =
    (if variable_fee_control state = 0 then []
     else let t_f = last_upd state + filter_period state;
              t_d = last_upd state + decay_period state
          in (if now < t_f then [(''filter'', t_f)] else [])
             @ (if now < t_d \<and> t_d \<noteq> t_f then [(''decay'', t_d)] else []))"

section \<open>The constant-product pool\<close>

definition ceil_div :: "int \<Rightarrow> int \<Rightarrow> int option" where
  "ceil_div n d = (if d = 0 then None else Some (n div d + (if n mod d \<noteq> 0 then 1 else 0)))"

definition fee_bps :: "int \<Rightarrow> int \<Rightarrow> int option" where
  "fee_bps n bps = (if bps > PUMP_DEN then None else ceil_div (n * bps) PUMP_DEN)"

text \<open>The three fees of one amount, added: \<^const>\<open>None\<close> when any of them is.\<close>

definition fees3 :: "int \<Rightarrow> int \<Rightarrow> int \<Rightarrow> int \<Rightarrow> int option" where
  "fees3 n lp_bps proto_bps creator_bps =
    do { lp \<leftarrow> fee_bps n lp_bps; proto \<leftarrow> fee_bps n proto_bps; creator \<leftarrow> fee_bps n creator_bps;
         Some (lp + proto + creator) }"

definition pump_fees :: "Pump \<Rightarrow> int \<Rightarrow> int option" where
  "pump_fees p n = fees3 n (lp_fee_bps p) (protocol_fee_bps p) (creator_fee_bps p)"

definition pump_sell_out :: "Pump \<Rightarrow> int \<Rightarrow> int \<Rightarrow> int option" where
  "pump_sell_out p qeff amt =
    (let gross = qeff * amt div (reserve_base p + amt)
     in do { fee \<leftarrow> pump_fees p gross;
             if gross < fee then None else Some (gross - fee) })"

definition pump_effective :: "Pump \<Rightarrow> int \<Rightarrow> int option" where
  "pump_effective p amt =
    (let total_bps = lp_fee_bps p + protocol_fee_bps p + creator_fee_bps p;
         effective = amt * PUMP_DEN div (PUMP_DEN + total_bps)
     in do { fee \<leftarrow> pump_fees p effective;
             if effective + fee > amt
             then let effective' = effective - (effective + fee - amt)
                  in do { fee' \<leftarrow> pump_fees p effective'; Some effective' }
             else Some effective })"

definition pump_buy_out :: "Pump \<Rightarrow> int \<Rightarrow> int \<Rightarrow> int option" where
  "pump_buy_out p qeff amt =
    do { effective \<leftarrow> pump_effective p amt;
         if effective < 1 then None
         else let net = effective - 1;
                  out_amt = reserve_base p * net div (qeff + net)
              in if out_amt = 0 \<or> out_amt > reserve_base p then None else Some out_amt }"

definition quote_pump :: "Pump \<Rightarrow> int \<Rightarrow> int \<Rightarrow> int option" where
  "quote_pump p amt direction =
    (if pm_status p \<noteq> 0 \<or> amt = 0 then None
     else if direction \<notin> {0, 1} then None
     else if pm_disabled p AND (if direction = 0 then 8 else 16) \<noteq> 0 then None
     else let total_bps = lp_fee_bps p + protocol_fee_bps p + creator_fee_bps p;
              qeff = reserve_quote p + virtual_quote p
          in if total_bps \<ge> PUMP_DEN then None
             else if reserve_base p = 0 \<or> reserve_quote p = 0 then None
             else if qeff \<le> 0 \<or> qeff > U64 then None
             else do { out_amt \<leftarrow> (if direction = 1 then pump_sell_out p qeff amt
                                  else pump_buy_out p qeff amt);
                       if out_amt = 0 \<or> out_amt > U64 then None else Some out_amt })"

section \<open>The two-leg cycle\<close>

definition cycle_quote :: "Dlmm \<Rightarrow> Pump \<Rightarrow> int \<Rightarrow> int \<Rightarrow> int \<Rightarrow> int option" where
  "cycle_quote dlmm pump ain direction now =
    (let d = dlmm \<lparr> now_ts := now \<rparr>
     in if direction = 0
        then do { mid \<leftarrow> quote_dlmm d ain False; quote_pump pump mid 1 }
        else do { mid \<leftarrow> quote_pump pump ain 0; quote_dlmm d mid True })"

definition hurdle :: "int \<Rightarrow> int" where
  "hurdle direction = (let cu = (if direction = 0 then 169397 else 179440)
                       in 5000 + cu + 150000 + 50000)"

section \<open>Rounding\<close>

definition ceil_quot :: "int \<Rightarrow> int \<Rightarrow> int" where
  "ceil_quot n d = (n + d - 1) div d"

lemma zdiv_le_iff: "0 < d \<Longrightarrow> q \<le> n div d \<longleftrightarrow> q * d \<le> (n :: int)"
proof
  assume d: "0 < d" and "q \<le> n div d"
  then have "q * d \<le> n div d * d" by (intro mult_right_mono) auto
  also have "\<dots> \<le> n" using d by (simp add: minus_mod_eq_div_mult [symmetric])
  finally show "q * d \<le> n" .
next
  assume d: "0 < d" and "q * d \<le> n"
  then have "q * d div d \<le> n div d" by (intro zdiv_mono1) auto
  then show "q \<le> n div d" using d by simp
qed

lemma zdiv_less_iff: "0 < d \<Longrightarrow> n div d < q \<longleftrightarrow> n < q * (d :: int)"
  using zdiv_le_iff [of d q n] by auto

lemma zdiv_mult_le: "0 < d \<Longrightarrow> n div d * d \<le> (n :: int)"
  using zdiv_le_iff by blast

lemma zdiv_le_self: "0 < d \<Longrightarrow> 0 \<le> n \<Longrightarrow> n div d \<le> (n :: int)"
  using zdiv_mono2 [of n 1 d] by simp

lemma ceil_quot_iff: "0 < d \<Longrightarrow> ceil_quot n d \<le> q \<longleftrightarrow> n \<le> q * d"
  using zdiv_less_iff [of d "n + d - 1" "q + 1"] by (auto simp: ceil_quot_def algebra_simps)

lemma le_ceil_quot_mult: "0 < d \<Longrightarrow> n \<le> ceil_quot n d * d"
  using ceil_quot_iff by blast

lemma less_ceil_quot_iff: "0 < d \<Longrightarrow> q < ceil_quot n d \<longleftrightarrow> q * d < n"
  using ceil_quot_iff [of d n q] by auto

lemma ceil_quot_eqI: "0 < d \<Longrightarrow> (q - 1) * d < n \<Longrightarrow> n \<le> q * d \<Longrightarrow> ceil_quot n d = q"
  using ceil_quot_iff [of d n q] less_ceil_quot_iff [of d "q - 1" n] by auto

lemma ceil_quot_mono: "0 < d \<Longrightarrow> m \<le> n \<Longrightarrow> ceil_quot m d \<le> ceil_quot n d"
  unfolding ceil_quot_def by (intro zdiv_mono1) auto

lemma ceil_quot_nonneg: "0 < d \<Longrightarrow> 0 \<le> n \<Longrightarrow> 0 \<le> ceil_quot n d"
  by (simp add: ceil_quot_def pos_imp_zdiv_nonneg_iff)

lemma div_mod_ceil:
  assumes "0 < d"
  shows "n div d + (if n mod d \<noteq> 0 then 1 else 0) = ceil_quot n d"
proof (rule ceil_quot_eqI [symmetric, OF assms])
  define q r where "q = n div d" and "r = n mod d"
  have n: "n = q * d + r" "0 \<le> r" "r < d" using assms by (simp_all add: q_def r_def)
  show "(n div d + (if n mod d \<noteq> 0 then 1 else 0) - 1) * d < n"
    using n by (simp add: algebra_simps flip: q_def r_def)
  show "n \<le> (n div d + (if n mod d \<noteq> 0 then 1 else 0)) * d"
    using n by (simp add: algebra_simps flip: q_def r_def)
qed

lemma ceil_div_eq: "0 < d \<Longrightarrow> ceil_div n d = Some (ceil_quot n d)"
  using div_mod_ceil [of d n] by (simp add: ceil_div_def)

section \<open>The limb product\<close>

lemma limb_product:
  fixes B a0 a1 b0 b1 :: int
  defines "mid \<equiv> (a0 * b0) div B + (a0 * b1) mod B + (a1 * b0) mod B"
  defines "hi \<equiv> a1 * b1 + (a0 * b1) div B + (a1 * b0) div B + mid div B"
  shows "(a1 * B + a0) * (b1 * B + b0) = hi * B * B + (mid mod B) * B + (a0 * b0) mod B"
proof -
  define u v s t x y where "u = (a0 * b1) div B" "v = (a0 * b1) mod B" "s = (a1 * b0) div B"
    "t = (a1 * b0) mod B" "x = (a0 * b0) div B" "y = (a0 * b0) mod B"
  note defs = this
  have p: "a0 * b1 = u * B + v" "a1 * b0 = s * B + t" "a0 * b0 = x * B + y"
    by (simp_all add: defs)
  define e f where "e = mid div B" and "f = mid mod B"
  have m: "x + v + t = e * B + f" unfolding e_def f_def by (simp add: mid_def defs)
  have "(a1 * B + a0) * (b1 * B + b0) = a1 * b1 * B * B + (a0 * b1) * B + (a1 * b0) * B + a0 * b0"
    by (simp add: algebra_simps)
  also have "\<dots> = (a1 * b1 + u + s) * B * B + (x + v + t) * B + y"
    unfolding p by (simp add: algebra_simps)
  also have "\<dots> = (a1 * b1 + u + s + e) * B * B + f * B + y"
    unfolding m by (simp add: algebra_simps)
  finally show ?thesis by (simp add: hi_def defs e_def f_def)
qed

lemma mul_shr64_eq:
  assumes "0 \<le> a" and "0 \<le> b"
  shows "mul_shr64 a b up =
    (if a * b < 2 ^ 128 then Some (if up then ceil_quot (a * b) (2 ^ 64) else a * b div 2 ^ 64)
     else None)"
proof -
  define B :: int where "B = 2 ^ 64"
  define a0 a1 b0 b1 where "a0 = a mod B" "a1 = a div B" "b0 = b mod B" "b1 = b div B"
  define mid where "mid = (a0 * b0) div B + (a0 * b1) mod B + (a1 * b0) mod B"
  define hi where "hi = a1 * b1 + (a0 * b1) div B + (a1 * b0) div B + mid div B"
  define r y where "r = mid mod B" and "y = (a0 * b0) mod B"
  have B: "0 < B" "B * B = 2 ^ 128" by (simp_all add: B_def)
  have P: "a * b = hi * B * B + r * B + y"
    using limb_product [of a1 B a0 b1 b0, folded mid_def, folded hi_def]
    by (simp add: r_def y_def a0_a1_b0_b1_def(1-4))
  have ry: "0 \<le> r" "r < B" "0 \<le> y" "y < B" using B by (simp_all add: r_def y_def)
  have nn: "0 \<le> a0" "0 \<le> a1" "0 \<le> b0" "0 \<le> b1"
    using assms B by (simp_all add: a0_a1_b0_b1_def pos_imp_zdiv_nonneg_iff)
  have hi0: "0 \<le> hi" unfolding hi_def mid_def
    using nn B by (intro add_nonneg_nonneg mult_nonneg_nonneg)
      (simp_all add: pos_imp_zdiv_nonneg_iff)
  have low: "r * B + y < B * B"
  proof -
    have "r * B + y < r * B + B" using ry by simp
    also have "\<dots> = (r + 1) * B" by (simp add: algebra_simps)
    also have "\<dots> \<le> B * B" using ry B by (intro mult_right_mono) auto
    finally show ?thesis .
  qed
  have M: "mul_shr64 a b up = (if hi \<noteq> 0 then None
      else if up \<and> y \<noteq> 0 then (if r = U128 then None else Some (r + 1)) else Some r)"
    unfolding mul_shr64_def Let_def hi_def mid_def r_def y_def a0_a1_b0_b1_def B_def
    by (rule refl)
  have rU: "r \<noteq> U128" using ry by (simp add: U128_def B_def)
  show ?thesis
  proof (cases "hi = 0")
    case True
    then have ab: "a * b = r * B + y" using P by simp
    have d: "a * b div B = r" "a * b mod B = y" using ry B by (simp_all add: ab)
    then have c: "ceil_quot (a * b) B = (if y \<noteq> 0 then r + 1 else r)"
      using div_mod_ceil [of B "a * b"] B by (auto split: if_splits)
    have "a * b < 2 ^ 128" using ab low B by simp
    then show ?thesis using M True rU c d by (simp add: B_def)
  next
    case False
    then have "1 \<le> hi" using hi0 by simp
    then have "1 * (B * B) \<le> hi * (B * B)" using B by (intro mult_right_mono) auto
    moreover have "0 \<le> r * B + y" using ry B by simp
    ultimately have "B * B \<le> a * b" using P by (simp add: mult.assoc)
    then show ?thesis using M False B by simp
  qed
qed

lemma shl64_div_eq:
  assumes "0 \<le> num" and "0 < den"
  shows "shl64_div num den up =
    (if num \<le> U64 then Some (if up then ceil_quot (num * 2 ^ 64) den else num * 2 ^ 64 div den)
     else None)"
proof (cases "num \<le> U64")
  case True
  have "num * 2 ^ 64 div den \<le> num * 2 ^ 64"
    using assms by (intro zdiv_le_self) auto
  also have "\<dots> \<le> U64 * 2 ^ 64" using True by simp
  also have "\<dots> < U128" by (simp add: U64_def U128_def)
  finally have "num * 2 ^ 64 div den \<noteq> U128" by simp
  then show ?thesis
    using True assms div_mod_ceil [OF assms(2), of "num * 2 ^ 64"]
    by (simp add: shl64_div_def Let_def U64_def U128_def split: if_splits)
next
  case False
  then show ?thesis by (simp add: shl64_div_def U64_def U128_def)
qed

section \<open>Amounts at a bin price\<close>

text \<open>
  \<open>worth sfy price i o\<close>: the output \<open>o\<close> costs at most the input \<open>i\<close> at the Q64.64 price
  (quote per base), in the direction of the swap.
\<close>

definition worth :: "bool \<Rightarrow> int \<Rightarrow> int \<Rightarrow> int \<Rightarrow> bool" where
  "worth sfy price i out_amt \<longleftrightarrow>
     (if sfy then out_amt * 2 ^ 64 \<le> i * price else out_amt * price \<le> i * 2 ^ 64)"

lemma amount_in_eq:
  assumes "0 \<le> out_amt" and "0 < price" and "amount_in out_amt price sfy True = Some m"
  shows "m = (if sfy then ceil_quot (out_amt * 2 ^ 64) price
              else ceil_quot (out_amt * price) (2 ^ 64))"
    and "m \<le> U64" and "worth sfy price m out_amt" and "0 \<le> m"
proof -
  show m: "m = (if sfy then ceil_quot (out_amt * 2 ^ 64) price
              else ceil_quot (out_amt * price) (2 ^ 64))"
    using assms by (auto simp: amount_in_def shl64_div_eq mul_shr64_eq split: if_splits)
  show "m \<le> U64" using assms by (auto simp: amount_in_def split: option.splits if_splits)
  show "worth sfy price m out_amt"
    using assms(2) le_ceil_quot_mult [of price "out_amt * 2 ^ 64"]
      le_ceil_quot_mult [of "2 ^ 64" "out_amt * price"]
    by (auto simp: m worth_def)
  show "0 \<le> m" using assms by (simp add: m ceil_quot_nonneg)
qed

lemma amount_out_eq:
  assumes "0 \<le> a" and "0 < price" and "amount_out a price sfy = Some r"
  shows "r = (if sfy then price * a div 2 ^ 64 else a * 2 ^ 64 div price)"
    and "0 \<le> r" and "r \<le> U64" and "worth sfy price a r"
proof -
  show r: "r = (if sfy then price * a div 2 ^ 64 else a * 2 ^ 64 div price)"
    using assms by (auto simp: amount_out_def shl64_div_eq mul_shr64_eq split: if_splits)
  show "0 \<le> r" using assms by (simp add: r pos_imp_zdiv_nonneg_iff)
  show "r \<le> U64" using assms by (auto simp: amount_out_def split: option.splits if_splits)
  show "worth sfy price a r"
    using assms zdiv_mult_le [of price "a * 2 ^ 64"] zdiv_mult_le [of "2 ^ 64" "price * a"]
    by (auto simp: r worth_def mult.commute)
qed

lemma partial_fill_less:
  assumes "0 < price" and "0 \<le> a"
    and "a < (if sfy then ceil_quot (max_out * 2 ^ 64) price
              else ceil_quot (max_out * price) (2 ^ 64))"
  shows "(if sfy then price * a div 2 ^ 64 else a * 2 ^ 64 div price) < max_out"
  using assms
  by (cases sfy) (simp_all add: less_ceil_quot_iff zdiv_less_iff mult.commute del: power_numeral)

lemma fill_mm_SomeD:
  assumes "fill_mm b amount sfy = Some (used_in, leftover, out_amt)"
  shows "(if sfy then bin_y b else bin_x b) = 0 \<and> used_in = 0 \<and> leftover = amount \<and> out_amt = 0
    \<or> amount_in (if sfy then bin_y b else bin_x b) (bin_price b) sfy True = Some used_in
        \<and> used_in \<le> amount \<and> leftover = amount - used_in
        \<and> out_amt = (if sfy then bin_y b else bin_x b)
    \<or> (\<exists>m. amount_in (if sfy then bin_y b else bin_x b) (bin_price b) sfy True = Some m
        \<and> amount < m \<and> used_in = amount \<and> leftover = 0
        \<and> amount_out amount (bin_price b) sfy = Some out_amt)"
proof (cases "(if sfy then bin_y b else bin_x b) = 0")
  case True
  then show ?thesis using assms by (simp add: fill_mm_def)
next
  case False
  then show ?thesis using assms
    by (auto simp: fill_mm_def Let_def bind_eq_Some_conv not_le split: if_split_asm)
qed

lemma fill_mm_props:
  assumes liq: "0 \<le> (if sfy then bin_y b else bin_x b)"
    and pr: "0 < bin_price b" and am: "0 \<le> amount"
    and fill: "fill_mm b amount sfy = Some (used_in, leftover, out_amt)"
  shows "used_in + leftover = amount" and "0 \<le> used_in" and "0 \<le> leftover" and "0 \<le> out_amt"
    and "out_amt \<le> (if sfy then bin_y b else bin_x b)"
    and "worth sfy (bin_price b) used_in out_amt"
proof -
  define mo where "mo = (if sfy then bin_y b else bin_x b)"
  consider (empty) "mo = 0" "used_in = 0" "leftover = amount" "out_amt = 0"
    | (full) "amount_in mo (bin_price b) sfy True = Some used_in" "used_in \<le> amount"
        "leftover = amount - used_in" "out_amt = mo"
    | (part) m where "amount_in mo (bin_price b) sfy True = Some m" "amount < m"
        "used_in = amount" "leftover = 0" "amount_out amount (bin_price b) sfy = Some out_amt"
    using fill_mm_SomeD [OF fill] unfolding mo_def [symmetric] by blast
  then have "used_in + leftover = amount \<and> 0 \<le> used_in \<and> 0 \<le> leftover \<and> 0 \<le> out_amt
      \<and> out_amt \<le> mo \<and> worth sfy (bin_price b) used_in out_amt"
  proof cases
    case empty
    then show ?thesis using am by (simp add: worth_def)
  next
    case full
    then show ?thesis using amount_in_eq [OF _ pr full(1)] liq by (simp flip: mo_def)
  next
    case part
    then have "amount < (if sfy then ceil_quot (mo * 2 ^ 64) (bin_price b)
              else ceil_quot (mo * bin_price b) (2 ^ 64))"
      using amount_in_eq(1) [OF _ pr part(1)] liq by (simp flip: mo_def)
    from partial_fill_less [OF pr am this] have "out_amt < mo"
      using amount_out_eq(1) [OF am pr part(5)] by simp
    then show ?thesis using amount_out_eq(2,4) [OF am pr part(5)] part(3,4) am by simp
  qed
  then show "used_in + leftover = amount" "0 \<le> used_in" "0 \<le> leftover" "0 \<le> out_amt"
    "out_amt \<le> (if sfy then bin_y b else bin_x b)" "worth sfy (bin_price b) used_in out_amt"
    by (simp_all add: mo_def)
qed

section \<open>Well-formed pools\<close>

definition bin_ok :: "Bin \<Rightarrow> bool" where
  "bin_ok b \<longleftrightarrow> 0 \<le> bin_x b \<and> 0 \<le> bin_y b \<and> 0 \<le> bin_price b"

definition dlmm_ok :: "Dlmm \<Rightarrow> bool" where
  "dlmm_ok s \<longleftrightarrow> 0 \<le> base_factor s \<and> 0 \<le> bin_step s \<and> list_all bin_ok (bins s)"

lemma dlmm_ok_frame [simp]:
  "dlmm_ok (update_references s) = dlmm_ok s"
  "dlmm_ok (update_volatility s) = dlmm_ok s"
  "bins (update_volatility s) = bins s"
  "active_id (update_volatility s) = active_id s"
  "bins (update_references s) = bins s"
  "active_id (update_references s) = active_id s"
  by (simp_all add: dlmm_ok_def update_references_def update_volatility_def Let_def)

lemma rate_bounds:
  assumes "dlmm_ok s"
  obtains r where "total_fee_rate s = Some r" "0 \<le> r" "r \<le> MAX_FEE"
proof
  define base where "base = base_factor s * bin_step s * 10 * 10 ^ nat (base_fee_power_factor s)"
  define variable where "variable = (if variable_fee_control s > 0
      then (variable_fee_control s * (vol_acc s * bin_step s) * (vol_acc s * bin_step s) + 99999999999)
             div 100000000000 else 0)"
  show "total_fee_rate s = Some (if base + variable > MAX_FEE then MAX_FEE else base + variable)"
    by (simp add: total_fee_rate_def base_def variable_def Let_def)
  have "0 \<le> base" using assms by (simp add: base_def dlmm_ok_def)
  moreover have "0 \<le> variable"
  proof -
    have "0 \<le> variable_fee_control s * (v * v)" if "variable_fee_control s > 0" for v
      using that by simp
    then have "0 \<le> variable_fee_control s * (vol_acc s * bin_step s) * (vol_acc s * bin_step s)"
      if "variable_fee_control s > 0"
      using that by (metis mult.assoc)
    then show ?thesis by (simp add: variable_def pos_imp_zdiv_nonneg_iff)
  qed
  ultimately show "0 \<le> (if base + variable > MAX_FEE then MAX_FEE else base + variable)"
    by (simp add: MAX_FEE_def)
  show "(if base + variable > MAX_FEE then MAX_FEE else base + variable) \<le> MAX_FEE" by simp
qed

lemma fee_from_amount_eq:
  assumes "total_fee_rate s = Some r"
  shows "compute_fee_from_amount s a =
    (if ceil_quot (a * r) FEE_PREC > U64 then None else Some (ceil_quot (a * r) FEE_PREC))"
  using assms by (simp add: compute_fee_from_amount_def ceil_quot_def Let_def algebra_simps)

lemma compute_fee_eq:
  assumes "total_fee_rate s = Some r" and "r \<le> MAX_FEE"
  shows "compute_fee s a =
    (if ceil_quot (a * r) (FEE_PREC - r) > U64 then None else Some (ceil_quot (a * r) (FEE_PREC - r)))"
  using assms by (simp add: compute_fee_def ceil_quot_def Let_def quote_consts algebra_simps)

lemma fee_le_amount:
  assumes "0 \<le> r" "r \<le> MAX_FEE" "0 \<le> a"
  shows "0 \<le> ceil_quot (a * r) FEE_PREC" and "ceil_quot (a * r) FEE_PREC \<le> a"
proof -
  show "0 \<le> ceil_quot (a * r) FEE_PREC" using assms by (simp add: ceil_quot_nonneg FEE_PREC_def)
  have "a * r \<le> a * FEE_PREC"
    using assms by (intro mult_left_mono) (simp_all add: quote_consts)
  then show "ceil_quot (a * r) FEE_PREC \<le> a" by (simp add: ceil_quot_iff FEE_PREC_def)
qed

lemma fee_gross_up:
  fixes a r P :: int
  assumes "0 \<le> a" and "0 \<le> r" and "r < P"
  defines "f \<equiv> ceil_quot (a * r) (P - r)"
  shows "ceil_quot ((a + f) * r) P = f"
proof (rule ceil_quot_eqI)
  show "0 < P" using assms by simp
  have pos: "0 < P - r" using assms by simp
  have "f - 1 < f" by simp
  then have "(f - 1) * (P - r) < a * r"
    unfolding f_def less_ceil_quot_iff [OF pos] .
  then show "(f - 1) * P < (a + f) * r" using assms by (simp add: algebra_simps)
  have "a * r \<le> f * (P - r)" unfolding f_def by (rule le_ceil_quot_mult [OF pos])
  then show "(a + f) * r \<le> f * P" by (simp add: algebra_simps)
qed

section \<open>Bin prices\<close>

lemma mul_shr64_floor:
  assumes "0 \<le> a" "a \<le> 2 ^ 64" "0 \<le> b" "b < 2 ^ 64"
  obtains m where "mul_shr64 a b False = Some m" "0 \<le> m" "m \<le> b"
proof
  have "a * b \<le> 2 ^ 64 * b" using assms by (intro mult_right_mono) auto
  then have le: "a * b \<le> b * 2 ^ 64" by (simp add: mult.commute)
  also have "\<dots> < 2 ^ 64 * 2 ^ 64" using assms by (intro mult_strict_right_mono) auto
  finally have lt: "a * b < 2 ^ 128" by simp
  then show "mul_shr64 a b False = Some (a * b div 2 ^ 64)"
    using assms by (simp add: mul_shr64_eq)
  show "0 \<le> a * b div 2 ^ 64" using assms by (simp add: pos_imp_zdiv_nonneg_iff)
  show "a * b div 2 ^ 64 \<le> b"
    using zdiv_mono1 [OF le, of "2 ^ 64"] by simp
qed

lemma price_loop_total:
  assumes "0 \<le> squared" "squared < 2 ^ 64" "0 \<le> result" "result \<le> 2 ^ 64"
  shows "\<exists>r. price_loop n k exp squared result = Some r \<and> 0 \<le> r \<and> r \<le> 2 ^ 64"
  using assms
proof (induction n arbitrary: k squared result)
  case (Suc n)
  obtain m where m: "mul_shr64 result squared False = Some m" "0 \<le> m" "m \<le> squared"
    using Suc.prems by (metis mul_shr64_floor)
  obtain q where q: "mul_shr64 squared squared False = Some q" "0 \<le> q" "q \<le> squared"
    using Suc.prems by (metis mul_shr64_floor less_imp_le)
  define result' where "result' = (if odd (exp div 2 ^ k) then m else result)"
  define squared' where "squared' = (if k + 1 < 19 then q else squared)"
  have "price_loop (Suc n) k exp squared result = price_loop n (k + 1) exp squared' result'"
    using m q by (simp add: result'_def squared'_def)
  moreover have "0 \<le> squared'" "squared' < 2 ^ 64" "0 \<le> result'" "result' \<le> 2 ^ 64"
    using m q Suc.prems by (simp_all add: result'_def squared'_def)
  ultimately show ?case using Suc.IH by presburger
qed simp

lemma start_square:
  assumes "0 \<le> stp"
  shows "0 \<le> U128 div (ONE_Q64 + (stp * 2 ^ 64) div BPS)"
    "U128 div (ONE_Q64 + (stp * 2 ^ 64) div BPS) < 2 ^ 64"
proof -
  define base where "base = ONE_Q64 + (stp * 2 ^ 64) div BPS"
  have "ONE_Q64 \<le> base" using assms by (simp add: base_def BPS_def)
  then show "0 \<le> U128 div (ONE_Q64 + (stp * 2 ^ 64) div BPS)"
    "U128 div (ONE_Q64 + (stp * 2 ^ 64) div BPS) < 2 ^ 64"
    unfolding base_def [symmetric]
    by (auto simp: zdiv_less_iff pos_imp_zdiv_nonneg_iff U128_def ONE_Q64_def)
qed

lemma price_loop_zero_exp:
  assumes "0 \<le> x" "x < 2 ^ 64"
  shows "price_loop n k 0 x y = Some y"
  using assms
proof (induction n arbitrary: k x)
  case (Suc n)
  obtain q where "mul_shr64 x x False = Some q" "0 \<le> q" "q \<le> x"
    using Suc.prems by (metis mul_shr64_floor less_imp_le)
  then show ?case using Suc by simp
qed simp

lemma price_from_id_cases:
  assumes "0 \<le> stp" and "\<bar>bid\<bar> < 0x80000" and "bid \<noteq> 0"
  obtains r where "price_loop 19 0 \<bar>bid\<bar> (U128 div (ONE_Q64 + (stp * 2 ^ 64) div BPS)) ONE_Q64 = Some r"
    "0 \<le> r" "r \<le> 2 ^ 64"
    "price_from_id bid stp =
       (if r = 0 then None else if bid < 0 then Some r else Some (U128 div r))"
proof -
  define base where "base = ONE_Q64 + (stp * 2 ^ 64) div BPS"
  have base: "ONE_Q64 \<le> base" using assms by (simp add: base_def BPS_def)
  have sq: "0 \<le> U128 div base" "U128 div base < 2 ^ 64"
    unfolding base_def by (rule start_square [OF assms(1)])+
  obtain r where r: "price_loop 19 0 \<bar>bid\<bar> (U128 div base) ONE_Q64 = Some r" "0 \<le> r" "r \<le> 2 ^ 64"
    using price_loop_total [of "U128 div base" ONE_Q64 19 0 "\<bar>bid\<bar>"] sq
    by (auto simp: ONE_Q64_def)
  have "price_from_id bid stp =
       (if r = 0 then None else if bid < 0 then Some r else Some (U128 div r))"
    using assms r base unfolding price_from_id_def Let_def base_def [symmetric]
    by (simp add: abs_if)
  with r show ?thesis using that by (simp add: base_def)
qed

lemma price_from_id_pos:
  assumes "0 \<le> stp" and "price_from_id bid stp = Some p"
  shows "0 < p" and "p \<le> U128"
proof -
  have "0 < p \<and> p \<le> U128"
  proof (cases "bid = 0")
    case True
    then show ?thesis using assms by (simp add: price_from_id_def ONE_Q64_def U128_def)
  next
    case False
    have rng: "\<bar>bid\<bar> < 0x80000"
      using assms False by (auto simp: price_from_id_def Let_def split: if_splits)
    obtain r where r: "0 \<le> r" "r \<le> 2 ^ 64" and
      p: "price_from_id bid stp =
         (if r = 0 then None else if bid < 0 then Some r else Some (U128 div r))"
      by (rule price_from_id_cases [OF assms(1) rng False])
    have "0 < r" using p r assms by (auto split: if_splits)
    moreover from this have "1 \<le> U128 div r" "U128 div r \<le> U128"
      using r by (auto simp: zdiv_le_iff U128_def intro: zdiv_le_self)
    ultimately show ?thesis using p assms r by (auto simp: U128_def split: if_splits)
  qed
  then show "0 < p" "p \<le> U128" by auto
qed

section \<open>One bin of the walk\<close>

definition liquidity :: "bool \<Rightarrow> Bin \<Rightarrow> int" where
  "liquidity sfy b = (if sfy then bin_y b else bin_x b)"

lemma worth_mono:
  assumes "worth sfy price i out_amt" "0 \<le> price" "i \<le> i'" "out' \<le> out_amt"
  shows "worth sfy price i' out'"
proof -
  have "i * price \<le> i' * price" "out' * price \<le> out_amt * price"
    using assms by (auto intro: mult_right_mono)
  then show ?thesis using assms unfolding worth_def by (auto split: if_splits)
qed

lemma quote_fill_SomeD:
  assumes "quote_fill s b foi sfy left = Some (included, out_amt)"
  obtains fee excluded used_in leftover out0 where
    "foi \<longrightarrow> compute_fee_from_amount s left = Some fee \<and> fee \<le> left"
    "excluded = (if foi then left - fee else left)"
    "fill_mm b excluded sfy = Some (used_in, leftover, out0)"
    "if leftover > 0
     then (if foi then \<exists>f. compute_fee s (excluded - leftover) = Some f \<and> included = excluded - leftover + f
           else included = excluded - leftover)
     else included = left"
    "if foi then out_amt = out0
     else \<exists>f. compute_fee_from_amount s out0 = Some f \<and> f \<le> out0 \<and> out_amt = out0 - f"
    "included \<le> left"
  using assms unfolding quote_fill_def Let_def
  by (auto simp: bind_eq_Some_conv split: if_split_asm intro!: that)

lemma quote_fill_props:
  assumes ok: "dlmm_ok s" "bin_ok b" "0 < bin_price b" "0 \<le> left"
    and q: "quote_fill s b foi sfy left = Some (included, out_amt)"
  shows "included \<le> left" "0 \<le> included" "0 \<le> out_amt" "out_amt \<le> liquidity sfy b"
    "worth sfy (bin_price b) included out_amt"
proof -
  obtain r where r: "total_fee_rate s = Some r" "0 \<le> r" "r \<le> MAX_FEE"
    by (rule rate_bounds [OF ok(1)])
  obtain fee excluded used_in leftover out0 where
    f: "foi \<longrightarrow> compute_fee_from_amount s left = Some fee \<and> fee \<le> left"
    and ex: "excluded = (if foi then left - fee else left)"
    and fill: "fill_mm b excluded sfy = Some (used_in, leftover, out0)"
    and inc: "if leftover > 0
       then (if foi then \<exists>f. compute_fee s (excluded - leftover) = Some f \<and> included = excluded - leftover + f
             else included = excluded - leftover)
       else included = left"
    and out: "if foi then out_amt = out0
       else \<exists>f. compute_fee_from_amount s out0 = Some f \<and> f \<le> out0 \<and> out_amt = out0 - f"
    and le: "included \<le> left"
    by (rule quote_fill_SomeD [OF q])
  have fee: "foi \<longrightarrow> 0 \<le> fee"
    using f fee_le_amount [OF r(2,3) ok(4)] by (auto simp: fee_from_amount_eq [OF r(1)] split: if_splits)
  have ex0: "0 \<le> excluded" using f ex ok by auto
  have liq: "0 \<le> (if sfy then bin_y b else bin_x b)" using ok by (simp add: bin_ok_def)
  note F = fill_mm_props [OF liq ok(3) ex0 fill]
  have "0 \<le> ceil_quot (used_in * r) (FEE_PREC - r)"
    using F(2) r by (intro ceil_quot_nonneg) (simp_all add: quote_consts)
  moreover have eq: "excluded - leftover = used_in" using F(1) by simp
  ultimately have used: "used_in \<le> included"
    using inc [unfolded eq] F(1,3) ex f fee
    by (auto simp: compute_fee_eq [OF r(1,3)] split: if_split_asm)
  have o: "0 \<le> out_amt" "out_amt \<le> out0"
    using out F(4) fee_le_amount [OF r(2,3) F(4)]
    by (auto simp: fee_from_amount_eq [OF r(1)] split: if_split_asm)
  show "included \<le> left" by (fact le)
  show "0 \<le> included" using used F(2) by simp
  show "0 \<le> out_amt" by (fact o)
  show "out_amt \<le> liquidity sfy b" using o F(5) by (simp add: liquidity_def)
  show "worth sfy (bin_price b) included out_amt"
    by (rule worth_mono [OF F(6) _ used o(2)]) (use ok in simp)
qed

section \<open>The whole walk\<close>

definition in_window :: "nat \<Rightarrow> bool \<Rightarrow> int \<Rightarrow> int \<Rightarrow> bool" where
  "in_window n sfy a i \<longleftrightarrow> (if sfy then a - int n < i \<and> i \<le> a else a \<le> i \<and> i < a + int n)"

definition reachable_liquidity :: "nat \<Rightarrow> bool \<Rightarrow> int \<Rightarrow> Bin list \<Rightarrow> int" where
  "reachable_liquidity n sfy a bs =
     sum_list (map (\<lambda>b. if in_window n sfy a (bin_id b) then liquidity sfy b else 0) bs)"

lemma set_price_same:
  "map (liquidity sfy) (set_price i p bs) = map (liquidity sfy) bs"
  "map bin_id (set_price i p bs) = map bin_id bs"
  by (induction bs) (auto simp: liquidity_def)

lemma reachable_set_price [simp]:
  "reachable_liquidity n sfy a (set_price i p bs) = reachable_liquidity n sfy a bs"
  by (induction bs) (auto simp: reachable_liquidity_def liquidity_def)

lemma bin_ok_set_price: "list_all bin_ok bs \<Longrightarrow> 0 \<le> p \<Longrightarrow> list_all bin_ok (set_price i p bs)"
  by (induction bs) (auto simp: bin_ok_def)

lemma reachable_nonneg: "list_all bin_ok bs \<Longrightarrow> 0 \<le> reachable_liquidity n sfy a bs"
  by (induction bs) (auto simp: reachable_liquidity_def bin_ok_def liquidity_def)

lemma window_step:
  "in_window n sfy (if sfy then a - 1 else a + 1) i \<Longrightarrow> in_window (Suc n) sfy a i \<and> i \<noteq> a"
  by (auto simp: in_window_def split: if_splits)

lemma reachable_step:
  assumes "list_all bin_ok bs" and "find (\<lambda>b. bin_id b = a) bs = Some b"
  shows "reachable_liquidity n sfy (if sfy then a - 1 else a + 1) bs + liquidity sfy b
    \<le> reachable_liquidity (Suc n) sfy a bs"
  using assms
proof (induction bs)
  case (Cons c bs)
  have c: "0 \<le> liquidity sfy c" using Cons.prems by (simp add: bin_ok_def liquidity_def)
  have sub: "reachable_liquidity n sfy (if sfy then a - 1 else a + 1) xs
      \<le> reachable_liquidity (Suc n) sfy a xs" if "list_all bin_ok xs" for xs
    using that
  proof (induction xs)
    case (Cons y ys)
    then show ?case
      using window_step [of n sfy a "bin_id y"]
      by (auto simp: reachable_liquidity_def bin_ok_def liquidity_def)
  qed (simp add: reachable_liquidity_def)
  show ?case
  proof (cases "bin_id c = a")
    case True
    then have "\<not> in_window n sfy (if sfy then a - 1 else a + 1) (bin_id c)"
      "in_window (Suc n) sfy a (bin_id c)" by (auto simp: in_window_def)
    then show ?thesis
      using True Cons.prems sub [of bs] by (simp add: reachable_liquidity_def)
  next
    case False
    then show ?thesis
      using Cons window_step [of n sfy a "bin_id c"] c
      by (auto simp: reachable_liquidity_def)
  qed
qed simp

lemma priced_bin_props:
  assumes "dlmm_ok s" and "priced_bin s = Some (s1, b)"
  shows "dlmm_ok s1" "active_id s1 = active_id s" "bin_ok b" "0 < bin_price b"
    "reachable_liquidity n sfy a (bins s1) = reachable_liquidity n sfy a (bins s)"
    "find (\<lambda>b. bin_id b = active_id s) (bins s) = Some b0 \<Longrightarrow> liquidity sfy b = liquidity sfy b0"
    "\<exists>b0. find (\<lambda>b. bin_id b = active_id s) (bins s) = Some b0"
proof -
  obtain c where c: "find (\<lambda>b. bin_id b = active_id s) (bins s) = Some c"
    using assms(2) unfolding priced_bin_def find_bin_def by (auto simp: bind_eq_Some_conv)
  have br: "bin_price c = 0 \<and> (\<exists>p. price_from_id (bin_id c) (bin_step s) = Some p
         \<and> s1 = s \<lparr> bins := set_price (active_id s) p (bins s) \<rparr> \<and> b = c \<lparr> bin_price := p \<rparr>)
       \<or> bin_price c \<noteq> 0 \<and> s1 = s \<and> b = c"
    using assms(2) unfolding priced_bin_def find_bin_def c
    by (cases "bin_price c = 0") (auto simp: bind_eq_Some_conv)
  have "c \<in> set (bins s)" using c by (auto simp: find_Some_iff)
  then have cok: "bin_ok c" using assms(1) by (auto simp: dlmm_ok_def list_all_iff)
  have all: "dlmm_ok s1 \<and> active_id s1 = active_id s \<and> bin_ok b \<and> 0 < bin_price b
     \<and> reachable_liquidity n sfy a (bins s1) = reachable_liquidity n sfy a (bins s)
     \<and> liquidity sfy b = liquidity sfy c"
    using br
  proof (elim disjE conjE exE)
    fix p assume p: "price_from_id (bin_id c) (bin_step s) = Some p"
      and s1: "s1 = s \<lparr> bins := set_price (active_id s) p (bins s) \<rparr>" and b: "b = c \<lparr> bin_price := p \<rparr>"
    have "0 < p" using price_from_id_pos [OF _ p] assms(1) by (simp add: dlmm_ok_def)
    then show ?thesis
      using assms(1) cok by (simp add: s1 b dlmm_ok_def bin_ok_set_price bin_ok_def liquidity_def)
  next
    assume "bin_price c \<noteq> 0" "s1 = s" "b = c"
    then show ?thesis using assms(1) cok by (auto simp: bin_ok_def)
  qed
  then show "dlmm_ok s1" "active_id s1 = active_id s" "bin_ok b" "0 < bin_price b"
    "reachable_liquidity n sfy a (bins s1) = reachable_liquidity n sfy a (bins s)"
    "find (\<lambda>b. bin_id b = active_id s) (bins s) = Some b0 \<Longrightarrow> liquidity sfy b = liquidity sfy b0"
    "\<exists>b0. find (\<lambda>b. bin_id b = active_id s) (bins s) = Some b0"
    using c by auto
qed

lemma next_bin_props:
  assumes "next_bin s sfy = Some s'"
  shows "active_id s' = (if sfy then active_id s - 1 else active_id s + 1)" "bins s' = bins s"
    "dlmm_ok s' = dlmm_ok s"
  using assms by (auto simp: next_bin_def dlmm_ok_def split: if_splits)

lemma quote_step_props:
  assumes ok: "dlmm_ok s" "0 \<le> left" and st: "quote_step foi sfy s left tot = Some (s', left', tot')"
  shows "dlmm_ok s'" "0 \<le> left'" "left' \<le> left" "tot \<le> tot'"
    "tot' + (if left' > 0 then reachable_liquidity n sfy (active_id s') (bins s') else 0)
       \<le> tot + reachable_liquidity (Suc n) sfy (active_id s) (bins s)"
proof -
  obtain s1 b included out_amt where
    pb: "priced_bin s = Some (s1, b)"
    and qf: "quote_fill (update_volatility s1) b foi sfy left = Some (included, out_amt)"
    and nx: "if left - included > 0 then next_bin (update_volatility s1) sfy = Some s'
             else s' = update_volatility s1"
    and res: "left' = left - included" "tot' = tot + out_amt"
    using st unfolding quote_step_def Let_def
    by (auto simp: bind_eq_Some_conv split: if_split_asm)
  note PB = priced_bin_props [OF ok(1) pb]
  have ok1: "dlmm_ok (update_volatility s1)" using PB(1) by simp
  note QF = quote_fill_props [OF ok1 PB(3,4) ok(2) qf]
  obtain b0 where b0: "find (\<lambda>b. bin_id b = active_id s) (bins s) = Some b0"
    and liq: "liquidity sfy b = liquidity sfy b0" using PB(6,7) by auto
  have bok: "list_all bin_ok (bins s)" using ok by (simp add: dlmm_ok_def)
  note RS = reachable_step [OF bok b0, of n sfy]
  have R0: "0 \<le> reachable_liquidity n sfy (if sfy then active_id s - 1 else active_id s + 1) (bins s)"
    using bok by (rule reachable_nonneg)
  show "dlmm_ok s'" using nx ok1 next_bin_props(3) by (auto split: if_split_asm)
  show "0 \<le> left'" "left' \<le> left" "tot \<le> tot'" using QF res by auto
  show "tot' + (if left' > 0 then reachable_liquidity n sfy (active_id s') (bins s') else 0)
       \<le> tot + reachable_liquidity (Suc n) sfy (active_id s) (bins s)"
  proof (cases "left - included > 0")
    case True
    then have "next_bin (update_volatility s1) sfy = Some s'" using nx by simp
    note NB = next_bin_props [OF this]
    have "reachable_liquidity n sfy (active_id s') (bins s')
        = reachable_liquidity n sfy (if sfy then active_id s - 1 else active_id s + 1) (bins s)"
      using NB PB(2,5) by simp
    then show ?thesis using RS QF(4) liq res True by simp
  next
    case False
    then show ?thesis using RS QF(4) liq res R0 by simp
  qed
qed

lemma quote_loop_props:
  assumes "dlmm_ok s" "0 \<le> left" "quote_loop n foi sfy s left tot = Some (s', left', tot')"
  shows "0 \<le> left'" "tot \<le> tot'"
    "tot' \<le> tot + reachable_liquidity n sfy (active_id s) (bins s)"
proof -
  have "0 \<le> left' \<and> tot \<le> tot' \<and> tot' \<le> tot + reachable_liquidity n sfy (active_id s) (bins s)"
    using assms
  proof (induction n arbitrary: s left tot)
    case 0
    then show ?case using reachable_nonneg by (simp add: dlmm_ok_def)
  next
    case (Suc n)
    note bok = reachable_nonneg [of "bins s" "Suc n" sfy "active_id s"]
    show ?case
    proof (cases "left > 0")
      case False
      then show ?thesis using Suc.prems bok by (simp add: dlmm_ok_def)
    next
      case True
      then obtain s1 l1 t1 where st: "quote_step foi sfy s left tot = Some (s1, l1, t1)"
        and lp: "quote_loop n foi sfy s1 l1 t1 = Some (s', left', tot')"
        using Suc.prems(3) by (auto simp: bind_eq_Some_conv)
      note ST = quote_step_props(1-4) [OF Suc.prems(1,2) st] quote_step_props(5) [OF Suc.prems(1,2) st, of n]
      note IH = Suc.IH [OF ST(1,2) lp]
      show ?thesis
      proof (cases "l1 > 0")
        case True
        then show ?thesis using ST(4,5) IH by simp
      next
        case False
        then have "tot' = t1" using lp by (cases n) auto
        then show ?thesis using ST(4,5) IH False by simp
      qed
    qed
  qed
  then show "0 \<le> left'" "tot \<le> tot'"
    "tot' \<le> tot + reachable_liquidity n sfy (active_id s) (bins s)" by auto
qed

section \<open>Constant-product bounds\<close>

definition pump_ok :: "Pump \<Rightarrow> bool" where
  "pump_ok p \<longleftrightarrow> 0 \<le> reserve_base p \<and> 0 \<le> reserve_quote p \<and>
     0 \<le> lp_fee_bps p \<and> 0 \<le> protocol_fee_bps p \<and> 0 \<le> creator_fee_bps p"

lemma fees3_eq:
  "fees3 n l pr c =
    (if l \<le> PUMP_DEN \<and> pr \<le> PUMP_DEN \<and> c \<le> PUMP_DEN
     then Some (ceil_quot (n * l) PUMP_DEN + ceil_quot (n * pr) PUMP_DEN + ceil_quot (n * c) PUMP_DEN)
     else None)"
proof -
  have f: "fee_bps n b = (if b \<le> PUMP_DEN then Some (ceil_quot (n * b) PUMP_DEN) else None)" for b
    by (simp add: fee_bps_def ceil_div_eq PUMP_DEN_def)
  show ?thesis by (simp add: fees3_def f)
qed

lemma fees3_mono:
  assumes "0 \<le> l" "0 \<le> pr" "0 \<le> c" "m \<le> n" "fees3 m l pr c = Some fm" "fees3 n l pr c = Some fn"
  shows "fm \<le> fn"
proof -
  have "ceil_quot (m * b) PUMP_DEN \<le> ceil_quot (n * b) PUMP_DEN" if "0 \<le> b" for b
    using assms(4) that by (intro ceil_quot_mono mult_right_mono) (simp_all add: PUMP_DEN_def)
  from this [of l] this [of pr] this [of c] show ?thesis
    using assms by (auto simp: fees3_eq split: if_splits)
qed

lemma fees3_nonneg:
  assumes "0 \<le> l" "0 \<le> pr" "0 \<le> c" "0 \<le> n" "fees3 n l pr c = Some f"
  shows "0 \<le> f"
proof -
  have "0 \<le> ceil_quot (n * b) PUMP_DEN" if "0 \<le> b" for b
    using that assms(4) by (intro ceil_quot_nonneg) (simp_all add: PUMP_DEN_def)
  from this [of l] this [of pr] this [of c] show ?thesis
    using assms by (auto simp: fees3_eq split: if_splits)
qed

lemma pump_effective_budget:
  assumes "pump_ok p" and "pump_effective p amt = Some eff"
  obtains f where "pump_fees p eff = Some f" "eff + f \<le> amt"
proof -
  define e where "e = amt * PUMP_DEN div (PUMP_DEN + (lp_fee_bps p + protocol_fee_bps p + creator_fee_bps p))"
  obtain f where f: "pump_fees p e = Some f"
    and br: "if e + f > amt then eff = amt - f \<and> (\<exists>f'. pump_fees p eff = Some f') else eff = e"
    using assms(2) unfolding pump_effective_def Let_def e_def [symmetric]
    by (auto simp: bind_eq_Some_conv algebra_simps split: if_split_asm)
  show ?thesis
  proof (cases "e + f > amt")
    case True
    then obtain f' where f': "pump_fees p eff = Some f'" and eff: "eff = amt - f" using br by auto
    have "eff \<le> e" using True eff by simp
    then have "f' \<le> f"
      using fees3_mono assms(1) f f' unfolding pump_fees_def pump_ok_def by blast
    then show ?thesis using that f' eff by simp
  next
    case False
    then show ?thesis using that f br by simp
  qed
qed

lemma product_kept:
  fixes R Q d :: int
  assumes "0 < Q" "0 \<le> d" "0 \<le> R"
  shows "R * Q \<le> (R - R * d div (Q + d)) * (Q + d)" and "0 < R \<Longrightarrow> R * d div (Q + d) < R"
    and "0 \<le> R * d div (Q + d)"
proof -
  have pos: "0 < Q + d" using assms by simp
  have "R * d div (Q + d) * (Q + d) \<le> R * d" using pos by (rule zdiv_mult_le)
  then show "R * Q \<le> (R - R * d div (Q + d)) * (Q + d)" by (simp add: algebra_simps)
  show "R * d div (Q + d) < R" if "0 < R"
    using that pos assms by (simp add: zdiv_less_iff algebra_simps)
  show "0 \<le> R * d div (Q + d)" using pos assms by (simp add: pos_imp_zdiv_nonneg_iff)
qed

lemma quote_pump_SomeD:
  assumes "quote_pump p amt direction = Some out_amt"
  shows "pm_status p = 0" "amt \<noteq> 0" "direction = 0 \<or> direction = 1" "reserve_base p \<noteq> 0"
    "reserve_quote p \<noteq> 0" "0 < reserve_quote p + virtual_quote p"
    "reserve_quote p + virtual_quote p \<le> U64" "out_amt \<noteq> 0" "out_amt \<le> U64"
    "(if direction = 1 then pump_sell_out p (reserve_quote p + virtual_quote p) amt
      else pump_buy_out p (reserve_quote p + virtual_quote p) amt) = Some out_amt"
  using assms unfolding quote_pump_def Let_def
  by (auto simp: bind_eq_Some_conv split: if_split_asm)

lemma now_ts_irrelevant:
  "update_volatility (x \<lparr> now_ts := t \<rparr>) = update_volatility x \<lparr> now_ts := t \<rparr>"
  "total_fee_rate (x \<lparr> now_ts := t \<rparr>) = total_fee_rate x"
  by (simp_all add: total_fee_rate_def update_volatility_def Let_def)

section \<open>Sample pools\<close>

definition sample_dlmm :: Dlmm where
  "sample_dlmm = \<lparr> active_id = 1, bin_step = 10, dl_status = 0, base_factor = 10000,
     filter_period = 30, decay_period = 600, reduction_factor = 5000, variable_fee_control = 40000,
     max_volatility_accumulator = 350000, protocol_share = 500, base_fee_power_factor = 0,
     collect_fee_mode = 0, vol_acc = 20000, vol_ref = 0, idx_ref = 3, last_upd = 1000,
     reserve_x = 0, reserve_y = 0, now_ts = 1100,
     bins = [\<lparr> bin_id = 1, bin_x = 10, bin_y = 500, bin_price = 2 ^ 64 \<rparr>,
             \<lparr> bin_id = 0, bin_x = 0, bin_y = 900, bin_price = 0 \<rparr>] \<rparr>"

definition sample_pump :: Pump where
  "sample_pump = \<lparr> reserve_base = 1000000, reserve_quote = 2000000, virtual_quote = 0,
     lp_fee_bps = 20, protocol_fee_bps = 5, creator_fee_bps = 5, pm_disabled = 0, pm_status = 0 \<rparr>"

lemma sample_ok: "dlmm_ok sample_dlmm" "pump_ok sample_pump"
  by (simp_all add: dlmm_ok_def bin_ok_def sample_dlmm_def pump_ok_def sample_pump_def)

section \<open>Properties\<close>

text \<open>
  The four-limb multiply-and-shift computes the exact floor (or ceiling) of the
  128-bit product over \<open>2 ^ 64\<close> and reports overflow exactly when the product does not
  fit in 128 bits.
\<close>
lemma mul_shr64_exact:
  assumes "0 \<le> a" and "0 \<le> b"
  shows "mul_shr64 a b up =
    (if a * b < 2 ^ 128
     then Some (if up then (a * b + 2 ^ 64 - 1) div 2 ^ 64 else a * b div 2 ^ 64)
     else None)"
  using mul_shr64_eq [OF assms] by (simp add: ceil_quot_def)



text \<open>
  Grossing a net amount up with \<open>compute_fee\<close> and charging the result with
  \<open>compute_fee_from_amount\<close> gives back the same fee, to the last unit: the two fee
  formulas the bin walk mixes are exact inverses.
\<close>
lemma fee_gross_up_exact:
  assumes "dlmm_ok s" and "0 \<le> amount" and "compute_fee s amount = Some f"
  shows "compute_fee_from_amount s (amount + f) = Some f"
proof -
  obtain r where r: "total_fee_rate s = Some r" "0 \<le> r" "r \<le> MAX_FEE"
    by (rule rate_bounds [OF assms(1)])
  have f: "f = ceil_quot (amount * r) (FEE_PREC - r)" "f \<le> U64"
    using assms(3) by (auto simp: compute_fee_eq [OF r(1,3)] split: if_splits)
  have "ceil_quot ((amount + f) * r) FEE_PREC = f"
    unfolding f(1) by (rule fee_gross_up) (use assms r in \<open>simp_all add: quote_consts\<close>)
  then show ?thesis using f by (simp add: fee_from_amount_eq [OF r(1)])
qed

text \<open>
  C38: Computing a bin price terminates, without overflow. For a bin step that is not negative and an
  id of at most 19 bits the square-and-multiply loop ends within its nineteen rounds and returns a value;
  the price is \<open>None\<close> only when that value underflowed to zero, and is positive and below
  \<open>2 ^ 128\<close> otherwise.
\<close>

theorem price_from_id_total:
  assumes "0 \<le> stp" and "\<bar>bid\<bar> < 0x80000"
  shows "(\<exists>r. price_loop 19 0 \<bar>bid\<bar> (U128 div (ONE_Q64 + (stp * 2 ^ 64) div BPS)) ONE_Q64 = Some r
            \<and> 0 \<le> r \<and> r \<le> 2 ^ 64
            \<and> (price_from_id bid stp = None \<longleftrightarrow> bid \<noteq> 0 \<and> r = 0))
    \<and> (\<forall>p. price_from_id bid stp = Some p \<longrightarrow> 0 < p \<and> p \<le> U128)"
proof (cases "bid = 0")
  case True
  have "price_from_id 0 stp = Some ONE_Q64" "0 < ONE_Q64" "ONE_Q64 \<le> 2 ^ 64" "ONE_Q64 \<le> U128"
    by (simp_all add: price_from_id_def ONE_Q64_def U128_def)
  with True show ?thesis
    using price_loop_zero_exp [OF start_square [OF assms(1)], of 19 0 ONE_Q64] by simp
next
  case False
  obtain r where "price_loop 19 0 \<bar>bid\<bar> (U128 div (ONE_Q64 + (stp * 2 ^ 64) div BPS)) ONE_Q64 = Some r"
    "0 \<le> r" "r \<le> 2 ^ 64" "price_from_id bid stp =
       (if r = 0 then None else if bid < 0 then Some r else Some (U128 div r))"
    by (rule price_from_id_cases [OF assms False])
  then show ?thesis using False price_from_id_pos [OF assms(1)] by auto
qed

theorem price_from_id_total_witness:
  "\<exists>r. price_loop 19 0 5 (U128 div (ONE_Q64 + (20 * 2 ^ 64) div BPS)) ONE_Q64 = Some r \<and> r \<le> 2 ^ 64"
  using price_from_id_total [of 20 "-5"] by auto



text \<open>
  A buy quote spends at most the amount offered (net plus the three rounded-up fees),
  returns strictly less than the base reserve, and does not lower the constant product of
  the base reserve and the effective quote reserve.
\<close>
lemma quote_pump_buy_safe:
  assumes "pump_ok p" and "quote_pump p amt 0 = Some out_amt"
  shows "\<exists>eff f. pump_effective p amt = Some eff \<and> pump_fees p eff = Some f \<and> 1 \<le> eff \<and> eff + f \<le> amt
    \<and> 0 < out_amt \<and> out_amt < reserve_base p
    \<and> reserve_base p * (reserve_quote p + virtual_quote p)
        \<le> (reserve_base p - out_amt) * (reserve_quote p + virtual_quote p + (eff - 1))"
proof -
  define q where "q = reserve_quote p + virtual_quote p"
  note Q = quote_pump_SomeD [OF assms(2), folded q_def]
  have R: "0 < reserve_base p" using Q(4) assms(1) by (simp add: pump_ok_def)
  obtain eff where e: "pump_effective p amt = Some eff" "1 \<le> eff"
    and out: "out_amt = reserve_base p * (eff - 1) div (q + (eff - 1))" "out_amt \<noteq> 0"
    using Q(10) unfolding pump_buy_out_def Let_def
    by (auto simp: bind_eq_Some_conv split: if_split_asm)
  obtain f where "pump_fees p eff = Some f" "eff + f \<le> amt"
    by (rule pump_effective_budget [OF assms(1) e(1)])
  moreover note product_kept [of q "eff - 1" "reserve_base p"]
  ultimately show ?thesis using e out R Q(6) unfolding q_def [symmetric] by fastforce
qed

text \<open>
  A sell quote is positive, is what remains of the constant-product output after all
  three rounded-up fees, and the gross output never drains the effective quote reserve nor
  lowers the product of the reserves.
\<close>
lemma quote_pump_sell_safe:
  assumes "pump_ok p" and "0 < amt" and "quote_pump p amt 1 = Some out_amt"
  shows "\<exists>gross f. pump_fees p gross = Some f \<and> out_amt = gross - f \<and> 0 < out_amt \<and> out_amt \<le> gross
    \<and> gross < reserve_quote p + virtual_quote p
    \<and> reserve_base p * (reserve_quote p + virtual_quote p)
        \<le> (reserve_base p + amt) * (reserve_quote p + virtual_quote p - gross)"
proof -
  define q where "q = reserve_quote p + virtual_quote p"
  define gross where "gross = q * amt div (reserve_base p + amt)"
  note Q = quote_pump_SomeD [OF assms(3), folded q_def]
  have R: "0 < reserve_base p" using Q(4) assms(1) by (simp add: pump_ok_def)
  obtain f where f: "pump_fees p gross = Some f" "f \<le> gross" "out_amt = gross - f"
    using Q(10) unfolding pump_sell_out_def Let_def gross_def [symmetric]
    by (auto simp: bind_eq_Some_conv split: if_split_asm)
  note K = product_kept [OF R _ less_imp_le [OF Q(6)], of amt, folded gross_def]
  have "0 \<le> gross" "gross < q" using K assms(2) Q(6) by auto
  moreover have "0 \<le> f"
    using fees3_nonneg assms(1) f(1) \<open>0 \<le> gross\<close> unfolding pump_fees_def pump_ok_def by blast
  ultimately show ?thesis
    using f Q(8) K(1) assms(2) unfolding q_def [symmetric]
    by (intro exI [of _ gross] exI [of _ f]) (auto simp: mult.commute)
qed

text \<open>
  C36: \<open>next_boundaries\<close> lists every time at which the quoted fee can change. Between two
  times with no listed boundary in between the fee rate is the same, and so is the whole
  triple the fee report gives when the pool has a variable fee.
\<close>
lemma next_boundaries_complete:
  assumes "now \<le> later" and "\<forall>b\<in>set (next_boundaries s now). later < snd b"
  shows "fst (fee_after_time s now) = fst (fee_after_time s later)
    \<and> (variable_fee_control s \<noteq> 0 \<longrightarrow> fee_after_time s now = fee_after_time s later)"
proof (cases "variable_fee_control s = 0")
  case True
  then show ?thesis
    by (simp add: fee_after_time_def total_fee_rate_def update_references_def update_volatility_def Let_def)
next
  case False
  define t_f t_d where "t_f = last_upd s + filter_period s" and "t_d = last_upd s + decay_period s"
  have "(now < t_f \<longrightarrow> later < t_f) \<and> (now < t_d \<and> t_d \<noteq> t_f \<longrightarrow> later < t_d)"
    using assms(2) False unfolding next_boundaries_def Let_def t_f_def [symmetric] t_d_def [symmetric]
    by auto
  then have "later < last_upd s + filter_period s \<or> last_upd s + filter_period s \<le> now"
    "later < last_upd s + decay_period s \<or> last_upd s + decay_period s \<le> now"
    unfolding t_f_def [symmetric] t_d_def [symmetric] by (cases "t_d = t_f"; force)+
  then have g: "now - last_upd s \<ge> filter_period s \<longleftrightarrow> later - last_upd s \<ge> filter_period s"
    "now - last_upd s < decay_period s \<longleftrightarrow> later - last_upd s < decay_period s"
    using assms(1) by linarith+
  have "update_references (s \<lparr> now_ts := now \<rparr>)
      = update_references (s \<lparr> now_ts := later \<rparr>) \<lparr> now_ts := now \<rparr>"
    unfolding update_references_def Let_def by (simp add: g)
  then show ?thesis by (simp add: fee_after_time_def now_ts_irrelevant Let_def)
qed

end
