(* ===== verification/Pump_Swap.thy ===== *)
theory Pump_Swap
  imports Dlmm_Quote
begin

text \<open>
  \<^verbatim>\<open>arb-cap/pump012/pump_apply.py\<close>: the state change of one swap on a constant-product pool
  and the search for the virtual reserve that explains a published state. A pool state is a
  Python dictionary; \<open>pump_row\<close> has one optional field per key the code reads or writes.
  Lemmas: the product of the reserves never falls, vaults stay non-negative, the swap pays
  what \<^const>\<open>quote_pump\<close> quotes, and the search for a buy is complete.
\<close>

section \<open>The state change of one swap\<close>

record pump_row =
  row_kind :: "string option"
  row_reserve_base :: "int option"
  row_reserve_quote :: "int option"
  row_virtual_quote :: "int option"
  row_base_vault :: "int option"
  row_quote_vault :: "int option"
  row_virtual_reserves :: "int option"
  row_lp :: "int option"
  row_protocol :: "int option"
  row_creator :: "int option"
  row_status :: "int option"
  row_amount_in :: "int option"
  row_direction :: "int option"
  row_base_out :: "int option"

text \<open>\<^verbatim>\<open>before.get(k) or 0\<close>, \<^verbatim>\<open>before.get(k, before[k2])\<close>\<close>

definition or0 :: "int option \<Rightarrow> int" where
  "or0 v = (case v of None \<Rightarrow> 0 | Some n \<Rightarrow> n)"

definition row_base :: "pump_row \<Rightarrow> int res" where
  "row_base s = (case row_reserve_base s of None \<Rightarrow> Inl KeyError
                 | Some r \<Rightarrow> Inr (case row_base_vault s of Some v \<Rightarrow> v | None \<Rightarrow> r))"

definition row_quote :: "pump_row \<Rightarrow> int res" where
  "row_quote s = (case row_reserve_quote s of None \<Rightarrow> Inl KeyError
                  | Some r \<Rightarrow> Inr (case row_quote_vault s of Some v \<Rightarrow> v | None \<Rightarrow> r))"

definition row_virtual :: "pump_row \<Rightarrow> int" where
  "row_virtual s = (case row_virtual_reserves s of Some v \<Rightarrow> v | None \<Rightarrow> or0 (row_virtual_quote s))"

definition PUMP_DIR_QUOTE_TO_BASE :: int where "PUMP_DIR_QUOTE_TO_BASE = 0"
definition PUMP_DIR_BASE_TO_QUOTE :: int where "PUMP_DIR_BASE_TO_QUOTE = 1"

lemmas dir_defs = PUMP_DIR_QUOTE_TO_BASE_def PUMP_DIR_BASE_TO_QUOTE_def

definition swap_fee :: "int \<Rightarrow> int \<Rightarrow> int" where
  "swap_fee n bps = n * bps div PUMP_DEN + (if (n * bps) mod PUMP_DEN \<noteq> 0 then 1 else 0)"

text \<open>
  The two branches on the numbers alone: the reserves after the swap and the amount paid.
\<close>

definition sell_core :: "int \<Rightarrow> int \<Rightarrow> int \<Rightarrow> int \<Rightarrow> int \<Rightarrow> int \<Rightarrow> int \<Rightarrow> (int \<times> int \<times> int) option" where
  "sell_core rb rq vq lp_b pr_b cr_b amt =
    (let qeff = rq + vq;
         gross = qeff * amt div (rb + amt);
         lp = swap_fee gross lp_b; proto = swap_fee gross pr_b; creator = swap_fee gross cr_b;
         fee = lp + proto + creator
     in if gross < fee then None
        else let leave = gross - lp
             in if leave > rq then None
                else Some (rb + amt, rq - leave, gross - fee))"

definition buy_fees :: "int \<Rightarrow> int \<Rightarrow> int \<Rightarrow> int \<Rightarrow> int" where
  "buy_fees n lp_b pr_b cr_b = swap_fee n lp_b + swap_fee n pr_b + swap_fee n cr_b"

definition buy_effective :: "int \<Rightarrow> int \<Rightarrow> int \<Rightarrow> int \<Rightarrow> int" where
  "buy_effective lp_b pr_b cr_b amt =
    (let total = lp_b + pr_b + cr_b;
         effective = amt * PUMP_DEN div (PUMP_DEN + total);
         fee = buy_fees effective lp_b pr_b cr_b
     in if effective + fee > amt then effective - (effective + fee - amt) else effective)"

definition buy_core :: "int \<Rightarrow> int \<Rightarrow> int \<Rightarrow> int \<Rightarrow> int \<Rightarrow> int \<Rightarrow> int \<Rightarrow> (int \<times> int \<times> int) option" where
  "buy_core rb rq vq lp_b pr_b cr_b amt =
    (let qeff = rq + vq;
         effective = buy_effective lp_b pr_b cr_b amt;
         proto = swap_fee effective pr_b; creator = swap_fee effective cr_b
     in if effective < 1 then None
        else let net = effective - 1;
                 out_amt = rb * net div (qeff + net)
             in if out_amt = 0 \<or> out_amt > rb then None
                else Some (rb - out_amt, rq + amt - proto - creator, out_amt))"

definition swap_core ::
  "int \<Rightarrow> int \<Rightarrow> int \<Rightarrow> int \<Rightarrow> int \<Rightarrow> int \<Rightarrow> int \<Rightarrow> int \<Rightarrow> (int \<times> int \<times> int) option res" where
  "swap_core rb rq vq lp_b pr_b cr_b amt direction =
    (if rb = 0 \<or> rq = 0 then Inr None
     else if rq + vq \<le> 0 then Inr None
     else if lp_b + pr_b + cr_b \<ge> PUMP_DEN then Inr None
     else if direction = PUMP_DIR_BASE_TO_QUOTE
     then (if rb + amt = 0 then Inl ZeroDivisionError
           else Inr (sell_core rb rq vq lp_b pr_b cr_b amt))
     else if direction = PUMP_DIR_QUOTE_TO_BASE
     then (if PUMP_DEN + (lp_b + pr_b + cr_b) = 0 then Inl ZeroDivisionError
           else Inr (buy_core rb rq vq lp_b pr_b cr_b amt))
     else Inr None)"

text \<open>The dictionary the function returns: it has none of the fee keys and no status.\<close>

definition swapped_row :: "int \<Rightarrow> int \<Rightarrow> int \<Rightarrow> int \<Rightarrow> int \<Rightarrow> pump_row" where
  "swapped_row after_rb after_rq vq amt direction =
    \<lparr> row_kind = Some ''pump'', row_reserve_base = Some after_rb,
      row_reserve_quote = Some after_rq, row_virtual_quote = Some vq,
      row_base_vault = Some after_rb, row_quote_vault = Some after_rq,
      row_virtual_reserves = Some vq, row_lp = None, row_protocol = None,
      row_creator = None, row_status = None, row_amount_in = Some amt,
      row_direction = Some direction, row_base_out = None \<rparr>"

definition apply_swap :: "pump_row \<Rightarrow> int \<Rightarrow> int \<Rightarrow> pump_row option res" where
  "apply_swap before amt direction =
    (if amt \<le> 0 then Inr None
     else if or0 (row_status before) \<noteq> 0 then Inr None
     else rbind (row_base before) (\<lambda>rb. rbind (row_quote before) (\<lambda>rq.
       let vq = row_virtual before in
       rbind (swap_core rb rq vq (or0 (row_lp before)) (or0 (row_protocol before))
                (or0 (row_creator before)) amt direction) (\<lambda>r.
         case r of None \<Rightarrow> Inr None
         | Some (after_rb, after_rq, out_amt) \<Rightarrow>
             if out_amt \<le> 0 then Inr None
             else Inr (Some (swapped_row after_rb after_rq vq amt direction))))))"

section \<open>Interval halving\<close>

text \<open>
  \<^verbatim>\<open>while lo <= hi: mid = (lo + hi) // 2; ...\<close>, the loop both \<^verbatim>\<open>invert_virtual\<close> and
  \<^verbatim>\<open>apply_buy_exact_out\<close> run, over the decision the body takes at \<^verbatim>\<open>mid\<close>.
\<close>

datatype probe = Found | GoUp | GoDown

function bsearch :: "(int \<Rightarrow> probe res) \<Rightarrow> int \<Rightarrow> int \<Rightarrow> int option res" where
  "bsearch f lo hi =
    (if lo > hi then Inr None
     else let mid = (lo + hi) div 2
          in rbind (f mid) (\<lambda>d. case d of
               Found \<Rightarrow> Inr (Some mid)
             | GoUp \<Rightarrow> bsearch f (mid + 1) hi
             | GoDown \<Rightarrow> bsearch f lo (mid - 1)))"
  by auto
termination
  by (relation "measure (\<lambda>(f, lo, hi). nat (hi - lo + 1))") auto

declare bsearch.simps [simp del]

definition with_virtual :: "pump_row \<Rightarrow> int \<Rightarrow> pump_row" where
  "with_virtual before v = before \<lparr> row_virtual_quote := Some v, row_virtual_reserves := Some v \<rparr>"

text \<open>The reserves of a row that \<^const>\<open>apply_swap\<close> returned.\<close>

definition rows_match :: "pump_row \<Rightarrow> int \<Rightarrow> int \<Rightarrow> bool" where
  "rows_match got urb urq \<longleftrightarrow> row_reserve_base got = Some urb \<and> row_reserve_quote got = Some urq"

definition invert_probe :: "pump_row \<Rightarrow> int \<Rightarrow> int \<Rightarrow> int \<Rightarrow> int \<Rightarrow> int \<Rightarrow> probe res" where
  "invert_probe before amt direction urb urq mid =
    rbind (apply_swap (with_virtual before mid) amt direction) (\<lambda>r.
      case r of None \<Rightarrow> Inr GoDown
      | Some got \<Rightarrow>
          if rows_match got urb urq then Inr Found
          else if direction = PUMP_DIR_BASE_TO_QUOTE
          then Inr (if the (row_reserve_quote got) > urq then GoUp else GoDown)
          else Inr (if the (row_reserve_base got) < urb then GoUp else GoDown))"

definition invert_virtual :: "pump_row \<Rightarrow> int \<Rightarrow> int \<Rightarrow> pump_row \<Rightarrow> int option res" where
  "invert_virtual before amt direction published =
    rbind (row_base published) (\<lambda>urb. rbind (row_quote published) (\<lambda>urq.
    rbind (bsearch (invert_probe before amt direction urb urq) 0 (10 ^ 18)) (\<lambda>ans.
      case ans of None \<Rightarrow> Inr None
      | Some v \<Rightarrow>
          rbind (apply_swap (with_virtual before v) amt direction) (\<lambda>r.
            case r of None \<Rightarrow> Inr None
            | Some got \<Rightarrow> Inr (if rows_match got urb urq then Some v else None)))))"

section \<open>Invariants of a swap\<close>

lemma swap_fee_eq: "swap_fee n b = ceil_quot (n * b) PUMP_DEN"
  using div_mod_ceil [of PUMP_DEN "n * b"] by (simp add: swap_fee_def PUMP_DEN_def)

lemma swap_fee_nonneg: "0 \<le> n \<Longrightarrow> 0 \<le> b \<Longrightarrow> 0 \<le> swap_fee n b"
  by (simp add: swap_fee_eq ceil_quot_nonneg PUMP_DEN_def)

lemma swap_fee_mono: "m \<le> n \<Longrightarrow> 0 \<le> b \<Longrightarrow> swap_fee m b \<le> swap_fee n b"
  unfolding swap_fee_eq by (intro ceil_quot_mono mult_right_mono) (simp_all add: PUMP_DEN_def)

lemma buy_effective_budget:
  assumes "0 \<le> l" "0 \<le> p" "0 \<le> c"
  shows "buy_effective l p c amt + buy_fees (buy_effective l p c amt) l p c \<le> amt"
proof -
  define e where "e = amt * PUMP_DEN div (PUMP_DEN + (l + p + c))"
  define f where "f = buy_fees e l p c"
  have eff: "buy_effective l p c amt = (if e + f > amt then amt - f else e)"
    by (simp add: buy_effective_def Let_def e_def f_def)
  have "buy_fees (amt - f) l p c \<le> f" if "e + f > amt"
    unfolding f_def buy_fees_def
    by (intro add_mono swap_fee_mono) (use assms that in \<open>simp_all add: f_def buy_fees_def\<close>)
  then show ?thesis unfolding eff by (auto simp: f_def)
qed

lemma sell_core_props:
  assumes "0 < rb" "0 \<le> rq" "0 < rq + vq" "0 < amt" "0 \<le> l" "0 \<le> p" "0 \<le> c"
    and "sell_core rb rq vq l p c amt = Some (rb', rq', out_amt)"
  shows "rb' = rb + amt" "0 \<le> rq'" "rb * (rq + vq) \<le> rb' * (rq' + vq)" "0 < rq' + vq"
proof -
  define q where "q = rq + vq"
  define gross where "gross = q * amt div (rb + amt)"
  have r: "rb' = rb + amt" "rq' = rq - (gross - swap_fee gross l)" "gross - swap_fee gross l \<le> rq"
    using assms(8) unfolding sell_core_def Let_def q_def [symmetric] gross_def [symmetric]
    by (auto split: if_split_asm)
  have q: "0 < q" using assms by (simp add: q_def)
  note K = product_kept [OF assms(1) less_imp_le [OF assms(4)] less_imp_le [OF q], folded gross_def]
  have lp: "0 \<le> swap_fee gross l" using K(3) assms by (simp add: swap_fee_nonneg)
  have ge: "q - gross \<le> rq' + vq" using r(2) lp by (simp add: q_def)
  show "rb' = rb + amt" "0 \<le> rq'" using r by simp_all
  show "0 < rq' + vq" using ge K(2) q by linarith
  have "(q - gross) * (rb + amt) \<le> (rq' + vq) * (rb + amt)"
    using ge assms by (intro mult_right_mono) auto
  then show "rb * (rq + vq) \<le> rb' * (rq' + vq)"
    using K(1) r(1) by (simp add: q_def mult.commute)
qed

lemma buy_core_props:
  assumes "0 < rb" "0 \<le> rq" "0 < rq + vq" "0 \<le> l" "0 \<le> p" "0 \<le> c"
    and "buy_core rb rq vq l p c amt = Some (rb', rq', out_amt)"
  shows "0 < rb'" "rq \<le> rq'" "rb * (rq + vq) \<le> rb' * (rq' + vq)" "0 < rq' + vq"
    "rb' = rb - out_amt" "0 < out_amt"
proof -
  define q where "q = rq + vq"
  define e where "e = buy_effective l p c amt"
  have e: "1 \<le> e" and out: "out_amt = rb * (e - 1) div (q + (e - 1))" "out_amt \<noteq> 0"
    and r: "rb' = rb - out_amt" "rq' = rq + amt - swap_fee e p - swap_fee e c"
    using assms(7) unfolding buy_core_def Let_def q_def [symmetric] e_def [symmetric]
    by (auto split: if_split_asm)
  have q: "0 < q" using assms by (simp add: q_def)
  have e1: "0 \<le> e - 1" using e by simp
  note K = product_kept [OF q e1 less_imp_le [OF assms(1)], folded out(1)]
  have fees: "0 \<le> swap_fee e l" "0 \<le> swap_fee e p" "0 \<le> swap_fee e c"
    using e assms by (simp_all add: swap_fee_nonneg)
  have "e + (swap_fee e l + swap_fee e p + swap_fee e c) \<le> amt"
    using buy_effective_budget [OF assms(4-6), of amt, folded e_def] by (simp add: buy_fees_def)
  then have grow: "rq + (e - 1) \<le> rq'" using r fees by simp
  show "0 < rb'" using r K(2) assms by simp
  show "rq \<le> rq'" using grow e by simp
  show "0 < rq' + vq" using grow e q by (simp add: q_def)
  show "rb' = rb - out_amt" "0 < out_amt" using r K(3) out(2) by simp_all
  have "(rb - out_amt) * (q + (e - 1)) \<le> (rb - out_amt) * (rq' + vq)"
    using grow K(2) assms(1) by (intro mult_left_mono) (simp_all add: q_def)
  then show "rb * (rq + vq) \<le> rb' * (rq' + vq)" using K(1) r(1) by (simp add: q_def)
qed

text \<open>The product of the base reserve and the effective quote reserve of a row.\<close>

definition row_k :: "pump_row \<Rightarrow> int" where
  "row_k s = (case (row_base s, row_quote s) of (Inr rb, Inr rq) \<Rightarrow> rb * (rq + row_virtual s) | _ \<Rightarrow> 0)"

definition row_ok :: "pump_row \<Rightarrow> bool" where
  "row_ok s \<longleftrightarrow> (case (row_base s, row_quote s) of (Inr rb, Inr rq) \<Rightarrow> 0 \<le> rb \<and> 0 \<le> rq | _ \<Rightarrow> False)
     \<and> 0 \<le> or0 (row_lp s) \<and> 0 \<le> or0 (row_protocol s) \<and> 0 \<le> or0 (row_creator s)"

lemma row_okE:
  assumes "row_ok s"
  obtains rb rq where "row_base s = Inr rb" "row_quote s = Inr rq" "0 \<le> rb" "0 \<le> rq"
    "0 \<le> or0 (row_lp s)" "0 \<le> or0 (row_protocol s)" "0 \<le> or0 (row_creator s)"
  using assms by (auto simp: row_ok_def split: sum.splits)

lemma apply_swap_SomeD:
  assumes "apply_swap s amt d = Inr (Some s')"
  obtains rb rq rb' rq' out_amt where
    "0 < amt" "or0 (row_status s) = 0" "row_base s = Inr rb" "row_quote s = Inr rq"
    "swap_core rb rq (row_virtual s) (or0 (row_lp s)) (or0 (row_protocol s)) (or0 (row_creator s)) amt d
       = Inr (Some (rb', rq', out_amt))"
    "0 < out_amt" "row_base s' = Inr rb'" "row_quote s' = Inr rq'" "row_virtual s' = row_virtual s"
    "row_lp s' = None" "row_protocol s' = None" "row_creator s' = None" "row_status s' = None"
    "row_reserve_base s' = Some rb'" "row_reserve_quote s' = Some rq'"
proof -
  obtain rb rq r where pre: "0 < amt" "or0 (row_status s) = 0" "row_base s = Inr rb" "row_quote s = Inr rq"
    and core: "swap_core rb rq (row_virtual s) (or0 (row_lp s)) (or0 (row_protocol s)) (or0 (row_creator s)) amt d
       = Inr r"
    and fin: "(case r of None \<Rightarrow> Inr None
         | Some (after_rb, after_rq, out_amt) \<Rightarrow>
             if out_amt \<le> 0 then Inr None
             else Inr (Some (swapped_row after_rb after_rq (row_virtual s) amt d))) = (Inr (Some s') :: pump_row option res)"
    using assms unfolding apply_swap_def Let_def
    by (auto simp: rbind_Inr_iff not_le split: if_split_asm)
  obtain rb' rq' out_amt where r: "r = Some (rb', rq', out_amt)" "0 < out_amt"
    and s': "s' = swapped_row rb' rq' (row_virtual s) amt d"
    using fin by (auto split: option.split_asm prod.split_asm if_split_asm)
  note h = pre core [unfolded r(1)] r(2)
  show ?thesis
    by (rule that [OF h]) (simp_all add: s' swapped_row_def row_base_def row_quote_def row_virtual_def)
qed

lemma swap_core_SomeD:
  assumes "swap_core rb rq vq l p c amt d = Inr (Some r)"
  shows "rb \<noteq> 0" "rq \<noteq> 0" "0 < rq + vq" "l + p + c < PUMP_DEN"
    "d = PUMP_DIR_BASE_TO_QUOTE \<and> sell_core rb rq vq l p c amt = Some r
     \<or> d = PUMP_DIR_QUOTE_TO_BASE \<and> buy_core rb rq vq l p c amt = Some r"
  using assms unfolding swap_core_def by (auto split: if_split_asm)

lemma apply_swap_keeps:
  assumes ok: "row_ok s" and ap: "apply_swap s amt d = Inr (Some s')"
  shows "row_ok s'" "row_k s \<le> row_k s'"
proof -
  obtain rb rq rb' rq' out_amt where
    amt: "0 < amt" and s: "row_base s = Inr rb" "row_quote s = Inr rq" and
    core: "swap_core rb rq (row_virtual s) (or0 (row_lp s)) (or0 (row_protocol s)) (or0 (row_creator s)) amt d
       = Inr (Some (rb', rq', out_amt))" and
    s': "row_base s' = Inr rb'" "row_quote s' = Inr rq'" "row_virtual s' = row_virtual s"
      "row_lp s' = None" "row_protocol s' = None" "row_creator s' = None"
    by (rule apply_swap_SomeD [OF ap])
  have nn: "0 \<le> rb" "0 \<le> rq" "0 \<le> or0 (row_lp s)" "0 \<le> or0 (row_protocol s)" "0 \<le> or0 (row_creator s)"
    using row_okE [OF ok] s by (metis sum.inject(2))+
  note C = swap_core_SomeD [OF core]
  have rb: "0 < rb" using C(1) nn by simp
  have "0 \<le> rb' \<and> 0 \<le> rq' \<and> rb * (rq + row_virtual s) \<le> rb' * (rq' + row_virtual s)"
    using C(5)
  proof (elim disjE conjE)
    assume "sell_core rb rq (row_virtual s) (or0 (row_lp s)) (or0 (row_protocol s)) (or0 (row_creator s)) amt
      = Some (rb', rq', out_amt)"
    from sell_core_props [OF rb nn(2) C(3) amt nn(3-5) this] show ?thesis using rb amt by simp
  next
    assume "buy_core rb rq (row_virtual s) (or0 (row_lp s)) (or0 (row_protocol s)) (or0 (row_creator s)) amt
      = Some (rb', rq', out_amt)"
    from buy_core_props [OF rb nn(2) C(3) nn(3-5) this] show ?thesis using nn by simp
  qed
  then show "row_ok s'" "row_k s \<le> row_k s'"
    using s s' by (simp_all add: row_ok_def row_k_def or0_def)
qed

section \<open>The halving search\<close>

lemma bsearch_sound:
  "bsearch f lo hi = Inr (Some v) \<Longrightarrow> lo \<le> v \<and> v \<le> hi \<and> f v = Inr Found"
proof (induction f lo hi rule: bsearch.induct)
  case (1 f lo hi)
  define mid where "mid = (lo + hi) div 2"
  have le: "lo \<le> hi" using 1(3) by (auto simp: bsearch.simps [of f lo hi] split: if_split_asm)
  obtain d where d: "f mid = Inr d" and r: "(case d of Found \<Rightarrow> Inr (Some mid)
      | GoUp \<Rightarrow> bsearch f (mid + 1) hi | GoDown \<Rightarrow> bsearch f lo (mid - 1)) = Inr (Some v)"
    using 1(3) le unfolding bsearch.simps [of f lo hi] Let_def mid_def [symmetric]
    by (auto simp: rbind_Inr_iff)
  have m: "lo \<le> mid" "mid \<le> hi" using le by (simp_all add: mid_def)
  show ?case
  proof (cases d)
    case Found
    then show ?thesis using r d m by simp
  next
    case GoUp
    then have "bsearch f (mid + 1) hi = Inr (Some v)" using r by simp
    from 1(1) [OF _ mid_def d GoUp this] show ?thesis using le m by simp
  next
    case GoDown
    then have "bsearch f lo (mid - 1) = Inr (Some v)" using r by simp
    from 1(2) [OF _ mid_def d GoDown this] show ?thesis using le m by simp
  qed
qed

lemma bsearch_complete:
  assumes "lo \<le> v" "v \<le> hi"
    and "\<And>m. lo \<le> m \<Longrightarrow> m \<le> hi \<Longrightarrow>
      f m = Inr Found \<or> f m = Inr GoUp \<and> m < v \<or> f m = Inr GoDown \<and> v < m"
  shows "\<exists>w. bsearch f lo hi = Inr (Some w)"
  using assms
proof (induction f lo hi rule: bsearch.induct)
  case (1 f lo hi)
  define mid where "mid = (lo + hi) div 2"
  have le: "\<not> lo > hi" and m: "lo \<le> mid" "mid \<le> hi" using 1(3,4) by (simp_all add: mid_def)
  have step: "bsearch f lo hi = rbind (f mid) (\<lambda>d. case d of Found \<Rightarrow> Inr (Some mid)
      | GoUp \<Rightarrow> bsearch f (mid + 1) hi | GoDown \<Rightarrow> bsearch f lo (mid - 1))"
    using le unfolding bsearch.simps [of f lo hi] Let_def mid_def [symmetric] by simp
  from 1(5) [OF m] consider "f mid = Inr Found" | "f mid = Inr GoUp" "mid < v" | "f mid = Inr GoDown" "v < mid"
    by blast
  then show ?case
  proof cases
    case 1
    then show ?thesis using step by simp
  next
    case 2
    have "\<exists>w. bsearch f (mid + 1) hi = Inr (Some w)"
      using "1.IH"(1) [OF le mid_def 2(1) refl] "1.prems" 2(2) m by simp
    then show ?thesis using step 2 by simp
  next
    case 3
    have "\<exists>w. bsearch f lo (mid - 1) = Inr (Some w)"
      using "1.IH"(2) [OF le mid_def 3(1) refl] "1.prems" 3(2) m by simp
    then show ?thesis using step 3 by simp
  qed
qed

lemma row_with_virtual [simp]:
  "row_base (with_virtual s v) = row_base s" "row_quote (with_virtual s v) = row_quote s"
  "row_virtual (with_virtual s v) = v" "row_lp (with_virtual s v) = row_lp s"
  "row_protocol (with_virtual s v) = row_protocol s" "row_creator (with_virtual s v) = row_creator s"
  "row_status (with_virtual s v) = row_status s"
  by (simp_all add: with_virtual_def row_base_def row_quote_def row_virtual_def split: option.split)

lemma rows_match_swapped [simp]:
  "rows_match (swapped_row rb rq v amt d) urb urq \<longleftrightarrow> rb = urb \<and> rq = urq"
  "row_reserve_base (swapped_row rb rq v amt d) = Some rb"
  "row_reserve_quote (swapped_row rb rq v amt d) = Some rq"
  by (auto simp: rows_match_def swapped_row_def)

text \<open>A buy against the virtual reserve \<open>v\<close>, every other input fixed.\<close>

lemma apply_buy_virtual:
  assumes "0 < amt" "or0 (row_status s) = 0" "row_base s = Inr rb" "row_quote s = Inr rq"
    "0 < rb" "0 < rq" "0 \<le> v"
    "0 \<le> or0 (row_lp s)" "0 \<le> or0 (row_protocol s)" "0 \<le> or0 (row_creator s)"
    "or0 (row_lp s) + or0 (row_protocol s) + or0 (row_creator s) < PUMP_DEN"
  defines "e \<equiv> buy_effective (or0 (row_lp s)) (or0 (row_protocol s)) (or0 (row_creator s)) amt"
  defines "out_amt \<equiv> rb * (e - 1) div (rq + v + (e - 1))"
  shows "apply_swap (with_virtual s v) amt PUMP_DIR_QUOTE_TO_BASE =
    Inr (if e < 1 \<or> out_amt = 0 then None
         else Some (swapped_row (rb - out_amt)
           (rq + amt - swap_fee e (or0 (row_protocol s)) - swap_fee e (or0 (row_creator s))) v amt
           PUMP_DIR_QUOTE_TO_BASE))"
proof (cases "e < 1")
  case True
  then show ?thesis using assms(1-11)
    by (simp add: apply_swap_def swap_core_def buy_core_def Let_def dir_defs flip: e_def)
next
  case False
  have q: "0 < rq + v" and e1: "0 \<le> e - 1" using assms False by simp_all
  note K = product_kept [OF q e1 less_imp_le [OF assms(5)], folded out_amt_def]
  show ?thesis using assms(1-11) False K
    by (simp add: apply_swap_def swap_core_def buy_core_def Let_def dir_defs flip: e_def out_amt_def)
qed

text \<open>The dictionary form of a pool as the quoting kernel sees it.\<close>

definition row_of_pump :: "Pump \<Rightarrow> pump_row" where
  "row_of_pump p =
    \<lparr> row_kind = Some ''pump'', row_reserve_base = Some (reserve_base p),
      row_reserve_quote = Some (reserve_quote p), row_virtual_quote = Some (virtual_quote p),
      row_base_vault = None, row_quote_vault = None, row_virtual_reserves = None,
      row_lp = Some (lp_fee_bps p), row_protocol = Some (protocol_fee_bps p),
      row_creator = Some (creator_fee_bps p), row_status = Some (pm_status p),
      row_amount_in = None, row_direction = None, row_base_out = None \<rparr>"

lemma row_of_pump_simps [simp]:
  "row_base (row_of_pump p) = Inr (reserve_base p)" "row_quote (row_of_pump p) = Inr (reserve_quote p)"
  "row_virtual (row_of_pump p) = virtual_quote p" "or0 (row_lp (row_of_pump p)) = lp_fee_bps p"
  "or0 (row_protocol (row_of_pump p)) = protocol_fee_bps p"
  "or0 (row_creator (row_of_pump p)) = creator_fee_bps p" "or0 (row_status (row_of_pump p)) = pm_status p"
  by (simp_all add: row_of_pump_def row_base_def row_quote_def row_virtual_def or0_def)

lemma effective_agree:
  assumes "lp_fee_bps p \<le> PUMP_DEN" "protocol_fee_bps p \<le> PUMP_DEN" "creator_fee_bps p \<le> PUMP_DEN"
  shows "pump_effective p amt = Some (buy_effective (lp_fee_bps p) (protocol_fee_bps p) (creator_fee_bps p) amt)"
proof -
  have "pump_fees p n = Some (buy_fees n (lp_fee_bps p) (protocol_fee_bps p) (creator_fee_bps p))" for n
    using assms by (simp add: pump_fees_def fees3_eq buy_fees_def swap_fee_eq)
  then show ?thesis by (simp add: pump_effective_def buy_effective_def Let_def)
qed

lemma quote_buy_core:
  assumes "pump_ok p" "pm_status p = 0" "0 < amt" "pm_disabled p AND 8 = 0"
    "0 < reserve_base p" "0 < reserve_quote p" "0 < reserve_quote p + virtual_quote p"
    "reserve_quote p + virtual_quote p \<le> U64" "reserve_base p \<le> U64"
    "lp_fee_bps p + protocol_fee_bps p + creator_fee_bps p < PUMP_DEN"
  shows "quote_pump p amt 0 = map_option (\<lambda>(rb, rq, out_amt). out_amt)
    (buy_core (reserve_base p) (reserve_quote p) (virtual_quote p)
       (lp_fee_bps p) (protocol_fee_bps p) (creator_fee_bps p) amt)"
proof -
  define e where "e = buy_effective (lp_fee_bps p) (protocol_fee_bps p) (creator_fee_bps p) amt"
  define q where "q = reserve_quote p + virtual_quote p"
  define out_amt where "out_amt = reserve_base p * (e - 1) div (q + (e - 1))"
  have eff: "pump_effective p amt = Some e"
    unfolding e_def using assms(1,10) by (intro effective_agree) (simp_all add: pump_ok_def)
  have out: "e < 1 \<or> out_amt < reserve_base p"
    unfolding out_amt_def using assms product_kept(2) [of q "e - 1" "reserve_base p"]
    by (cases "e < 1") (simp_all add: q_def)
  have L: "quote_pump p amt 0 = (if e < 1 then None else if out_amt = 0 then None else Some out_amt)"
    using assms eff out unfolding quote_pump_def pump_buy_out_def Let_def q_def [symmetric] out_amt_def [symmetric]
    by (auto simp: out_amt_def [symmetric])
  show ?thesis
    using out unfolding L buy_core_def Let_def q_def [symmetric] e_def [symmetric] out_amt_def [symmetric]
    by auto
qed

section \<open>Properties\<close>

text \<open>
  C8: every swap the apply function accepts leaves both vaults non-negative and does not
  lower the product of the base reserve and the effective quote reserve, in both directions
  and at every fee level.
\<close>
theorem apply_swap_keeps_product:
  assumes "row_ok s" and "apply_swap s amt d = Inr (Some s')"
  shows "row_ok s' \<and> row_k s \<le> row_k s'"
  using apply_swap_keeps [OF assms] by blast

theorem apply_swap_keeps_product_witness:
  "\<exists>s'. apply_swap (row_of_pump sample_pump) 5000 0 = Inr (Some s')
      \<and> row_k (row_of_pump sample_pump) \<le> row_k s'"
proof -
  have ok: "row_ok (row_of_pump sample_pump)" by code_simp
  have "case apply_swap (row_of_pump sample_pump) 5000 0 of Inr (Some s') \<Rightarrow> True | _ \<Rightarrow> False"
    by code_simp
  then obtain s' where "apply_swap (row_of_pump sample_pump) 5000 0 = Inr (Some s')"
    by (auto split: sum.split_asm option.split_asm)
  with apply_swap_keeps_product [OF ok this] show ?thesis by blast
qed

text \<open>
  C16: the quote and the state change agree on buys. On an enabled pool of machine-sized
  reserves the quoting kernel returns an amount exactly when the apply function accepts the
  buy, and it is the amount by which the base reserve falls.
\<close>
theorem buy_quote_matches_apply:
  assumes "pump_ok p" and "pm_status p = 0" and "0 < amt" and "pm_disabled p AND 8 = 0"
    and "reserve_quote p + virtual_quote p \<le> U64" and "reserve_base p \<le> U64"
  shows "(case quote_pump p amt 0 of
            None \<Rightarrow> apply_swap (row_of_pump p) amt 0 = Inr None
          | Some out_amt \<Rightarrow> \<exists>s'. apply_swap (row_of_pump p) amt 0 = Inr (Some s')
              \<and> row_base s' = Inr (reserve_base p - out_amt))"
proof (cases "0 < reserve_base p \<and> 0 < reserve_quote p \<and> 0 < reserve_quote p + virtual_quote p
    \<and> lp_fee_bps p + protocol_fee_bps p + creator_fee_bps p < PUMP_DEN")
  case True
  define r where "r = buy_core (reserve_base p) (reserve_quote p) (virtual_quote p)
       (lp_fee_bps p) (protocol_fee_bps p) (creator_fee_bps p) amt"
  have q: "quote_pump p amt 0 = map_option (\<lambda>(rb, rq, out_amt). out_amt) r"
    unfolding r_def using assms True by (intro quote_buy_core) auto
  have fees: "0 \<le> lp_fee_bps p" "0 \<le> protocol_fee_bps p" "0 \<le> creator_fee_bps p"
    using assms(1) by (simp_all add: pump_ok_def)
  have "swap_core (reserve_base p) (reserve_quote p) (virtual_quote p)
       (lp_fee_bps p) (protocol_fee_bps p) (creator_fee_bps p) amt 0 = Inr r"
    using True fees by (simp add: swap_core_def dir_defs PUMP_DEN_def flip: r_def)
  then have ap: "apply_swap (row_of_pump p) amt 0 = (case r of None \<Rightarrow> Inr None
      | Some (rb', rq', out_amt) \<Rightarrow> if out_amt \<le> 0 then Inr None
          else Inr (Some (swapped_row rb' rq' (virtual_quote p) amt 0)))"
    using assms(2,3) by (simp add: apply_swap_def)
  show ?thesis
  proof (cases r)
    case None
    then show ?thesis using q ap by simp
  next
    case (Some t)
    obtain rb' rq' out_amt where t: "t = (rb', rq', out_amt)" by (cases t)
    have "rb' = reserve_base p - out_amt" "0 < out_amt"
      using buy_core_props [of "reserve_base p" "reserve_quote p" "virtual_quote p" "lp_fee_bps p"
          "protocol_fee_bps p" "creator_fee_bps p" amt rb' rq' out_amt] True fees Some t
      by (simp_all add: r_def)
    then show ?thesis using q ap Some t by (simp add: row_base_def swapped_row_def)
  qed
next
  case False
  have "quote_pump p amt 0 = None"
    using False assms(1) by (auto simp: quote_pump_def pump_ok_def Let_def)
  moreover have "apply_swap (row_of_pump p) amt 0 = Inr None"
    using False assms(1-3) by (auto simp: apply_swap_def swap_core_def pump_ok_def Let_def)
  ultimately show ?thesis by simp
qed

theorem buy_quote_matches_apply_witness:
  "\<exists>s'. apply_swap (row_of_pump sample_pump) 5000 0 = Inr (Some s') \<and> row_base s' = Inr (1000000 - 2485)"
proof -
  have "quote_pump sample_pump 5000 0 = Some 2485" by code_simp
  with buy_quote_matches_apply [OF sample_ok(2), of 5000] show ?thesis
    by (simp add: sample_pump_def U64_def)
qed

text \<open>
  A virtual reserve the search returns explains the published state: replaying the swap
  with it gives exactly the published vaults, and it lies in the searched range.
\<close>
lemma invert_virtual_sound:
  assumes "invert_virtual before amt d published = Inr (Some v)"
  shows "0 \<le> v \<and> v \<le> 10 ^ 18 \<and>
    (\<exists>got urb urq. apply_swap (with_virtual before v) amt d = Inr (Some got)
       \<and> row_base published = Inr urb \<and> row_quote published = Inr urq \<and> rows_match got urb urq)"
proof -
  obtain urb urq where "row_base published = Inr urb" "row_quote published = Inr urq"
    and "bsearch (invert_probe before amt d urb urq) 0 (10 ^ 18) = Inr (Some v)"
    and "\<exists>got. apply_swap (with_virtual before v) amt d = Inr (Some got) \<and> rows_match got urb urq"
    using assms unfolding invert_virtual_def
    by (auto simp: rbind_Inr_iff split: option.split_asm if_split_asm)
  with bsearch_sound show ?thesis by blast
qed

text \<open>
  For a buy the search is complete: when some virtual reserve of the searched range
  explains the published vaults, the search returns one.
\<close>
lemma invert_virtual_buy_complete:
  assumes "row_ok before"
    and "0 \<le> v" and "v \<le> 10 ^ 18"
    and "apply_swap (with_virtual before v) amt PUMP_DIR_QUOTE_TO_BASE = Inr (Some got)"
    and "row_base published = Inr urb" and "row_quote published = Inr urq"
    and "rows_match got urb urq"
  shows "\<exists>w. invert_virtual before amt PUMP_DIR_QUOTE_TO_BASE published = Inr (Some w)"
proof -
  obtain rb rq where s: "row_base before = Inr rb" "row_quote before = Inr rq" "0 \<le> rb" "0 \<le> rq"
    and fees: "0 \<le> or0 (row_lp before)" "0 \<le> or0 (row_protocol before)" "0 \<le> or0 (row_creator before)"
    by (rule row_okE [OF assms(1)])
  have pre: "0 < amt" "or0 (row_status before) = 0" "0 < rb" "0 < rq"
    "or0 (row_lp before) + or0 (row_protocol before) + or0 (row_creator before) < PUMP_DEN"
    using apply_swap_SomeD [OF assms(4)] s swap_core_SomeD
    by (metis (no_types, lifting) row_with_virtual sum.inject(2) order_le_less)+
  define e where "e = buy_effective (or0 (row_lp before)) (or0 (row_protocol before)) (or0 (row_creator before)) amt"
  define out where "out x = rb * (e - 1) div (rq + x + (e - 1))" for x
  define rq' where "rq' = rq + amt - swap_fee e (or0 (row_protocol before)) - swap_fee e (or0 (row_creator before))"
  have ap: "apply_swap (with_virtual before x) amt PUMP_DIR_QUOTE_TO_BASE = Inr (if e < 1 \<or> out x = 0 then None
      else Some (swapped_row (rb - out x) rq' x amt PUMP_DIR_QUOTE_TO_BASE))" if "0 \<le> x" for x
    using apply_buy_virtual [OF pre(1,2) s(1,2) pre(3,4) that fees pre(5)]
    by (simp add: e_def out_def rq'_def)
  have e: "1 \<le> e" "out v \<noteq> 0" and u: "urb = rb - out v" "urq = rq'"
    using assms(4,7) ap [OF assms(2)] by (auto split: if_split_asm)
  have anti: "out y \<le> out x" "0 \<le> out y" if "0 \<le> x" "x \<le> y" for x y
    using that e pre by (auto simp: out_def intro!: zdiv_mono2 simp: pos_imp_zdiv_nonneg_iff)
  let ?f = "invert_probe before amt PUMP_DIR_QUOTE_TO_BASE urb urq"
  have probe: "?f m = Inr (if out m = 0 then GoDown else if out m = out v then Found
      else if out v < out m then GoUp else GoDown)" if "0 \<le> m" for m
    using ap [OF that] e u by (simp add: invert_probe_def dir_defs)
  have "\<exists>w. bsearch ?f 0 (10 ^ 18) = Inr (Some w)"
  proof (rule bsearch_complete [OF assms(2,3)])
    fix m :: int
    assume "0 \<le> m"
    with probe anti(1) [of v m] anti(1) [of m v] anti(2) [of v v] e(2) assms(2)
    show "?f m = Inr Found \<or> ?f m = Inr GoUp \<and> m < v \<or> ?f m = Inr GoDown \<and> v < m"
      by (cases "m \<le> v"; cases "m = v") auto
  qed
  then obtain w where w: "bsearch ?f 0 (10 ^ 18) = Inr (Some w)" by auto
  from bsearch_sound [OF w] have "0 \<le> w" "?f w = Inr Found" by auto
  then have "out w \<noteq> 0" "out w = out v" using probe by (auto split: if_split_asm)
  then show ?thesis
    using w assms(5,6) ap [OF \<open>0 \<le> w\<close>] e u by (simp add: invert_virtual_def)
qed

end
