(* ===== verification/Base58.thy ===== *)
theory Base58
  imports Py_Prelude
begin

text \<open>
  The base58 routines of \<^verbatim>\<open>arb-cap/record_dlmm.py\<close> (\<open>_pk\<close>, \<open>b58decode\<close>, \<open>_b58_any\<close>) and
  \<^verbatim>\<open>arb-exec/scripts/exec_gates.py\<close> (\<open>b58encode\<close>), with the \<^verbatim>\<open>int.bit_length\<close> and
  \<^verbatim>\<open>int.to_bytes\<close> calls they make. Results: the digit loop terminates and writes the base-58
  numeral; a 32-byte key survives encoding and decoding; decoding always yields 32 bytes.
\<close>

definition B58 :: string where
  "B58 = ''123456789ABCDEFGHJKLMNPQRSTUVWXYZabcdefghijkmnopqrstuvwxyz''"

text \<open>\<^verbatim>\<open>s.index(c)\<close>\<close>

fun index_of :: "'a \<Rightarrow> 'a list \<Rightarrow> nat option" where
  "index_of c [] = None"
| "index_of c (x # xs) = (if x = c then Some 0 else map_option Suc (index_of c xs))"

fun bit_length :: "nat \<Rightarrow> nat" where
  "bit_length n = (if n = 0 then 0 else Suc (bit_length (n div 2)))"

declare bit_length.simps [simp del]

definition to_bytes_be :: "nat \<Rightarrow> nat \<Rightarrow> bytes" where
  "to_bytes_be k n = rev (le_bytes k n)"

text \<open>\<^verbatim>\<open>for b in raw: if b == 0: pad += 1 else: break\<close>\<close>

definition leading :: "'a \<Rightarrow> 'a list \<Rightarrow> nat" where
  "leading z xs = length (takeWhile (\<lambda>x. x = z) xs)"

text \<open>\<^verbatim>\<open>while n: n, r = divmod(n, 58); out = alph[r] + out\<close>\<close>

fun b58_loop :: "nat \<Rightarrow> string \<Rightarrow> string" where
  "b58_loop n out = (if n = 0 then out else b58_loop (n div 58) (B58 ! (n mod 58) # out))"

declare b58_loop.simps [simp del]

definition record_pk :: "bytes \<Rightarrow> string" where
  "record_pk raw =
     (let out = b58_loop (be_nat raw) []
      in replicate (leading 0 raw) (CHR ''1'') @ (if out = [] then ''1'' else out))"

definition gates_b58encode :: "bytes \<Rightarrow> string" where
  "gates_b58encode raw =
     (let body = b58_loop (be_nat raw) []
      in replicate (leading 0 raw) (CHR ''1'') @ body)"

text \<open>\<^verbatim>\<open>for c in s: n = n * 58 + alph.index(c)\<close>\<close>

fun b58_value :: "nat \<Rightarrow> string \<Rightarrow> nat res" where
  "b58_value n [] = Inr n"
| "b58_value n (c # cs) =
     (case index_of c B58 of
        None \<Rightarrow> Inl (ValueError ''substring not found'')
      | Some i \<Rightarrow> b58_value (n * 58 + i) cs)"

definition b58_any :: "string \<Rightarrow> bytes res" where
  "b58_any s = rbind (b58_value 0 s) (\<lambda>n.
     Inr (zeros (leading (CHR ''1'') s)
          @ (if n = 0 then [] else to_bytes_be ((bit_length n + 7) div 8) n)))"

text \<open>\<^verbatim>\<open>raw[-32:] if len(raw) >= 32 else raw.rjust(32, b"\x00")\<close>\<close>

definition fit32 :: "bytes \<Rightarrow> bytes" where
  "fit32 raw = (if 32 \<le> length raw then drop (length raw - 32) raw
                else zeros (32 - length raw) @ raw)"

definition b58decode :: "string \<Rightarrow> bytes res" where
  "b58decode s = rbind (b58_any s) (\<lambda>raw. Inr (fit32 raw))"

section \<open>Numerals\<close>

lemma distinct_B58: "distinct B58"
  by (simp add: B58_def)

lemma length_B58 [simp]: "length B58 = 58"
  by (simp add: B58_def)

lemma B58_zero: "B58 ! i = CHR ''1'' \<Longrightarrow> i < 58 \<Longrightarrow> i = 0"
  using nth_eq_iff_index_eq [OF distinct_B58, of i 0] by (simp add: B58_def)

lemma index_of_nth: "distinct xs \<Longrightarrow> i < length xs \<Longrightarrow> index_of (xs ! i) xs = Some i"
proof (induction xs arbitrary: i)
  case (Cons x xs)
  then show ?case by (cases i) auto
qed simp

lemma index_of_B58: "i < 58 \<Longrightarrow> index_of (B58 ! i) B58 = Some i"
  by (simp add: index_of_nth distinct_B58)

lemma b58_value_append:
  "b58_value n (xs @ ys) = rbind (b58_value n xs) (\<lambda>m. b58_value m ys)"
  by (induction xs arbitrary: n) (auto split: option.splits)

lemma b58_value_ones: "b58_value 0 (replicate k (CHR ''1'') @ cs) = b58_value 0 cs"
  using index_of_B58 [of 0] by (induction k) (auto simp: B58_def)

lemma b58_loop_acc: "b58_loop n out = b58_loop n [] @ out"
proof (induction n arbitrary: out rule: less_induct)
  case (less n)
  show ?case
  proof (cases "n = 0")
    case True
    then show ?thesis by (simp add: b58_loop.simps)
  next
    case False
    then have IH: "b58_loop (n div 58) xs = b58_loop (n div 58) [] @ xs" for xs
      by (rule_tac less.IH) simp
    have "b58_loop n out = b58_loop (n div 58) (B58 ! (n mod 58) # out)"
      using False by (simp add: b58_loop.simps [of n out])
    also have "\<dots> = b58_loop (n div 58) [] @ B58 ! (n mod 58) # out"
      by (rule IH)
    also have "\<dots> = b58_loop (n div 58) [B58 ! (n mod 58)] @ out"
      by (subst IH [of "[B58 ! (n mod 58)]"]) simp
    also have "\<dots> = b58_loop n [] @ out"
      using False by (simp add: b58_loop.simps [of n "[]"])
    finally show ?thesis .
  qed
qed

lemma b58_loop_step: "n \<noteq> 0 \<Longrightarrow> b58_loop n [] = b58_loop (n div 58) [] @ [B58 ! (n mod 58)]"
  by (subst b58_loop.simps, subst b58_loop_acc) simp

lemma b58_value_loop: "b58_value 0 (b58_loop n []) = Inr n"
proof (induction n rule: less_induct)
  case (less n)
  show ?case
  proof (cases "n = 0")
    case True
    then show ?thesis by (simp add: b58_loop.simps)
  next
    case False
    then have "b58_value 0 (b58_loop (n div 58) []) = Inr (n div 58)" by (rule_tac less.IH) simp
    then show ?thesis
      using False by (simp add: b58_loop_step b58_value_append index_of_B58)
  qed
qed

lemma b58_loop_hd: "n \<noteq> 0 \<Longrightarrow> b58_loop n [] \<noteq> [] \<and> hd (b58_loop n []) \<noteq> CHR ''1''"
proof (induction n rule: less_induct)
  case (less n)
  show ?case
  proof (cases "n div 58 = 0")
    case True
    then have "n mod 58 = n" by (auto simp: div_eq_0_iff)
    then have "B58 ! (n mod 58) \<noteq> CHR ''1''" using B58_zero less.prems True by fastforce
    then show ?thesis
      using less.prems True by (simp add: b58_loop_step b58_loop.simps [of 0])
  next
    case False
    then have "b58_loop (n div 58) [] \<noteq> [] \<and> hd (b58_loop (n div 58) []) \<noteq> CHR ''1''"
      by (rule_tac less.IH) (use less.prems in simp_all)
    then show ?thesis using less.prems by (simp add: b58_loop_step)
  qed
qed

section \<open>Minimal big-endian bytes\<close>

lemma bit_length_0 [simp]: "bit_length 0 = 0"
  by (simp add: bit_length.simps)

lemma bit_length_bounds: "n < 2 ^ bit_length n \<and> (0 < n \<longrightarrow> 2 ^ bit_length n \<le> 2 * n)"
proof (induction n rule: less_induct)
  case (less n)
  show ?case
  proof (cases "n = 0")
    case False
    then have "n div 2 < 2 ^ bit_length (n div 2) \<and>
        (0 < n div 2 \<longrightarrow> 2 ^ bit_length (n div 2) \<le> 2 * (n div 2))"
      by (rule_tac less.IH) simp
    then show ?thesis
      using False by (cases "n div 2 = 0") (auto simp: bit_length.simps [of n])
  qed simp
qed

lemma power_256: "(256 :: nat) ^ k = 2 ^ (8 * k)"
  by (simp add: power_mult)

lemma bit_length_bytes:
  assumes "256 ^ k \<le> n" and "n < 256 ^ Suc k"
  shows "(bit_length n + 7) div 8 = Suc k"
proof -
  have "(2 :: nat) ^ (8 * k) < 2 ^ bit_length n"
    using assms(1) bit_length_bounds [of n] unfolding power_256 by linarith
  then have lo: "8 * k < bit_length n" by simp
  have "0 < n" using assms(1) by (metis gr0I le_zero_eq power_not_zero zero_neq_numeral)
  then have "2 ^ bit_length n \<le> 2 * n" using bit_length_bounds by blast
  also have "2 * n < 2 * 2 ^ (8 * Suc k)" using assms(2) unfolding power_256 by linarith
  finally have "(2 :: nat) ^ bit_length n < 2 ^ Suc (8 * Suc k)" by (simp only: power_Suc)
  then have "bit_length n \<le> 8 * Suc k" 
    using power_strict_increasing_iff [of "2 :: nat"] less_Suc_eq_le by (metis one_less_numeral_iff semiring_norm(76))
  with lo show ?thesis by simp
qed

lemma be_nat_zeros: "be_nat (zeros k @ bs) = be_nat bs"
  using le_nat_zeros [of k] by (simp add: be_nat_def le_nat_append zeros_def)

lemma be_nat_lower: "bs \<noteq> [] \<Longrightarrow> hd bs \<noteq> 0 \<Longrightarrow> 256 ^ (length bs - 1) \<le> be_nat bs"
proof (cases bs)
  case (Cons b cs)
  assume "hd bs \<noteq> 0"
  with Cons have "1 \<le> unat b" by (simp add: Suc_le_eq unat_gt_0)
  then have "256 ^ length cs * 1 \<le> 256 ^ length cs * unat b" by (intro mult_le_mono) auto
  then have "256 ^ length cs \<le> le_nat (rev cs) + 256 ^ length cs * unat b"
    by (metis mult_1_right trans_le_add2)
  then show ?thesis using Cons by (simp add: be_nat_def le_nat_append)
qed simp

lemma be_nat_upper: "be_nat bs < 256 ^ length bs"
  using le_nat_bound [of "rev bs"] by (simp add: be_nat_def)

lemma to_bytes_be_nat: "length bs = k \<Longrightarrow> to_bytes_be k (be_nat bs) = bs"
  by (simp add: to_bytes_be_def be_nat_def le_bytes_le_nat)

lemma to_bytes_minimal:
  assumes "bs \<noteq> []" and "hd bs \<noteq> 0"
  shows "to_bytes_be ((bit_length (be_nat bs) + 7) div 8) (be_nat bs) = bs" and "be_nat bs \<noteq> 0"
proof -
  obtain k where k: "length bs = Suc k" using assms(1) by (cases bs) auto
  have lo: "256 ^ k \<le> be_nat bs" using be_nat_lower [OF assms] k by simp
  have "be_nat bs < 256 ^ Suc k" using be_nat_upper [of bs] k by simp
  with lo have "(bit_length (be_nat bs) + 7) div 8 = Suc k" by (rule bit_length_bytes)
  then show "to_bytes_be ((bit_length (be_nat bs) + 7) div 8) (be_nat bs) = bs"
    using k by (simp add: to_bytes_be_nat)
  show "be_nat bs \<noteq> 0" using lo by (metis le_zero_eq power_not_zero zero_neq_numeral)
qed

section \<open>Round trip\<close>

lemma leading_split: "\<exists>rest. xs = replicate (leading z xs) z @ rest \<and> (rest = [] \<or> hd rest \<noteq> z)"
proof (induction xs)
  case (Cons x xs)
  then show ?case by (auto simp: leading_def)
qed (simp add: leading_def)

lemma leading_replicate: "rest = [] \<or> hd rest \<noteq> z \<Longrightarrow> leading z (replicate k z @ rest) = k"
  by (induction k) (auto simp: leading_def takeWhile_eq_Nil_iff)

lemma length_fit32 [simp]: "length (fit32 raw) = 32"
  by (simp add: fit32_def)

lemma index_of_Some: "c \<in> set xs \<Longrightarrow> \<exists>i. index_of c xs = Some i"
  by (induction xs) auto

lemma b58decode_total: "set s \<subseteq> set B58 \<Longrightarrow> \<exists>raw. b58decode s = Inr raw"
proof -
  have "\<exists>m. b58_value n s = Inr m" if "set s \<subseteq> set B58" for n
    using that
  proof (induction s arbitrary: n)
    case (Cons c cs)
    then obtain i where "index_of c B58 = Some i" using index_of_Some [of c B58] by auto
    then show ?case using Cons by simp
  qed simp
  then show "set s \<subseteq> set B58 \<Longrightarrow> \<exists>raw. b58decode s = Inr raw"
    by (fastforce simp: b58decode_def b58_any_def rbind_Inr_iff)
qed

lemma b58decode_length: "b58decode s = Inr raw \<Longrightarrow> length raw = 32"
  by (auto simp: b58decode_def rbind_Inr_iff)

lemma fit32_zeros: "fit32 (zeros k @ bs) = bs" if "length bs = 32"
  using that by (simp add: fit32_def)

lemma b58_any_gates: "b58_any (gates_b58encode raw) = Inr raw"
proof -
  obtain rest where raw: "raw = zeros (leading 0 raw) @ rest" and rest: "rest = [] \<or> hd rest \<noteq> 0"
    using leading_split [of raw 0] by (auto simp: zeros_def)
  define k n where "k = leading 0 raw" and "n = be_nat rest"
  have n: "be_nat raw = n" by (subst raw) (simp add: be_nat_zeros n_def)
  have enc: "gates_b58encode raw = replicate k (CHR ''1'') @ b58_loop n []"
    by (simp add: gates_b58encode_def n k_def)
  have val: "b58_value 0 (gates_b58encode raw) = Inr n"
    by (simp add: enc b58_value_ones b58_value_loop)
  have body: "b58_loop n [] = [] \<or> hd (b58_loop n []) \<noteq> CHR ''1''"
    using b58_loop_hd [of n] by (cases "n = 0") (auto simp: b58_loop.simps)
  have lead: "leading (CHR ''1'') (gates_b58encode raw) = k"
    using body by (simp add: enc leading_replicate)
  have bytes: "(if n = 0 then [] else to_bytes_be ((bit_length n + 7) div 8) n) = rest"
  proof (cases "rest = []")
    case True
    then show ?thesis by (simp add: n_def be_nat_def)
  next
    case False
    then show ?thesis using rest to_bytes_minimal [of rest] by (simp add: n_def)
  qed
  have "b58_any (gates_b58encode raw) = Inr (zeros k @ rest)"
    by (simp add: b58_any_def val lead bytes)
  then show ?thesis using raw by (simp flip: k_def)
qed

lemma record_pk_gates: "record_pk raw = gates_b58encode raw @ (if be_nat raw = 0 then ''1'' else [])"
  using b58_loop_hd [of "be_nat raw"]
  by (auto simp: record_pk_def gates_b58encode_def Let_def b58_loop.simps [of 0])

lemma rev_zeros [simp]: "rev (zeros k) = zeros k"
  by (simp add: zeros_def)

lemma be_nat_0: "be_nat raw = 0 \<Longrightarrow> raw = zeros (length raw)"
proof -
  assume "be_nat raw = 0"
  then have "to_bytes_be (length raw) (be_nat (zeros (length raw))) = raw"
    using to_bytes_be_nat [of raw "length raw"] by (simp add: be_nat_def)
  moreover have "to_bytes_be (length raw) (be_nat (zeros (length raw))) = zeros (length raw)"
    by (rule to_bytes_be_nat) simp
  ultimately show ?thesis by simp
qed

lemma gates_zeros: "gates_b58encode (zeros k) = replicate k (CHR ''1'')"
proof -
  have "leading 0 (zeros k) = k"
    using leading_replicate [of "[]" "0 :: byte" k] by (simp add: zeros_def)
  moreover have "be_nat (zeros k) = 0" by (simp add: be_nat_def)
  ultimately show ?thesis by (simp add: gates_b58encode_def b58_loop.simps [of 0])
qed

lemma b58decode_record_pk:
  assumes "length raw = 32"
  shows "b58decode (record_pk raw) = Inr raw"
proof (cases "be_nat raw = 0")
  case True
  then have raw: "raw = zeros 32" using be_nat_0 [of raw] assms by simp
  have "b58_any (replicate 33 (CHR ''1'')) = Inr (zeros 33)"
    using b58_any_gates [of "zeros 33"] by (simp add: gates_zeros)
  moreover have "record_pk raw = replicate 33 (CHR ''1'')"
    using True raw by (simp add: record_pk_gates gates_zeros) (simp add: numeral_eq_Suc)
  moreover have "fit32 (zeros 33) = zeros 32"
    by (simp add: fit32_def zeros_def)
  ultimately show ?thesis by (simp add: b58decode_def raw)
next
  case False
  then show ?thesis
    using assms b58_any_gates [of raw] by (simp add: b58decode_def record_pk_gates fit32_def)
qed

section \<open>Properties\<close>

text \<open>
  A 32-byte account key survives the recorder's encoder and decoder: decoding the base58
  text of a key gives the key back, for every key, the all-zero one included.
\<close>
lemma pubkey_roundtrip:
  assumes "length raw = 32"
  shows "b58decode (record_pk raw) = Inr raw \<and> b58decode (gates_b58encode raw) = Inr raw"
  using b58decode_record_pk [OF assms] assms b58_any_gates [of raw]
  by (simp add: b58decode_def fit32_def)

text \<open>
  The two base58 encoders of the repository agree on every key except the all-zero one,
  where the recorder's (and the fee module's) encoder writes one digit too many: 33 ones in
  place of the 32 of the System program address.
\<close>
lemma encoders_differ_on_zero_key:
  "record_pk raw = gates_b58encode raw \<longleftrightarrow> be_nat raw \<noteq> 0"
  by (simp add: record_pk_gates)

end
