(* ===== verification/Pump_Fee.thy ===== *)
theory Pump_Fee
  imports Base58
begin

text \<open>
  \<^verbatim>\<open>arb-cap/pump012/pump_fee.py\<close>: program-derived addresses, the FeeConfig, GlobalConfig and
  Pool account parsers, the market-cap fee schedule and the resolution of the fee state a
  swap is charged. SHA-256 is the parameter \<open>sha\<close> (\<^verbatim>\<open>hashlib\<close> of the concatenated updates);
  nothing is assumed of it. Account fields are read with the exceptions Python raises on a
  short buffer.
\<close>

section \<open>Constants\<close>

definition PUMP_AMM :: string where
  "PUMP_AMM = ''pAMMBay6oceH9fJKBRHGP5D4bD4sWpmSwMn52FMfXEA''"
definition PUMP_FUN :: string where
  "PUMP_FUN = ''6EF8rrecthR5Dkzon8Nwu78hRvfCKubJ14M5uBEwF6P''"
definition WSOL :: string where
  "WSOL = ''So11111111111111111111111111111111111111112''"
definition USDC :: string where
  "USDC = ''EPjFWdd5AufqSSqeM2qN1xzybapC8G4wEGGkZwyTDt1v''"
definition USDT :: string where
  "USDT = ''Es9vMFrzaCERmJfrF4H2FYD4KCoNkY11McCe8BenwNYB''"
definition BPS_DEN :: int where "BPS_DEN = 10000"
definition curve_P :: int where "curve_P = 2 ^ 255 - 19"
definition curve_D :: int where
  "curve_D = 370957059346694393431380882127351390395656022343698204509819366164078637887"

text \<open>The module carries its own copies of the base58 routines.\<close>

definition pf_b58decode :: "string \<Rightarrow> bytes res" where
  "pf_b58decode s = rbind (b58_value 0 s) (\<lambda>n.
     let raw = zeros (leading (CHR ''1'') s)
               @ (if n = 0 then [] else to_bytes_be ((bit_length n + 7) div 8) n)
     in Inr (fit32 raw))"

definition b58decode_any :: "string \<Rightarrow> bytes res" where
  "b58decode_any s = rbind (b58_value 0 s) (\<lambda>n.
     Inr (zeros (leading (CHR ''1'') s)
          @ (if n = 0 then [] else to_bytes_be ((bit_length n + 7) div 8) n)))"

definition pf_b58encode :: "bytes \<Rightarrow> string" where
  "pf_b58encode raw =
     (let out = b58_loop (be_nat raw) []
      in replicate (leading 0 raw) (CHR ''1'') @ (if out = [] then ''1'' else out))"

text \<open>\<^verbatim>\<open>s.encode()\<close> of an ASCII literal\<close>

definition ascii :: "string \<Rightarrow> bytes" where
  "ascii s = map (\<lambda>c. word_of_nat (of_char c)) s"

section \<open>Program-derived addresses\<close>

text \<open>\<^verbatim>\<open>pow(b, e, m)\<close>\<close>

fun powmod :: "int \<Rightarrow> nat \<Rightarrow> int \<Rightarrow> int" where
  "powmod b e m =
    (if e = 0 then 1 mod m
     else let h = powmod (b * b mod m) (e div 2) m
          in if odd e then b * h mod m else h)"

declare powmod.simps [simp del]

definition on_curve :: "bytes \<Rightarrow> bool" where
  "on_curve pk =
    (if length pk \<noteq> 32 then False
     else let y = int (le_nat pk) mod 2 ^ 255;
              y2 = y * y mod curve_P;
              u = (y2 - 1) mod curve_P;
              v = (curve_D * y2 + 1) mod curve_P;
              x2 = (u * powmod v (nat (curve_P - 2)) curve_P) mod curve_P
          in powmod x2 (nat ((curve_P - 1) div 2)) curve_P \<noteq> curve_P - 1)"

definition pda_preimage :: "bytes list \<Rightarrow> bytes \<Rightarrow> nat \<Rightarrow> bytes" where
  "pda_preimage seeds program bump =
     concat seeds @ [word_of_nat bump] @ program @ ascii ''ProgramDerivedAddress''"

text \<open>\<^verbatim>\<open>for bump in range(255, -1, -1)\<close>: \<open>n\<close> is the bump plus one.\<close>

fun find_pda_loop :: "(bytes \<Rightarrow> bytes) \<Rightarrow> bytes list \<Rightarrow> bytes \<Rightarrow> nat \<Rightarrow> bytes res" where
  "find_pda_loop sha seeds program 0 = Inl (RuntimeError ''no pda'')"
| "find_pda_loop sha seeds program (Suc bump) =
     (let digest = sha (pda_preimage seeds program bump)
      in if \<not> on_curve digest then Inr digest else find_pda_loop sha seeds program bump)"

definition find_pda :: "(bytes \<Rightarrow> bytes) \<Rightarrow> bytes list \<Rightarrow> bytes \<Rightarrow> bytes res" where
  "find_pda sha seeds program = find_pda_loop sha seeds program 256"

definition pump_pool_authority :: "(bytes \<Rightarrow> bytes) \<Rightarrow> string \<Rightarrow> string res" where
  "pump_pool_authority sha base_mint =
     rbind (pf_b58decode base_mint) (\<lambda>mint.
     rbind (pf_b58decode PUMP_FUN) (\<lambda>prog.
     rbind (find_pda sha [ascii ''pool-authority'', mint] prog) (\<lambda>d. Inr (pf_b58encode d))))"

definition is_pump_pool :: "(bytes \<Rightarrow> bytes) \<Rightarrow> string \<Rightarrow> string \<Rightarrow> bool res" where
  "is_pump_pool sha base_mint pool_creator =
     rbind (pump_pool_authority sha base_mint) (\<lambda>a. Inr (pool_creator = a))"

section \<open>Account layouts\<close>

definition pf_ceil_div :: "int \<Rightarrow> int \<Rightarrow> int" where
  "pf_ceil_div n d = n div d + (if n mod d \<noteq> 0 then 1 else 0)"

definition pf_fee_bps :: "int \<Rightarrow> int \<Rightarrow> int" where
  "pf_fee_bps n bps = (if bps \<noteq> 0 then pf_ceil_div (n * bps) BPS_DEN else 0)"

definition pf_pk :: "bytes \<Rightarrow> nat \<Rightarrow> string" where
  "pf_pk raw off = pf_b58encode (slice off (off + 32) raw)"

definition pf_u64 :: "bytes \<Rightarrow> nat \<Rightarrow> int res" where
  "pf_u64 raw off = unpack_u 8 raw off"

definition pf_u128 :: "bytes \<Rightarrow> nat \<Rightarrow> int" where
  "pf_u128 raw off = uint_le (slice off (off + 16) raw)"

record fees =
  f_lp :: int
  f_protocol :: int
  f_creator :: int

record tier =
  t_threshold :: int
  t_fees :: fees

definition no_fees :: fees where
  "no_fees = \<lparr> f_lp = 0, f_protocol = 0, f_creator = 0 \<rparr>"

definition parse_fees :: "bytes \<Rightarrow> nat \<Rightarrow> (fees \<times> nat) res" where
  "parse_fees raw off =
     rbind (pf_u64 raw off) (\<lambda>l. rbind (pf_u64 raw (off + 8)) (\<lambda>p.
     rbind (pf_u64 raw (off + 16)) (\<lambda>c.
       Inr (\<lparr> f_lp = l, f_protocol = p, f_creator = c \<rparr>, off + 24))))"

fun tiers_loop :: "nat \<Rightarrow> bytes \<Rightarrow> nat \<Rightarrow> (tier list \<times> nat) res" where
  "tiers_loop 0 raw off = Inr ([], off)"
| "tiers_loop (Suc n) raw off =
     (let thr = pf_u128 raw off
      in rbind (parse_fees raw (off + 16)) (\<lambda>(fs, off2).
         rbind (tiers_loop n raw off2) (\<lambda>(ts, off3).
           Inr (\<lparr> t_threshold = thr, t_fees = fs \<rparr> # ts, off3))))"

definition vec_tiers :: "bytes \<Rightarrow> nat \<Rightarrow> (tier list \<times> nat) res" where
  "vec_tiers raw off = rbind (unpack_u 4 raw off) (\<lambda>n. tiers_loop (nat n) raw (off + 4))"

record fee_config =
  fc_bump :: int
  fc_admin :: string
  flat_fees :: fees
  fee_tiers :: "tier list"
  stable_fee_tiers :: "tier list"
  exotic_flat_fees :: fees
  fc_bytes :: nat
  fc_tail :: nat

definition parse_fee_config :: "bytes \<Rightarrow> fee_config res" where
  "parse_fee_config raw =
     rbind (byte_at raw 8) (\<lambda>bump.
     let admin = pf_pk raw 9 in
     rbind (parse_fees raw 41) (\<lambda>(flat, off1).
     rbind (vec_tiers raw off1) (\<lambda>(tiers, off2).
     rbind (if off2 + 4 \<le> length raw then vec_tiers raw off2 else Inr ([], off2)) (\<lambda>(stable, off3).
     rbind (if off3 + 24 \<le> length raw then parse_fees raw off3 else Inr (no_fees, off3)) (\<lambda>(exotic, off4).
       Inr \<lparr> fc_bump = bump, fc_admin = admin, flat_fees = flat, fee_tiers = tiers,
             stable_fee_tiers = stable, exotic_flat_fees = exotic,
             fc_bytes = length raw, fc_tail = off4 \<rparr>)))))"

definition pf_pks :: "bytes \<Rightarrow> nat \<Rightarrow> nat \<Rightarrow> string list \<times> nat" where
  "pf_pks raw off n = (map (\<lambda>i. pf_pk raw (off + i * 32)) [0..<n], off + n * 32)"

record global_config =
  gc_admin :: string
  gc_lp_fee_bps :: int
  gc_protocol_fee_bps :: int
  disable_flags :: int
  protocol_fee_recipients :: "string list"
  coin_creator_fee_bps :: int
  admin_set_coin_creator_authority :: string
  whitelist_pda :: string
  reserved_fee_recipient :: string
  mayhem_mode_enabled :: bool
  reserved_fee_recipients :: "string list"
  is_cashback_enabled :: bool
  buyback_fee_recipients :: "string list"
  buyback_basis_points :: int
  boost_authority :: string
  boost_enabled :: bool
  creator_fee_configurable :: bool
  max_configurable_creator_fee_bps :: int
  gc_bytes :: nat

text \<open>The guarded readers of the tail: a field past the end of the account has a default.\<close>

definition opt_u64 :: "bytes \<Rightarrow> nat \<Rightarrow> int" where
  "opt_u64 raw off = (if off + 8 \<le> length raw then uint_le (slice off (off + 8) raw) else 0)"

definition opt_pk :: "bytes \<Rightarrow> nat \<Rightarrow> string" where
  "opt_pk raw off = (if off + 32 \<le> length raw then pf_pk raw off else [])"

definition opt_bool :: "bytes \<Rightarrow> nat \<Rightarrow> bool" where
  "opt_bool raw off = (if off < length raw then raw ! off \<noteq> 0 else False)"

definition opt_pks :: "bytes \<Rightarrow> nat \<Rightarrow> nat \<Rightarrow> string list \<times> nat" where
  "opt_pks raw off n = (if off + n * 32 \<le> length raw then pf_pks raw off n else ([], off))"

definition parse_global_config :: "bytes \<Rightarrow> global_config res" where
  "parse_global_config raw =
    (let admin = pf_pk raw 8 in
     rbind (pf_u64 raw 40) (\<lambda>lp. rbind (pf_u64 raw 48) (\<lambda>proto.
     rbind (byte_at raw 56) (\<lambda>disable.
     let (recips, off1) = pf_pks raw 57 8;
         creator = opt_u64 raw off1;
         admin_set = opt_pk raw (off1 + 8);
         whitelist = opt_pk raw (off1 + 40);
         reserved = opt_pk raw (off1 + 72);
         mayhem = opt_bool raw (off1 + 104);
         (reserved_list, off2) = opt_pks raw (off1 + 105) 7;
         cashback = opt_bool raw off2;
         (buyback_recips, off3) = opt_pks raw (off2 + 1) 8;
         buyback_bps = opt_u64 raw off3;
         boost_auth = opt_pk raw (off3 + 8);
         boost = opt_bool raw (off3 + 40);
         cr_cfg = opt_bool raw (off3 + 41);
         max_cr = opt_u64 raw (off3 + 42)
     in Inr \<lparr> gc_admin = admin, gc_lp_fee_bps = lp, gc_protocol_fee_bps = proto,
          disable_flags = disable, protocol_fee_recipients = recips,
          coin_creator_fee_bps = creator, admin_set_coin_creator_authority = admin_set,
          whitelist_pda = whitelist, reserved_fee_recipient = reserved,
          mayhem_mode_enabled = mayhem, reserved_fee_recipients = reserved_list,
          is_cashback_enabled = cashback, buyback_fee_recipients = buyback_recips,
          buyback_basis_points = buyback_bps, boost_authority = boost_auth,
          boost_enabled = boost, creator_fee_configurable = cr_cfg,
          max_configurable_creator_fee_bps = max_cr, gc_bytes = length raw \<rparr>))))"

record pool_meta =
  pmeta_creator :: string
  pmeta_base_mint :: string
  pmeta_quote_mint :: string
  pmeta_coin_creator :: string
  pmeta_creator_fee_bps :: int
  pmeta_virtual :: int
  pmeta_mayhem :: int
  pmeta_cashback :: int
  pmeta_holder :: int
  pmeta_canonical :: bool

definition opt_byte :: "bytes \<Rightarrow> nat \<Rightarrow> int" where
  "opt_byte raw i = (if i < length raw then int (unat (raw ! i)) else 0)"

definition parse_pool_meta :: "(bytes \<Rightarrow> bytes) \<Rightarrow> bytes \<Rightarrow> pool_meta res" where
  "parse_pool_meta sha raw =
    (let creator = (if 43 \<le> length raw then pf_pk raw 11 else []);
         base = (if 75 \<le> length raw then pf_pk raw 43 else []);
         quote = (if 107 \<le> length raw then pf_pk raw 75 else []);
         coin_creator = (if 243 \<le> length raw then pf_pk raw 211 else []);
         cr = (if 269 \<le> length raw then uint_le (slice 261 269 raw) else 0);
         virt = (if 261 \<le> length raw then sint_le (slice 245 261 raw) else 0)
     in rbind (if base \<noteq> [] \<and> creator \<noteq> [] then is_pump_pool sha base creator else Inr False) (\<lambda>canon.
        Inr \<lparr> pmeta_creator = creator, pmeta_base_mint = base, pmeta_quote_mint = quote,
              pmeta_coin_creator = coin_creator, pmeta_creator_fee_bps = cr, pmeta_virtual = virt,
              pmeta_mayhem = opt_byte raw 243, pmeta_cashback = opt_byte raw 244,
              pmeta_holder = opt_byte raw 270, pmeta_canonical = canon \<rparr>))"

section \<open>The fee schedule\<close>

definition pool_market_cap :: "int \<Rightarrow> int \<Rightarrow> int \<Rightarrow> int" where
  "pool_market_cap base_supply base_reserve quote_reserve =
    (if base_reserve \<le> 0 then 0 else quote_reserve * base_supply div base_reserve)"

definition calculate_fee_tier :: "tier list \<Rightarrow> int \<Rightarrow> fees" where
  "calculate_fee_tier tiers market_cap =
    (case tiers of [] \<Rightarrow> no_fees
     | first # _ \<Rightarrow>
        if market_cap < t_threshold first then t_fees first
        else (case find (\<lambda>t. market_cap \<ge> t_threshold t) (rev tiers) of
                Some t \<Rightarrow> t_fees t
              | None \<Rightarrow> t_fees first))"

datatype quote_class = Sol | Stable | Exotic

definition quote_class_of :: "string \<Rightarrow> quote_class" where
  "quote_class_of quote_mint =
    (if quote_mint = WSOL then Sol
     else if quote_mint = USDC \<or> quote_mint = USDT then Stable
     else Exotic)"

definition uses_sol_tiers :: "pool_meta \<Rightarrow> string \<Rightarrow> bool res" where
  "uses_sol_tiers pool gate =
    (if gate = ''isPumpPool'' then Inr (pmeta_canonical pool)
     else if gate = ''coin_creator''
     then Inr (pmeta_coin_creator pool \<noteq> [] \<and> pmeta_coin_creator pool \<noteq> pf_b58encode (zeros 32))
     else if gate = ''virtual'' then Inr (pmeta_virtual pool \<noteq> 0)
     else if gate = ''sol_quote'' then Inr (pmeta_quote_mint pool = WSOL)
     else if gate = ''always'' then Inr True
     else Inl (ValueError gate))"

definition schedule_fees :: "fee_config \<Rightarrow> bool \<Rightarrow> string \<Rightarrow> int \<Rightarrow> fees" where
  "schedule_fees fee_cfg use_tiers quote_mint market_cap =
    (let q = quote_class_of quote_mint
     in if \<not> use_tiers then flat_fees fee_cfg
        else if q = Stable \<and> stable_fee_tiers fee_cfg \<noteq> []
        then calculate_fee_tier (stable_fee_tiers fee_cfg) market_cap
        else if q = Exotic
        then (let ex = exotic_flat_fees fee_cfg
              in if f_lp ex \<noteq> 0 \<or> f_protocol ex \<noteq> 0 \<or> f_creator ex \<noteq> 0 then ex
                 else flat_fees fee_cfg)
        else calculate_fee_tier (fee_tiers fee_cfg) market_cap)"

definition resolve_creator :: "int \<Rightarrow> int \<Rightarrow> bool \<Rightarrow> int \<times> string" where
  "resolve_creator schedule_cr pool_cr configurable =
    (if configurable \<and> pool_cr > 0 then (pool_cr, ''pool'') else (schedule_cr, ''schedule''))"

record fee_state =
  fs_canonical :: bool
  fs_use_tiers :: bool
  fs_fee_src :: string
  fs_gate :: string
  fs_market_cap :: int
  fs_quote_class :: quote_class
  fs_lp_fee_bps :: int
  fs_protocol_fee_bps :: int
  fs_creator_fee_bps :: int
  fs_creator_source :: string
  fs_schedule_creator_fee_bps :: int
  fs_buyback_bps :: int
  fs_protocol_fee_recipients :: "string list"
  fs_buyback_fee_recipients :: "string list"
  fs_reserved_fee_recipient :: string
  fs_reserved_fee_recipients :: "string list"

definition resolve_fee_state ::
  "(bytes \<Rightarrow> bytes) \<Rightarrow> fee_config \<Rightarrow> global_config \<Rightarrow> pool_meta \<Rightarrow> int \<Rightarrow> int \<Rightarrow> int \<Rightarrow> int option
    \<Rightarrow> string \<Rightarrow> string \<Rightarrow> fee_state res" where
  "resolve_fee_state sha fee_cfg gcfg pool base_supply base_reserve quote_reserve quote_for_mc gate noncanon =
    (let qmc = (case quote_for_mc of None \<Rightarrow> quote_reserve | Some q \<Rightarrow> q);
         mc = pool_market_cap base_supply base_reserve qmc
     in rbind (if \<not> pmeta_canonical pool \<and> pmeta_creator pool \<noteq> [] \<and> pmeta_base_mint pool \<noteq> []
               then is_pump_pool sha (pmeta_base_mint pool) (pmeta_creator pool)
               else Inr (pmeta_canonical pool)) (\<lambda>canonical.
        let pool' = pool \<lparr> pmeta_canonical := canonical \<rparr>;
            qm = (if pmeta_quote_mint pool' = [] then WSOL else pmeta_quote_mint pool')
        in rbind (uses_sol_tiers pool' gate) (\<lambda>use_tiers.
        let (sched, src) =
              (if use_tiers then (schedule_fees fee_cfg True qm mc, ''tier'')
               else if noncanon = ''global''
               then (\<lparr> f_lp = gc_lp_fee_bps gcfg, f_protocol = gc_protocol_fee_bps gcfg,
                       f_creator = coin_creator_fee_bps gcfg \<rparr>, ''global'')
               else (schedule_fees fee_cfg False qm mc, ''flat''));
            (cr, cr_src) = resolve_creator (f_creator sched) (pmeta_creator_fee_bps pool')
                             (creator_fee_configurable gcfg)
        in Inr \<lparr> fs_canonical = canonical, fs_use_tiers = use_tiers, fs_fee_src = src, fs_gate = gate,
             fs_market_cap = mc, fs_quote_class = quote_class_of qm,
             fs_lp_fee_bps = f_lp sched, fs_protocol_fee_bps = f_protocol sched,
             fs_creator_fee_bps = cr, fs_creator_source = cr_src,
             fs_schedule_creator_fee_bps = f_creator sched,
             fs_buyback_bps = buyback_basis_points gcfg,
             fs_protocol_fee_recipients = protocol_fee_recipients gcfg,
             fs_buyback_fee_recipients = buyback_fee_recipients gcfg,
             fs_reserved_fee_recipient = reserved_fee_recipient gcfg,
             fs_reserved_fee_recipients = reserved_fee_recipients gcfg \<rparr>)))"

record components =
  bc_effective :: int
  bc_lp :: int
  bc_protocol :: int
  bc_creator :: int
  bc_buyback :: int
  bc_protocol_gross :: "int option"
  bc_vault :: int
  bc_total_bps :: int
  bc_mode :: string

text \<open>\<^const>\<open>None\<close> is the answer \<^verbatim>\<open>{"ok": False}\<close>.\<close>

definition buy_components :: "int \<Rightarrow> int \<Rightarrow> int \<Rightarrow> int \<Rightarrow> int \<Rightarrow> string \<Rightarrow> components option" where
  "buy_components spendable lp proto creator buyback mode =
    (let tot = (if mode = ''add'' then lp + proto + creator + buyback else lp + proto + creator)
     in if tot \<ge> BPS_DEN then None
        else let eff = spendable * BPS_DEN div (BPS_DEN + tot);
                 lp_a = pf_fee_bps eff lp;
                 proto_a = pf_fee_bps eff proto;
                 cr_a = pf_fee_bps eff creator
             in if mode = ''add''
                then let bb_a = pf_fee_bps eff buyback
                     in Some \<lparr> bc_effective = eff, bc_lp = lp_a, bc_protocol = proto_a, bc_creator = cr_a,
                               bc_buyback = bb_a, bc_protocol_gross = None,
                               bc_vault = spendable - proto_a - cr_a - bb_a,
                               bc_total_bps = tot, bc_mode = mode \<rparr>
                else if mode = ''carve''
                then let bb_a = (if buyback \<noteq> 0 then pf_fee_bps proto_a buyback else 0)
                     in Some \<lparr> bc_effective = eff, bc_lp = lp_a, bc_protocol = proto_a - bb_a,
                               bc_creator = cr_a, bc_buyback = bb_a, bc_protocol_gross = Some proto_a,
                               bc_vault = spendable - proto_a - cr_a,
                               bc_total_bps = tot, bc_mode = mode \<rparr>
                else Some \<lparr> bc_effective = eff, bc_lp = lp_a, bc_protocol = proto_a, bc_creator = cr_a,
                            bc_buyback = 0, bc_protocol_gross = None,
                            bc_vault = spendable - proto_a - cr_a,
                            bc_total_bps = tot, bc_mode = mode \<rparr>)"

definition role_owner :: "string \<Rightarrow> global_config \<Rightarrow> string" where
  "role_owner owner gcfg =
    (if owner \<in> set (protocol_fee_recipients gcfg) then ''protocol_fee_recipient''
     else if owner \<in> set (buyback_fee_recipients gcfg) then ''buyback_fee_recipient''
     else if owner = reserved_fee_recipient gcfg then ''reserved_fee_recipient''
     else if owner \<in> set (reserved_fee_recipients gcfg) then ''reserved_fee_recipient''
     else ''other'')"

section \<open>Modular powers and derived addresses\<close>

lemma powmod_eq: "powmod b e m = b ^ e mod m"
proof (induction b e m rule: powmod.induct)
  case (1 b e m)
  show ?case
  proof (cases "e = 0")
    case True
    then show ?thesis by (simp add: powmod.simps)
  next
    case False
    have h: "powmod (b * b mod m) (e div 2) m = (b * b) ^ (e div 2) mod m"
      using 1 False by (simp add: power_mod)
    have "b ^ e = (if odd e then b * (b * b) ^ (e div 2) else (b * b) ^ (e div 2))"
      by (cases "odd e") (simp_all add: power_mult [symmetric] power2_eq_square [symmetric]
          odd_two_times_div_two_succ flip: power_Suc)
    then show ?thesis
      using False h by (simp add: powmod.simps [of b e m] Let_def mod_mult_right_eq)
  qed
qed

lemma find_pda_loop_spec:
  "find_pda_loop sha seeds program n = Inr d \<longleftrightarrow>
    (\<exists>bump<n. d = sha (pda_preimage seeds program bump) \<and> \<not> on_curve d
       \<and> (\<forall>b. bump < b \<and> b < n \<longrightarrow> on_curve (sha (pda_preimage seeds program b))))"
proof (induction n)
  case (Suc n)
  show ?case
  proof (cases "on_curve (sha (pda_preimage seeds program n))")
    case True
    then show ?thesis using Suc less_Suc_eq by (auto simp: Let_def)
  next
    case False
    then show ?thesis by (auto simp: Let_def less_Suc_eq)
  qed
qed simp

section \<open>The layout of a tier vector\<close>

text \<open>What the on-chain program writes: little-endian fields in declaration order.\<close>

definition fees_valid :: "fees \<Rightarrow> bool" where
  "fees_valid f \<longleftrightarrow> 0 \<le> f_lp f \<and> f_lp f < 2 ^ 64 \<and> 0 \<le> f_protocol f \<and> f_protocol f < 2 ^ 64
     \<and> 0 \<le> f_creator f \<and> f_creator f < 2 ^ 64"

definition tier_valid :: "tier \<Rightarrow> bool" where
  "tier_valid t \<longleftrightarrow> 0 \<le> t_threshold t \<and> t_threshold t < 2 ^ 128 \<and> fees_valid (t_fees t)"

definition enc_fees :: "fees \<Rightarrow> bytes" where
  "enc_fees f = le_bytes 8 (nat (f_lp f)) @ le_bytes 8 (nat (f_protocol f)) @ le_bytes 8 (nat (f_creator f))"

definition enc_tier :: "tier \<Rightarrow> bytes" where
  "enc_tier t = le_bytes 16 (nat (t_threshold t)) @ enc_fees (t_fees t)"

definition enc_tiers :: "tier list \<Rightarrow> bytes" where
  "enc_tiers ts = le_bytes 4 (length ts) @ concat (map enc_tier ts)"

lemma length_enc [simp]: "length (enc_fees f) = 24" "length (enc_tier t) = 40"
  by (simp_all add: enc_fees_def enc_tier_def)

lemma length_enc_tiers [simp]: "length (enc_tiers ts) = 4 + 40 * length ts"
  by (induction ts) (simp_all add: enc_tiers_def)

lemma unpack_le_bytes:
  assumes "length pre = off" and "n < 256 ^ k"
  shows "unpack_u k (pre @ le_bytes k n @ post) off = Inr (int n)"
proof -
  have "slice off (off + k) (pre @ le_bytes k n @ post) = le_bytes k n"
    using assms by (intro slice_middle) simp_all
  then show ?thesis using assms by (simp add: unpack_u_def uint_le_def le_nat_le_bytes)
qed

lemma u64_field:
  assumes "length pre = off" and "0 \<le> v" and "v < 2 ^ 64"
  shows "pf_u64 (pre @ le_bytes 8 (nat v) @ post) off = Inr v"
  using unpack_le_bytes [of pre off "nat v" 8 post] assms by (simp add: pf_u64_def nat_less_iff)

lemma parse_fees_enc:
  assumes "fees_valid f" and "length pre = off"
  shows "parse_fees (pre @ enc_fees f @ post) off = Inr (f, off + 24)"
proof -
  let ?a = "le_bytes 8 (nat (f_lp f))" and ?b = "le_bytes 8 (nat (f_protocol f))"
    and ?c = "le_bytes 8 (nat (f_creator f))"
  have "pf_u64 (pre @ ?a @ ?b @ ?c @ post) off = Inr (f_lp f)"
    using assms by (intro u64_field) (auto simp: fees_valid_def)
  moreover have "pf_u64 ((pre @ ?a) @ ?b @ ?c @ post) (off + 8) = Inr (f_protocol f)"
    using assms by (intro u64_field) (auto simp: fees_valid_def)
  moreover have "pf_u64 ((pre @ ?a @ ?b) @ ?c @ post) (off + 16) = Inr (f_creator f)"
    using assms by (intro u64_field) (auto simp: fees_valid_def)
  ultimately show ?thesis by (simp add: parse_fees_def enc_fees_def)
qed

lemma tiers_loop_enc:
  assumes "list_all tier_valid ts" and "length pre = off"
  shows "tiers_loop (length ts) (pre @ concat (map enc_tier ts) @ post) off
    = Inr (ts, off + 40 * length ts)"
  using assms
proof (induction ts arbitrary: pre off)
  case (Cons t ts)
  let ?thr = "le_bytes 16 (nat (t_threshold t))" and ?rest = "concat (map enc_tier ts)"
  let ?raw = "pre @ concat (map enc_tier (t # ts)) @ post"
  have tv: "tier_valid t" using Cons.prems by simp
  have "slice off (off + 16) ?raw = ?thr"
    using Cons.prems slice_middle [of pre off ?thr "off + 16" "enc_fees (t_fees t) @ ?rest @ post"]
    by (simp add: enc_tier_def)
  then have thr: "pf_u128 ?raw off = t_threshold t"
    using tv by (simp add: pf_u128_def uint_le_def le_nat_le_bytes tier_valid_def nat_less_iff)
  have fs: "parse_fees ?raw (off + 16) = Inr (t_fees t, off + 40)"
    using tv Cons.prems parse_fees_enc [of "t_fees t" "pre @ ?thr" "off + 16" "?rest @ post"]
    by (simp add: enc_tier_def tier_valid_def)
  have "tiers_loop (length ts) ((pre @ enc_tier t) @ ?rest @ post) (off + 40)
      = Inr (ts, off + 40 + 40 * length ts)"
    using Cons.prems by (intro Cons.IH) simp_all
  then show ?case using thr fs by (simp add: Let_def)
qed simp

lemma vec_tiers_enc:
  assumes "list_all tier_valid ts" and "length ts < 2 ^ 32" and "length pre = off"
  shows "vec_tiers (pre @ enc_tiers ts @ post) off = Inr (ts, off + 4 + 40 * length ts)"
proof -
  have "unpack_u 4 (pre @ le_bytes 4 (length ts) @ concat (map enc_tier ts) @ post) off
      = Inr (int (length ts))"
    using assms by (intro unpack_le_bytes) auto
  moreover have "tiers_loop (length ts) ((pre @ le_bytes 4 (length ts)) @ concat (map enc_tier ts) @ post) (off + 4)
      = Inr (ts, off + 4 + 40 * length ts)"
    using assms by (intro tiers_loop_enc) simp_all
  ultimately show ?thesis by (simp add: vec_tiers_def enc_tiers_def)
qed

section \<open>Tier selection\<close>

definition tiers_sorted :: "tier list \<Rightarrow> bool" where
  "tiers_sorted ts \<longleftrightarrow> sorted (map t_threshold ts)"

lemma find_rev_last:
  assumes "i < length xs" "P (xs ! i)" "\<And>j. i < j \<Longrightarrow> j < length xs \<Longrightarrow> \<not> P (xs ! j)"
  shows "find P (rev xs) = Some (xs ! i)"
proof -
  have "find P (rev xs) = Some x \<longleftrightarrow>
      (\<exists>k<length xs. P (rev xs ! k) \<and> x = rev xs ! k \<and> (\<forall>j<k. \<not> P (rev xs ! j)))" for x
    by (simp add: find_Some_iff)
  moreover have "length xs - Suc i < length xs" "rev xs ! (length xs - Suc i) = xs ! i"
    using assms(1) by (auto simp: rev_nth)
  moreover have "\<not> P (rev xs ! j)" if "j < length xs - Suc i" for j
    using that assms(3) [of "length xs - Suc j"] by (auto simp: rev_nth)
  ultimately show ?thesis using assms(2) by metis
qed

lemma calculate_fee_tier_at:
  assumes "i < length ts" "t_threshold (ts ! i) \<le> mc"
    "\<And>j. i < j \<Longrightarrow> j < length ts \<Longrightarrow> mc < t_threshold (ts ! j)"
    "t_threshold (ts ! 0) \<le> mc"
  shows "calculate_fee_tier ts mc = t_fees (ts ! i)"
proof (cases ts)
  case (Cons first rest)
  have "find (\<lambda>t. mc \<ge> t_threshold t) (rev ts) = Some (ts ! i)"
    using assms by (intro find_rev_last) (auto simp: not_le)
  then show ?thesis using assms(4) Cons by (simp add: calculate_fee_tier_def)
qed (use assms in simp)

section \<open>Properties\<close>

text \<open>
  The derived address is the digest of the highest bump whose digest is off the curve,
  and derivation fails exactly when all 256 digests lie on it, for every hash function.
\<close>
lemma find_pda_highest_bump:
  "(find_pda sha seeds program = Inr d \<longleftrightarrow>
     (\<exists>bump<256. d = sha (pda_preimage seeds program bump) \<and> \<not> on_curve d
        \<and> (\<forall>b. bump < b \<and> b < 256 \<longrightarrow> on_curve (sha (pda_preimage seeds program b)))))
   \<and> (find_pda sha seeds program = Inl (RuntimeError ''no pda'') \<longleftrightarrow>
        (\<forall>b<256. on_curve (sha (pda_preimage seeds program b))))"
proof -
  have "find_pda_loop sha seeds program n = Inl (RuntimeError ''no pda'')
      \<longleftrightarrow> (\<forall>b<n. on_curve (sha (pda_preimage seeds program b)))" for n
    by (induction n) (auto simp: Let_def less_Suc_eq)
  then show ?thesis unfolding find_pda_def using find_pda_loop_spec by blast
qed

text \<open>
  Parsing a FeeConfig account gives back every field it was laid out with: bump, admin,
  flat fees, both tier vectors of any length and the exotic fees, with the cursor at the end.
\<close>
lemma parse_fee_config_layout:
  assumes "length disc = 8" and "length admin = 32"
    and "fees_valid flat" and "fees_valid exotic"
    and "list_all tier_valid tiers" and "length tiers < 2 ^ 32"
    and "list_all tier_valid stables" and "length stables < 2 ^ 32"
  shows "parse_fee_config
      (disc @ [bump] @ admin @ enc_fees flat @ enc_tiers tiers @ enc_tiers stables @ enc_fees exotic)
    = Inr \<lparr> fc_bump = int (unat bump), fc_admin = pf_b58encode admin, flat_fees = flat,
            fee_tiers = tiers, stable_fee_tiers = stables, exotic_flat_fees = exotic,
            fc_bytes = 97 + 40 * (length tiers + length stables),
            fc_tail = 97 + 40 * (length tiers + length stables) \<rparr>"
proof -
  define raw where "raw =
    disc @ [bump] @ admin @ enc_fees flat @ enc_tiers tiers @ enc_tiers stables @ enc_fees exotic"
  let ?o2 = "69 + 40 * length tiers" let ?o3 = "73 + 40 * length tiers + 40 * length stables"
  have len: "length raw = 97 + 40 * (length tiers + length stables)" using assms by (simp add: raw_def)
  have "byte_at raw 8 = Inr (int (unat bump))"
    using assms len by (simp add: byte_at_def) (simp add: raw_def nth_append)
  moreover have "pf_pk raw 9 = pf_b58encode admin"
    using assms slice_middle [of "disc @ [bump]" 9 admin 41] by (simp add: pf_pk_def raw_def)
  moreover have "parse_fees raw 41 = Inr (flat, 65)"
    using assms parse_fees_enc [of flat "disc @ [bump] @ admin" 41] by (simp add: raw_def)
  moreover have "vec_tiers raw 65 = Inr (tiers, ?o2)"
    using assms vec_tiers_enc [of tiers "disc @ [bump] @ admin @ enc_fees flat" 65] by (simp add: raw_def)
  moreover have "vec_tiers raw ?o2 = Inr (stables, ?o3)"
    using assms vec_tiers_enc [of stables "disc @ [bump] @ admin @ enc_fees flat @ enc_tiers tiers" ?o2 "enc_fees exotic"]
    by (simp add: raw_def)
  moreover have "parse_fees raw ?o3 = Inr (exotic, ?o3 + 24)"
    using assms parse_fees_enc [of exotic "disc @ [bump] @ admin @ enc_fees flat @ enc_tiers tiers @ enc_tiers stables" ?o3 "[]"]
    by (simp add: raw_def)
  ultimately have "parse_fee_config raw = Inr \<lparr> fc_bump = int (unat bump), fc_admin = pf_b58encode admin,
      flat_fees = flat, fee_tiers = tiers, stable_fee_tiers = stables, exotic_flat_fees = exotic,
      fc_bytes = length raw, fc_tail = ?o3 + 24 \<rparr>"
    using len by (simp add: parse_fee_config_def)
  then show ?thesis using len by (simp add: raw_def)
qed

text \<open>
  Over a schedule with increasing thresholds the fee tier of a market cap is the highest
  one it has reached, and the first tier when it has reached none.
\<close>
lemma fee_tier_is_highest_reached:
  assumes "tiers_sorted ts" and "i < length ts"
    and "i = 0 \<or> t_threshold (ts ! i) \<le> mc"
    and "Suc i < length ts \<Longrightarrow> mc < t_threshold (ts ! Suc i)"
  shows "calculate_fee_tier ts mc = t_fees (ts ! i)"
proof (cases "mc < t_threshold (ts ! 0)")
  case True
  have "t_threshold (ts ! 0) \<le> t_threshold (ts ! i)"
    using assms(1,2) by (auto simp: tiers_sorted_def sorted_iff_nth_mono)
  then have "i = 0" using True assms(3) by auto
  then show ?thesis using True assms(2) by (cases ts) (auto simp: calculate_fee_tier_def)
next
  case False
  have above: "mc < t_threshold (ts ! j)" if "i < j" "j < length ts" for j
  proof -
    have "t_threshold (ts ! Suc i) \<le> t_threshold (ts ! j)"
      using assms(1) that by (auto simp: tiers_sorted_def sorted_iff_nth_mono)
    then show ?thesis using assms(4) that by auto
  qed
  show ?thesis
    by (rule calculate_fee_tier_at) (use assms False above in auto)
qed

text \<open>
  The pieces of a buy add up. In every mode the quote that stays in the vault plus the
  protocol, creator and buyback amounts is exactly the quote spent, and in the carving mode
  the buyback comes out of the protocol amount alone.
\<close>
lemma buy_components_conserve:
  "case buy_components spendable lp proto creator buyback mode of
     None \<Rightarrow> BPS_DEN \<le> lp + proto + creator + (if mode = ''add'' then buyback else 0)
   | Some c \<Rightarrow> bc_vault c + bc_protocol c + bc_creator c + bc_buyback c = spendable
       \<and> (mode = ''carve'' \<longrightarrow> bc_protocol_gross c = Some (bc_protocol c + bc_buyback c))"
  by (simp add: buy_components_def Let_def)

end
