(* ===== verification/Pump_Overlay.thy ===== *)
theory Pump_Overlay
  imports Pump_Swap Pump_Fee
begin

text \<open>
  \<^verbatim>\<open>arb-cap/pump012/pump_overlay.py\<close>: the constant-product instructions of one transaction,
  decoded in execution order and applied one after another to a copy of the pool state.
  A transaction's JSON is the record \<open>tx\<close>; an instruction's accounts come either as names or
  as key indexes, its data either as base58 text or as bytes.
\<close>

section \<open>Instructions of a transaction\<close>

definition SELL :: bytes where "SELL = [0x33, 0xe6, 0x85, 0xa4, 0x01, 0x7f, 0x83, 0xad]"
definition BUY_EQ :: bytes where "BUY_EQ = [0xc6, 0x2e, 0x15, 0x52, 0xb4, 0xd9, 0xe8, 0x70]"
definition BUY_OUT :: bytes where "BUY_OUT = [0x66, 0x06, 0x3d, 0x12, 0x01, 0xda, 0xeb, 0xea]"

definition KIND :: "(bytes, string) dict" where
  "KIND = [(SELL, ''sell''), (BUY_EQ, ''buy_exact_quote_in''), (BUY_OUT, ''buy_exact_out'')]"

record cpi =
  c_kind :: string
  c_amount :: "int option"
  c_max_quote :: "int option"
  c_min_out :: "int option"
  c_pool :: "string option"
  c_direction :: "int option"
  c_src_ata :: "string option"
  c_dst_ata :: "string option"
  c_outer_ix :: "nat option"
  c_inner_ordinal :: "nat option"
  c_user :: "string option"

datatype ix_data = NoData | DataText string | DataBytes bytes
datatype ix_accounts = AccNames "string list" | AccIndexes "nat list"
datatype account_key = KeyDict string | KeyText string

record ix =
  ix_programId :: "string option"
  ix_programIdIndex :: "nat option"
  ix_data_of :: ix_data
  ix_accounts_of :: ix_accounts

record tx =
  tx_accountKeys :: "account_key list"
  tx_writable :: "string list"
  tx_readonly :: "string list"
  tx_instructions :: "ix list"
  tx_inner :: "(nat \<times> ix list) list"

definition flatten_keys :: "tx \<Rightarrow> string list" where
  "flatten_keys t =
     map (\<lambda>a. case a of KeyDict k \<Rightarrow> k | KeyText k \<Rightarrow> k) (tx_accountKeys t)
     @ tx_writable t @ tx_readonly t"

text \<open>\<^verbatim>\<open>xs[i] if len(xs) > i else None\<close>\<close>

definition at :: "'a list \<Rightarrow> nat \<Rightarrow> 'a option" where
  "at xs i = (if i < length xs then Some (xs ! i) else None)"

definition unknown_cpi :: "string option \<Rightarrow> nat option \<Rightarrow> nat option \<Rightarrow> cpi" where
  "unknown_cpi pool outer inner =
    \<lparr> c_kind = ''unknown'', c_amount = None, c_max_quote = None, c_min_out = None,
      c_pool = pool, c_direction = None, c_src_ata = None, c_dst_ata = None,
      c_outer_ix = outer, c_inner_ordinal = inner, c_user = None \<rparr>"

definition ix_program :: "ix \<Rightarrow> string list \<Rightarrow> string option" where
  "ix_program i keys =
    (case ix_programId i of Some p \<Rightarrow> Some p
     | None \<Rightarrow> (case ix_programIdIndex i of None \<Rightarrow> None
                | Some pi \<Rightarrow> Some (if pi < length keys then keys ! pi else [])))"

definition ix_raw :: "ix \<Rightarrow> bytes" where
  "ix_raw i = (case ix_data_of i of
       NoData \<Rightarrow> []
     | DataText s \<Rightarrow> (if s = [] then [] else (case b58decode_any s of Inl e \<Rightarrow> [] | Inr raw \<Rightarrow> raw))
     | DataBytes raw \<Rightarrow> raw)"

definition ix_account_names :: "ix \<Rightarrow> string list \<Rightarrow> string list" where
  "ix_account_names i keys = (case ix_accounts_of i of
       AccNames ns \<Rightarrow> ns
     | AccIndexes idx \<Rightarrow> map (\<lambda>ai. keys ! ai) (filter (\<lambda>ai. ai < length keys) idx))"

definition decode_ix :: "ix \<Rightarrow> string list \<Rightarrow> nat \<Rightarrow> nat option \<Rightarrow> cpi option" where
  "decode_ix i keys outer inner =
    (if ix_program i keys \<noteq> Some PUMP_AMM then None
     else let raw = ix_raw i
          in if length raw < 16 then Some (unknown_cpi None (Some outer) inner)
             else let disc = take 8 raw;
                      a = uint_le (slice 8 16 raw);
                      b = (if 24 \<le> length raw then Some (uint_le (slice 16 24 raw)) else None);
                      accs = ix_account_names i keys
                  in (case dget KIND disc of
                        None \<Rightarrow> Some (unknown_cpi (at accs 0) (Some outer) inner)
                      | Some kind \<Rightarrow>
                          let sell = (kind = ''sell'')
                          in Some \<lparr> c_kind = kind, c_amount = Some a,
                               c_max_quote = (if kind = ''buy_exact_out'' then b else None),
                               c_min_out = (if kind \<noteq> ''buy_exact_out'' then b else None),
                               c_pool = at accs 0,
                               c_direction = Some (if sell then PUMP_DIR_BASE_TO_QUOTE else PUMP_DIR_QUOTE_TO_BASE),
                               c_src_ata = (if sell then at accs 5 else at accs 6),
                               c_dst_ata = (if sell then at accs 7 else at accs 8),
                               c_outer_ix = Some outer, c_inner_ordinal = inner,
                               c_user = at accs 1 \<rparr>))"

text \<open>\<^verbatim>\<open>inners_by.setdefault(index, []).extend(...)\<close>\<close>

definition inners_by :: "tx \<Rightarrow> nat \<Rightarrow> ix list" where
  "inners_by t i = concat (map snd (filter (\<lambda>g. fst g = i) (tx_inner t)))"

definition opt_list :: "'a option \<Rightarrow> 'a list" where
  "opt_list x = (case x of None \<Rightarrow> [] | Some y \<Rightarrow> [y])"

definition walk_outer :: "tx \<Rightarrow> string list \<Rightarrow> nat \<Rightarrow> ix \<Rightarrow> cpi list" where
  "walk_outer t keys i ox =
     opt_list (decode_ix ox keys i None)
     @ concat (map (\<lambda>(j, x). opt_list (decode_ix x keys i (Some j)))
                 (enumerate 0 (inners_by t i)))"

definition walk_cpis :: "tx \<Rightarrow> cpi list" where
  "walk_cpis t = (let keys = flatten_keys t
     in concat (map (\<lambda>(i, ox). walk_outer t keys i ox) (enumerate 0 (tx_instructions t))))"

definition cpis_for_pool :: "tx \<Rightarrow> string \<Rightarrow> cpi list" where
  "cpis_for_pool t pool = filter (\<lambda>c. c_pool c = Some pool) (walk_cpis t)"

section \<open>Applying the instructions\<close>

definition exact_out_probe :: "pump_row \<Rightarrow> int \<Rightarrow> int \<Rightarrow> probe res" where
  "exact_out_probe before want mid =
    rbind (apply_swap before mid PUMP_DIR_QUOTE_TO_BASE) (\<lambda>r.
      case r of None \<Rightarrow> Inr GoDown
      | Some got \<Rightarrow>
          if row_reserve_base got = Some want then Inr Found
          else if the (row_reserve_base got) > want then Inr GoUp
          else Inr GoDown)"

definition apply_buy_exact_out :: "pump_row \<Rightarrow> int \<Rightarrow> int option \<Rightarrow> pump_row option res" where
  "apply_buy_exact_out before base_out max_quote =
    (if base_out \<le> 0 then Inr None
     else rbind (row_base before) (\<lambda>rb.
       let want = rb - base_out in
       if want \<le> 0 then Inr None
       else let hi = (if or0 max_quote = 0 then 10 ^ 18 else or0 max_quote) in
         rbind (bsearch (exact_out_probe before want) 1 hi) (\<lambda>ans.
           case ans of None \<Rightarrow> Inr None
           | Some v \<Rightarrow>
               rbind (apply_swap before v PUMP_DIR_QUOTE_TO_BASE) (\<lambda>r.
                 case r of None \<Rightarrow> Inr None
                 | Some out \<Rightarrow>
                     if row_reserve_base out \<noteq> Some want then Inr None
                     else Inr (Some (out \<lparr> row_amount_in := Some v, row_base_out := Some base_out,
                                           row_direction := Some PUMP_DIR_QUOTE_TO_BASE \<rparr>))))))"

definition apply_cpi :: "pump_row \<Rightarrow> cpi \<Rightarrow> pump_row option res" where
  "apply_cpi before c =
    (case c_amount c of None \<Rightarrow> Inr None
     | Some amt \<Rightarrow>
         if c_kind c = ''sell'' then apply_swap before amt PUMP_DIR_BASE_TO_QUOTE
         else if c_kind c = ''buy_exact_quote_in'' then apply_swap before amt PUMP_DIR_QUOTE_TO_BASE
         else if c_kind c = ''buy_exact_out'' then apply_buy_exact_out before amt (c_max_quote c)
         else Inr None)"

definition fee_overlay_state ::
  "(bytes \<Rightarrow> bytes) \<Rightarrow> pump_row \<Rightarrow> fee_config option \<Rightarrow> global_config option \<Rightarrow> pool_meta option
    \<Rightarrow> int \<Rightarrow> int \<Rightarrow> int \<Rightarrow> pump_row" where
  "fee_overlay_state sha s_before fee_cfg gcfg pool supply rb rq =
    (case (fee_cfg, gcfg, pool) of
       (Some fc, Some gc, Some pm) \<Rightarrow>
         (case resolve_fee_state sha fc gc pm supply rb rq None ''coin_creator'' ''flat'' of
            Inl e \<Rightarrow> s_before
          | Inr fs \<Rightarrow> s_before \<lparr> row_lp := Some (fs_lp_fee_bps fs),
              row_protocol := Some (fs_protocol_fee_bps fs), row_creator := Some (fs_creator_fee_bps fs) \<rparr>)
     | _ \<Rightarrow> s_before)"

definition known_kinds :: "string list" where
  "known_kinds = [''sell'', ''buy_exact_quote_in'', ''buy_exact_out'']"

fun sequence_loop :: "pump_row \<Rightarrow> cpi list \<Rightarrow> (pump_row option \<times> string option) res" where
  "sequence_loop s [] = Inr (Some s, None)"
| "sequence_loop s (c # cs) =
     (if c_kind c \<notin> set known_kinds then Inr (None, Some ''unsupported_cpi'')
      else rbind (apply_cpi s c) (\<lambda>nxt.
        case nxt of None \<Rightarrow> Inr (None, Some ''unsupported_cpi'')
        | Some s' \<Rightarrow> sequence_loop s' cs))"

definition apply_sequence :: "pump_row \<Rightarrow> cpi list \<Rightarrow> (pump_row option \<times> string option) res" where
  "apply_sequence s0 cpis =
    (if cpis = [] then Inr (None, Some ''association_ambiguity'')
     else if list_ex (\<lambda>c. c_kind c = ''unknown'') cpis then Inr (None, Some ''unsupported_cpi'')
     else sequence_loop s0 cpis)"

definition vaults :: "pump_row \<Rightarrow> (int \<times> int) res" where
  "vaults s = (case (row_reserve_base s, row_reserve_quote s) of
     (Some b, Some q) \<Rightarrow> Inr (b, q) | _ \<Rightarrow> Inl KeyError)"

definition or_empty :: "string option \<Rightarrow> string" where
  "or_empty s = (case s of None \<Rightarrow> [] | Some x \<Rightarrow> x)"

definition classify_overlay ::
  "pump_row \<Rightarrow> pump_row option \<Rightarrow> string option \<Rightarrow> cpi list \<Rightarrow> string res" where
  "classify_overlay published terminal fail cpis =
    (if or_empty fail \<noteq> [] then Inr (or_empty fail)
     else if cpis = [] then Inr ''association_ambiguity''
     else if list_ex (\<lambda>c. c_kind c = ''unknown'') cpis then Inr ''unsupported_cpi''
     else case terminal of None \<Rightarrow> Inr ''unsupported_cpi''
       | Some t \<Rightarrow>
           rbind (vaults published) (\<lambda>(urb, urq). rbind (vaults t) (\<lambda>(tb, tq).
             if tb = urb \<and> tq = urq then Inr ''bit_exact''
             else if tb = urb then Inr ''missing_state''
             else Inr ''publication_order'')))"

section \<open>Sequences\<close>

lemma exact_out_SomeD:
  assumes "apply_buy_exact_out s base_out mq = Inr (Some s')"
  obtains rb v out where "row_base s = Inr rb" "0 < base_out" "base_out < rb"
    "1 \<le> v" "v \<le> (if or0 mq = 0 then 10 ^ 18 else or0 mq)"
    "apply_swap s v PUMP_DIR_QUOTE_TO_BASE = Inr (Some out)" "row_reserve_base out = Some (rb - base_out)"
    "s' = out \<lparr> row_amount_in := Some v, row_base_out := Some base_out,
               row_direction := Some PUMP_DIR_QUOTE_TO_BASE \<rparr>"
proof -
  define hi where "hi = (if or0 mq = 0 then 10 ^ 18 else or0 mq)"
  obtain rb ans where rb: "row_base s = Inr rb" "0 < base_out" "base_out < rb"
    and b: "bsearch (exact_out_probe s (rb - base_out)) 1 hi = Inr ans"
    and f: "(case ans of None \<Rightarrow> Inr None
           | Some v \<Rightarrow>
               rbind (apply_swap s v PUMP_DIR_QUOTE_TO_BASE) (\<lambda>r.
                 case r of None \<Rightarrow> Inr None
                 | Some out \<Rightarrow>
                     if row_reserve_base out \<noteq> Some (rb - base_out) then Inr None
                     else Inr (Some (out \<lparr> row_amount_in := Some v, row_base_out := Some base_out,
                                           row_direction := Some PUMP_DIR_QUOTE_TO_BASE \<rparr>)))) = Inr (Some s')"
    using assms unfolding apply_buy_exact_out_def Let_def hi_def [symmetric]
    by (auto simp: rbind_Inr_iff not_le split: if_split_asm)
  obtain v where v: "ans = Some v" using f by (cases ans) auto
  obtain r where r: "apply_swap s v PUMP_DIR_QUOTE_TO_BASE = Inr r"
    and g: "(case r of None \<Rightarrow> Inr None
                 | Some out \<Rightarrow>
                     if row_reserve_base out \<noteq> Some (rb - base_out) then Inr None
                     else Inr (Some (out \<lparr> row_amount_in := Some v, row_base_out := Some base_out,
                                           row_direction := Some PUMP_DIR_QUOTE_TO_BASE \<rparr>))) = (Inr (Some s') :: pump_row option res)"
    using f v by (auto simp: rbind_Inr_iff)
  obtain out where out: "r = Some out" "row_reserve_base out = Some (rb - base_out)"
    "s' = out \<lparr> row_amount_in := Some v, row_base_out := Some base_out,
               row_direction := Some PUMP_DIR_QUOTE_TO_BASE \<rparr>"
    using g by (auto split: option.split_asm if_split_asm)
  show ?thesis
    using that [OF rb _ _ _ out(2,3)] bsearch_sound [OF b [unfolded v]] r out(1) by (simp add: hi_def)
qed

lemma row_ok_bookkeeping [simp]:
  "row_ok (s \<lparr> row_amount_in := a, row_base_out := b, row_direction := d \<rparr>) = row_ok s"
  "row_k (s \<lparr> row_amount_in := a, row_base_out := b, row_direction := d \<rparr>) = row_k s"
proof -
  have "row_base (s \<lparr> row_amount_in := a, row_base_out := b, row_direction := d \<rparr>) = row_base s"
    "row_quote (s \<lparr> row_amount_in := a, row_base_out := b, row_direction := d \<rparr>) = row_quote s"
    "row_virtual (s \<lparr> row_amount_in := a, row_base_out := b, row_direction := d \<rparr>) = row_virtual s"
    by (simp_all add: row_base_def row_quote_def row_virtual_def split: option.split)
  then show "row_ok (s \<lparr> row_amount_in := a, row_base_out := b, row_direction := d \<rparr>) = row_ok s"
    "row_k (s \<lparr> row_amount_in := a, row_base_out := b, row_direction := d \<rparr>) = row_k s"
    by (simp_all add: row_ok_def row_k_def split: sum.split)
qed

text \<open>Every accepted instruction is one accepted swap, up to the bookkeeping keys.\<close>

lemma apply_cpi_swap:
  assumes "apply_cpi s c = Inr (Some s')"
  obtains amt d s1 where "apply_swap s amt d = Inr (Some s1)" "row_ok s' = row_ok s1" "row_k s' = row_k s1"
    "row_lp s' = None" "row_protocol s' = None" "row_creator s' = None" "row_status s' = None"
proof -
  obtain a where a: "c_amount c = Some a" using assms by (auto simp: apply_cpi_def split: option.split_asm)
  consider d where "apply_swap s a d = Inr (Some s')" | "apply_buy_exact_out s a (c_max_quote c) = Inr (Some s')"
    using assms a by (auto simp: apply_cpi_def split: if_split_asm)
  then show ?thesis
  proof cases
    case 1
    then show ?thesis using that apply_swap_SomeD by metis
  next
    case 2
    then obtain v out where v: "apply_swap s v PUMP_DIR_QUOTE_TO_BASE = Inr (Some out)"
      "s' = out \<lparr> row_amount_in := Some v, row_base_out := Some a, row_direction := Some PUMP_DIR_QUOTE_TO_BASE \<rparr>"
      by (rule exact_out_SomeD) blast
    show ?thesis
      by (rule apply_swap_SomeD [OF v(1)], rule that [OF v(1)]) (simp_all add: v(2))
  qed
qed

definition cpi_step :: "pump_row \<Rightarrow> cpi \<Rightarrow> pump_row option" where
  "cpi_step s c = (case apply_cpi s c of Inr (Some s') \<Rightarrow> Some s' | _ \<Rightarrow> None)"

lemma cpi_step_iff: "cpi_step s c = Some s' \<longleftrightarrow> apply_cpi s c = Inr (Some s')"
  by (auto simp: cpi_step_def split: sum.splits option.splits)

interpretation pump_seq: guarded_steps cpi_step row_ok "\<lambda>s s'. row_k s \<le> row_k s'"
proof
  fix s c s'
  assume ok: "row_ok s" and "cpi_step s c = Some s'"
  then obtain amt d s1 where "apply_swap s amt d = Inr (Some s1)" "row_ok s' = row_ok s1" "row_k s' = row_k s1"
    by (metis cpi_step_iff apply_cpi_swap)
  with apply_swap_keeps [OF ok] show "row_ok s'" "row_k s \<le> row_k s'" by auto
qed auto

lemma sequence_loop_run:
  "sequence_loop s cs = Inr (Some t, e) \<Longrightarrow> pump_seq.run_steps s cs = Some t \<and> e = None
     \<and> list_all (\<lambda>c. c_kind c \<in> set known_kinds) cs"
proof (induction cs arbitrary: s)
  case (Cons c cs)
  obtain r where known: "c_kind c \<in> set known_kinds" and r: "apply_cpi s c = Inr r"
    and k: "(case r of None \<Rightarrow> Inr (None, Some ''unsupported_cpi'') | Some s' \<Rightarrow> sequence_loop s' cs) = Inr (Some t, e)"
    using Cons.prems by (auto simp: rbind_Inr_iff split: if_split_asm)
  obtain s' where "r = Some s'" using k by (cases r) auto
  then show ?case using Cons.IH [of s'] k r known by (simp add: cpi_step_iff [THEN iffD2])
qed simp

section \<open>Execution order\<close>

text \<open>\<open>a\<close> executes before \<open>b\<close>: an earlier outer instruction, or the same one and the outer
  itself before its inner calls, inner calls in order.\<close>

definition runs_before :: "cpi \<Rightarrow> cpi \<Rightarrow> bool" where
  "runs_before a b \<longleftrightarrow> (case (c_outer_ix a, c_outer_ix b) of
     (Some i, Some j) \<Rightarrow> i < j \<or> i = j \<and>
        (case (c_inner_ordinal a, c_inner_ordinal b) of
           (None, Some _) \<Rightarrow> True | (Some k, Some l) \<Rightarrow> k < l | _ \<Rightarrow> False)
   | _ \<Rightarrow> False)"

lemma decode_ix_position:
  "decode_ix i keys outer inner = Some c \<Longrightarrow> c_outer_ix c = Some outer \<and> c_inner_ordinal c = inner"
  by (auto simp: decode_ix_def unknown_cpi_def Let_def split: if_split_asm option.split_asm)

lemma sorted_wrt_enumerate:
  assumes "\<And>i x. sorted_wrt R (g i x)" and "\<And>i x j y a b. i < j \<Longrightarrow> a \<in> set (g i x) \<Longrightarrow> b \<in> set (g j y) \<Longrightarrow> R a b"
  shows "sorted_wrt R (concat (map (\<lambda>(i, x). g i x) (enumerate n xs)))"
proof (induction xs arbitrary: n)
  case (Cons x xs)
  have "R a b" if "a \<in> set (g n x)" "(j, y) \<in> set (enumerate (Suc n) xs)" "b \<in> set (g j y)" for a b j y
    using assms(2) [of n j a x b y] that by (auto simp: in_set_enumerate_eq)
  then show ?case using Cons assms(1) by (auto simp: sorted_wrt_append)
qed simp

lemma sorted_wrt_opt_list [simp]: "sorted_wrt R (opt_list x)"
  by (simp add: opt_list_def split: option.split)

lemma in_opt_list [simp]: "c \<in> set (opt_list x) \<longleftrightarrow> x = Some c"
  by (auto simp: opt_list_def split: option.split)

lemma walk_outer_position: "c \<in> set (walk_outer t keys i ox) \<Longrightarrow> c_outer_ix c = Some i"
  by (auto simp: walk_outer_def dest!: decode_ix_position)

lemma walk_outer_sorted: "sorted_wrt runs_before (walk_outer t keys i ox)"
proof -
  have "sorted_wrt runs_before (concat (map (\<lambda>(j, x). opt_list (decode_ix x keys i (Some j)))
      (enumerate 0 (inners_by t i))))"
    by (rule sorted_wrt_enumerate) (auto simp: runs_before_def dest!: decode_ix_position)
  then show ?thesis
    unfolding walk_outer_def sorted_wrt_append
    by (auto simp: runs_before_def dest!: decode_ix_position)
qed

lemma bsearch_all_down:
  assumes "\<And>m. lo \<le> m \<Longrightarrow> 2 * m \<le> lo + hi \<Longrightarrow> f m = Inr GoDown"
  shows "bsearch f lo hi = Inr None"
  using assms
proof (induction f lo hi rule: bsearch.induct)
  case (1 f lo hi)
  define mid where "mid = (lo + hi) div 2"
  show ?case
  proof (cases "lo > hi")
    case True
    then show ?thesis by (simp add: bsearch.simps)
  next
    case False
    then have m: "lo \<le> mid" "2 * mid \<le> lo + hi" "mid \<le> hi" by (simp_all add: mid_def)
    have d: "f mid = Inr GoDown" using 1(3) m by blast
    have "bsearch f lo (mid - 1) = Inr None"
      using 1(2) [OF False mid_def d refl] 1(3) m by simp
    then show ?thesis
      using d False unfolding bsearch.simps [of f lo hi] Let_def mid_def [symmetric] by simp
  qed
qed

text \<open>A pool of ten base units and a thousand quote units without fees.\<close>

definition small_row :: pump_row where
  "small_row = row_of_pump \<lparr> reserve_base = 10, reserve_quote = 1000, virtual_quote = 0,
     lp_fee_bps = 0, protocol_fee_bps = 0, creator_fee_bps = 0, pm_disabled = 0, pm_status = 0 \<rparr>"

lemma small_row_base: "row_base small_row = Inr 10"
  by (simp add: small_row_def)

lemma small_row_refuses:
  assumes "1 \<le> m" "m \<le> 100"
  shows "apply_swap small_row m PUMP_DIR_QUOTE_TO_BASE = Inr None"
proof -
  have "buy_effective 0 0 0 m = m"
    by (simp add: buy_effective_def buy_fees_def swap_fee_def PUMP_DEN_def)
  moreover have "10 * (m - 1) div (1000 + (m - 1)) = 0" using assms by simp
  ultimately show ?thesis using assms
    by (simp add: apply_swap_def small_row_def swap_core_def buy_core_def dir_defs PUMP_DEN_def Let_def)
qed

section \<open>Properties\<close>

text \<open>
  The decoded instructions come out in execution order: by outer instruction, the outer
  one before the calls it makes, and those in the order they were made.
\<close>
lemma walk_cpis_in_order: "sorted_wrt runs_before (walk_cpis t)"
  unfolding walk_cpis_def Let_def
  by (rule sorted_wrt_enumerate) (auto simp: walk_outer_sorted runs_before_def dest!: walk_outer_position)



text \<open>
  C40: only the first instruction of a transaction is charged fees. The state an accepted
  instruction leaves has no fee keys, so the rest of the sequence is applied to a pool whose
  liquidity, protocol and creator fees are all zero, whatever they were before.
\<close>
theorem sequence_drops_fees:
  assumes "apply_cpi s c = Inr (Some s')" and "c_kind c \<in> set known_kinds"
    and "cs \<noteq> []" and "list_all (\<lambda>c. c_kind c \<noteq> ''unknown'') cs"
  shows "apply_sequence s (c # cs) = apply_sequence s' cs
    \<and> or0 (row_lp s') = 0 \<and> or0 (row_protocol s') = 0 \<and> or0 (row_creator s') = 0"
proof -
  have "c_kind c \<noteq> ''unknown''" using assms(2) by (auto simp: known_kinds_def)
  then have "apply_sequence s (c # cs) = apply_sequence s' cs"
    using assms by (auto simp: apply_sequence_def list_ex_iff list_all_iff)
  moreover have "or0 (row_lp s') = 0" "or0 (row_protocol s') = 0" "or0 (row_creator s') = 0"
    by (rule apply_cpi_swap [OF assms(1)], simp add: or0_def)+
  ultimately show ?thesis by blast
qed

theorem sequence_drops_fees_witness:
  "\<exists>s'. apply_cpi (row_of_pump sample_pump) ((unknown_cpi None None None) \<lparr> c_kind := ''sell'', c_amount := Some 700 \<rparr>)
      = Inr (Some s') \<and> or0 (row_lp (row_of_pump sample_pump)) = 20 \<and> or0 (row_lp s') = 0"
proof -
  define c where "c = (unknown_cpi None None None) \<lparr> c_kind := ''sell'', c_amount := Some (700 :: int) \<rparr>"
  have k: "c_kind c \<in> set known_kinds" "list_all (\<lambda>c. c_kind c \<noteq> ''unknown'') [c]"
    by (simp_all add: c_def known_kinds_def)
  have "case apply_cpi (row_of_pump sample_pump) c of Inr (Some t) \<Rightarrow> True | _ \<Rightarrow> False"
    unfolding c_def by code_simp
  then obtain t where t: "apply_cpi (row_of_pump sample_pump) c = Inr (Some t)"
    by (auto split: sum.split_asm option.split_asm)
  from sequence_drops_fees [OF t k(1) _ k(2)] t show ?thesis
    by (simp add: c_def sample_pump_def)
qed

text \<open>
  An exact-out buy that is accepted takes exactly the requested base out of the pool and
  spends between one unit and the caller's limit.
\<close>
lemma exact_out_sound:
  assumes "apply_buy_exact_out s base_out mq = Inr (Some s')"
  shows "\<exists>rb v. row_base s = Inr rb \<and> row_base s' = Inr (rb - base_out) \<and> row_amount_in s' = Some v
    \<and> 1 \<le> v \<and> v \<le> (if or0 mq = 0 then 10 ^ 18 else or0 mq)"
proof -
  obtain rb v out where h: "row_base s = Inr rb" "1 \<le> v" "v \<le> (if or0 mq = 0 then 10 ^ 18 else or0 mq)"
    "apply_swap s v PUMP_DIR_QUOTE_TO_BASE = Inr (Some out)" "row_reserve_base out = Some (rb - base_out)"
    "s' = out \<lparr> row_amount_in := Some v, row_base_out := Some base_out,
               row_direction := Some PUMP_DIR_QUOTE_TO_BASE \<rparr>"
    by (rule exact_out_SomeD [OF assms])
  have "row_base out = Inr (rb - base_out)"
    by (rule apply_swap_SomeD [OF h(4)]) (use h(5) in simp)
  then have "row_base s' = Inr (rb - base_out)"
    using h(6) by (simp add: row_base_def split: option.split_asm)
  then show ?thesis using h by auto
qed

text \<open>
  The exact-out search gives up on small pools. A swap too small to buy anything is
  refused, and the search reads a refusal as "too much": when every amount up to the middle
  of the range is refused it returns nothing, even though a larger amount within the limit
  buys exactly what was asked.
\<close>
lemma exact_out_misses_answer:
  assumes "row_base s = Inr rb" and "0 < mq"
    and "\<And>m. 1 \<le> m \<Longrightarrow> 2 * m \<le> 1 + mq \<Longrightarrow> apply_swap s m PUMP_DIR_QUOTE_TO_BASE = Inr None"
  shows "apply_buy_exact_out s base_out (Some mq) = Inr None"
proof -
  have "bsearch (exact_out_probe s (rb - base_out)) 1 mq = Inr None"
    using assms(3) by (intro bsearch_all_down) (simp add: exact_out_probe_def)
  then show ?thesis using assms by (simp add: apply_buy_exact_out_def or0_def Let_def)
qed

end
