(* ===== verification/Dlmm_Orders.thy ===== *)
theory Dlmm_Orders
  imports Dlmm_Quote
begin

text \<open>
  \<^verbatim>\<open>arb-cap/dlmm_orders\<close>: bins that hold limit orders beside market-maker liquidity. The
  144-byte bin layout (\<^verbatim>\<open>inventory.py\<close>), the three-layer fill and the fee-free swap on
  unit-price bins (\<^verbatim>\<open>fill_bin.py\<close>), the gate and snapshot of the pair account
  (\<^verbatim>\<open>state011_draft.py\<close>) and the wire form of a bin (\<^verbatim>\<open>wire.py\<close>).
\<close>

section \<open>Bin layout\<close>

definition BIN_SIZE :: nat where "BIN_SIZE = 144"
definition MAX_BIN_PER_ARRAY :: nat where "MAX_BIN_PER_ARRAY = 70"
definition BINS_OFF :: nat where "BINS_OFF = 48"
definition FN_UNDETERMINED :: int where "FN_UNDETERMINED = 0"
definition FN_LIQUIDITY_MINING :: int where "FN_LIQUIDITY_MINING = 1"
definition FN_LIMIT_ORDER :: int where "FN_LIMIT_ORDER = 2"

lemmas inv_consts = BIN_SIZE_def MAX_BIN_PER_ARRAY_def BINS_OFF_def FN_UNDETERMINED_def
  FN_LIQUIDITY_MINING_def FN_LIMIT_ORDER_def

record obin_raw =
  ob_id :: int
  ob_amount_x :: int
  ob_amount_y :: int
  ob_price :: int
  ob_liquidity_supply :: int
  ob_fulfilled_x :: int
  ob_fulfilled_y :: int
  ob_fee_ask :: int
  ob_fee_bid :: int
  ob_open :: int
  ob_proc_total :: int
  ob_proc_rem :: int
  ob_age :: int
  ob_ask :: int

text \<open>The id is set by the caller; \<open>parse_bin\<close> itself leaves it at 0.\<close>

definition parse_bin :: "bytes \<Rightarrow> nat \<Rightarrow> obin_raw res" where
  "parse_bin raw off =
    (if length raw < off + BIN_SIZE then Inl (ValueError ''short bin'')
     else Inr \<lparr> ob_id = 0,
       ob_amount_x = u_at 8 raw off, ob_amount_y = u_at 8 raw (off + 8),
       ob_price = u_at 8 raw (off + 16) + u_at 8 raw (off + 24) * 2 ^ 64,
       ob_liquidity_supply = u_at 8 raw (off + 32) + u_at 8 raw (off + 40) * 2 ^ 64,
       ob_fulfilled_x = u_at 8 raw (off + 48), ob_fulfilled_y = u_at 8 raw (off + 56),
       ob_fee_ask = u_at 8 raw (off + 64), ob_fee_bid = u_at 8 raw (off + 72),
       ob_open = u_at 8 raw (off + 112), ob_proc_total = u_at 8 raw (off + 120),
       ob_proc_rem = u_at 8 raw (off + 128),
       ob_age = u_at 4 raw (off + 136), ob_ask = u_at 1 raw (off + 140) \<rparr>)"

definition orders_parse_bin_array :: "bytes \<Rightarrow> obin_raw list res" where
  "orders_parse_bin_array data =
    (if length data < 10136 then Inr []
     else let body = drop 8 data;
              lo = i_at 8 body 0 * int MAX_BIN_PER_ARRAY
          in rmap (\<lambda>i. rbind (parse_bin body (BINS_OFF + i * BIN_SIZE)) (\<lambda>b.
                 Inr (b \<lparr> ob_id := lo + int i \<rparr>))) [0..<MAX_BIN_PER_ARRAY])"

definition put_u :: "nat \<Rightarrow> nat \<Rightarrow> int \<Rightarrow> bytes \<Rightarrow> bytes res" where
  "put_u k off v buf = rbind (pack_u k v) (\<lambda>bs. Inr (splice buf off bs))"

definition pack_bin :: "int \<Rightarrow> int \<Rightarrow> int \<Rightarrow> int \<Rightarrow> int \<Rightarrow> int \<Rightarrow> int \<Rightarrow> int \<Rightarrow> bytes res" where
  "pack_bin amount_x amount_y open_order_amount total_processing processed_remaining
     ask_side order_age price =
    rbind (put_u 8 0 amount_x (zeros BIN_SIZE)) (\<lambda>b1.
    rbind (put_u 8 8 amount_y b1) (\<lambda>b2.
    rbind (put_u 8 16 (price mod 2 ^ 64) b2) (\<lambda>b3.
    rbind (put_u 8 24 (price div 2 ^ 64) b3) (\<lambda>b4.
    rbind (put_u 8 112 open_order_amount b4) (\<lambda>b5.
    rbind (put_u 8 120 total_processing b5) (\<lambda>b6.
    rbind (put_u 8 128 processed_remaining b6) (\<lambda>b7.
    rbind (put_u 4 136 order_age b7) (\<lambda>b8.
    put_u 1 140 (ask_side mod 256) b8))))))))"

section \<open>Inventory\<close>

definition is_support_limit_order :: "int \<Rightarrow> bool \<Rightarrow> bool" where
  "is_support_limit_order function_type reward_mints_all_default =
    (if function_type = FN_LIMIT_ORDER then True
     else if function_type = FN_LIQUIDITY_MINING then False
     else if function_type = FN_UNDETERMINED then reward_mints_all_default
     else False)"

record OBin =
  o_id :: int
  o_amount_x :: int
  o_amount_y :: int
  o_proc_rem :: int
  o_open :: int
  o_proc_total :: int
  o_age :: int
  o_ask :: int
  o_price :: int

definition limit_order_amounts_by_direction :: "OBin \<Rightarrow> bool \<Rightarrow> int \<times> int" where
  "limit_order_amounts_by_direction b swap_for_y =
    (let is_ask = (o_ask b \<noteq> 0)
     in if (swap_for_y \<and> \<not> is_ask) \<or> (\<not> swap_for_y \<and> is_ask) then (o_open b, o_proc_rem b) else (0, 0))"

definition mm_amount :: "OBin \<Rightarrow> bool \<Rightarrow> int" where
  "mm_amount b swap_for_y = (if swap_for_y then o_amount_y b else o_amount_x b)"

definition available_output :: "OBin \<Rightarrow> bool \<Rightarrow> bool \<Rightarrow> int" where
  "available_output b swap_for_y support_limit_order =
    (let mm = mm_amount b swap_for_y
     in if \<not> support_limit_order then mm
        else let (open_amt, proc_rem) = limit_order_amounts_by_direction b swap_for_y
             in mm + open_amt + proc_rem)"

definition kernel_available_output :: "OBin \<Rightarrow> bool \<Rightarrow> int" where
  "kernel_available_output b swap_for_y = mm_amount b swap_for_y"

record layer_takes =
  tk_mm :: int
  tk_proc :: int
  tk_open :: int
  tk_unfilled :: int

definition fill_layers :: "OBin \<Rightarrow> int \<Rightarrow> bool \<Rightarrow> bool \<Rightarrow> layer_takes" where
  "fill_layers b leftover_out swap_for_y support_limit_order =
    (let mm = mm_amount b swap_for_y;
         take_mm = min leftover_out mm;
         left = leftover_out - take_mm
     in if support_limit_order \<and> left > 0
        then let (open_amt, proc_rem) = limit_order_amounts_by_direction b swap_for_y;
                 take_proc = min left proc_rem;
                 left1 = left - take_proc;
                 take_open = min left1 open_amt
             in \<lparr> tk_mm = take_mm, tk_proc = take_proc, tk_open = take_open, tk_unfilled = left1 - take_open \<rparr>
        else \<lparr> tk_mm = take_mm, tk_proc = 0, tk_open = 0, tk_unfilled = left \<rparr>)"

definition placement_delta :: "obin_raw \<Rightarrow> obin_raw \<Rightarrow> (string \<times> int) list" where
  "placement_delta before after =
    [(''amount_x'', ob_amount_x after - ob_amount_x before),
     (''amount_y'', ob_amount_y after - ob_amount_y before),
     (''open_order_amount'', ob_open after - ob_open before),
     (''total_processing_order_amount'', ob_proc_total after - ob_proc_total before),
     (''processed_order_remaining_amount'', ob_proc_rem after - ob_proc_rem before),
     (''limit_order_ask_side'', ob_ask after - ob_ask before),
     (''fulfilled_order_amount_x'', ob_fulfilled_x after - ob_fulfilled_x before),
     (''fulfilled_order_amount_y'', ob_fulfilled_y after - ob_fulfilled_y before)]"

definition mm_unchanged :: "(string \<times> int) list \<Rightarrow> bool" where
  "mm_unchanged delta =
    ((case dget delta ''amount_x'' of None \<Rightarrow> 0 | Some v \<Rightarrow> v) = 0
     \<and> (case dget delta ''amount_y'' of None \<Rightarrow> 0 | Some v \<Rightarrow> v) = 0)"

definition summarize_bins :: "obin_raw list \<Rightarrow> nat \<times> (int \<times> int \<times> int \<times> int \<times> int \<times> int \<times> int) list" where
  "summarize_bins bs =
    (length bs,
     map (\<lambda>b. (ob_id b, ob_amount_x b, ob_amount_y b, ob_open b, ob_proc_rem b, ob_proc_total b, ob_ask b))
       (filter (\<lambda>b. ob_open b \<noteq> 0 \<or> ob_proc_rem b \<noteq> 0) bs))"

section \<open>The layered fill\<close>

definition Q1 :: int where "Q1 = 2 ^ 64"

record OState =
  os_active_id :: int
  os_bin_step :: int
  os_status :: int
  os_function_type :: int
  os_reward_mask :: int
  os_reserve_x :: int
  os_reserve_y :: int
  os_bins :: "OBin list"

record Fill =
  fl_mm_in :: int
  fl_mm_out :: int
  fl_proc_in :: int
  fl_proc_out :: int
  fl_open_in :: int
  fl_open_out :: int
  fl_used_in :: int
  fl_left :: int
  fl_out_amt :: int

definition o_amount_out :: "int \<Rightarrow> int \<Rightarrow> int res" where
  "o_amount_out amount price = (if price = Q1 then Inr amount else Inl NotImplementedError)"

definition o_amount_in :: "int \<Rightarrow> int \<Rightarrow> int res" where
  "o_amount_in out_amt price = (if price = Q1 then Inr out_amt else Inl NotImplementedError)"

definition fill_against :: "int \<Rightarrow> int \<Rightarrow> int \<Rightarrow> (int \<times> int \<times> int) res" where
  "fill_against max_out amount price =
    (if max_out = 0 then Inr (0, amount, 0)
     else rbind (o_amount_in max_out price) (\<lambda>max_in.
       if amount \<ge> max_in then Inr (max_in, amount - max_in, max_out)
       else rbind (o_amount_out amount price) (\<lambda>out_amt. Inr (amount, 0, out_amt))))"

definition orders_enabled :: "OState \<Rightarrow> bool" where
  "orders_enabled s = is_support_limit_order (os_function_type s) (os_reward_mask s = 0)"

definition ob_fill_mm :: "OBin \<Rightarrow> int \<Rightarrow> bool \<Rightarrow> (int \<times> int \<times> int) res" where
  "ob_fill_mm b amount swap_for_y = fill_against (mm_amount b swap_for_y) amount (o_price b)"

definition fill_processed_order :: "OBin \<Rightarrow> int \<Rightarrow> bool \<Rightarrow> bool \<Rightarrow> (int \<times> int \<times> int) res" where
  "fill_processed_order b amount swap_for_y orders_on =
    (let proc = (if orders_on then snd (limit_order_amounts_by_direction b swap_for_y) else 0)
     in fill_against proc amount (o_price b))"

definition fill_open_orders :: "OBin \<Rightarrow> int \<Rightarrow> bool \<Rightarrow> bool \<Rightarrow> (int \<times> int \<times> int) res" where
  "fill_open_orders b amount swap_for_y orders_on =
    (let open_amt = (if orders_on then fst (limit_order_amounts_by_direction b swap_for_y) else 0)
     in fill_against open_amt amount (o_price b))"

definition fill_bin :: "OBin \<Rightarrow> int \<Rightarrow> bool \<Rightarrow> bool \<Rightarrow> Fill res" where
  "fill_bin b amount swap_for_y orders_on =
    rbind (ob_fill_mm b amount swap_for_y) (\<lambda>(mm_in, left1, mm_out).
    rbind (fill_processed_order b left1 swap_for_y orders_on) (\<lambda>(proc_in, left2, proc_out).
    rbind (fill_open_orders b left2 swap_for_y orders_on) (\<lambda>(open_in, left3, open_out).
      Inr \<lparr> fl_mm_in = mm_in, fl_mm_out = mm_out, fl_proc_in = proc_in, fl_proc_out = proc_out,
            fl_open_in = open_in, fl_open_out = open_out,
            fl_used_in = mm_in + proc_in + open_in, fl_left = left3,
            fl_out_amt = mm_out + proc_out + open_out \<rparr>)))"

text \<open>The bin and the pool after the fill; the pool's bin list is updated by the caller.\<close>

definition apply_fill :: "OBin \<Rightarrow> OState \<Rightarrow> bool \<Rightarrow> Fill \<Rightarrow> (OBin \<times> OState) res" where
  "apply_fill b s swap_for_y f =
    (if swap_for_y \<and> o_amount_y b < fl_mm_out f then Inl (ValueError ''mm y'')
     else if \<not> swap_for_y \<and> o_amount_x b < fl_mm_out f then Inl (ValueError ''mm x'')
     else let b1 = (if swap_for_y
                    then b \<lparr> o_amount_y := o_amount_y b - fl_mm_out f, o_amount_x := o_amount_x b + fl_mm_in f \<rparr>
                    else b \<lparr> o_amount_x := o_amount_x b - fl_mm_out f, o_amount_y := o_amount_y b + fl_mm_in f \<rparr>);
              s1 = (if swap_for_y
                    then s \<lparr> os_reserve_y := os_reserve_y s - fl_out_amt f, os_reserve_x := os_reserve_x s + fl_used_in f \<rparr>
                    else s \<lparr> os_reserve_x := os_reserve_x s - fl_out_amt f, os_reserve_y := os_reserve_y s + fl_used_in f \<rparr>)
          in if o_proc_rem b1 < fl_proc_out f \<or> o_open b1 < fl_open_out f then Inl (ValueError ''order inventory'')
             else Inr (b1 \<lparr> o_proc_rem := o_proc_rem b1 - fl_proc_out f, o_open := o_open b1 - fl_open_out f \<rparr>, s1))"

definition orders_find :: "OState \<Rightarrow> int \<Rightarrow> OBin option" where
  "orders_find s bid = find (\<lambda>b. o_id b = bid) (os_bins s)"

text \<open>The mutation of the object \<^const>\<open>orders_find\<close> returned, inside the list.\<close>

fun set_obin :: "int \<Rightarrow> OBin \<Rightarrow> OBin list \<Rightarrow> OBin list" where
  "set_obin bid b' [] = []"
| "set_obin bid b' (b # bs) = (if o_id b = bid then b' # bs else b # set_obin bid b' bs)"

definition move_active :: "bool \<Rightarrow> OState \<Rightarrow> OState" where
  "move_active swap_for_y s =
    s \<lparr> os_active_id := (if swap_for_y then os_active_id s - 1 else os_active_id s + 1) \<rparr>"

definition orders_step :: "bool \<Rightarrow> bool \<Rightarrow> OState \<Rightarrow> int \<Rightarrow> int \<Rightarrow> (OState \<times> int \<times> int) res" where
  "orders_step on swap_for_y after left total_out =
    (case orders_find after (os_active_id after) of
       None \<Rightarrow> Inl (ValueError ''missing bin'')
     | Some b \<Rightarrow>
         rbind (fill_bin b left swap_for_y on) (\<lambda>f.
           if fl_out_amt f = 0 \<and> fl_used_in f = 0 then Inr (move_active swap_for_y after, left, total_out)
           else rbind (apply_fill b after swap_for_y f) (\<lambda>(b', s').
             let s2 = s' \<lparr> os_bins := set_obin (os_active_id after) b' (os_bins s') \<rparr>;
                 left' = left - fl_used_in f
             in Inr (if left' > 0 then move_active swap_for_y s2 else s2, left', total_out + fl_out_amt f))))"

fun orders_loop :: "nat \<Rightarrow> bool \<Rightarrow> bool \<Rightarrow> OState \<Rightarrow> int \<Rightarrow> int \<Rightarrow> (OState \<times> int \<times> int) res" where
  "orders_loop 0 on swap_for_y after left total_out = Inr (after, left, total_out)"
| "orders_loop (Suc n) on swap_for_y after left total_out =
     (if left > 0
      then rbind (orders_step on swap_for_y after left total_out) (\<lambda>(after', left', total').
             orders_loop n on swap_for_y after' left' total')
      else Inr (after, left, total_out))"

definition orders_apply_swap :: "OState \<Rightarrow> int \<Rightarrow> bool \<Rightarrow> (OState \<times> int) res" where
  "orders_apply_swap before amt swap_for_y =
    rbind (orders_loop 256 (orders_enabled before) swap_for_y before amt 0) (\<lambda>(after, left, total_out).
      if left > 0 then Inl (ValueError ''unfilled'') else Inr (after, total_out))"

definition bin_snap :: "OBin \<Rightarrow> (string \<times> int) list" where
  "bin_snap b = [(''id'', o_id b), (''amount_x'', o_amount_x b), (''amount_y'', o_amount_y b),
     (''processed_order_remaining_amount'', o_proc_rem b), (''open_order_amount'', o_open b),
     (''limit_order_ask_side'', o_ask b)]"

section \<open>The pair account\<close>

definition REWARD0_MINT :: nat where "REWARD0_MINT = 8 + 32 + 32 + 4 + 7 + 5 + 128 + 16 + 32"
definition REWARD1_MINT :: nat where "REWARD1_MINT = REWARD0_MINT + 144"
definition FN_TYPE_OFF :: nat where "FN_TYPE_OFF = 8 + 8 + 8 + 8 + 2 + 1"

definition parse_function_type :: "bytes \<Rightarrow> int res" where
  "parse_function_type pair =
    (if length pair < FN_TYPE_OFF + 1 then Inl (ValueError ''short pair'')
     else byte_at pair FN_TYPE_OFF)"

definition parse_reward_mask :: "bytes \<Rightarrow> int" where
  "parse_reward_mask pair =
    (if length pair < REWARD1_MINT + 32 then 0
     else (if slice REWARD0_MINT (REWARD0_MINT + 32) pair \<noteq> zeros 32 then 1 else 0)
        + (if slice REWARD1_MINT (REWARD1_MINT + 32) pair \<noteq> zeros 32 then 2 else 0))"

definition parse_orders_gate :: "bytes \<Rightarrow> (int \<times> int \<times> bool) res" where
  "parse_orders_gate pair =
    rbind (parse_function_type pair) (\<lambda>ft.
      let mask = parse_reward_mask pair
      in Inr (ft, mask, is_support_limit_order ft (mask = 0)))"

definition snap_bins :: "bytes list \<Rightarrow> int \<Rightarrow> int \<Rightarrow> obin_raw list res" where
  "snap_bins bin_datas active k =
    rbind (rmap orders_parse_bin_array bin_datas) (\<lambda>bss.
      Inr (filter (\<lambda>b. \<bar>ob_id b - active\<bar> \<le> k) (concat bss)))"

text \<open>The published bin: \<open>x\<close>, \<open>y\<close>, \<open>proc_rem\<close>, \<open>open\<close>, \<open>ask\<close>, keyed by bin id.\<close>

definition published_s ::
  "bytes \<Rightarrow> bytes list \<Rightarrow> int \<Rightarrow> ((int \<times> int \<times> bool) \<times> (int, int \<times> int \<times> int \<times> int \<times> int) dict) res" where
  "published_s pair bin_datas active =
    rbind (parse_orders_gate pair) (\<lambda>gate.
    rbind (snap_bins bin_datas active 16) (\<lambda>bs.
      Inr (gate, foldl (\<lambda>d b. dput (ob_id b)
                   (ob_amount_x b, ob_amount_y b, ob_proc_rem b, ob_open b, ob_ask b) d) [] bs)))"

definition write_bin_v2 :: "bytes \<Rightarrow> obin_raw \<Rightarrow> bytes res" where
  "write_bin_v2 buf b =
    rbind (pack_i 4 (ob_id b)) (\<lambda>i. rbind (pack_u 8 (ob_amount_x b)) (\<lambda>x.
    rbind (pack_u 8 (ob_amount_y b)) (\<lambda>y. rbind (pack_u 8 (ob_proc_rem b)) (\<lambda>p.
    rbind (pack_u 8 (ob_open b)) (\<lambda>op.
      Inr (buf @ i @ x @ y @ p @ op @ [word_of_int (ob_ask b mod 256)] @ zeros 7))))))"

definition write_pool_gate :: "bytes \<Rightarrow> int \<Rightarrow> int \<Rightarrow> bytes" where
  "write_pool_gate buf function_type reward_mask =
    buf @ [word_of_int (function_type mod 256), word_of_int (reward_mask mod 256)]"

section \<open>Layout lemmas\<close>

lemma put_u_props:
  assumes "put_u k off v buf = Inr buf'" and "off + k \<le> length buf"
  shows "length buf' = length buf" "u_at k buf' off = v"
    "o' + j \<le> off \<or> off + k \<le> o' \<Longrightarrow> u_at j buf' o' = u_at j buf o'"
proof -
  obtain bs where bs: "pack_u k v = Inr bs" "buf' = splice buf off bs"
    using assms(1) by (auto simp: put_u_def rbind_Inr_iff)
  have len: "length bs = k" using bs by (simp add: pack_u_length)
  show "length buf' = length buf" using bs len assms(2) by simp
  show "u_at k buf' off = v"
    using bs len assms(2) by (simp add: u_at_def slice_splice_same uint_le_pack_u)
  show "u_at j buf' o' = u_at j buf o'" if "o' + j \<le> off \<or> off + k \<le> o'"
    using that bs len assms(2) by (auto simp: u_at_def slice_splice_before slice_splice_after)
qed

lemma u_at_zeros [simp]: "u_at k (zeros n) off = 0"
proof -
  have "slice off (off + k) (zeros n) = zeros (min k (n - off))"
    by (simp add: slice_def zeros_def min_def)
  then show ?thesis by (simp add: u_at_def uint_le_def)
qed

lemma put_u_range: "put_u k off v buf = Inr buf' \<Longrightarrow> 0 \<le> v \<and> v < 256 ^ k"
  by (auto simp: put_u_def rbind_Inr_iff pack_u_def split: if_split_asm)

section \<open>Layers\<close>

definition layer_fill :: "int \<times> int \<Rightarrow> int \<Rightarrow> (int \<times> int \<times> int) option" where
  "layer_fill l a = (case fill_against (fst l) a (snd l) of Inl e \<Rightarrow> None | Inr r \<Rightarrow> Some r)"

lemma fill_against_props:
  assumes "fill_against m a p = Inr (u, r, out)" "0 \<le> m" "0 \<le> a"
  shows "u + r = a" "0 \<le> u" "0 \<le> r" "out = u" "out \<le> m"
  using assms
  by (auto simp: fill_against_def o_amount_in_def o_amount_out_def rbind_Inr_iff split: if_split_asm)

interpretation order_layers: layered_fill layer_fill fst "\<lambda>l. 0 \<le> fst l"
proof
  fix l a u r out
  assume "0 \<le> fst l" "0 \<le> (a :: int)" "layer_fill l a = Some (u, r, out)"
  then have "fill_against (fst l) a (snd l) = Inr (u, r, out)" "0 \<le> fst l" "0 \<le> a"
    by (auto simp: layer_fill_def split: sum.split_asm)
  from fill_against_props [OF this]
  show "u + r = a \<and> 0 \<le> u \<and> 0 \<le> r" "0 \<le> out \<and> out \<le> fst l" by auto
qed

interpretation mm_layers: layered_fill "\<lambda>b a. fill_mm b a sfy" "liquidity sfy"
  "\<lambda>b. 0 \<le> liquidity sfy b \<and> 0 < bin_price b" for sfy
proof
  fix l a u r out
  assume "0 \<le> liquidity sfy l \<and> 0 < bin_price l" "0 \<le> a" "fill_mm l a sfy = Some (u, r, out)"
  then show "u + r = a \<and> 0 \<le> u \<and> 0 \<le> r" "0 \<le> out \<and> out \<le> liquidity sfy l"
    using fill_mm_props [of sfy l a u r out] by (auto simp: liquidity_def)
qed

definition obin_ok :: "OBin \<Rightarrow> bool" where
  "obin_ok b \<longleftrightarrow> 0 \<le> o_amount_x b \<and> 0 \<le> o_amount_y b \<and> 0 \<le> o_proc_rem b \<and> 0 \<le> o_open b"

definition bin_layers :: "OBin \<Rightarrow> bool \<Rightarrow> bool \<Rightarrow> (int \<times> int) list" where
  "bin_layers b sfy on =
    [(mm_amount b sfy, o_price b),
     (if on then snd (limit_order_amounts_by_direction b sfy) else 0, o_price b),
     (if on then fst (limit_order_amounts_by_direction b sfy) else 0, o_price b)]"

lemma bin_layers_ok: "obin_ok b \<Longrightarrow> list_all (\<lambda>l. 0 \<le> fst l) (bin_layers b sfy on)"
  by (auto simp: bin_layers_def obin_ok_def mm_amount_def limit_order_amounts_by_direction_def Let_def)

lemma bin_layers_total: "sum_list (map fst (bin_layers b sfy on)) = available_output b sfy on"
  by (simp add: bin_layers_def available_output_def Let_def split: prod.split)

lemma fill_bin_SomeD:
  assumes "fill_bin b a sfy on = Inr f"
  obtains l1 l2 where
    "fill_against (mm_amount b sfy) a (o_price b) = Inr (fl_mm_in f, l1, fl_mm_out f)"
    "fill_against (if on then snd (limit_order_amounts_by_direction b sfy) else 0) l1 (o_price b)
       = Inr (fl_proc_in f, l2, fl_proc_out f)"
    "fill_against (if on then fst (limit_order_amounts_by_direction b sfy) else 0) l2 (o_price b)
       = Inr (fl_open_in f, fl_left f, fl_open_out f)"
    "fl_used_in f = fl_mm_in f + fl_proc_in f + fl_open_in f"
    "fl_out_amt f = fl_mm_out f + fl_proc_out f + fl_open_out f"
  using assms unfolding fill_bin_def ob_fill_mm_def fill_processed_order_def fill_open_orders_def Let_def
  by (auto simp: rbind_Inr_iff)

lemma fill_bin_layers:
  assumes "fill_bin b a sfy on = Inr f"
  shows "order_layers.fill_all (bin_layers b sfy on) a = Some (fl_used_in f, fl_left f, fl_out_amt f)"
  by (rule fill_bin_SomeD [OF assms]) (simp add: bin_layers_def layer_fill_def)

lemma fill_bin_takes:
  assumes ok: "obin_ok b" "0 \<le> a" and f: "fill_bin b a sfy on = Inr f"
  shows "fl_used_in f + fl_left f = a" "0 \<le> fl_used_in f" "0 \<le> fl_left f" "fl_out_amt f = fl_used_in f"
    "0 \<le> fl_mm_out f" "fl_mm_out f \<le> mm_amount b sfy" "fl_mm_in f = fl_mm_out f"
    "0 \<le> fl_proc_out f" "fl_proc_out f \<le> o_proc_rem b" "0 \<le> fl_open_out f" "fl_open_out f \<le> o_open b"
    "fl_out_amt f = fl_mm_out f + fl_proc_out f + fl_open_out f"
proof -
  obtain l1 l2 where
    1: "fill_against (mm_amount b sfy) a (o_price b) = Inr (fl_mm_in f, l1, fl_mm_out f)" and
    2: "fill_against (if on then snd (limit_order_amounts_by_direction b sfy) else 0) l1 (o_price b)
       = Inr (fl_proc_in f, l2, fl_proc_out f)" and
    3: "fill_against (if on then fst (limit_order_amounts_by_direction b sfy) else 0) l2 (o_price b)
       = Inr (fl_open_in f, fl_left f, fl_open_out f)" and
    sums: "fl_used_in f = fl_mm_in f + fl_proc_in f + fl_open_in f"
      "fl_out_amt f = fl_mm_out f + fl_proc_out f + fl_open_out f"
    by (rule fill_bin_SomeD [OF f])
  have c: "0 \<le> mm_amount b sfy"
    "0 \<le> (if on then snd (limit_order_amounts_by_direction b sfy) else 0)"
    "(if on then snd (limit_order_amounts_by_direction b sfy) else 0) \<le> o_proc_rem b"
    "0 \<le> (if on then fst (limit_order_amounts_by_direction b sfy) else 0)"
    "(if on then fst (limit_order_amounts_by_direction b sfy) else 0) \<le> o_open b"
    using ok by (auto simp: obin_ok_def mm_amount_def limit_order_amounts_by_direction_def Let_def)
  note P1 = fill_against_props [OF 1 c(1) ok(2)]
  note P2 = fill_against_props [OF 2 c(2) P1(3)]
  note P3 = fill_against_props [OF 3 c(4) P2(3)]
  show "fl_used_in f + fl_left f = a" "0 \<le> fl_used_in f" "0 \<le> fl_left f" "fl_out_amt f = fl_used_in f"
    "0 \<le> fl_mm_out f" "fl_mm_out f \<le> mm_amount b sfy" "fl_mm_in f = fl_mm_out f"
    "0 \<le> fl_proc_out f" "fl_proc_out f \<le> o_proc_rem b" "0 \<le> fl_open_out f" "fl_open_out f \<le> o_open b"
    "fl_out_amt f = fl_mm_out f + fl_proc_out f + fl_open_out f"
    using P1 P2 P3 c sums by auto
qed

section \<open>The swap\<close>

definition orders_ok :: "OState \<Rightarrow> bool" where
  "orders_ok s \<longleftrightarrow> list_all (\<lambda>b. obin_ok b \<and> o_price b = Q1) (os_bins s)"

definition bin_inventory :: "bool \<Rightarrow> OBin \<Rightarrow> int" where
  "bin_inventory sfy b = mm_amount b sfy + o_proc_rem b + o_open b"

definition inventory :: "bool \<Rightarrow> OState \<Rightarrow> int" where
  "inventory sfy s = sum_list (map (bin_inventory sfy) (os_bins s))"

definition reserve_in :: "bool \<Rightarrow> OState \<Rightarrow> int" where
  "reserve_in sfy s = (if sfy then os_reserve_x s else os_reserve_y s)"

definition reserve_out :: "bool \<Rightarrow> OState \<Rightarrow> int" where
  "reserve_out sfy s = (if sfy then os_reserve_y s else os_reserve_x s)"

lemma sum_set_obin:
  "find (\<lambda>b. o_id b = i) bs = Some b \<Longrightarrow>
     sum_list (map g (set_obin i b' bs)) = sum_list (map g bs) - g b + (g b' :: int)"
  by (induction bs) auto

lemma list_all_set_obin: "list_all P bs \<Longrightarrow> P b' \<Longrightarrow> list_all P (set_obin i b' bs)"
  by (induction bs) auto

lemma move_active_frame [simp]:
  "os_bins (move_active sfy s) = os_bins s" "orders_ok (move_active sfy s) = orders_ok s"
  "inventory sfy' (move_active sfy s) = inventory sfy' s"
  "reserve_in sfy' (move_active sfy s) = reserve_in sfy' s"
  "reserve_out sfy' (move_active sfy s) = reserve_out sfy' s"
  by (simp_all add: move_active_def orders_ok_def inventory_def reserve_in_def reserve_out_def)

lemma reserve_bins_frame [simp]:
  "reserve_in sfy (s \<lparr> os_bins := bs \<rparr>) = reserve_in sfy s"
  "reserve_out sfy (s \<lparr> os_bins := bs \<rparr>) = reserve_out sfy s"
  by (simp_all add: reserve_in_def reserve_out_def)

text \<open>A fill of a bin of the pool always applies, and moves exactly what it says.\<close>

lemma apply_fill_ok:
  assumes ok: "obin_ok b" "0 \<le> a" and f: "fill_bin b a sfy on = Inr f"
  obtains b' s' where "apply_fill b s sfy f = Inr (b', s')" "obin_ok b'" "o_price b' = o_price b"
    "bin_inventory sfy b' = bin_inventory sfy b - fl_out_amt f"
    "os_bins s' = os_bins s" "os_active_id s' = os_active_id s"
    "reserve_in sfy s' = reserve_in sfy s + fl_used_in f"
    "reserve_out sfy s' = reserve_out sfy s - fl_out_amt f"
proof -
  note T = fill_bin_takes [OF ok f]
  have "\<exists>r. apply_fill b s sfy f = Inr r"
    using T by (cases sfy) (simp_all add: apply_fill_def Let_def mm_amount_def)
  then obtain b' s' where eq: "apply_fill b s sfy f = Inr (b', s')" by auto
  have "obin_ok b' \<and> o_price b' = o_price b \<and> bin_inventory sfy b' = bin_inventory sfy b - fl_out_amt f"
    using eq T ok(1)
    by (cases sfy) (auto simp: apply_fill_def Let_def mm_amount_def obin_ok_def bin_inventory_def split: if_split_asm)
  moreover have "os_bins s' = os_bins s \<and> os_active_id s' = os_active_id s
      \<and> reserve_in sfy s' = reserve_in sfy s + fl_used_in f \<and> reserve_out sfy s' = reserve_out sfy s - fl_out_amt f"
    using eq by (cases sfy) (auto simp: apply_fill_def Let_def reserve_in_def reserve_out_def split: if_split_asm)
  ultimately show ?thesis using that eq by blast
qed

lemma fill_bin_unit_price:
  assumes "o_price b = Q1"
  shows "\<exists>f. fill_bin b a sfy on = Inr f"
proof -
  have F: "\<exists>u r out. fill_against m x Q1 = Inr (u, r, out)" for m x
    by (auto simp: fill_against_def o_amount_in_def o_amount_out_def)
  obtain u1 r1 o1 where 1: "fill_against (mm_amount b sfy) a Q1 = Inr (u1, r1, o1)" using F by blast
  obtain u2 r2 o2 where 2: "fill_against (if on then snd (limit_order_amounts_by_direction b sfy) else 0) r1 Q1
      = Inr (u2, r2, o2)" using F by blast
  obtain u3 r3 o3 where 3: "fill_against (if on then fst (limit_order_amounts_by_direction b sfy) else 0) r2 Q1
      = Inr (u3, r3, o3)" using F by blast
  show ?thesis
    using 1 2 3 assms by (simp add: fill_bin_def ob_fill_mm_def fill_processed_order_def fill_open_orders_def)
qed

definition step_account :: "bool \<Rightarrow> OState \<Rightarrow> int \<Rightarrow> int \<Rightarrow> OState \<Rightarrow> int \<Rightarrow> int \<Rightarrow> bool" where
  "step_account sfy s left tot s' left' tot' \<longleftrightarrow>
     orders_ok s' \<and> 0 \<le> left' \<and> tot' - tot = left - left'
     \<and> reserve_in sfy s' = reserve_in sfy s + (left - left')
     \<and> reserve_out sfy s' = reserve_out sfy s - (tot' - tot)
     \<and> inventory sfy s' + tot' = inventory sfy s + tot"

lemma orders_step_account:
  assumes ok: "orders_ok s" "0 \<le> left"
  shows "case orders_step on sfy s left tot of
      Inl e \<Rightarrow> e = ValueError ''missing bin''
    | Inr (s', left', tot') \<Rightarrow> step_account sfy s left tot s' left' tot'"
proof (cases "orders_find s (os_active_id s)")
  case None
  then show ?thesis by (simp add: orders_step_def)
next
  case (Some b)
  then have fnd: "find (\<lambda>b. o_id b = os_active_id s) (os_bins s) = Some b" by (simp add: orders_find_def)
  then have "b \<in> set (os_bins s)" by (auto simp: find_Some_iff)
  then have bok: "obin_ok b" "o_price b = Q1" using ok by (auto simp: orders_ok_def list_all_iff)
  obtain f where f: "fill_bin b left sfy on = Inr f" using fill_bin_unit_price [OF bok(2)] by blast
  note T = fill_bin_takes [OF bok(1) ok(2) f]
  obtain b' s1 where ap: "apply_fill b s sfy f = Inr (b', s1)" "obin_ok b'" "o_price b' = o_price b"
    "bin_inventory sfy b' = bin_inventory sfy b - fl_out_amt f" "os_bins s1 = os_bins s"
    "reserve_in sfy s1 = reserve_in sfy s + fl_used_in f" "reserve_out sfy s1 = reserve_out sfy s - fl_out_amt f"
    by (rule apply_fill_ok [OF bok(1) ok(2) f, of s]) blast
  define s2 where "s2 = s1 \<lparr> os_bins := set_obin (os_active_id s) b' (os_bins s1) \<rparr>"
  have s2: "orders_ok s2" "inventory sfy s2 = inventory sfy s - fl_out_amt f"
    "reserve_in sfy s2 = reserve_in sfy s + fl_used_in f" "reserve_out sfy s2 = reserve_out sfy s - fl_out_amt f"
    using ok ap bok sum_set_obin [OF fnd, of "bin_inventory sfy" b']
    by (simp_all add: s2_def orders_ok_def inventory_def list_all_set_obin)
  show ?thesis
    using Some f ap(1) s2 T(1,3,4) ok
    by (auto simp: orders_step_def step_account_def Let_def simp flip: s2_def)
qed

lemma orders_loop_account:
  assumes "orders_ok s" "0 \<le> left"
  shows "case orders_loop n on sfy s left tot of
      Inl e \<Rightarrow> e = ValueError ''missing bin''
    | Inr (s', left', tot') \<Rightarrow> step_account sfy s left tot s' left' tot'"
  using assms
proof (induction n arbitrary: s left tot)
  case 0
  then show ?case by (simp add: step_account_def)
next
  case (Suc n)
  show ?case
  proof (cases "left > 0")
    case False
    then show ?thesis using Suc.prems by (simp add: step_account_def)
  next
    case True
    note A = orders_step_account [OF Suc.prems, where on = on and sfy = sfy and tot = tot]
    show ?thesis
    proof (cases "orders_step on sfy s left tot")
      case (Inl e)
      then show ?thesis using A True by simp
    next
      case (Inr r)
      obtain s1 l1 t1 where r: "r = (s1, l1, t1)" by (cases r)
      have S: "step_account sfy s left tot s1 l1 t1" using A Inr r by simp
      then have "orders_ok s1" "0 \<le> l1" by (simp_all add: step_account_def)
      from Suc.IH [OF this, where tot = t1] S show ?thesis
        using True Inr r by (auto simp: step_account_def split: sum.split_asm sum.split)
    qed
  qed
qed

section \<open>Properties\<close>

text \<open>
  A bin survives its wire layout: whatever \<open>pack_bin\<close> writes, \<open>parse_bin\<close> reads back
  field by field, the 128-bit price included, and the fields it does not write read as zero.
\<close>
lemma pack_parse_bin:
  assumes "pack_bin ax ay op pt pr ask age price = Inr raw"
  shows "parse_bin raw 0 = Inr \<lparr> ob_id = 0, ob_amount_x = ax, ob_amount_y = ay, ob_price = price,
      ob_liquidity_supply = 0, ob_fulfilled_x = 0, ob_fulfilled_y = 0, ob_fee_ask = 0, ob_fee_bid = 0,
      ob_open = op, ob_proc_total = pt, ob_proc_rem = pr, ob_age = age, ob_ask = ask mod 256 \<rparr>"
proof -
  obtain b1 b2 b3 b4 b5 b6 b7 b8 where
    s: "put_u 8 0 ax (zeros 144) = Inr b1" "put_u 8 8 ay b1 = Inr b2"
      "put_u 8 16 (price mod 2 ^ 64) b2 = Inr b3" "put_u 8 24 (price div 2 ^ 64) b3 = Inr b4"
      "put_u 8 112 op b4 = Inr b5" "put_u 8 120 pt b5 = Inr b6" "put_u 8 128 pr b6 = Inr b7"
      "put_u 4 136 age b7 = Inr b8" "put_u 1 140 (ask mod 256) b8 = Inr raw"
    using assms unfolding pack_bin_def BIN_SIZE_def by (auto simp: rbind_Inr_iff)
  note P1 = put_u_props [OF s(1)] note P2 = put_u_props [OF s(2)] note P3 = put_u_props [OF s(3)]
  note P4 = put_u_props [OF s(4)] note P5 = put_u_props [OF s(5)] note P6 = put_u_props [OF s(6)]
  note P7 = put_u_props [OF s(7)] note P8 = put_u_props [OF s(8)] note P9 = put_u_props [OF s(9)]
  note R = P1 P2 P3 P4 P5 P6 P7 P8 P9
  have "price mod 2 ^ 64 + price div 2 ^ 64 * 2 ^ 64 = price" by simp
  then show ?thesis by (simp add: parse_bin_def BIN_SIZE_def R flip: One_nat_def)
qed

text \<open>
  The three-layer fill of a bin (market maker, then the processed remainder, then open
  orders of the matching side) uses no more than it is given and pays no more than the
  available output the inventory report states.
\<close>
lemma fill_bin_within_available:
  assumes "obin_ok b" and "0 \<le> amount" and "fill_bin b amount sfy on = Inr f"
  shows "fl_used_in f + fl_left f = amount \<and> 0 \<le> fl_left f \<and> 0 \<le> fl_out_amt f
    \<and> fl_out_amt f \<le> available_output b sfy on"
  using order_layers.fill_all_sound [OF bin_layers_ok [OF assms(1)] assms(2) fill_bin_layers [OF assms(3)]]
  unfolding bin_layers_total by blast

definition sample_orders :: OState where
  "sample_orders = \<lparr> os_active_id = 3, os_bin_step = 1, os_status = 0, os_function_type = 2,
     os_reward_mask = 0, os_reserve_x = 50, os_reserve_y = 90,
     os_bins = [\<lparr> o_id = 3, o_amount_x = 4, o_amount_y = 10, o_proc_rem = 5, o_open = 7,
                  o_proc_total = 5, o_age = 0, o_ask = 0, o_price = Q1 \<rparr>,
                \<lparr> o_id = 2, o_amount_x = 0, o_amount_y = 30, o_proc_rem = 1, o_open = 2,
                  o_proc_total = 1, o_age = 0, o_ask = 1, o_price = Q1 \<rparr>] \<rparr>"

text \<open>
  C19: a swap through limit-order bins balances its books. It pays out exactly what it takes
  in (unit price, no fee), the pool reserves move by those two amounts, the inventory of all
  bins and layers falls by exactly the output, no layer goes negative, and the only ways it
  can fail are a missing bin and an unfilled remainder.
\<close>
theorem orders_swap_balances:
  assumes "orders_ok s" and "0 \<le> amt"
  shows "case orders_apply_swap s amt sfy of
      Inl e \<Rightarrow> e = ValueError ''missing bin'' \<or> e = ValueError ''unfilled''
    | Inr (s', total_out) \<Rightarrow> total_out = amt \<and> orders_ok s'
        \<and> reserve_in sfy s' = reserve_in sfy s + amt
        \<and> reserve_out sfy s' = reserve_out sfy s - total_out
        \<and> inventory sfy s' = inventory sfy s - total_out"
proof -
  have "case orders_loop 256 (orders_enabled s) sfy s amt 0 of Inl e \<Rightarrow> e = ValueError ''missing bin''
    | Inr (s', left', tot') \<Rightarrow> step_account sfy s amt 0 s' left' tot'"
    by (rule orders_loop_account [OF assms])
  then show ?thesis
    unfolding orders_apply_swap_def
    by (cases "orders_loop 256 (orders_enabled s) sfy s amt 0") (auto simp: step_account_def)
qed

theorem orders_swap_balances_witness:
  "\<exists>s' out. orders_apply_swap sample_orders 30 True = Inr (s', out) \<and> out = 30 \<and> reserve_out True s' = 60"
proof -
  have "case orders_apply_swap sample_orders 30 True of Inr r \<Rightarrow> True | Inl _ \<Rightarrow> False" by code_simp
  then obtain s' out where r: "orders_apply_swap sample_orders 30 True = Inr (s', out)"
    by (auto split: sum.split_asm)
  have "orders_ok sample_orders" "reserve_out True sample_orders = 90" by code_simp+
  with orders_swap_balances [of sample_orders 30 True] r show ?thesis by simp
qed

end
