(* ===== verification/Frame_Parse.thy ===== *)
theory Frame_Parse
  imports Py_Prelude
begin

text \<open>
  \<^verbatim>\<open>arb-cap/frame_v1/parse.py\<close>: the reference framer of wire transactions. A parse is
  incomplete (more bytes could complete it), invalid, or framed; \<open>fr\<close> is that three-way
  result and \<open>fbind\<close> the early return. The main lemmas say that the V1 framer is
  incremental: once it has a verdict, more bytes do not change it, and a prefix of a framed
  transaction is incomplete.
\<close>

section \<open>Verdicts\<close>

datatype 'a fr = FNeed string | FBad string | FOk 'a

definition fbind :: "'a fr \<Rightarrow> ('a \<Rightarrow> 'b fr) \<Rightarrow> 'b fr" where
  "fbind m f = (case m of FNeed w \<Rightarrow> FNeed w | FBad w \<Rightarrow> FBad w | FOk x \<Rightarrow> f x)"

lemma fbind_simps [simp]:
  "fbind (FNeed w) f = FNeed w" "fbind (FBad w) f = FBad w" "fbind (FOk x) f = f x"
  by (simp_all add: fbind_def)

lemma fbind_Ok_iff: "fbind m f = FOk y \<longleftrightarrow> (\<exists>x. m = FOk x \<and> f x = FOk y)"
  by (cases m) auto

lemma fbind_cong [fundef_cong]:
  "m = m' \<Longrightarrow> (\<And>x. m' = FOk x \<Longrightarrow> f x = g x) \<Longrightarrow> fbind m f = fbind m' g"
  by (cases m') auto

definition TX_SIG_MAX :: nat where "TX_SIG_MAX = 12"
definition TX_KEY_MAX :: nat where "TX_KEY_MAX = 64"
definition TX_INSTR_MAX :: nat where "TX_INSTR_MAX = 64"
definition TX_V1_PREFIX :: nat where "TX_V1_PREFIX = 0x81"
definition TX_V1_MAX :: nat where "TX_V1_MAX = 4096"
definition TX_V1_CFG_KNOWN :: nat where "TX_V1_CFG_KNOWN = 0x1F"
definition TX_V1_HDR :: nat where "TX_V1_HDR = 42"

lemmas frame_consts = TX_SIG_MAX_def TX_KEY_MAX_def TX_INSTR_MAX_def TX_V1_PREFIX_def TX_V1_MAX_def
  TX_V1_CFG_KNOWN_def TX_V1_HDR_def

definition PROG_DLMM :: bytes where
  "PROG_DLMM = [0x04, 0xe9, 0xe1, 0x2f, 0xbc, 0x84, 0xe8, 0x26, 0xc9, 0x32, 0xcc, 0xe9, 0xe2, 0x64, 0x0c, 0xce,
                0x15, 0x59, 0x0c, 0x1c, 0x62, 0x73, 0xb0, 0x92, 0x57, 0x08, 0xba, 0x3b, 0x85, 0x20, 0xb0, 0xbc]"
definition PROG_PUMP :: bytes where
  "PROG_PUMP = [0x0c, 0x14, 0xde, 0xfc, 0x82, 0x5e, 0xc6, 0x76, 0x94, 0x25, 0x08, 0x18, 0xbb, 0x65, 0x40, 0x65,
                0xf4, 0x29, 0x8d, 0x31, 0x56, 0xd5, 0x71, 0xb4, 0xd4, 0xf8, 0x09, 0x0c, 0x18, 0xe9, 0xa8, 0x63]"
definition DLMM_SWAP2 :: bytes where "DLMM_SWAP2 = [0x41, 0x4b, 0x3f, 0x4c, 0xeb, 0x5b, 0x5b, 0x88]"
definition DLMM_SWAP1 :: bytes where "DLMM_SWAP1 = [0xf8, 0xc6, 0x9e, 0x91, 0xe1, 0x75, 0x87, 0xc8]"
definition PUMP_SELL :: bytes where "PUMP_SELL = [0x33, 0xe6, 0x85, 0xa4, 0x01, 0x7f, 0x83, 0xad]"
definition PUMP_BUY_EQ :: bytes where "PUMP_BUY_EQ = [0xc6, 0x2e, 0x15, 0x52, 0xb4, 0xd9, 0xe8, 0x70]"
definition PUMP_BUY :: bytes where "PUMP_BUY = [0x66, 0x06, 0x3d, 0x12, 0x01, 0xda, 0xeb, 0xea]"
definition EXACT :: "bytes list" where "EXACT = [DLMM_SWAP2, DLMM_SWAP1, PUMP_SELL, PUMP_BUY_EQ]"

section \<open>Compact lengths\<close>

abbreviation b_at :: "bytes \<Rightarrow> nat \<Rightarrow> nat" where
  "b_at p i \<equiv> unat (p ! i)"

text \<open>The result of \<^verbatim>\<open>cu16\<close>: \<^verbatim>\<open>None\<close>, \<^verbatim>\<open>"bad"\<close>, or the value and the next offset.\<close>

definition cu16 :: "bytes \<Rightarrow> nat \<Rightarrow> (nat \<times> nat) fr" where
  "cu16 b off =
    (if off \<ge> length b then FNeed []
     else let b0 = b_at b off in
     if b0 < 128 then FOk (b0, off + 1)
     else if off + 1 \<ge> length b then FNeed []
     else let b1 = b_at b (off + 1) in
     if b1 < 128 then (if b1 = 0 then FBad [] else FOk (b0 mod 128 + b1 * 128, off + 2))
     else if off + 2 \<ge> length b then FNeed []
     else let b2 = b_at b (off + 2) in
     if b2 \<ge> 4 \<or> b2 = 0 then FBad []
     else FOk (b0 mod 128 + (b1 mod 128) * 128 + b2 * 16384, off + 3))"

text \<open>\<^verbatim>\<open>got = cu16(...); if got is None: return _need(n); if got == "bad": return _bad(w)\<close>\<close>

definition cu :: "string \<Rightarrow> string \<Rightarrow> bytes \<Rightarrow> nat \<Rightarrow> (nat \<times> nat) fr" where
  "cu need bad p off = (case cu16 p off of FNeed _ \<Rightarrow> FNeed need | FBad _ \<Rightarrow> FBad bad | FOk r \<Rightarrow> FOk r)"

definition header_ok :: "nat \<Rightarrow> nat \<Rightarrow> nat \<Rightarrow> nat \<Rightarrow> bool" where
  "header_ok nsig ro_s ro_u nkeys =
    (if nsig < 1 \<or> nsig > TX_SIG_MAX then False
     else if ro_s \<ge> nsig then False
     else if nkeys < nsig \<or> nkeys > TX_KEY_MAX then False
     else if nsig + ro_u > nkeys then False
     else True)"

section \<open>Framed transactions\<close>

record frame_ix =
  fx_prog :: nat
  fx_acc :: "nat list"
  fx_data :: bytes

record framed =
  fr_ver :: string
  fr_nsig :: nat
  fr_nkeys :: nat
  fr_ninstr :: nat
  fr_keys :: "bytes list"
  fr_ixs :: "frame_ix list"
  fr_tx_end :: nat
  fr_luts :: bool
  fr_mask :: "nat option"

definition split_keys :: "bytes \<Rightarrow> nat \<Rightarrow> nat \<Rightarrow> bytes list" where
  "split_keys p off n = map (\<lambda>i. slice (off + i * 32) (off + (i + 1) * 32) p) [0..<n]"

definition frame_acc :: "bytes \<Rightarrow> nat \<Rightarrow> nat \<Rightarrow> nat list" where
  "frame_acc p off n = map unat (slice off (off + n) p)"

fun legacy_ixs :: "nat \<Rightarrow> bytes \<Rightarrow> bool \<Rightarrow> nat \<Rightarrow> nat \<Rightarrow> (frame_ix list \<times> nat) fr" where
  "legacy_ixs 0 p versioned nkeys off = FOk ([], off)"
| "legacy_ixs (Suc n) p versioned nkeys off =
     (if off \<ge> length p then FNeed ''truncated_ix''
      else let prog = b_at p off in
      if \<not> versioned \<and> prog \<ge> nkeys then FBad ''prog_idx''
      else fbind (cu ''ix_acc'' ''ix_acc'' p (off + 1)) (\<lambda>(nacct, off1).
        if off1 + nacct > length p then FNeed ''truncated_acc''
        else fbind (cu ''ix_data'' ''ix_data'' p (off1 + nacct)) (\<lambda>(dlen, off2).
          if off2 + dlen > length p then FNeed ''truncated_data''
          else fbind (legacy_ixs n p versioned nkeys (off2 + dlen)) (\<lambda>(ixs, off3).
            FOk (\<lparr> fx_prog = prog, fx_acc = frame_acc p off1 nacct,
                   fx_data = slice off2 (off2 + dlen) p \<rparr> # ixs, off3)))))"

definition skip_alt_idx :: "bytes \<Rightarrow> nat \<Rightarrow> nat fr" where
  "skip_alt_idx p off =
    fbind (cu ''alt_idx'' ''alt_idx'' p off) (\<lambda>(nw, off1).
      if off1 + nw > length p then FNeed ''truncated_alt_idx'' else FOk (off1 + nw))"

fun skip_luts :: "nat \<Rightarrow> bytes \<Rightarrow> nat \<Rightarrow> nat fr" where
  "skip_luts 0 p off = FOk off"
| "skip_luts (Suc n) p off =
     (if off + 32 > length p then FNeed ''truncated_alt''
      else fbind (skip_alt_idx p (off + 32)) (\<lambda>off1.
           fbind (skip_alt_idx p off1) (\<lambda>off2. skip_luts n p off2)))"

definition parse_luts :: "bool \<Rightarrow> bytes \<Rightarrow> nat \<Rightarrow> nat fr" where
  "parse_luts versioned p off =
    (if versioned
     then fbind (cu ''lut'' ''lut'' p off) (\<lambda>(nlut, off1).
            if nlut > 32 then FBad ''nlut'' else skip_luts nlut p off1)
     else FOk off)"

text \<open>The version byte and the repeated signature count: whether versioned, and the offset.\<close>

definition parse_version :: "bytes \<Rightarrow> nat \<Rightarrow> nat \<Rightarrow> (bool \<times> nat) fr" where
  "parse_version p nsig off =
    (if off \<ge> length p then FNeed ''truncated_hdr''
     else let b0 = b_at p off in
     if b0 \<ge> 128
     then (if b0 mod 128 \<noteq> 0 then FBad ''bad_version''
           else if off + 1 \<ge> length p \<or> b_at p (off + 1) \<noteq> nsig then FBad ''hdr_nsig''
           else FOk (True, off + 2))
     else if b0 \<noteq> nsig then FBad ''hdr_nsig''
     else FOk (False, off + 1))"

definition parse_legacy_v0 :: "bytes \<Rightarrow> nat \<Rightarrow> framed fr" where
  "parse_legacy_v0 raw start =
    (let p = drop start raw in
     fbind (cu ''truncated_nsig'' ''bad_nsig'' p 0) (\<lambda>(nsig, off0).
     if nsig < 1 \<or> nsig > TX_SIG_MAX then FBad ''nsig_range''
     else if off0 + nsig * 64 > length p then FNeed ''truncated_sigs''
     else fbind (parse_version p nsig (off0 + nsig * 64)) (\<lambda>(versioned, off1).
     if off1 + 2 > length p then FNeed ''truncated_hdr''
     else let ro_s = b_at p off1; ro_u = b_at p (off1 + 1) in
     fbind (cu ''truncated_nkeys'' ''bad_nkeys'' p (off1 + 2)) (\<lambda>(nkeys, off2).
     if \<not> header_ok nsig ro_s ro_u nkeys then FBad ''header''
     else if off2 + nkeys * 32 + 32 > length p then FNeed ''truncated_keys''
     else let keys = split_keys p off2 nkeys; off3 = off2 + (nkeys * 32 + 32) in
     fbind (cu ''truncated_ix'' ''bad_ix'' p off3) (\<lambda>(ninstr, off4).
     if ninstr = 0 \<or> ninstr > TX_INSTR_MAX then FBad ''ninstr''
     else fbind (legacy_ixs ninstr p versioned nkeys off4) (\<lambda>(ixs, off5).
     fbind (parse_luts versioned p off5) (\<lambda>off6.
       FOk \<lparr> fr_ver = (if versioned then ''v0'' else ''legacy''), fr_nsig = nsig, fr_nkeys = nkeys,
             fr_ninstr = ninstr, fr_keys = keys, fr_ixs = ixs, fr_tx_end = start + off6,
             fr_luts = versioned, fr_mask = None \<rparr>)))))))"

section \<open>The V1 framer\<close>

fun popcount :: "nat \<Rightarrow> nat" where
  "popcount n = (if n = 0 then 0 else n mod 2 + popcount (n div 2))"

declare popcount.simps [simp del]

fun v1_headers :: "nat \<Rightarrow> bytes \<Rightarrow> nat \<Rightarrow> nat \<Rightarrow> (nat \<times> nat \<times> nat) list fr" where
  "v1_headers 0 p naddr off = FOk []"
| "v1_headers (Suc n) p naddr off =
     (let prog = b_at p off; nacct = b_at p (off + 1);
          dlen = b_at p (off + 2) + b_at p (off + 3) * 256
      in if prog \<ge> naddr then FBad ''prog_idx''
         else fbind (v1_headers n p naddr (off + 4)) (\<lambda>hs. FOk ((prog, nacct, dlen) # hs)))"

definition payload :: "(nat \<times> nat \<times> nat) list \<Rightarrow> nat" where
  "payload hs = sum_list (map (\<lambda>(prog, nacct, dlen). nacct + dlen) hs)"

fun v1_ixs :: "(nat \<times> nat \<times> nat) list \<Rightarrow> bytes \<Rightarrow> nat \<Rightarrow> nat \<Rightarrow> (frame_ix list \<times> nat) fr" where
  "v1_ixs [] p naddr cursor = FOk ([], cursor)"
| "v1_ixs ((prog, nacct, dlen) # hs) p naddr cursor =
     (if cursor + nacct + dlen > length p then FNeed ''truncated_payload''
      else let acc = frame_acc p cursor nacct in
      if list_ex (\<lambda>a. a \<ge> naddr) acc then FBad ''acc_idx''
      else fbind (v1_ixs hs p naddr (cursor + nacct + dlen)) (\<lambda>(ixs, c).
        FOk (\<lparr> fx_prog = prog, fx_acc = acc,
               fx_data = slice (cursor + nacct) (cursor + nacct + dlen) p \<rparr> # ixs, c)))"

text \<open>The fixed header: signatures, addresses, instructions and the configuration mask.\<close>

definition v1_fixed :: "bytes \<Rightarrow> nat \<Rightarrow> (nat \<times> nat \<times> nat \<times> nat) fr" where
  "v1_fixed p start =
    (if start \<ge> length p then FNeed ''truncated_prefix''
     else if b_at p start \<noteq> TX_V1_PREFIX then FBad ''not_v1''
     else if start + TX_V1_HDR > length p then FNeed ''truncated_hdr''
     else let nsig = b_at p (start + 1); ro_s = b_at p (start + 2); ro_u = b_at p (start + 3);
              mask = le_nat (slice (start + 4) (start + 8) p);
              ninstr = b_at p (start + 40); naddr = b_at p (start + 41)
     in if mask > TX_V1_CFG_KNOWN then FBad ''unknown_mask''
     else if mask mod 4 = 1 \<or> mask mod 4 = 2 then FBad ''partial_priority_fee''
     else if ninstr = 0 \<or> ninstr > TX_INSTR_MAX then FBad ''ninstr''
     else if \<not> header_ok nsig ro_s ro_u naddr then FBad ''header''
     else FOk (nsig, naddr, ninstr, mask))"

definition v1_keys :: "bytes \<Rightarrow> nat \<Rightarrow> nat \<Rightarrow> bytes list fr" where
  "v1_keys p off naddr =
    (if off + naddr * 32 > length p then FNeed ''truncated_keys''
     else let keys = split_keys p off naddr in
     if length (remdups keys) \<noteq> naddr then FBad ''duplicate_address'' else FOk keys)"

definition v1_ixhdrs :: "bytes \<Rightarrow> nat \<Rightarrow> nat \<Rightarrow> nat \<Rightarrow> nat \<Rightarrow> (nat \<times> nat \<times> nat) list fr" where
  "v1_ixhdrs p off msk ninstr naddr =
    (let cfg_n = popcount msk * 4 in
     if off + cfg_n > length p then FNeed ''truncated_cfg''
     else if off + cfg_n + ninstr * 4 > length p then FNeed ''truncated_ixhdr''
     else v1_headers ninstr p naddr (off + cfg_n))"

definition v1_body :: "bytes \<Rightarrow> nat \<Rightarrow> nat \<Rightarrow> nat \<Rightarrow> nat \<Rightarrow> (nat \<times> nat \<times> nat) list \<Rightarrow> (frame_ix list \<times> nat) fr" where
  "v1_body p start off nsig naddr headers =
    (let pay = payload headers; proj = (off - start) + pay + nsig * 64 in
     if proj > TX_V1_MAX then FBad ''oversize''
     else if off + pay > length p then FNeed ''truncated_payload''
     else fbind (v1_ixs headers p naddr off) (\<lambda>(ixs, off4).
       if off4 + nsig * 64 > length p then FNeed ''truncated_sigs''
       else FOk (ixs, off4 + nsig * 64)))"

definition parse_v1 :: "bytes \<Rightarrow> nat \<Rightarrow> framed fr" where
  "parse_v1 p start =
    fbind (v1_fixed p start) (\<lambda>(nsig, naddr, ninstr, mask).
    fbind (v1_keys p (start + TX_V1_HDR) naddr) (\<lambda>keys.
    fbind (v1_ixhdrs p (start + TX_V1_HDR + naddr * 32) mask ninstr naddr) (\<lambda>headers.
    fbind (v1_body p start (start + TX_V1_HDR + naddr * 32 + popcount mask * 4 + ninstr * 4) nsig naddr headers)
      (\<lambda>(ixs, tx_end).
        FOk \<lparr> fr_ver = ''v1'', fr_nsig = nsig, fr_nkeys = naddr, fr_ninstr = ninstr,
              fr_keys = keys, fr_ixs = ixs, fr_tx_end = tx_end, fr_luts = False,
              fr_mask = Some mask \<rparr>))))"

definition parse_any :: "bytes \<Rightarrow> nat \<Rightarrow> framed fr" where
  "parse_any raw start =
    (if start < length raw \<and> b_at raw start = TX_V1_PREFIX then parse_v1 raw start
     else parse_legacy_v0 raw start)"

definition wire_kind :: "bytes \<Rightarrow> string" where
  "wire_kind raw =
    (if raw = [] then ''empty''
     else if b_at raw 0 = TX_V1_PREFIX then ''v1''
     else case cu16 raw 0 of
       FOk (nsig, off) \<Rightarrow>
         if nsig < 1 \<or> off + nsig * 64 \<ge> length raw then ''unknown''
         else if b_at raw (off + nsig * 64) = 0x80 then ''v0'' else ''legacy''
     | _ \<Rightarrow> ''unknown'')"

section \<open>Instruction classes\<close>

record ix_class =
  ic_exact :: nat
  ic_unknown_dex :: nat
  ic_other :: nat
  ic_stage :: string
  ic_dex_static :: bool

datatype ix_kind = Exact | UnknownDex | Other

definition is_dex_key :: "bytes \<Rightarrow> bool" where
  "is_dex_key k \<longleftrightarrow> k = PROG_DLMM \<or> k = PROG_PUMP"

definition ix_kind_of :: "bytes list \<Rightarrow> frame_ix \<Rightarrow> ix_kind" where
  "ix_kind_of keys ix =
    (if fx_prog ix \<ge> length keys then UnknownDex
     else let pk = keys ! fx_prog ix; data = fx_data ix in
     if is_dex_key pk
     then (if 24 \<le> length data \<and> take 8 data \<in> set EXACT then Exact else UnknownDex)
     else Other)"

definition classify_ixs :: "bytes list \<Rightarrow> frame_ix list \<Rightarrow> ix_class" where
  "classify_ixs keys ixs =
    (let kinds = map (ix_kind_of keys) ixs;
         n_exact = count_list kinds Exact;
         n_unknown = count_list kinds UnknownDex;
         n_other = count_list kinds Other
     in \<lparr> ic_exact = n_exact, ic_unknown_dex = n_unknown, ic_other = n_other,
          ic_stage = (if n_exact \<noteq> 0 \<and> n_unknown = 0 then ''TX_EXACT''
                      else if n_exact \<noteq> 0 then ''IX_EXACT'' else ''UNKNOWN''),
          ic_dex_static = list_ex is_dex_key keys \<rparr>)"

section \<open>Incremental parsers\<close>

text \<open>
  What a stream reader needs of a framer: either it asks for more, or its verdict does not
  depend on the bytes that follow.
\<close>

locale incremental_parser =
  fixes parse :: "bytes \<Rightarrow> 'a fr"
  assumes verdict_final: "(\<exists>w. parse p = FNeed w) \<or> parse (p @ q) = parse p"
begin

lemma extend_ok: "parse p = FOk x \<Longrightarrow> parse (p @ q) = FOk x"
  using verdict_final [of p q] by auto

lemma extend_bad: "parse p = FBad w \<Longrightarrow> parse (p @ q) = FBad w"
  using verdict_final [of p q] by auto

lemma prefix_of_ok: "parse p = FOk x \<Longrightarrow> (\<exists>w. parse (take n p) = FNeed w) \<or> parse (take n p) = FOk x"
  using verdict_final [of "take n p" "drop n p"] by auto

end

lemma b_at_append [simp]: "i < length p \<Longrightarrow> b_at (p @ q) i = b_at p i"
  by (simp add: nth_append)

interpretation compact: incremental_parser "\<lambda>p. cu16 p off" for off
  by unfold_locales (auto simp: cu16_def Let_def nth_append)

interpretation compact_field: incremental_parser "\<lambda>p. cu need bad p off" for need bad off
proof
  fix p q
  show "(\<exists>w. cu need bad p off = FNeed w) \<or> cu need bad (p @ q) off = cu need bad p off"
    using compact.verdict_final [of p off q] by (auto simp: cu_def split: fr.splits)
qed

lemma cu16_bound: "cu16 p off = FOk (n, off') \<Longrightarrow> off < off' \<and> off' \<le> length p \<and> n < 65536"
proof -
  assume h: "cu16 p off = FOk (n, off')"
  have m: "unat x mod 128 \<le> 127" for x :: byte using mod_less_divisor [of 128 "unat x"] by simp
  show ?thesis using h m [of "p ! off"] m [of "p ! (off + 1)"]
    by (auto simp: cu16_def Let_def split: if_split_asm)
qed

lemma cu_bound: "cu need bad p off = FOk (n, off') \<Longrightarrow> off < off' \<and> off' \<le> length p \<and> n < 65536"
  using cu16_bound [of p off n off'] by (auto simp: cu_def split: fr.split_asm)

lemma split_keys_append: "off + n * 32 \<le> length p \<Longrightarrow> split_keys (p @ q) off n = split_keys p off n"
  unfolding split_keys_def
  by (rule map_cong [OF refl]) (auto intro!: slice_append_left)

lemma frame_acc_append: "off + n \<le> length p \<Longrightarrow> frame_acc (p @ q) off n = frame_acc p off n"
  by (simp add: frame_acc_def slice_append_left)

lemma v1_headers_append:
  "off + n * 4 \<le> length p \<Longrightarrow> v1_headers n (p @ q) naddr off = v1_headers n p naddr off"
  by (induction n arbitrary: off) (simp_all add: Let_def)

lemma v1_ixs_append:
  "(\<exists>w. v1_ixs hs p naddr c = FNeed w) \<or> v1_ixs hs (p @ q) naddr c = v1_ixs hs p naddr c"
proof (induction hs arbitrary: c)
  case (Cons h hs)
  obtain prog nacct dlen where h: "h = (prog, nacct, dlen)" by (cases h)
  show ?case
    using Cons [of "c + nacct + dlen"]
    by (auto simp: h Let_def frame_acc_append slice_append_left)
qed simp

lemma v1_ixs_cursor: "v1_ixs hs p naddr c = FOk (ixs, c') \<Longrightarrow> c' = c + payload hs"
proof (induction hs arbitrary: c ixs)
  case (Cons h hs)
  then show ?case
    by (cases h) (fastforce simp: payload_def Let_def fbind_Ok_iff split: if_split_asm)
qed (simp add: payload_def)

lemma incremental_bind:
  assumes "incremental_parser P" and "\<And>x. incremental_parser (Q x)"
  shows "incremental_parser (\<lambda>p. fbind (P p) (\<lambda>x. Q x p))"
proof
  fix p q
  show "(\<exists>w. fbind (P p) (\<lambda>x. Q x p) = FNeed w) \<or>
      fbind (P (p @ q)) (\<lambda>x. Q x (p @ q)) = fbind (P p) (\<lambda>x. Q x p)"
  proof (cases "P p")
    case (FOk x)
    then have "P (p @ q) = FOk x" by (rule incremental_parser.extend_ok [OF assms(1)])
    then show ?thesis
      using FOk incremental_parser.verdict_final [OF assms(2), of x p q] by simp
  qed (use incremental_parser.extend_bad [OF assms(1)] in auto)
qed

lemma incremental_Ok: "incremental_parser (\<lambda>p. FOk x)"
  by unfold_locales simp

lemma incremental_fixed: "incremental_parser (\<lambda>p. v1_fixed p start)"
proof
  fix p q
  show "(\<exists>w. v1_fixed p start = FNeed w) \<or> v1_fixed (p @ q) start = v1_fixed p start"
  proof (cases "start + TX_V1_HDR \<le> length p")
    case False
    then show ?thesis by (auto simp: v1_fixed_def TX_V1_HDR_def nth_append)
  next
    case True
    then have "start < length p" "\<And>i. i < 42 \<Longrightarrow> (p @ q) ! (start + i) = p ! (start + i)"
      "slice (start + 4) (start + 8) (p @ q) = slice (start + 4) (start + 8) p"
      by (auto simp: TX_V1_HDR_def slice_append_left nth_append)
    then have "v1_fixed (p @ q) start = v1_fixed p start"
      using True by (simp add: v1_fixed_def Let_def nth_append TX_V1_HDR_def)
    then show ?thesis by simp
  qed
qed

lemma incremental_keys: "incremental_parser (\<lambda>p. v1_keys p off naddr)"
  by unfold_locales (auto simp: v1_keys_def split_keys_append)

lemma incremental_ixhdrs: "incremental_parser (\<lambda>p. v1_ixhdrs p off msk ninstr naddr)"
  by unfold_locales (auto simp: v1_ixhdrs_def Let_def v1_headers_append)

lemma incremental_body: "incremental_parser (\<lambda>p. v1_body p start off nsig naddr headers)"
proof
  fix p q
  show "(\<exists>w. v1_body p start off nsig naddr headers = FNeed w) \<or>
      v1_body (p @ q) start off nsig naddr headers = v1_body p start off nsig naddr headers"
    using v1_ixs_append [of headers p naddr off q]
    by (cases "v1_ixs headers p naddr off") (auto simp: v1_body_def Let_def split: if_split_asm)
qed

lemma incremental_parse_v1: "incremental_parser (\<lambda>p. parse_v1 p start)"
  unfolding parse_v1_def
  by (intro incremental_bind incremental_fixed) 
     (auto split: prod.split intro!: incremental_bind incremental_keys incremental_ixhdrs incremental_body incremental_Ok)

interpretation v1: incremental_parser "\<lambda>p. parse_v1 p start" for start
  by (rule incremental_parse_v1)

section \<open>Canonical compact lengths\<close>

text \<open>The shortest encoding of a length: seven bits a byte, low bits first.\<close>

definition nbyte :: "nat \<Rightarrow> byte" where
  "nbyte n = word_of_nat n"

definition enc_cu16 :: "nat \<Rightarrow> bytes" where
  "enc_cu16 n =
    (if n < 128 then [nbyte n]
     else if n < 16384 then [nbyte (n mod 128 + 128), nbyte (n div 128)]
     else [nbyte (n mod 128 + 128), nbyte (n div 128 mod 128 + 128), nbyte (n div 16384)])"

lemma unat_nbyte: "n < 256 \<Longrightarrow> unat (nbyte n) = n"
  by (simp add: nbyte_def unat_of_nat)

lemma nbyte_unat [simp]: "nbyte (unat b) = b"
  by (simp add: nbyte_def)

lemma digits2:
  fixes c b :: nat
  assumes "c < 128"
  shows "(c + b * 128) mod 128 = c" "(c + b * 128) div 128 = b"
  using assms by simp_all

lemma div_16384: "n div 16384 = n div 128 div (128 :: nat)"
  by (simp add: div_mult2_eq [symmetric])

lemma digits3:
  fixes c0 c1 b :: nat
  assumes "c0 < 128" "c1 < 128"
  shows "(c0 + c1 * 128 + b * 16384) mod 128 = c0" "(c0 + c1 * 128 + b * 16384) div 128 mod 128 = c1"
    "(c0 + c1 * 128 + b * 16384) div 16384 = b"
proof -
  have eq: "c0 + c1 * 128 + b * 16384 = c0 + (c1 + b * 128) * 128" by simp
  show "(c0 + c1 * 128 + b * 16384) mod 128 = c0" "(c0 + c1 * 128 + b * 16384) div 128 mod 128 = c1"
    "(c0 + c1 * 128 + b * 16384) div 16384 = b"
    unfolding eq div_16384 digits2 [OF assms(1)] by (rule refl digits2 [OF assms(2)])+
qed

lemma digits_sum: "n mod 128 + n div 128 mod 128 * 128 + n div 16384 * 16384 = (n :: nat)"
proof -
  define m where "m = n div 128"
  have "m mod 128 * 128 + m div 128 * 16384 = m * 128"
    using mod_div_mult_eq [of m 128] by linarith
  then show ?thesis using mod_div_mult_eq [of n 128] by (simp add: div_16384 m_def [symmetric])
qed

lemma cu16_one: "off < length p \<Longrightarrow> b_at p off < 128 \<Longrightarrow> cu16 p off = FOk (b_at p off, off + 1)"
  by (simp add: cu16_def)

lemma cu16_two:
  "off + 1 < length p \<Longrightarrow> \<not> b_at p off < 128 \<Longrightarrow> b_at p (off + 1) < 128 \<Longrightarrow> b_at p (off + 1) \<noteq> 0 \<Longrightarrow>
     cu16 p off = FOk (b_at p off mod 128 + b_at p (off + 1) * 128, off + 2)"
  by (simp add: cu16_def Let_def)

lemma cu16_three:
  "off + 2 < length p \<Longrightarrow> \<not> b_at p off < 128 \<Longrightarrow> \<not> b_at p (off + 1) < 128 \<Longrightarrow>
     b_at p (off + 2) < 4 \<Longrightarrow> b_at p (off + 2) \<noteq> 0 \<Longrightarrow>
     cu16 p off = FOk (b_at p off mod 128 + b_at p (off + 1) mod 128 * 128 + b_at p (off + 2) * 16384, off + 3)"
  by (simp add: cu16_def Let_def)

lemma cu16_enc:
  assumes "n < 65536" and "length pre = off"
  shows "cu16 (pre @ enc_cu16 n @ post) off = FOk (n, off + length (enc_cu16 n))"
proof -
  define p where "p = pre @ enc_cu16 n @ post"
  have nth: "p ! (off + i) = enc_cu16 n ! i" if "i < length (enc_cu16 n)" for i
    using assms(2) that by (simp add: p_def nth_append)
  have len: "length p = off + length (enc_cu16 n) + length post" using assms(2) by (simp add: p_def)
  consider "n < 128" | "128 \<le> n" "n < 16384" | "16384 \<le> n" by linarith
  then have "cu16 p off = FOk (n, off + length (enc_cu16 n))"
  proof cases
    case 1
    then have "length (enc_cu16 n) = 1" "b_at p off = n"
      using nth [of 0] by (simp_all add: enc_cu16_def unat_nbyte)
    then show ?thesis using cu16_one [of off p] 1 len by simp
  next
    case 2
    have "length (enc_cu16 n) = 2" "b_at p off = n mod 128 + 128" "b_at p (off + 1) = n div 128"
      using 2 nth [of 0] nth [of 1] by (simp_all add: enc_cu16_def unat_nbyte less_mult_imp_div_less)
    moreover have "0 < n div 128" "n div 128 < 128" using 2 by (auto simp: div_greater_zero_iff less_mult_imp_div_less)
    ultimately show ?thesis using cu16_two [of off p] len by simp
  next
    case 3
    have d: "n div 16384 < 4" "0 < n div 16384"
      using assms 3 by (auto simp: div_greater_zero_iff less_mult_imp_div_less)
    have "length (enc_cu16 n) = 3" "b_at p off = n mod 128 + 128" "b_at p (off + 1) = n div 128 mod 128 + 128"
      "b_at p (off + 2) = n div 16384"
      using 3 d nth [of 0] nth [of 1] nth [of 2] by (simp_all add: enc_cu16_def unat_nbyte)
    moreover note digits_sum [of n]
    ultimately show ?thesis using cu16_three [of off p] len d by simp
  qed
  then show ?thesis by (simp add: p_def)
qed

lemma enc_cu16_1: "b < 128 \<Longrightarrow> enc_cu16 b = [nbyte b]"
  by (simp add: enc_cu16_def)

lemma enc_cu16_2:
  assumes "128 \<le> b0" "b0 < 256" "0 < b1" "b1 < 128"
  shows "enc_cu16 (b0 mod 128 + b1 * 128) = [nbyte b0, nbyte b1]"
proof -
  obtain c where c: "b0 = c + 128" "c < 128" using assms that [of "b0 - 128"] by auto
  have "c + b1 * 128 < 16384" "128 \<le> c + b1 * 128" using assms c by auto
  then show ?thesis using c assms digits2 [of c b1] by (simp add: enc_cu16_def)
qed

lemma enc_cu16_3:
  assumes "128 \<le> b0" "b0 < 256" "128 \<le> b1" "b1 < 256" "0 < b2"
  shows "enc_cu16 (b0 mod 128 + b1 mod 128 * 128 + b2 * 16384) = [nbyte b0, nbyte b1, nbyte b2]"
proof -
  obtain c0 c1 where c: "b0 = c0 + 128" "c0 < 128" "b1 = c1 + 128" "c1 < 128"
    using assms that [of "b0 - 128" "b1 - 128"] by auto
  have "16384 \<le> c0 + c1 * 128 + b2 * 16384" using assms by simp
  then show ?thesis using c digits3 [of c0 c1 b2] by (simp add: enc_cu16_def)
qed

lemma slice_nth: "a + k \<le> length xs \<Longrightarrow> slice a (a + k) xs = map (\<lambda>i. xs ! (a + i)) [0..<k]"
  by (rule nth_equalityI) (simp_all add: nth_slice)

lemma cu16_canonical_bytes:
  assumes "cu16 p off = FOk (n, off')"
  shows "slice off off' p = enc_cu16 n"
proof -
  have lt: "b_at p i < 256" for i by simp
  consider "off < length p" "b_at p off < 128" "n = b_at p off" "off' = off + 1"
    | "off + 1 < length p" "128 \<le> b_at p off" "b_at p (off + 1) < 128" "0 < b_at p (off + 1)"
      "n = b_at p off mod 128 + b_at p (off + 1) * 128" "off' = off + 2"
    | "off + 2 < length p" "128 \<le> b_at p off" "128 \<le> b_at p (off + 1)" "b_at p (off + 2) < 4" "0 < b_at p (off + 2)"
      "n = b_at p off mod 128 + b_at p (off + 1) mod 128 * 128 + b_at p (off + 2) * 16384" "off' = off + 3"
    using assms unfolding cu16_def Let_def by (auto split: if_split_asm)
  then show ?thesis
  proof cases
    case 1
    then show ?thesis using slice_nth [of off 1 p] by (simp add: enc_cu16_1)
  next
    case 2
    then show ?thesis using slice_nth [of off 2 p] lt [of off]
      by (simp add: enc_cu16_2 numeral_2_eq_2)
  next
    case 3
    then show ?thesis using slice_nth [of off 3 p] lt [of off] lt [of "off + 1"]
      by (simp add: enc_cu16_3 numeral_3_eq_3)
  qed
qed

section \<open>Framed results\<close>

lemma v1_headers_props:
  "v1_headers n p naddr off = FOk hs \<Longrightarrow> length hs = n \<and> list_all (\<lambda>(prog, a, d). prog < naddr) hs"
proof (induction n arbitrary: off hs)
  case (Suc n)
  obtain rest where "v1_headers n p naddr (off + 4) = FOk rest" "b_at p off < naddr"
    "hs = (b_at p off, b_at p (off + 1), b_at p (off + 2) + b_at p (off + 3) * 256) # rest"
    using Suc.prems by (auto simp: Let_def fbind_Ok_iff not_le split: if_split_asm)
  then show ?case using Suc.IH [of "off + 4" rest] by simp
qed simp

definition ix_ok :: "nat \<Rightarrow> frame_ix \<Rightarrow> bool" where
  "ix_ok nkeys ix \<longleftrightarrow> fx_prog ix < nkeys \<and> list_all (\<lambda>a. a < nkeys) (fx_acc ix)"

lemma v1_ixs_props:
  "v1_ixs hs p naddr c = FOk (ixs, c') \<Longrightarrow> list_all (\<lambda>(prog, a, d). prog < naddr) hs \<Longrightarrow>
     length ixs = length hs \<and> list_all (ix_ok naddr) ixs"
proof (induction hs arbitrary: c ixs)
  case (Cons h hs)
  obtain prog nacct dlen where h: "h = (prog, nacct, dlen)" by (cases h)
  obtain rest where "v1_ixs hs p naddr (c + nacct + dlen) = FOk (rest, c')"
    and "\<not> list_ex (\<lambda>a. a \<ge> naddr) (frame_acc p c nacct)"
    and "ixs = \<lparr> fx_prog = prog, fx_acc = frame_acc p c nacct,
               fx_data = slice (c + nacct) (c + nacct + dlen) p \<rparr> # rest"
    using Cons.prems(1) by (auto simp: h Let_def fbind_Ok_iff split: if_split_asm)
  then show ?case using Cons.IH Cons.prems(2) h
    by (auto simp: ix_ok_def list_all_iff list_ex_iff not_le)
qed simp

lemma parse_v1_OkD:
  assumes "parse_v1 p start = FOk f"
  obtains headers where
    "v1_fixed p start = FOk (fr_nsig f, fr_nkeys f, fr_ninstr f, the (fr_mask f))"
    "v1_keys p (start + TX_V1_HDR) (fr_nkeys f) = FOk (fr_keys f)"
    "v1_ixhdrs p (start + TX_V1_HDR + fr_nkeys f * 32) (the (fr_mask f)) (fr_ninstr f) (fr_nkeys f) = FOk headers"
    "v1_body p start (start + TX_V1_HDR + fr_nkeys f * 32 + popcount (the (fr_mask f)) * 4 + fr_ninstr f * 4)
       (fr_nsig f) (fr_nkeys f) headers = FOk (fr_ixs f, fr_tx_end f)"
  using assms unfolding parse_v1_def by (auto simp: fbind_Ok_iff)

lemma v1_body_end:
  assumes "v1_body p start off nsig naddr hs = FOk (ixs, e)" and "start \<le> off"
  shows "e \<le> length p" "e - start \<le> TX_V1_MAX" "start \<le> e"
proof -
  obtain c where "v1_ixs hs p naddr off = FOk (ixs, c)" and e: "e = c + nsig * 64" "e \<le> length p"
    and pr: "off - start + payload hs + nsig * 64 \<le> TX_V1_MAX"
    using assms(1) by (auto simp: v1_body_def Let_def fbind_Ok_iff split: if_split_asm)
  then have "c = off + payload hs" by (simp add: v1_ixs_cursor)
  with e pr assms(2) show "e \<le> length p" "e - start \<le> TX_V1_MAX" "start \<le> e" by auto
qed

lemma parse_v1_end:
  assumes "parse_v1 p start = FOk f"
  shows "fr_tx_end f \<le> length p" "fr_tx_end f - start \<le> TX_V1_MAX" "start \<le> fr_tx_end f"
  by (rule parse_v1_OkD [OF assms], drule v1_body_end; simp)+

lemma v1_keys_props:
  assumes "v1_keys p off naddr = FOk keys"
  shows "length keys = naddr" "distinct keys" "list_all (\<lambda>k. length k = 32) keys"
proof -
  have len: "off + naddr * 32 \<le> length p" and keys: "keys = split_keys p off naddr"
    and d: "length (remdups keys) = naddr"
    using assms by (auto simp: v1_keys_def Let_def split: if_split_asm)
  show l: "length keys = naddr" by (simp add: keys split_keys_def)
  show "distinct keys" using d l by (simp add: length_remdups_card_conv card_distinct)
  have "off + (i + 1) * 32 \<le> length p" if "i < naddr" for i
  proof -
    have "(i + 1) * 32 \<le> naddr * 32" using that by (intro mult_right_mono) auto
    then show ?thesis using len by linarith
  qed
  then show "list_all (\<lambda>k. length k = 32) keys"
    by (force simp: keys split_keys_def list_all_iff)
qed

section \<open>The legacy framer\<close>

definition ok_stable :: "(bytes \<Rightarrow> 'a fr) \<Rightarrow> bool" where
  "ok_stable P \<longleftrightarrow> (\<forall>p q x. P p = FOk x \<longrightarrow> P (p @ q) = FOk x)"

lemma ok_stableD: "ok_stable P \<Longrightarrow> P p = FOk x \<Longrightarrow> P (p @ q) = FOk x"
  by (simp add: ok_stable_def)

lemma ok_stable_incremental: "incremental_parser P \<Longrightarrow> ok_stable P"
  unfolding ok_stable_def by (intro allI impI) (rule incremental_parser.extend_ok)

lemma ok_stable_bind:
  assumes "ok_stable P" and "\<And>x. ok_stable (Q x)"
  shows "ok_stable (\<lambda>p. fbind (P p) (\<lambda>x. Q x p))"
  unfolding ok_stable_def
proof (intro allI impI)
  fix p q y
  assume "fbind (P p) (\<lambda>x. Q x p) = FOk y"
  then obtain x where "P p = FOk x" "Q x p = FOk y" by (auto simp: fbind_Ok_iff)
  then have "P (p @ q) = FOk x" "Q x (p @ q) = FOk y"
    using ok_stableD [OF assms(1)] ok_stableD [OF assms(2)] by auto
  then show "fbind (P (p @ q)) (\<lambda>x. Q x (p @ q)) = FOk y" by simp
qed

lemma ok_stable_cu: "ok_stable (\<lambda>p. cu need bad p off)"
  by (rule ok_stable_incremental) (rule compact_field.incremental_parser_axioms)

lemma ok_stable_Ok: "ok_stable (\<lambda>p. FOk x)" "ok_stable (\<lambda>p. FBad w)"
  by (simp_all add: ok_stable_def)

lemma ok_stable_need:
  "ok_stable P \<Longrightarrow> ok_stable (\<lambda>p. if n > length p then FNeed w else P p)"
  "ok_stable P \<Longrightarrow> ok_stable (\<lambda>p. if n \<ge> length p then FNeed w else P p)"
  by (auto simp: ok_stable_def)

lemma ok_stable_if: "ok_stable P \<Longrightarrow> ok_stable Q \<Longrightarrow> ok_stable (\<lambda>p. if b then P p else Q p)"
  by (simp add: ok_stable_def)

lemma legacy_ixs_stable:
  "legacy_ixs n p versioned nkeys off = FOk x \<Longrightarrow> legacy_ixs n (p @ q) versioned nkeys off = FOk x"
proof (induction n arbitrary: off x)
  case (Suc n)
  obtain nacct off1 dlen off2 ixs off3 where
    h: "off < length p" "\<not> (\<not> versioned \<and> b_at p off \<ge> nkeys)"
      "cu ''ix_acc'' ''ix_acc'' p (off + 1) = FOk (nacct, off1)" "off1 + nacct \<le> length p"
      "cu ''ix_data'' ''ix_data'' p (off1 + nacct) = FOk (dlen, off2)" "off2 + dlen \<le> length p"
      "legacy_ixs n p versioned nkeys (off2 + dlen) = FOk (ixs, off3)"
    and x: "x = (\<lparr> fx_prog = b_at p off, fx_acc = frame_acc p off1 nacct,
                   fx_data = slice off2 (off2 + dlen) p \<rparr> # ixs, off3)"
    using Suc.prems by (auto simp: Let_def fbind_Ok_iff not_le split: if_split_asm)
  show ?case
    using h Suc.IH [OF h(7)] ok_stableD [OF ok_stable_cu h(3), of q] ok_stableD [OF ok_stable_cu h(5), of q]
    by (simp add: x Let_def frame_acc_append slice_append_left)
qed simp

lemma skip_luts_stable: "skip_luts n p off = FOk x \<Longrightarrow> skip_luts n (p @ q) off = FOk x"
proof (induction n arbitrary: off)
  case (Suc n)
  have s: "ok_stable (\<lambda>p. skip_alt_idx p o')" for o'
    unfolding skip_alt_idx_def
    by (intro ok_stable_bind ok_stable_cu) (auto simp: ok_stable_def split: prod.split)
  obtain o1 o2 where h: "off + 32 \<le> length p" "skip_alt_idx p (off + 32) = FOk o1" "skip_alt_idx p o1 = FOk o2"
    "skip_luts n p o2 = FOk x"
    using Suc.prems by (auto simp: fbind_Ok_iff not_le split: if_split_asm)
  show ?case using h ok_stableD [OF s h(2), of q] ok_stableD [OF s h(3), of q] Suc.IH [OF h(4)] by simp
qed simp

lemma parse_luts_stable: "ok_stable (\<lambda>p. parse_luts versioned p off)"
proof (cases versioned)
  case True
  have "ok_stable (\<lambda>p. skip_luts n p o')" for n o'
    unfolding ok_stable_def using skip_luts_stable by blast
  then have "ok_stable (\<lambda>p. fbind (cu ''lut'' ''lut'' p off) (\<lambda>x. case x of (nlut, off1) \<Rightarrow>
      if nlut > 32 then FBad ''nlut'' else skip_luts nlut p off1))"
    by (intro ok_stable_bind ok_stable_cu) (auto simp: ok_stable_def split: prod.split)
  then show ?thesis using True by (simp add: parse_luts_def)
qed (simp add: parse_luts_def ok_stable_def)

lemma parse_version_stable: "ok_stable (\<lambda>p. parse_version p nsig off)"
  by (auto simp: ok_stable_def parse_version_def Let_def nth_append split: if_split_asm)

lemma parse_legacy_OkD:
  assumes "parse_legacy_v0 raw start = FOk f"
  obtains off0 off1 off2 off4 off5 off6 where
    "cu ''truncated_nsig'' ''bad_nsig'' (drop start raw) 0 = FOk (fr_nsig f, off0)"
    "1 \<le> fr_nsig f" "fr_nsig f \<le> TX_SIG_MAX" "off0 + fr_nsig f * 64 \<le> length (drop start raw)"
    "parse_version (drop start raw) (fr_nsig f) (off0 + fr_nsig f * 64) = FOk (fr_luts f, off1)"
    "off1 + 2 \<le> length (drop start raw)"
    "cu ''truncated_nkeys'' ''bad_nkeys'' (drop start raw) (off1 + 2) = FOk (fr_nkeys f, off2)"
    "header_ok (fr_nsig f) (b_at (drop start raw) off1) (b_at (drop start raw) (off1 + 1)) (fr_nkeys f)"
    "off2 + fr_nkeys f * 32 + 32 \<le> length (drop start raw)"
    "cu ''truncated_ix'' ''bad_ix'' (drop start raw) (off2 + (fr_nkeys f * 32 + 32)) = FOk (fr_ninstr f, off4)"
    "fr_ninstr f \<noteq> 0" "fr_ninstr f \<le> TX_INSTR_MAX"
    "legacy_ixs (fr_ninstr f) (drop start raw) (fr_luts f) (fr_nkeys f) off4 = FOk (fr_ixs f, off5)"
    "parse_luts (fr_luts f) (drop start raw) off5 = FOk off6"
    "f = \<lparr> fr_ver = (if fr_luts f then ''v0'' else ''legacy''), fr_nsig = fr_nsig f, fr_nkeys = fr_nkeys f,
           fr_ninstr = fr_ninstr f, fr_keys = split_keys (drop start raw) off2 (fr_nkeys f), fr_ixs = fr_ixs f,
           fr_tx_end = start + off6, fr_luts = fr_luts f, fr_mask = None \<rparr>"
  using assms unfolding parse_legacy_v0_def Let_def
  by (auto simp: fbind_Ok_iff not_le not_less split: if_split_asm)

lemma parse_legacy_stable:
  assumes "parse_legacy_v0 raw start = FOk f"
  shows "start < length raw" "parse_legacy_v0 (raw @ q) start = FOk f"
proof -
  let ?p = "drop start raw"
  obtain off0 off1 off2 off4 off5 off6 where h:
    "cu ''truncated_nsig'' ''bad_nsig'' ?p 0 = FOk (fr_nsig f, off0)"
    "1 \<le> fr_nsig f" "fr_nsig f \<le> TX_SIG_MAX" "off0 + fr_nsig f * 64 \<le> length ?p"
    "parse_version ?p (fr_nsig f) (off0 + fr_nsig f * 64) = FOk (fr_luts f, off1)"
    "off1 + 2 \<le> length ?p"
    "cu ''truncated_nkeys'' ''bad_nkeys'' ?p (off1 + 2) = FOk (fr_nkeys f, off2)"
    "header_ok (fr_nsig f) (b_at ?p off1) (b_at ?p (off1 + 1)) (fr_nkeys f)"
    "off2 + fr_nkeys f * 32 + 32 \<le> length ?p"
    "cu ''truncated_ix'' ''bad_ix'' ?p (off2 + (fr_nkeys f * 32 + 32)) = FOk (fr_ninstr f, off4)"
    "fr_ninstr f \<noteq> 0" "fr_ninstr f \<le> TX_INSTR_MAX"
    "legacy_ixs (fr_ninstr f) ?p (fr_luts f) (fr_nkeys f) off4 = FOk (fr_ixs f, off5)"
    "parse_luts (fr_luts f) ?p off5 = FOk off6"
    "f = \<lparr> fr_ver = (if fr_luts f then ''v0'' else ''legacy''), fr_nsig = fr_nsig f, fr_nkeys = fr_nkeys f,
           fr_ninstr = fr_ninstr f, fr_keys = split_keys ?p off2 (fr_nkeys f), fr_ixs = fr_ixs f,
           fr_tx_end = start + off6, fr_luts = fr_luts f, fr_mask = None \<rparr>"
    by (rule parse_legacy_OkD [OF assms])
  show st: "start < length raw" using h(4) cu_bound [OF h(1)] by auto
  have d: "drop start (raw @ q) = ?p @ q" using st by simp
  have b: "b_at (?p @ q) off1 = b_at ?p off1" "b_at (?p @ q) (off1 + 1) = b_at ?p (off1 + 1)"
    using h(6) by (simp_all add: nth_append)
  have k: "split_keys (?p @ q) off2 (fr_nkeys f) = split_keys ?p off2 (fr_nkeys f)"
    using h(9) by (intro split_keys_append) simp
  note S = ok_stableD [OF ok_stable_cu h(1), of q] ok_stableD [OF parse_version_stable h(5), of q]
    ok_stableD [OF ok_stable_cu h(7), of q] ok_stableD [OF ok_stable_cu h(10), of q]
    legacy_ixs_stable [OF h(13), of q] ok_stableD [OF parse_luts_stable h(14), of q]
  have guards: "\<not> (fr_nsig f < 1 \<or> fr_nsig f > TX_SIG_MAX)" "\<not> off0 + fr_nsig f * 64 > length (?p @ q)"
    "\<not> off1 + 2 > length (?p @ q)" "\<not> off2 + fr_nkeys f * 32 + 32 > length (?p @ q)"
    "\<not> (fr_ninstr f = 0 \<or> fr_ninstr f > TX_INSTR_MAX)"
    using h by auto
  have "parse_legacy_v0 (raw @ q) start =
      FOk \<lparr> fr_ver = (if fr_luts f then ''v0'' else ''legacy''), fr_nsig = fr_nsig f, fr_nkeys = fr_nkeys f,
           fr_ninstr = fr_ninstr f, fr_keys = split_keys ?p off2 (fr_nkeys f), fr_ixs = fr_ixs f,
           fr_tx_end = start + off6, fr_luts = fr_luts f, fr_mask = None \<rparr>"
    unfolding parse_legacy_v0_def Let_def d
    by (simp only: S b k h(8) guards fbind_simps prod.case if_False not_True_eq_False)
  then show "parse_legacy_v0 (raw @ q) start = FOk f" by (simp only: h(15) [symmetric])
qed

section \<open>Sample transactions\<close>

definition sample_v1 :: bytes where
  "sample_v1 = [0x81, 1, 0, 0] @ replicate 36 0 @ [1, 2] @ replicate 32 1 @ replicate 32 2
     @ [1, 1, 2, 0] @ [0] @ [9, 9] @ replicate 64 0"

definition sample_v0 :: bytes where
  "sample_v0 = [1] @ replicate 64 0 @ [0x80, 1, 0, 0] @ [1] @ replicate 32 5 @ replicate 32 6
     @ [1, 0, 0, 0] @ [0]"

lemma sample_v1_framed: "\<exists>f. parse_v1 sample_v1 0 = FOk f \<and> fr_tx_end f = 177 \<and> fr_nkeys f = 2"
proof -
  have "case parse_v1 sample_v1 0 of FOk f \<Rightarrow> fr_tx_end f = 177 \<and> fr_nkeys f = 2 | _ \<Rightarrow> False" by code_simp
  then show ?thesis by (auto split: fr.split_asm)
qed

lemma sample_v0_framed: "\<exists>f. parse_legacy_v0 sample_v0 0 = FOk f \<and> fr_luts f \<and> fr_nsig f = 1"
proof -
  have "case parse_legacy_v0 sample_v0 0 of FOk f \<Rightarrow> fr_luts f \<and> fr_nsig f = 1 | _ \<Rightarrow> False" by code_simp
  then show ?thesis by (auto split: fr.split_asm)
qed

section \<open>Properties\<close>

text \<open>
  Compact lengths are canonical. A length below \<open>2 ^ 16\<close> is read back from its shortest
  encoding, and whatever bytes are accepted as a length are its shortest encoding.
\<close>
lemma cu16_canonical:
  "(n < 65536 \<longrightarrow> cu16 (pre @ enc_cu16 n @ post) (length pre) = FOk (n, length pre + length (enc_cu16 n)))
   \<and> (cu16 p off = FOk (m, off') \<longrightarrow> m < 65536 \<and> slice off off' p = enc_cu16 m)"
  using cu16_enc [of n pre "length pre" post] cu16_canonical_bytes [of p off m off'] cu16_bound [of p off m off']
  by simp

text \<open>
  C20: the V1 framer can be fed a stream. A framed transaction lies inside the bytes seen, and
  is framed the same way whatever follows it; cut anywhere before its end it is reported
  incomplete, never invalid and never as another transaction.
\<close>
theorem parse_v1_incremental:
  assumes "parse_v1 p start = FOk f"
  shows "fr_tx_end f \<le> length p \<and> parse_v1 (p @ q) start = FOk f
    \<and> (\<forall>n<fr_tx_end f. \<exists>w. parse_v1 (take n p) start = FNeed w)"
proof (intro conjI allI impI)
  show "fr_tx_end f \<le> length p" by (rule parse_v1_end [OF assms])
  show "parse_v1 (p @ q) start = FOk f" by (rule v1.extend_ok [OF assms])
  fix n assume n: "n < fr_tx_end f"
  show "\<exists>w. parse_v1 (take n p) start = FNeed w"
    using v1.prefix_of_ok [OF assms, of n] parse_v1_end(1) [of "take n p" start f] n by auto
qed

theorem parse_v1_incremental_witness:
  "\<exists>w. parse_v1 (take 120 sample_v1) 0 = FNeed w"
  using sample_v1_framed parse_v1_incremental [of sample_v1 0 _ "[]"] by auto

text \<open>
  C23: a framed V1 transaction is well formed: at most 4096 bytes, as many distinct 32-byte
  addresses and instructions as its header says, and every program and account index of
  every instruction names one of those addresses.
\<close>
theorem parse_v1_well_formed:
  assumes "parse_v1 p start = FOk f"
  shows "fr_tx_end f - start \<le> TX_V1_MAX \<and> length (fr_keys f) = fr_nkeys f \<and> distinct (fr_keys f)
    \<and> list_all (\<lambda>k. length k = 32) (fr_keys f)
    \<and> length (fr_ixs f) = fr_ninstr f \<and> list_all (ix_ok (fr_nkeys f)) (fr_ixs f)"
proof -
  obtain headers where k: "v1_keys p (start + TX_V1_HDR) (fr_nkeys f) = FOk (fr_keys f)"
    and h: "v1_ixhdrs p (start + TX_V1_HDR + fr_nkeys f * 32) (the (fr_mask f)) (fr_ninstr f) (fr_nkeys f) = FOk headers"
    and b: "v1_body p start (start + TX_V1_HDR + fr_nkeys f * 32 + popcount (the (fr_mask f)) * 4 + fr_ninstr f * 4)
       (fr_nsig f) (fr_nkeys f) headers = FOk (fr_ixs f, fr_tx_end f)"
    by (rule parse_v1_OkD [OF assms])
  have H: "length headers = fr_ninstr f \<and> list_all (\<lambda>(prog, a, d). prog < fr_nkeys f) headers"
    using h by (auto simp: v1_ixhdrs_def Let_def dest!: v1_headers_props split: if_split_asm)
  obtain c where "v1_ixs headers p (fr_nkeys f) (start + TX_V1_HDR + fr_nkeys f * 32
      + popcount (the (fr_mask f)) * 4 + fr_ninstr f * 4) = FOk (fr_ixs f, c)"
    using b by (auto simp: v1_body_def Let_def fbind_Ok_iff split: if_split_asm)
  with v1_ixs_props H have "length (fr_ixs f) = fr_ninstr f" "list_all (ix_ok (fr_nkeys f)) (fr_ixs f)"
    by metis+
  with parse_v1_end(2) [OF assms] v1_keys_props [OF k] show ?thesis by blast
qed

theorem parse_v1_well_formed_witness:
  "\<exists>f. parse_v1 sample_v1 0 = FOk f \<and> length (fr_keys f) = 2 \<and> distinct (fr_keys f)"
  using sample_v1_framed parse_v1_well_formed [of sample_v1 0] by metis

text \<open>
  Framing is stable for every format: a transaction that \<open>parse_any\<close> frames is framed to
  the same result when more bytes follow.
\<close>
lemma parse_any_stable:
  assumes "parse_any raw start = FOk f"
  shows "parse_any (raw @ q) start = FOk f"
proof (cases "start < length raw \<and> b_at raw start = TX_V1_PREFIX")
  case True
  then show ?thesis using assms v1.extend_ok [of raw start f q] by (simp add: parse_any_def)
next
  case False
  then have l: "parse_legacy_v0 raw start = FOk f" using assms by (auto simp: parse_any_def)
  show ?thesis using False parse_legacy_stable(1) [OF l] parse_legacy_stable(2) [OF l, of q]
    by (auto simp: parse_any_def)
qed

text \<open>
  The legacy framer is not incremental. Cutting a framed version-0 transaction right
  after its version byte makes it invalid rather than incomplete, although the rest of the
  transaction would complete it.
\<close>
lemma truncated_v0_is_invalid:
  assumes "parse_legacy_v0 raw 0 = FOk f" and "fr_luts f"
  shows "parse_legacy_v0 (take (2 + fr_nsig f * 64) raw) 0 = FBad ''hdr_nsig''"
proof -
  obtain off0 off1 where h: "cu ''truncated_nsig'' ''bad_nsig'' raw 0 = FOk (fr_nsig f, off0)"
    "1 \<le> fr_nsig f" "fr_nsig f \<le> TX_SIG_MAX" "off0 + fr_nsig f * 64 \<le> length raw"
    "parse_version raw (fr_nsig f) (off0 + fr_nsig f * 64) = FOk (fr_luts f, off1)"
    by (rule parse_legacy_OkD [OF assms(1)]) auto
  have c: "cu16 raw 0 = FOk (fr_nsig f, off0)" using h(1) by (auto simp: cu_def split: fr.split_asm)
  have ne: "0 < length raw" using h(2,4) by auto
  have small: "b_at raw 0 < 128"
  proof (rule ccontr)
    assume "\<not> b_at raw 0 < 128"
    then have "128 \<le> fr_nsig f" using c
      by (auto simp: cu16_def Let_def intro: trans_le_add2 split: if_split_asm)
    then show False using h(3) by (simp add: TX_SIG_MAX_def)
  qed
  then have n: "fr_nsig f = b_at raw 0" "off0 = 1" using c ne by (auto simp: cu16_def)
  define p where "p = take (2 + fr_nsig f * 64) raw"
  have v: "1 + fr_nsig f * 64 < length raw" "128 \<le> b_at raw (1 + fr_nsig f * 64)"
    "b_at raw (1 + fr_nsig f * 64) mod 128 = 0"
    using h(5) assms(2) n(2) by (auto simp: parse_version_def Let_def split: if_split_asm)
  have len: "length p = 2 + fr_nsig f * 64" using v(1) by (simp add: p_def)
  have "cu ''truncated_nsig'' ''bad_nsig'' p 0 = FOk (fr_nsig f, 1)"
    using small n len by (simp add: cu_def cu16_def p_def)
  moreover have "parse_version p (fr_nsig f) (1 + fr_nsig f * 64) = FBad ''hdr_nsig''"
    using v len by (simp add: parse_version_def Let_def p_def)
  ultimately show ?thesis
    using h(2,3) len unfolding p_def [symmetric] by (simp add: parse_legacy_v0_def)
qed

end
