(* ===== verification/Auth_Ring.thy ===== *)
theory Auth_Ring
  imports Py_Prelude
begin

text \<open>
  \<^verbatim>\<open>arb-state/shyft/authpub.py\<close>: the shared-memory publication of pool states. Each pool has a
  sequence counter (odd while a writer is inside), a head counter and a ring of 16 entries.
  The mapped file is the record \<open>auth_map\<close>, one field per header word and one record per
  pool; byte offsets and widths are the constants below. \<open>publish\<close> is the list of stores it
  makes, in program order, so that what a concurrent reader can see between two of them is a
  prefix of that list. Counters that would need \<open>2 ^ 64\<close> publications to wrap are naturals.
\<close>

unbundle bit_operations_syntax

section \<open>Layout\<close>

definition MAGIC :: nat where "MAGIC = 0x39304841"
definition VER :: nat where "VER = 1"
definition RING :: nat where "RING = 16"
definition BLOB :: nat where "BLOB = 2048"
definition HDR :: nat where "HDR = 256"
definition ENT :: nat where "ENT = 2176"
definition POOL_HDR :: nat where "POOL_HDR = 64"
definition POOL :: nat where "POOL = POOL_HDR + RING * ENT"
definition POOL_CAP :: nat where "POOL_CAP = 4096"

definition COHERENT :: int where "COHERENT = 1"
definition INCOMPLETE :: int where "INCOMPLETE = 2"
definition GAPPED :: int where "GAPPED = 4"
definition BOOT :: int where "BOOT = 8"
definition HAS_ACCOUNT_WRITE_VERSION :: int where "HAS_ACCOUNT_WRITE_VERSION = 16"
definition HAS_TXN_INDEX :: int where "HAS_TXN_INDEX = 32"
definition TXN_INDEX_UNKNOWN :: int where "TXN_INDEX_UNKNOWN = 0xFFFFFFFF"

lemmas flag_defs = COHERENT_def INCOMPLETE_def GAPPED_def BOOT_def HAS_ACCOUNT_WRITE_VERSION_def
  HAS_TXN_INDEX_def TXN_INDEX_UNKNOWN_def

definition map_size :: "nat \<Rightarrow> nat" where
  "map_size pool_cap = HDR + pool_cap * POOL"

text \<open>The 64-bit FNV-1a hash, wrapping multiplication included.\<close>

definition fnv1a64 :: "bytes \<Rightarrow> 64 word" where
  "fnv1a64 data = foldl (\<lambda>h b. (h XOR ucast b) * 1099511628211) 14695981039346656037 data"

record auth_entry =
  ae_generation :: nat
  ae_slot :: int
  ae_txn_index :: int
  ae_flags :: int
  ae_state_version :: nat
  ae_sig :: bytes
  ae_proto :: int
  ae_coherent :: int
  ae_blob_len :: nat
  ae_write_version :: int
  ae_blob :: bytes

definition zero_entry :: auth_entry where
  "zero_entry = \<lparr> ae_generation = 0, ae_slot = 0, ae_txn_index = 0, ae_flags = 0, ae_state_version = 0,
     ae_sig = zeros 64, ae_proto = 0, ae_coherent = 0, ae_blob_len = 0, ae_write_version = 0,
     ae_blob = zeros 2048 \<rparr>"

record auth_pool =
  ap_seq :: nat
  ap_head :: nat
  ap_flags :: int
  ap_ver :: nat
  ap_ring :: "auth_entry list"

definition zero_pool :: auth_pool where
  "zero_pool = \<lparr> ap_seq = 0, ap_head = 0, ap_flags = 0, ap_ver = 0, ap_ring = replicate RING zero_entry \<rparr>"

record auth_map =
  am_magic :: nat
  am_layout_ver :: nat
  am_ring :: nat
  am_n_pools :: nat
  am_pool_cap :: nat
  am_blob :: nat
  am_ready :: nat
  am_state_version :: nat
  am_slot :: int
  am_pools :: "auth_pool list"

text \<open>The writer object: the map, when one is open, and its version counter.\<close>

record auth_pub =
  pub_cap :: nat
  pub_mm :: "auth_map option"
  pub_ver :: nat

section \<open>Choosing a predecessor\<close>

definition usable :: "auth_entry \<Rightarrow> bool" where
  "usable e \<longleftrightarrow> ae_coherent e \<noteq> 0 \<and> ae_flags e AND COHERENT \<noteq> 0
     \<and> \<not> (ae_flags e AND (INCOMPLETE OR GAPPED) \<noteq> 0)"

fun pred_by_slot :: "auth_entry list \<Rightarrow> int \<Rightarrow> auth_entry option" where
  "pred_by_slot [] trig = None"
| "pred_by_slot (e # es) trig =
     (if ae_slot e = trig then None
      else if ae_slot e < trig then (if usable e then Some e else None)
      else pred_by_slot es trig)"

text \<open>\<^verbatim>\<open>Some r\<close> when an entry carries the signature: the verdict of that loop.\<close>

fun pred_by_sig :: "auth_entry list \<Rightarrow> bytes \<Rightarrow> auth_entry option option" where
  "pred_by_sig [] sig = None"
| "pred_by_sig (e # es) sig =
     (if ae_sig e = sig
      then Some (case es of [] \<Rightarrow> None | n # _ \<Rightarrow> if usable n then Some n else None)
      else pred_by_sig es sig)"

definition choose_pred :: "auth_entry list \<Rightarrow> int \<Rightarrow> bytes option \<Rightarrow> auth_entry option" where
  "choose_pred entries trig_slot sig =
    (case sig of
       None \<Rightarrow> pred_by_slot entries trig_slot
     | Some s \<Rightarrow>
         if s = [] then pred_by_slot entries trig_slot
         else (case pred_by_sig entries s of Some r \<Rightarrow> r | None \<Rightarrow> pred_by_slot entries trig_slot))"

section \<open>The writer\<close>

definition fresh_map :: "nat \<Rightarrow> auth_map" where
  "fresh_map cap = \<lparr> am_magic = MAGIC, am_layout_ver = VER, am_ring = RING, am_n_pools = 0,
     am_pool_cap = cap, am_blob = BLOB, am_ready = 0, am_state_version = 0, am_slot = 0,
     am_pools = replicate cap zero_pool \<rparr>"

definition auth_create :: "auth_pub \<Rightarrow> auth_pub" where
  "auth_create a = a \<lparr> pub_mm := Some (fresh_map (pub_cap a)), pub_ver := 0 \<rparr>"

text \<open>
  \<^verbatim>\<open>open()\<close>: the file is absent, or has some size and contents; anything that does not look
  like this layout is created anew.
\<close>

definition auth_open :: "(nat \<times> auth_map) option \<Rightarrow> auth_pub \<Rightarrow> auth_pub" where
  "auth_open file a =
    (case file of
       None \<Rightarrow> auth_create a
     | Some (sz, mm) \<Rightarrow>
         if sz \<noteq> map_size (pub_cap a) then auth_create a
         else if am_magic mm \<noteq> MAGIC \<or> am_layout_ver mm \<noteq> VER \<or> am_ring mm \<noteq> RING then auth_create a
         else a \<lparr> pub_mm := Some mm, pub_ver := am_state_version mm \<rparr>)"

definition auth_close :: "auth_pub \<Rightarrow> auth_pub" where
  "auth_close a = a \<lparr> pub_mm := None \<rparr>"

definition set_ready :: "auth_pub \<Rightarrow> bool \<Rightarrow> nat \<Rightarrow> int \<Rightarrow> auth_pub" where
  "set_ready a ready n_pools slot =
    (case pub_mm a of None \<Rightarrow> a
     | Some mm \<Rightarrow> a \<lparr> pub_mm := Some (mm \<lparr> am_n_pools := n_pools, am_ready := (if ready then 1 else 0),
                                            am_slot := slot \<rparr>) \<rparr>)"

text \<open>One store into a pool, or into the global version word.\<close>

datatype store = StSeq nat | StEntry nat auth_entry | StHead nat | StFlags int | StVer nat | StGlobal nat

definition store_pool :: "store \<Rightarrow> auth_pool \<Rightarrow> auth_pool" where
  "store_pool st p = (case st of
       StSeq n \<Rightarrow> p \<lparr> ap_seq := n \<rparr>
     | StEntry i e \<Rightarrow> p \<lparr> ap_ring := (ap_ring p)[i := e] \<rparr>
     | StHead n \<Rightarrow> p \<lparr> ap_head := n \<rparr>
     | StFlags f \<Rightarrow> p \<lparr> ap_flags := f \<rparr>
     | StVer v \<Rightarrow> p \<lparr> ap_ver := v \<rparr>
     | StGlobal v \<Rightarrow> p)"

definition store_map :: "nat \<Rightarrow> store \<Rightarrow> auth_map \<Rightarrow> auth_map" where
  "store_map idx st mm = (case st of
       StGlobal v \<Rightarrow> mm \<lparr> am_state_version := v \<rparr>
     | _ \<Rightarrow> mm \<lparr> am_pools := (am_pools mm)[idx := store_pool st (am_pools mm ! idx)] \<rparr>)"

definition reset_stores :: "auth_pool \<Rightarrow> nat \<Rightarrow> store list" where
  "reset_stores p ver = (let seq = ap_seq p + ap_seq p mod 2
     in [StSeq (seq + 1), StHead 0, StFlags GAPPED, StVer ver, StSeq (seq + 2)])"

definition reset_history :: "auth_pub \<Rightarrow> auth_pub" where
  "reset_history a =
    (case pub_mm a of None \<Rightarrow> a
     | Some mm \<Rightarrow>
         let a1 = set_ready a False 0 0;
             ver = pub_ver a + 1
         in (case pub_mm a1 of None \<Rightarrow> a1
             | Some mm1 \<Rightarrow> a1 \<lparr> pub_ver := ver,
                 pub_mm := Some (mm1 \<lparr> am_pools := map (\<lambda>p. foldl (\<lambda>q s. store_pool s q) p (reset_stores p ver)) (am_pools mm1),
                                        am_state_version := ver \<rparr>) \<rparr>))"

record publish_args =
  pa_slot :: int
  pa_blob :: bytes
  pa_proto :: int
  pa_sig :: "bytes option"
  pa_txn_index :: "int option"
  pa_write_version :: "int option"
  pa_flags :: int
  pa_boot :: bool

text \<open>The signature field and the flags before the optional fields are known.\<close>

definition boot_literal :: bytes where "boot_literal = [0x62, 0x6f, 0x6f, 0x74]"

definition entry_sig :: "publish_args \<Rightarrow> bytes \<times> bool" where
  "entry_sig pa =
    (let raw0 = take 64 (case pa_sig pa of None \<Rightarrow> [] | Some s \<Rightarrow> s);
         boot = pa_boot pa \<or> raw0 = boot_literal;
         raw1 = (if boot then zeros 64 else raw0)
     in (raw1 @ zeros (64 - length raw1), boot))"

definition entry_flags :: "publish_args \<Rightarrow> int" where
  "entry_flags pa =
    (let f0 = (if snd (entry_sig pa) then pa_flags pa OR BOOT else pa_flags pa);
         f1 = f0 OR COHERENT;
         f2 = (if pa_txn_index pa = None then f1 else f1 OR HAS_TXN_INDEX)
     in if pa_write_version pa = None then f2 else f2 OR HAS_ACCOUNT_WRITE_VERSION)"

definition entry_of :: "publish_args \<Rightarrow> nat \<Rightarrow> auth_entry" where
  "entry_of pa ver =
    \<lparr> ae_generation = ver, ae_slot = pa_slot pa,
      ae_txn_index = (case pa_txn_index pa of None \<Rightarrow> TXN_INDEX_UNKNOWN | Some t \<Rightarrow> t),
      ae_flags = entry_flags pa, ae_state_version = ver, ae_sig = fst (entry_sig pa),
      ae_proto = pa_proto pa mod 256, ae_coherent = 1, ae_blob_len = length (pa_blob pa),
      ae_write_version = (case pa_write_version pa of None \<Rightarrow> 0 | Some w \<Rightarrow> w),
      ae_blob = pa_blob pa @ zeros (BLOB - length (pa_blob pa)) \<rparr>"

text \<open>The stores of one publication, in program order.\<close>

definition publish_stores :: "auth_pool \<Rightarrow> publish_args \<Rightarrow> nat \<Rightarrow> store list" where
  "publish_stores p pa ver =
    (let seq = ap_seq p; head = ap_head p
     in [StSeq (seq + 1), StEntry (head mod RING) (entry_of pa ver), StHead (head + 1),
         StFlags (entry_flags pa), StVer ver, StGlobal ver, StSeq (seq + 2)])"

text \<open>
  \<^verbatim>\<open>struct.pack_into\<close> of the entry raises when the slot or the flags do not fit their field;
  the sequence counter has then been left odd.
\<close>

definition entry_packs :: "publish_args \<Rightarrow> bool" where
  "entry_packs pa \<longleftrightarrow> 0 \<le> pa_slot pa \<and> pa_slot pa < 2 ^ 64 \<and> 0 \<le> entry_flags pa \<and> entry_flags pa < 2 ^ 32"

definition publish :: "auth_pub \<Rightarrow> int \<Rightarrow> publish_args \<Rightarrow> auth_pub \<times> py_error option" where
  "publish a idx pa =
    (case pub_mm a of
       None \<Rightarrow> (a, None)
     | Some mm \<Rightarrow>
         if idx < 0 \<or> idx \<ge> int (pub_cap a) then (a, None)
         else if length (pa_blob pa) > BLOB then (a, None)
         else if (case pa_txn_index pa of None \<Rightarrow> False | Some t \<Rightarrow> t < 0 \<or> t \<ge> TXN_INDEX_UNKNOWN)
         then (a, Some (ValueError ''txn_index must fit u32; use None when unknown''))
         else if (case pa_write_version pa of None \<Rightarrow> False | Some w \<Rightarrow> w < 0 \<or> w > 0xFFFFFFFFFFFFFFFF)
         then (a, Some (ValueError ''max_account_write_version must fit u64''))
         else let i = nat idx; p = am_pools mm ! i; ver = pub_ver a + 1
              in if \<not> entry_packs pa
                 then (a \<lparr> pub_mm := Some (store_map i (StSeq (ap_seq p + 1)) mm), pub_ver := ver \<rparr>, Some StructError)
                 else (a \<lparr> pub_mm := Some (foldl (\<lambda>m s. store_map i s m) mm (publish_stores p pa ver)),
                          pub_ver := ver \<rparr>, None))"

section \<open>Reading the ring\<close>

definition ring_entry :: "auth_pool \<Rightarrow> nat \<Rightarrow> auth_entry" where
  "ring_entry p i = ap_ring p ! ((ap_head p - 1 - i) mod RING)"

definition pool_ring :: "auth_pool \<Rightarrow> auth_entry list" where
  "pool_ring p = map (ring_entry p) [0..<min (ap_head p) RING]"

text \<open>The optional fields are hidden when their flag is clear.\<close>

definition shown_entry :: "auth_entry \<Rightarrow> auth_entry \<times> int \<times> int option" where
  "shown_entry e =
    (e, if ae_flags e AND HAS_TXN_INDEX \<noteq> 0 then ae_txn_index e else TXN_INDEX_UNKNOWN,
     if ae_flags e AND HAS_ACCOUNT_WRITE_VERSION \<noteq> 0 then Some (ae_write_version e) else None)"

definition dump_ring :: "auth_pub \<Rightarrow> nat \<Rightarrow> (auth_entry \<times> int \<times> int option) list" where
  "dump_ring a idx =
    (case pub_mm a of None \<Rightarrow> []
     | Some mm \<Rightarrow> if idx \<ge> pub_cap a then []
                 else map shown_entry (pool_ring (am_pools mm ! idx)))"

section \<open>The ring as a bounded history\<close>

lemma mod_sub_neq:
  fixes h i n :: nat
  assumes "0 < i" "i < n" "i \<le> h"
  shows "(h - i) mod n \<noteq> h mod n"
proof
  assume "(h - i) mod n = h mod n"
  then have "n dvd h - (h - i)" using assms mod_eq_dvd_iff_nat [of "h - i" h n] by simp
  then have "n dvd i" using assms by simp
  then show False using assms by (simp add: dvd_imp_le nat_dvd_not_less)
qed

definition pool_shape :: "auth_pool \<Rightarrow> bool" where
  "pool_shape p \<longleftrightarrow> length (ap_ring p) = RING"

definition publish_pool :: "auth_pool \<Rightarrow> publish_args \<Rightarrow> nat \<Rightarrow> auth_pool" where
  "publish_pool p pa ver = foldl (\<lambda>q s. store_pool s q) p (publish_stores p pa ver)"

lemma publish_pool_eq:
  "publish_pool p pa ver = p \<lparr> ap_seq := ap_seq p + 2, ap_ring := (ap_ring p)[ap_head p mod RING := entry_of pa ver],
     ap_head := ap_head p + 1, ap_flags := entry_flags pa, ap_ver := ver \<rparr>"
  by (simp add: publish_pool_def publish_stores_def store_pool_def Let_def)

lemma pool_ring_publish:
  assumes "pool_shape p"
  shows "pool_ring (publish_pool p pa ver) = take RING (entry_of pa ver # pool_ring p)"
proof -
  define e h n where "e = entry_of pa ver" and "h = ap_head p" and "n = min h (RING - 1)"
  let ?q = "publish_pool p pa ver"
  have q: "ap_head ?q = Suc h" "ap_ring ?q = (ap_ring p)[h mod RING := e]"
    by (simp_all add: publish_pool_eq e_def h_def)
  have R: "RING = 16" by (simp add: RING_def)
  have m: "min (Suc h) RING = Suc n" by (simp add: n_def R)
  have "ring_entry ?q 0 = e"
    using assms R by (simp add: ring_entry_def q pool_shape_def)
  moreover have "ring_entry ?q (Suc i) = ring_entry p i" if "i < n" for i
  proof -
    have "(h - Suc i) mod RING \<noteq> h mod RING"
      using that by (intro mod_sub_neq) (auto simp: n_def R)
    then show ?thesis by (simp add: ring_entry_def q h_def)
  qed
  ultimately have "map (ring_entry ?q) [0..<Suc n] = e # map (ring_entry p) [0..<n]"
    by (simp add: upt_conv_Cons map_Suc_upt [symmetric] del: upt_Suc)
  moreover have "take (RING - 1) (pool_ring p) = map (ring_entry p) [0..<n]"
    by (simp add: pool_ring_def take_map n_def h_def R min_def)
  ultimately show ?thesis
    unfolding pool_ring_def [of ?q] q m by (simp add: e_def R del: upt_Suc)
qed

definition entry_wf :: "auth_entry \<Rightarrow> bool" where
  "entry_wf e \<longleftrightarrow> ae_coherent e = 1 \<and> ae_flags e AND COHERENT \<noteq> 0 \<and> length (ae_sig e) = 64
     \<and> length (ae_blob e) = BLOB \<and> ae_blob_len e \<le> BLOB"

lemma entry_of_wf:
  assumes "length (pa_blob pa) \<le> BLOB"
  shows "entry_wf (entry_of pa ver)"
proof -
  have "odd (entry_flags pa)"
    by (simp add: entry_flags_def Let_def flag_defs even_or_iff)
  then have "entry_flags pa AND 1 \<noteq> 0" by (simp add: and_one_eq odd_iff_mod_2_eq_one)
  then show ?thesis using assms
    by (simp add: entry_wf_def entry_of_def entry_sig_def COHERENT_def Let_def)
qed

text \<open>
  The history of a pool: well-formed entries, newest first, of strictly falling generation,
  none newer than the writer's counter.
\<close>

definition pool_ok :: "nat \<Rightarrow> auth_pool \<Rightarrow> bool" where
  "pool_ok ver p \<longleftrightarrow> pool_shape p \<and> list_all entry_wf (pool_ring p)
     \<and> sorted_wrt (>) (map ae_generation (pool_ring p)) \<and> list_all (\<lambda>e. ae_generation e \<le> ver) (pool_ring p)"

lemma pool_ok_mono: "pool_ok ver p \<Longrightarrow> ver \<le> ver' \<Longrightarrow> pool_ok ver' p"
  by (auto simp: pool_ok_def list_all_iff)

lemma zero_pool_ok: "pool_ok ver zero_pool"
  by (simp add: pool_ok_def pool_shape_def zero_pool_def pool_ring_def)

lemma sorted_wrt_take: "sorted_wrt R xs \<Longrightarrow> sorted_wrt R (take n xs)"
  by (metis append_take_drop_id sorted_wrt_append)

lemma list_all_take: "list_all P xs \<Longrightarrow> list_all P (take n xs)"
  by (auto simp: list_all_iff dest: in_set_takeD)

lemma pool_ok_publish:
  assumes "pool_ok ver p" and "length (pa_blob pa) \<le> BLOB"
  shows "pool_ok (Suc ver) (publish_pool p pa (Suc ver))"
proof -
  have sh: "pool_shape p" using assms by (simp add: pool_ok_def)
  let ?es = "entry_of pa (Suc ver) # pool_ring p"
  have "list_all entry_wf ?es" "sorted_wrt (>) (map ae_generation ?es)"
    "list_all (\<lambda>e. ae_generation e \<le> Suc ver) ?es"
    using assms entry_of_wf [OF assms(2), of "Suc ver"]
    by (auto simp: pool_ok_def list_all_iff entry_of_def)
  then show ?thesis
    unfolding pool_ok_def pool_ring_publish [OF sh]
    using sh by (auto simp: pool_shape_def publish_pool_eq take_map [symmetric] sorted_wrt_take list_all_take
        simp del: take_Suc_Cons)
qed

section \<open>The whole map\<close>

definition auth_ok :: "auth_pub \<Rightarrow> bool" where
  "auth_ok a \<longleftrightarrow> (case pub_mm a of None \<Rightarrow> True
     | Some mm \<Rightarrow> length (am_pools mm) = pub_cap a \<and> list_all (pool_ok (pub_ver a)) (am_pools mm))"

lemma foldl_store_map:
  assumes "i < length (am_pools mm)"
  shows "am_pools (foldl (\<lambda>m s. store_map i s m) mm ss)
    = (am_pools mm)[i := foldl (\<lambda>q s. store_pool s q) (am_pools mm ! i) ss]"
  using assms
proof (induction ss arbitrary: mm)
  case (Cons s ss)
  have "am_pools (store_map i s mm) = (am_pools mm)[i := store_pool s (am_pools mm ! i)]"
    by (cases s) (simp_all add: store_map_def store_pool_def)
  then show ?case using Cons by (simp add: list_update_overwrite)
qed simp

lemma list_all_update: "list_all P xs \<Longrightarrow> P x \<Longrightarrow> list_all P (xs[i := x])"
  by (auto simp: list_all_iff dest!: set_update_subset_insert [THEN subsetD])

lemma reset_pool_eq:
  "foldl (\<lambda>q s. store_pool s q) p (reset_stores p ver)
    = p \<lparr> ap_seq := ap_seq p + ap_seq p mod 2 + 2, ap_head := 0, ap_flags := GAPPED, ap_ver := ver \<rparr>"
  by (simp add: reset_stores_def store_pool_def Let_def)

datatype auth_event = EvPublish int publish_args | EvReady bool nat int | EvReset

definition auth_handle :: "auth_pub \<Rightarrow> auth_event \<Rightarrow> auth_pub" where
  "auth_handle a e = (case e of EvPublish i pa \<Rightarrow> fst (publish a i pa)
     | EvReady r n s \<Rightarrow> set_ready a r n s | EvReset \<Rightarrow> reset_history a)"

definition publish_refused :: "auth_pub \<Rightarrow> int \<Rightarrow> publish_args \<Rightarrow> bool" where
  "publish_refused a idx pa \<longleftrightarrow> idx < 0 \<or> idx \<ge> int (pub_cap a) \<or> length (pa_blob pa) > BLOB
     \<or> (case pa_txn_index pa of None \<Rightarrow> False | Some t \<Rightarrow> t < 0 \<or> t \<ge> TXN_INDEX_UNKNOWN)
     \<or> (case pa_write_version pa of None \<Rightarrow> False | Some w \<Rightarrow> w < 0 \<or> w > 0xFFFFFFFFFFFFFFFF)"

lemma publish_refused_same: "pub_mm a = Some mm \<Longrightarrow> publish_refused a idx pa \<Longrightarrow> fst (publish a idx pa) = a"
  unfolding publish_refused_def by (elim disjE) (simp_all add: publish_def)

lemma publish_accepted:
  assumes "pub_mm a = Some mm" "\<not> publish_refused a idx pa"
  shows "publish a idx pa =
    (if entry_packs pa
     then (a \<lparr> pub_mm := Some (foldl (\<lambda>m s. store_map (nat idx) s m) mm
                  (publish_stores (am_pools mm ! nat idx) pa (Suc (pub_ver a)))), pub_ver := Suc (pub_ver a) \<rparr>, None)
     else (a \<lparr> pub_mm := Some (store_map (nat idx) (StSeq (ap_seq (am_pools mm ! nat idx) + 1)) mm),
              pub_ver := Suc (pub_ver a) \<rparr>, Some StructError))"
  using assms unfolding publish_refused_def de_Morgan_disj
  by (simp add: publish_def Let_def split del: if_split) simp

lemma publish_cases:
  assumes "pub_mm a = Some mm"
  obtains "fst (publish a idx pa) = a"
  | i where "i < pub_cap a" "fst (publish a idx pa) = a \<lparr> pub_mm := Some (store_map i (StSeq (ap_seq (am_pools mm ! i) + 1)) mm),
        pub_ver := Suc (pub_ver a) \<rparr>"
  | i where "i < pub_cap a" "length (pa_blob pa) \<le> BLOB" "fst (publish a idx pa) =
        a \<lparr> pub_mm := Some (foldl (\<lambda>m s. store_map i s m) mm (publish_stores (am_pools mm ! i) pa (Suc (pub_ver a)))),
            pub_ver := Suc (pub_ver a) \<rparr>"
proof (cases "publish_refused a idx pa")
  case True
  then show ?thesis using that(1) publish_refused_same [OF assms] by blast
next
  case False
  then have "nat idx < pub_cap a" "length (pa_blob pa) \<le> BLOB" by (auto simp: publish_refused_def nat_less_iff)
  then show ?thesis using that(2,3) [of "nat idx"] publish_accepted [OF assms False] by (cases "entry_packs pa") auto
qed

lemma publish_ok:
  assumes ok: "auth_ok a"
  shows "auth_ok (fst (publish a idx pa))"
proof (cases "pub_mm a")
  case None
  then show ?thesis using ok by (simp add: publish_def)
next
  case (Some mm)
  have len: "length (am_pools mm) = pub_cap a" and all: "list_all (pool_ok (pub_ver a)) (am_pools mm)"
    using ok Some by (simp_all add: auth_ok_def)
  have all': "list_all (pool_ok (Suc (pub_ver a))) (am_pools mm)"
    using all by (auto simp: list_all_iff intro: pool_ok_mono)
  consider "fst (publish a idx pa) = a"
    | i where "i < pub_cap a" "fst (publish a idx pa) = a \<lparr> pub_mm := Some (store_map i (StSeq (ap_seq (am_pools mm ! i) + 1)) mm),
        pub_ver := Suc (pub_ver a) \<rparr>"
    | i where "i < pub_cap a" "length (pa_blob pa) \<le> BLOB" "fst (publish a idx pa) =
        a \<lparr> pub_mm := Some (foldl (\<lambda>m s. store_map i s m) mm (publish_stores (am_pools mm ! i) pa (Suc (pub_ver a)))),
            pub_ver := Suc (pub_ver a) \<rparr>"
    by (rule publish_cases [OF Some, of idx pa]) auto
  then show ?thesis
  proof cases
    case 1
    then show ?thesis using ok by simp
  next
    case 2
    have "pool_ok (Suc (pub_ver a)) (store_pool (StSeq n) (am_pools mm ! i))" for n
      using all' 2 len
      by (auto simp: list_all_length store_pool_def pool_ok_def pool_shape_def pool_ring_def ring_entry_def cong: map_cong)
    then show ?thesis using 2 len all' by (simp add: auth_ok_def store_map_def list_all_update)
  next
    case 3
    have "pool_ok (Suc (pub_ver a)) (publish_pool (am_pools mm ! i) pa (Suc (pub_ver a)))"
      using all 3 len by (intro pool_ok_publish) (auto simp: list_all_length)
    then show ?thesis using 3 len all'
      by (simp add: auth_ok_def foldl_store_map list_all_update flip: publish_pool_def)
  qed
qed

lemma set_ready_ok: "auth_ok a \<Longrightarrow> auth_ok (set_ready a r n s)"
  by (auto simp: auth_ok_def set_ready_def split: option.split)

lemma reset_history_ok:
  assumes "auth_ok a"
  shows "auth_ok (reset_history a)"
proof (cases "pub_mm a")
  case (Some mm)
  have "pool_ok ver (p \<lparr> ap_seq := s, ap_head := 0, ap_flags := GAPPED, ap_ver := v \<rparr>)"
    if "pool_ok (pub_ver a) p" for p s v ver
    using that by (simp add: pool_ok_def pool_shape_def pool_ring_def)
  then show ?thesis using assms Some
    by (auto simp: auth_ok_def reset_history_def set_ready_def reset_pool_eq list_all_iff)
qed (use assms in \<open>simp add: reset_history_def\<close>)

definition auth_start :: "nat \<Rightarrow> auth_pub" where
  "auth_start cap = auth_create \<lparr> pub_cap = cap, pub_mm = None, pub_ver = 0 \<rparr>"

interpretation auth: event_machine auth_handle auth_ok "auth_start cap" for cap
proof
  show "auth_ok (auth_start cap)"
    by (simp add: auth_start_def auth_create_def auth_ok_def fresh_map_def list_all_length zero_pool_ok)
  show "auth_ok (auth_handle a e)" if "auth_ok a" for a e
    using that by (cases e) (simp_all add: auth_handle_def publish_ok set_ready_ok reset_history_ok)
qed

lemma auth_handle_open:
  assumes "pub_mm a \<noteq> None"
  shows "pub_mm (auth_handle a e) \<noteq> None \<and> pub_cap (auth_handle a e) = pub_cap a"
proof (cases e)
  case (EvPublish i pa)
  obtain mm where mm: "pub_mm a = Some mm" using assms by auto
  show ?thesis unfolding EvPublish auth_handle_def auth_event.case
    by (rule publish_cases [OF mm, of i pa]) (simp_all add: mm)
next
  case (EvReady r n sl)
  then show ?thesis using assms by (auto simp: auth_handle_def set_ready_def)
next
  case EvReset
  then show ?thesis using assms by (auto simp: auth_handle_def reset_history_def set_ready_def)
qed

lemma auth_run_open:
  "pub_mm a \<noteq> None \<Longrightarrow> pub_mm (foldl auth_handle a es) \<noteq> None \<and> pub_cap (foldl auth_handle a es) = pub_cap a"
proof (induction es arbitrary: a)
  case (Cons e es)
  then show ?case using auth_handle_open [of a e] by simp
qed simp

lemma dump_ring_eq:
  "pub_mm a = Some mm \<Longrightarrow> j < pub_cap a \<Longrightarrow> dump_ring a j = map shown_entry (pool_ring (am_pools mm ! j))"
  by (simp add: dump_ring_def)

section \<open>Properties\<close>

definition sample_args :: publish_args where
  "sample_args = \<lparr> pa_slot = 77, pa_blob = [1, 2, 3], pa_proto = 2, pa_sig = Some (replicate 64 9),
     pa_txn_index = Some 4, pa_write_version = None, pa_flags = COHERENT, pa_boot = False \<rparr>"



text \<open>
  The ring is a bounded history. An accepted publication puts its entry in front of the
  history of its pool and drops whatever is beyond 16 entries, and leaves every other pool's
  history as it was.
\<close>
lemma publish_extends_history:
  assumes "auth_ok a" and "pub_mm a = Some mm" and "\<not> publish_refused a (int i) pa" and "entry_packs pa"
  shows "\<exists>a'. publish a (int i) pa = (a', None)
    \<and> dump_ring a' i = take RING (shown_entry (entry_of pa (Suc (pub_ver a))) # dump_ring a i)
    \<and> (\<forall>j<pub_cap a. j \<noteq> i \<longrightarrow> dump_ring a' j = dump_ring a j)"
proof -
  have i: "i < pub_cap a" using assms(3) by (auto simp: publish_refused_def)
  have len: "length (am_pools mm) = pub_cap a" and sh: "pool_shape (am_pools mm ! i)"
    using assms(1,2) i by (auto simp: auth_ok_def list_all_length pool_ok_def)
  define mm' where "mm' = foldl (\<lambda>m s. store_map i s m) mm (publish_stores (am_pools mm ! i) pa (Suc (pub_ver a)))"
  define a' where "a' = a \<lparr> pub_mm := Some mm', pub_ver := Suc (pub_ver a) \<rparr>"
  have pools: "am_pools mm' = (am_pools mm)[i := publish_pool (am_pools mm ! i) pa (Suc (pub_ver a))]"
    unfolding mm'_def publish_pool_def using i len by (intro foldl_store_map) simp
  have "publish a (int i) pa = (a', None)"
    using publish_accepted [OF assms(2,3)] assms(4) by (simp add: a'_def mm'_def)
  moreover have "dump_ring a' i = take RING (shown_entry (entry_of pa (Suc (pub_ver a))) # dump_ring a i)"
    using i len sh assms(2) pools
    by (simp add: a'_def dump_ring_eq pool_ring_publish RING_def take_map)
  moreover have "dump_ring a' j = dump_ring a j" if "j < pub_cap a" "j \<noteq> i" for j
    using that assms(2) pools by (simp add: a'_def dump_ring_eq)
  ultimately show ?thesis by blast
qed

text \<open>
  The sequence counter is a correct lock for readers. Among the states a reader can see
  while a publication runs, one per store, the counter is even only before the first and
  after the last, with different values: a reader that finds the same even counter before
  and after its reads has not raced with any store.
\<close>
lemma publish_seqlock:
  assumes "even (ap_seq p)" and "i \<le> j" and "j \<le> length (publish_stores p pa ver)"
    and "s = ap_seq (foldl (\<lambda>q st. store_pool st q) p (take i (publish_stores p pa ver)))"
    and "s = ap_seq (foldl (\<lambda>q st. store_pool st q) p (take j (publish_stores p pa ver)))"
    and "even s"
  shows "i = j"
proof -
  have len: "length (publish_stores p pa ver) = 7" by (simp add: publish_stores_def Let_def)
  have seq: "ap_seq (foldl (\<lambda>q st. store_pool st q) p (take k (publish_stores p pa ver)))
      = (if k = 0 then ap_seq p else if k < 7 then ap_seq p + 1 else ap_seq p + 2)" if "k \<le> 7" for k
  proof -
    have "k \<in> {0, 1, 2, 3, 4, 5, 6, 7}" using that by (auto simp: numeral_eq_Suc le_Suc_eq)
    then show ?thesis by (auto simp: publish_stores_def store_pool_def Let_def)
  qed
  show ?thesis using assms len seq [of i] seq [of j] by (auto split: if_split_asm)
qed

text \<open>
  A predecessor is never taken across a gap. Whatever entry is chosen is usable; with the
  trigger's signature in the ring it is the very next older entry, and without it it is the
  newest entry of an older slot, all newer entries being of later slots than the trigger's.
\<close>
lemma choose_pred_never_skips:
  assumes "choose_pred entries trig sig = Some e"
  shows "usable e \<and>
    ((\<exists>s i. sig = Some s \<and> s \<noteq> [] \<and> Suc i < length entries \<and> ae_sig (entries ! i) = s \<and> e = entries ! Suc i)
     \<or> (\<exists>newer older. entries = newer @ e # older \<and> ae_slot e < trig \<and> list_all (\<lambda>n. ae_slot n > trig) newer))"
proof -
  have slot: "usable x \<and> (\<exists>newer older. es = newer @ x # older \<and> ae_slot x < trig \<and> list_all (\<lambda>n. ae_slot n > trig) newer)"
    if "pred_by_slot es trig = Some x" for es x
    using that
  proof (induction es)
    case (Cons n es)
    show ?case
    proof (cases "trig < ae_slot n")
      case True
      then obtain newer older where "es = newer @ x # older" "ae_slot x < trig" "list_all (\<lambda>n. ae_slot n > trig) newer" "usable x"
        using Cons by auto
      then show ?thesis using True by (intro conjI exI [of _ "n # newer"] exI [of _ older]) auto
    next
      case False
      then have "x = n" "usable n" "ae_slot n < trig" using Cons.prems by (auto split: if_split_asm)
      then show ?thesis by (intro conjI exI [of _ "[]"] exI [of _ es]) auto
    qed
  qed simp
  have sig: "usable x \<and> (\<exists>i. Suc i < length es \<and> ae_sig (es ! i) = s \<and> x = es ! Suc i)"
    if "pred_by_sig es s = Some (Some x)" for es s x
    using that
  proof (induction es)
    case (Cons n es)
    show ?case
    proof (cases "ae_sig n = s")
      case True
      then show ?thesis using Cons.prems
        by (auto split: list.split_asm if_split_asm intro!: exI [of _ 0])
    next
      case False
      then obtain i where "Suc i < length es" "ae_sig (es ! i) = s" "x = es ! Suc i" "usable x"
        using Cons by auto
      then show ?thesis by (intro conjI exI [of _ "Suc i"]) auto
    qed
  qed simp
  show ?thesis
    using assms slot [of entries e] sig [of entries _ e]
    unfolding choose_pred_def by (auto split: option.split_asm if_split_asm)
qed

end
