(* ===== verification/Wire_Accounts.thy ===== *)
theory Wire_Accounts
  imports Pump_Overlay
begin

text \<open>
  \<^verbatim>\<open>arb-cap/record_dlmm.py\<close>: reading DLMM accounts. The parsers of the pair account, of a bin
  array and of a token account, the addresses of the bin arrays around the active bin, the
  swaps of a transaction, snapshots assembled from fetched accounts and the before/after
  record of a swap. The account service is a parameter: the \<open>n\<close>-th call of
  \<^verbatim>\<open>get_multiple(keys)\<close> is \<open>fetch n keys\<close>. SHA-256 is the parameter \<open>sha\<close>.
\<close>

definition rd_DLMM :: string where "rd_DLMM = ''LBUZKhRxPF3XUpBCjp4YzTKgLccjZhTSDM9YuVaPwxo''"
definition SWAP2 :: bytes where "SWAP2 = [65, 75, 63, 76, 235, 91, 91, 136]"
definition SWAP1 :: bytes where "SWAP1 = [248, 198, 158, 145, 225, 117, 135, 200]"
definition LBPAIR_DISC :: bytes where "LBPAIR_DISC = [33, 11, 49, 98, 181, 101, 177, 13]"
definition BINS_PER_ARRAY :: nat where "BINS_PER_ARRAY = 70"
definition RD_BIN_SIZE :: nat where "RD_BIN_SIZE = 144"

section \<open>Account parsers\<close>

record lbpair =
  lb_base_factor :: int
  lb_filter_period :: int
  lb_decay_period :: int
  lb_reduction_factor :: int
  lb_variable_fee_control :: int
  lb_max_volatility_accumulator :: int
  lb_protocol_share :: int
  lb_base_fee_power_factor :: int
  lb_collect_fee_mode :: int
  lb_vol_acc :: int
  lb_vol_ref :: int
  lb_idx_ref :: int
  lb_last_upd :: int
  lb_active_id :: int
  lb_bin_step :: int
  lb_status :: int
  lb_token_x :: bytes
  lb_token_y :: bytes
  lb_vault_x :: bytes
  lb_vault_y :: bytes

definition parse_lbpair :: "bytes \<Rightarrow> lbpair res" where
  "parse_lbpair data =
    (if length data < 904 \<or> take 8 data \<noteq> LBPAIR_DISC then Inl (ValueError ''not LbPair'')
     else Inr
       \<lparr> lb_base_factor = u_at 2 data 8, lb_filter_period = u_at 2 data 10, lb_decay_period = u_at 2 data 12,
         lb_reduction_factor = u_at 2 data 14, lb_variable_fee_control = u_at 4 data 16,
         lb_max_volatility_accumulator = u_at 4 data 20, lb_protocol_share = u_at 2 data 32,
         lb_base_fee_power_factor = u_at 1 data 34, lb_collect_fee_mode = u_at 1 data 36,
         lb_vol_acc = u_at 4 data 40, lb_vol_ref = u_at 4 data 44, lb_idx_ref = i_at 4 data 48,
         lb_last_upd = i_at 8 data 56, lb_active_id = i_at 4 data 76, lb_bin_step = u_at 2 data 80,
         lb_status = u_at 1 data 82, lb_token_x = slice 88 120 data, lb_token_y = slice 120 152 data,
         lb_vault_x = slice 152 184 data, lb_vault_y = slice 184 216 data \<rparr>)"

record rbin =
  rb_id :: int
  rb_x :: int
  rb_y :: int

definition bin_of_array :: "bytes \<Rightarrow> int \<Rightarrow> nat \<Rightarrow> rbin" where
  "bin_of_array body lo i =
    \<lparr> rb_id = lo + int i, rb_x = u_at 8 body (48 + i * RD_BIN_SIZE), rb_y = u_at 8 body (48 + i * RD_BIN_SIZE + 8) \<rparr>"

definition parse_bin_array :: "bytes \<Rightarrow> rbin list" where
  "parse_bin_array data =
    (if length data < 10136 then []
     else let body = drop 8 data; lo = i_at 8 body 0 * int BINS_PER_ARRAY
          in map (bin_of_array body lo) [0..<BINS_PER_ARRAY])"

definition token_amount :: "bytes \<Rightarrow> int" where
  "token_amount data = (if length data < 72 then 0 else u_at 8 data 64)"

section \<open>Swaps of a transaction\<close>

definition tx_keys :: "tx \<Rightarrow> string list" where
  "tx_keys t = map (\<lambda>a. case a of KeyDict k \<Rightarrow> k | KeyText k \<Rightarrow> k) (tx_accountKeys t) @ tx_writable t @ tx_readonly t"

record swap =
  sw_pair :: string
  sw_amount_in :: int
  sw_min_out :: int
  sw_accounts :: "string list"
  sw_keys :: "string list"

definition swap_program :: "string list \<Rightarrow> ix \<Rightarrow> string option" where
  "swap_program keys i =
    (case ix_programId i of Some p \<Rightarrow> Some p
     | None \<Rightarrow> (case ix_programIdIndex i of None \<Rightarrow> None
                | Some n \<Rightarrow> if n < length keys then Some (keys ! n) else None))"

definition swap_data :: "ix \<Rightarrow> bytes res" where
  "swap_data i = (case ix_data_of i of NoData \<Rightarrow> Inr [] | DataText s \<Rightarrow> b58_any s | DataBytes b \<Rightarrow> Inr b)"

definition key_at :: "string list \<Rightarrow> nat \<Rightarrow> string res" where
  "key_at keys n = (if n < length keys then Inr (keys ! n) else Inl IndexError)"

definition swap_accounts :: "string list \<Rightarrow> ix \<Rightarrow> string list res" where
  "swap_accounts keys i = (case ix_accounts_of i of AccNames ns \<Rightarrow> Inr ns | AccIndexes ns \<Rightarrow> rmap (key_at keys) ns)"

definition decode_swap :: "string list \<Rightarrow> ix \<Rightarrow> swap list res" where
  "decode_swap keys i =
    (if swap_program keys i \<noteq> Some rd_DLMM then Inr []
     else rbind (swap_data i) (\<lambda>data.
       if length data < 24 \<or> take 8 data \<notin> {SWAP2, SWAP1} then Inr []
       else rbind (swap_accounts keys i) (\<lambda>accs.
         case accs of [] \<Rightarrow> Inr []
         | a # _ \<Rightarrow> Inr [\<lparr> sw_pair = a, sw_amount_in = u_at 8 data 8, sw_min_out = u_at 8 data 16, sw_accounts = accs, sw_keys = keys \<rparr>])))"

text \<open>Outer instructions first, then all inner ones; a failed transaction has no swaps.\<close>

definition decode_swaps :: "tx \<Rightarrow> bool \<Rightarrow> swap list res" where
  "decode_swaps t err =
    (if err then Inr []
     else let keys = tx_keys t; inner = concat (map snd (tx_inner t))
          in rbind (rmap (decode_swap keys) (tx_instructions t @ inner)) (\<lambda>xss. Inr (concat xss)))"

definition decode_swap2 :: "tx \<Rightarrow> bool \<Rightarrow> swap option res" where
  "decode_swap2 t err = rbind (decode_swaps t err) (\<lambda>sw. Inr (case sw of [] \<Rightarrow> None | s # _ \<Rightarrow> Some s))"

section \<open>Addresses of the bin arrays\<close>

text \<open>As in \<^verbatim>\<open>pump_fee.py\<close>, but an encoding not below the field prime is rejected first.\<close>

definition rd_on_curve :: "bytes \<Rightarrow> bool" where
  "rd_on_curve pt =
    (if length pt \<noteq> 32 then False
     else let y = int (le_nat pt) mod 2 ^ 255 in
       if y \<ge> curve_P then False
       else let y2 = powmod y 2 curve_P;
                u = (y2 - 1) mod curve_P;
                v = (curve_D * y2 + 1) mod curve_P;
                x2 = (u * powmod v (nat (curve_P - 2)) curve_P) mod curve_P
            in powmod x2 (nat ((curve_P - 1) div 2)) curve_P \<noteq> curve_P - 1)"

fun rd_pda_loop :: "(bytes \<Rightarrow> bytes) \<Rightarrow> bytes list \<Rightarrow> bytes \<Rightarrow> nat \<Rightarrow> bytes res" where
  "rd_pda_loop sha seeds program 0 = Inl (RuntimeError ''no pda'')"
| "rd_pda_loop sha seeds program (Suc bump) =
     (let digest = sha (pda_preimage seeds program bump)
      in if \<not> rd_on_curve digest then Inr digest else rd_pda_loop sha seeds program bump)"

definition rd_find_pda :: "(bytes \<Rightarrow> bytes) \<Rightarrow> bytes list \<Rightarrow> bytes \<Rightarrow> bytes res" where
  "rd_find_pda sha seeds program = rd_pda_loop sha seeds program 256"

definition bin_array_index :: "int \<Rightarrow> int" where
  "bin_array_index b = b div int BINS_PER_ARRAY"

definition bin_array_pda :: "(bytes \<Rightarrow> bytes) \<Rightarrow> string \<Rightarrow> int \<Rightarrow> string res" where
  "bin_array_pda sha pair index =
    rbind (b58decode pair) (\<lambda>p.
    rbind (pack_i 8 index) (\<lambda>i.
    rbind (b58decode rd_DLMM) (\<lambda>prog.
    rbind (rd_find_pda sha [ascii ''bin_array'', p, i] prog) (\<lambda>raw. Inr (record_pk raw)))))"

definition array_indexes_k :: "int \<Rightarrow> int \<Rightarrow> int list" where
  "array_indexes_k active k = [bin_array_index (active - k)..bin_array_index (active + k)]"

definition array_indexes :: "int \<Rightarrow> int list" where
  "array_indexes active = [bin_array_index (active - 16)..bin_array_index (active + 16)]"

section \<open>Snapshots\<close>

record account =
  ac_slot :: int
  ac_owner :: string
  ac_data :: bytes

record pricing =
  pr_slot :: int
  pr_pair :: string
  pr_lb :: lbpair
  pr_bins :: "rbin list"
  pr_reserve_x :: int
  pr_reserve_y :: int
  pr_vault_x :: "int option"
  pr_vault_y :: "int option"
  pr_k :: int

definition sum_x :: "rbin list \<Rightarrow> int" where "sum_x bs = sum_list (map rb_x bs)"
definition sum_y :: "rbin list \<Rightarrow> int" where "sum_y bs = sum_list (map rb_y bs)"

definition near :: "int \<Rightarrow> int \<Rightarrow> rbin \<Rightarrow> bool" where
  "near active k b \<longleftrightarrow> \<bar>rb_id b - active\<bar> \<le> k"

definition bins_of_accounts :: "account option list \<Rightarrow> rbin list" where
  "bins_of_accounts arrs = concat (map (\<lambda>a. case a of None \<Rightarrow> [] | Some acc \<Rightarrow> parse_bin_array (ac_data acc)) arrs)"

definition nth_amount :: "account option list \<Rightarrow> nat \<Rightarrow> int option res" where
  "nth_amount vs i = (if vs = [] then Inr None
     else if i < length vs then Inr (map_option (\<lambda>a. token_amount (ac_data a)) (vs ! i)) else Inl IndexError)"

definition pricing_snap ::
  "(bytes \<Rightarrow> bytes) \<Rightarrow> (nat \<Rightarrow> string list \<Rightarrow> account option list) \<Rightarrow> string \<Rightarrow> int \<Rightarrow> pricing option res" where
  "pricing_snap sha fetch pair k =
    (case fetch 0 [pair] of
       Some acc # _ \<Rightarrow>
         if ac_owner acc \<noteq> rd_DLMM then Inr None
         else (case parse_lbpair (ac_data acc) of
            Inl e \<Rightarrow> Inr None
          | Inr lb \<Rightarrow>
              rbind (rmap (bin_array_pda sha pair) (array_indexes_k (lb_active_id lb) k)) (\<lambda>keys.
                let bins = bins_of_accounts (fetch 1 keys);
                    use = sort_key rb_id (filter (near (lb_active_id lb) k) bins);
                    vaults = fetch 2 [record_pk (lb_vault_x lb), record_pk (lb_vault_y lb)]
                in rbind (nth_amount vaults 0) (\<lambda>vx. rbind (nth_amount vaults 1) (\<lambda>vy.
                     Inr (Some \<lparr> pr_slot = ac_slot acc, pr_pair = pair, pr_lb = lb, pr_bins = use,
                       pr_reserve_x = sum_x use, pr_reserve_y = sum_y use, pr_vault_x = vx, pr_vault_y = vy, pr_k = k \<rparr>)))))
     | _ \<Rightarrow> Inr None)"

definition pool_keys :: "(bytes \<Rightarrow> bytes) \<Rightarrow> string \<Rightarrow> lbpair \<Rightarrow> string list res" where
  "pool_keys sha pair lb =
    rbind (rmap (bin_array_pda sha pair) (array_indexes (lb_active_id lb))) (\<lambda>arrs.
      Inr (uniq (filter (\<lambda>k. k \<noteq> []) ([pair, record_pk (lb_vault_x lb), record_pk (lb_vault_y lb)] @ arrs))))"

record snap =
  sn_slot :: int
  sn_lb :: lbpair
  sn_bins :: "rbin list"
  sn_reserve_x :: int
  sn_reserve_y :: int
  sn_watch :: "string list"

definition watch_keys :: "(bytes \<Rightarrow> bytes) \<Rightarrow> string \<Rightarrow> snap option \<Rightarrow> string list res" where
  "watch_keys sha pair prev = (case prev of None \<Rightarrow> Inr [pair] | Some s \<Rightarrow> pool_keys sha pair (sn_lb s))"

definition own_array :: "string \<Rightarrow> account \<Rightarrow> bool" where
  "own_array pair a \<longleftrightarrow> ac_owner a = rd_DLMM \<and> length (ac_data a) \<ge> 10136 \<and> record_pk (slice 24 56 (ac_data a)) = pair"

definition snap_from_accounts :: "string \<Rightarrow> (string, account) dict \<Rightarrow> snap option" where
  "snap_from_accounts pair by_key =
    (case dget by_key pair of
       None \<Rightarrow> None
     | Some acc \<Rightarrow>
         if ac_owner acc \<noteq> rd_DLMM then None
         else (case parse_lbpair (ac_data acc) of
            Inl e \<Rightarrow> None
          | Inr lb \<Rightarrow>
              let bins = concat (map (\<lambda>(k, a). if own_array pair a then parse_bin_array (ac_data a) else []) by_key);
                  kx = record_pk (lb_vault_x lb); ky = record_pk (lb_vault_y lb);
                  watch = [pair, kx, ky]
                    @ map fst (filter (\<lambda>(k, a). ac_owner a = rd_DLMM \<and> (length (ac_data a) \<ge> 10136 \<or> k = pair)) by_key)
              in Some \<lparr> sn_slot = ac_slot acc, sn_lb = lb, sn_bins = bins,
                   sn_reserve_x = (case dget by_key kx of Some a \<Rightarrow> token_amount (ac_data a) | None \<Rightarrow> sum_x bins),
                   sn_reserve_y = (case dget by_key ky of Some a \<Rightarrow> token_amount (ac_data a) | None \<Rightarrow> sum_y bins),
                   sn_watch = take 10 (uniq watch) \<rparr>))"

text \<open>\<^verbatim>\<open>{k: a for k, a in zip(keys, accs) if a}\<close> and \<^verbatim>\<open>by.update(...)\<close>\<close>

definition fetched :: "string list \<Rightarrow> account option list \<Rightarrow> (string, account) dict" where
  "fetched keys accs = List.map_filter (\<lambda>(k, a). map_option (Pair k) a) (zip keys accs)"

definition dupdate :: "('k, 'v) dict \<Rightarrow> ('k, 'v) dict \<Rightarrow> ('k, 'v) dict" where
  "dupdate d e = foldl (\<lambda>m (k, v). dput k v m) d e"

definition merge_missing ::
  "(bytes \<Rightarrow> bytes) \<Rightarrow> (string list \<Rightarrow> account option list) \<Rightarrow> string \<Rightarrow> (string, account) dict \<Rightarrow> snap option res" where
  "merge_missing sha fetch pair by_key =
    (case snap_from_accounts pair by_key of
       None \<Rightarrow> Inr None
     | Some sn \<Rightarrow> rbind (pool_keys sha pair (sn_lb sn)) (\<lambda>keys.
         let miss = filter (\<lambda>k. dget by_key k = None) keys
         in if miss = [] then Inr (Some sn)
            else let by' = dupdate by_key (fetched miss (fetch miss))
                 in Inr (case snap_from_accounts pair by' of Some s \<Rightarrow> Some s | None \<Rightarrow> Some sn)))"

definition snapshot_pool ::
  "(bytes \<Rightarrow> bytes) \<Rightarrow> (nat \<Rightarrow> string list \<Rightarrow> account option list) \<Rightarrow> string \<Rightarrow> snap option \<Rightarrow> snap option res" where
  "snapshot_pool sha fetch pair prev =
    rbind (watch_keys sha pair prev) (\<lambda>ukeys.
      merge_missing sha (fetch 1) pair (dupdate [] (fetched ukeys (fetch 0 ukeys))))"

section \<open>The record of a swap\<close>

record triple =
  tr_pool_idx :: int
  tr_swap_for_y :: int
  tr_swap :: swap
  tr_now_ts :: int
  tr_before :: lbpair
  tr_after :: lbpair
  tr_before_rx :: int
  tr_before_ry :: int
  tr_after_rx :: int
  tr_after_ry :: int
  tr_vault_rx_before :: int
  tr_vault_ry_before :: int
  tr_vault_rx_after :: int
  tr_vault_ry_after :: int
  tr_bins_before :: "rbin list"
  tr_bins_after :: "rbin list"
  tr_before_slot :: int
  tr_after_slot :: int

definition emit_triple :: "int \<Rightarrow> int \<Rightarrow> snap \<Rightarrow> snap \<Rightarrow> swap \<Rightarrow> int \<Rightarrow> triple" where
  "emit_triple now pool_idx before after sw block_time =
    (let lb0 = sn_lb before; lb1 = sn_lb after;
         window = filter (near (lb_active_id lb0) 16) (sn_bins before);
         window_after0 = filter (near (lb_active_id lb0) 16) (sn_bins after);
         window_after = (if window_after0 = [] then filter (near (lb_active_id lb1) 16) (sn_bins after) else window_after0)
     in \<lparr> tr_pool_idx = pool_idx,
          tr_swap_for_y = (if sn_reserve_x after > sn_reserve_x before then 1 else 0), tr_swap = sw,
          tr_now_ts = (if block_time = 0 then now else block_time), tr_before = lb0, tr_after = lb1,
          tr_before_rx = sum_x window, tr_before_ry = sum_y window,
          tr_after_rx = sum_x window_after, tr_after_ry = sum_y window_after,
          tr_vault_rx_before = sn_reserve_x before, tr_vault_ry_before = sn_reserve_y before,
          tr_vault_rx_after = sn_reserve_x after, tr_vault_ry_after = sn_reserve_y after,
          tr_bins_before = window, tr_bins_after = window_after,
          tr_before_slot = sn_slot before, tr_after_slot = sn_slot after \<rparr>)"

section \<open>The bins around the active bin\<close>

lemma map_from_upto: "map (\<lambda>i. lo + int i) [0..<n] = [lo..lo + int n - 1]"
proof (induction n)
  case (Suc n)
  have "[lo..lo + int (Suc n) - 1] = [lo..lo + int n - 1] @ [lo + int n]"
    using upto_rec2 [of lo "lo + int n"] by (simp add: algebra_simps)
  then show ?case using Suc by simp
qed simp

lemma parse_bin_array_ids:
  assumes "10136 \<le> length data"
  shows "map rb_id (parse_bin_array data) = [i_at 8 (drop 8 data) 0 * 70..i_at 8 (drop 8 data) 0 * 70 + 69]"
  using assms map_from_upto [of "i_at 8 (drop 8 data) 0 * 70" 70]
  by (simp add: parse_bin_array_def Let_def BINS_PER_ARRAY_def bin_of_array_def comp_def algebra_simps del: upt_rec_numeral)

lemma concat_arrays: "lo \<le> hi \<Longrightarrow> concat (map (\<lambda>i. [i * 70..i * 70 + 69]) [lo..hi]) = [lo * 70..hi * 70 + (69 :: int)]"
proof (induction hi rule: int_ge_induct)
  case (step hi)
  have "[lo..hi + 1] = [lo..hi] @ [hi + 1]" using step.hyps upto_rec2 [of lo "hi + 1"] by simp
  moreover have "[lo * 70..(hi + 1) * 70 + 69] = [lo * 70..hi * 70 + 69] @ [(hi + 1) * 70..(hi + 1) * 70 + 69]"
    using step.hyps upto_split1 [of "lo * 70" "(hi + 1) * 70" "(hi + 1) * 70 + 69"] by (simp add: algebra_simps)
  ultimately show ?case using step.IH by simp
qed simp

lemma filter_window:
  fixes l h a k :: int
  assumes "l \<le> a - k" and "a + k \<le> h" and "0 \<le> k"
  shows "filter (\<lambda>i. \<bar>i - a\<bar> \<le> k) [l..h] = [a - k..a + k]"
proof -
  have "[l..h] = [l..a - k - 1] @ [a - k..a + k] @ [a + k + 1..h]"
    using assms upto_split1 [of l "a - k" h] upto_split2 [of "a - k" "a + k" h] by simp
  moreover have "filter (\<lambda>i. \<bar>i - a\<bar> \<le> k) [l..a - k - 1] = []" "filter (\<lambda>i. \<bar>i - a\<bar> \<le> k) [a + k + 1..h] = []"
    by (auto simp: filter_empty_conv)
  moreover have "filter (\<lambda>i. \<bar>i - a\<bar> \<le> k) [a - k..a + k] = [a - k..a + k]" by (auto simp: filter_id_conv)
  ultimately show ?thesis by simp
qed

text \<open>The account holds the bin array of that index.\<close>

definition is_array :: "int \<Rightarrow> account option \<Rightarrow> bool" where
  "is_array idx a \<longleftrightarrow> (case a of None \<Rightarrow> False
     | Some acc \<Rightarrow> 10136 \<le> length (ac_data acc) \<and> i_at 8 (drop 8 (ac_data acc)) 0 = idx)"

lemma bins_of_arrays_ids:
  "list_all2 is_array idxs arrs \<Longrightarrow> map rb_id (bins_of_accounts arrs) = concat (map (\<lambda>i. [i * 70..i * 70 + 69]) idxs)"
  by (induction rule: list_all2_induct)
    (auto simp: bins_of_accounts_def is_array_def parse_bin_array_ids split: option.split_asm)

lemma window_ids:
  assumes "list_all2 is_array (array_indexes_k active k) arrs" and "0 \<le> k"
  shows "map rb_id (filter (near active k) (bins_of_accounts arrs)) = [active - k..active + k]"
proof -
  let ?lo = "(active - k) div 70" and ?hi = "(active + k) div 70"
  have idx: "array_indexes_k active k = [?lo..?hi]"
    by (simp add: array_indexes_k_def bin_array_index_def BINS_PER_ARRAY_def)
  have le: "?lo \<le> ?hi" using assms(2) by (intro zdiv_mono1) auto
  have "map rb_id (bins_of_accounts arrs) = [?lo * 70..?hi * 70 + 69]"
    using bins_of_arrays_ids [OF assms(1)] concat_arrays [OF le] by (simp add: idx)
  moreover have "map rb_id (filter (near active k) bs) = filter (\<lambda>i. \<bar>i - active\<bar> \<le> k) (map rb_id bs)" for bs
    by (simp add: filter_map comp_def near_def [abs_def])
  moreover have "?lo * 70 \<le> active - k" "active + k \<le> ?hi * 70 + 69" by presburger+
  ultimately show ?thesis using filter_window assms(2) by simp
qed

lemma rd_on_curve_eq: "rd_on_curve pt \<longleftrightarrow> on_curve pt \<and> int (le_nat pt) mod 2 ^ 255 < curve_P"
proof -
  have "powmod y 2 curve_P = y * y mod curve_P" for y
    by (subst powmod.simps, subst powmod.simps, subst powmod.simps)
      (simp add: Let_def curve_P_def powmod.simps)
  then show ?thesis by (auto simp: rd_on_curve_def on_curve_def Let_def)
qed

section \<open>Properties\<close>

text \<open>
  C29: the pricing window is complete. When the arrays at the derived addresses are the ones of
  the derived indexes, a pricing snapshot of half-width \<open>k\<close> has each bin from \<open>active - k\<close> to
  \<open>active + k\<close> exactly once, in ascending order, and its reserves are the sums over those bins.
\<close>
theorem pricing_window_complete:
  assumes "pricing_snap sha fetch pair k = Inr (Some p)" and "0 \<le> k"
    and "\<And>lb keys. parse_lbpair (ac_data (the (hd (fetch 0 [pair])))) = Inr lb
        \<Longrightarrow> rmap (bin_array_pda sha pair) (array_indexes_k (lb_active_id lb) k) = Inr keys
        \<Longrightarrow> list_all2 is_array (array_indexes_k (lb_active_id lb) k) (fetch 1 keys)"
  shows "map rb_id (pr_bins p) = [lb_active_id (pr_lb p) - k..lb_active_id (pr_lb p) + k]
    \<and> pr_reserve_x p = sum_list (map rb_x (pr_bins p)) \<and> pr_reserve_y p = sum_list (map rb_y (pr_bins p))"
proof -
  obtain acc rest where f: "fetch 0 [pair] = Some acc # rest"
    using assms(1) by (auto simp: pricing_snap_def split: list.split_asm option.split_asm)
  then obtain lb where lb: "parse_lbpair (ac_data acc) = Inr lb"
    using assms(1) by (auto simp: pricing_snap_def split: if_split_asm sum.split_asm)
  obtain keys vx vy where k: "rmap (bin_array_pda sha pair) (array_indexes_k (lb_active_id lb) k) = Inr keys"
    and p: "p = \<lparr> pr_slot = ac_slot acc, pr_pair = pair, pr_lb = lb,
        pr_bins = sort_key rb_id (filter (near (lb_active_id lb) k) (bins_of_accounts (fetch 1 keys))),
        pr_reserve_x = sum_x (sort_key rb_id (filter (near (lb_active_id lb) k) (bins_of_accounts (fetch 1 keys)))),
        pr_reserve_y = sum_y (sort_key rb_id (filter (near (lb_active_id lb) k) (bins_of_accounts (fetch 1 keys)))),
        pr_vault_x = vx, pr_vault_y = vy, pr_k = k \<rparr>"
    using assms(1) f lb by (auto simp: pricing_snap_def rbind_Inr_iff Let_def split: if_split_asm)
  have "list_all2 is_array (array_indexes_k (lb_active_id lb) k) (fetch 1 keys)"
    using assms(3) [OF _ k] lb by (simp add: f)
  then have ids: "map rb_id (filter (near (lb_active_id lb) k) (bins_of_accounts (fetch 1 keys)))
      = [lb_active_id lb - k..lb_active_id lb + k]"
    using assms(2) by (rule window_ids)
  then have "sort_key rb_id (filter (near (lb_active_id lb) k) (bins_of_accounts (fetch 1 keys)))
      = filter (near (lb_active_id lb) k) (bins_of_accounts (fetch 1 keys))"
    by (intro sort_key_id_if_sorted) simp
  with ids show ?thesis by (simp add: p sum_x_def sum_y_def)
qed

definition sample_pair_account :: account where
  "sample_pair_account = \<lparr> ac_slot = 1, ac_owner = rd_DLMM, ac_data = LBPAIR_DISC @ zeros 896 \<rparr>"

definition sample_fetch :: "nat \<Rightarrow> string list \<Rightarrow> account option list" where
  "sample_fetch n keys = (if n = 0 then [Some sample_pair_account]
     else if n = 1 then map (\<lambda>_. Some \<lparr> ac_slot = 1, ac_owner = rd_DLMM, ac_data = zeros 10136 \<rparr>) keys else [])"

lemma slice_zeros [simp]: "slice i j (zeros n) = zeros (min j n - i)"
  by (simp add: slice_def zeros_def min_def)

lemma i_at_zeros: "i_at k (zeros n) off = 0"
proof -
  have "\<not> (256 :: int) ^ m \<le> 0" for m by (simp add: not_le)
  then have "sint_le (zeros m) = 0" for m by (simp add: sint_le_def Let_def)
  then show ?thesis by (simp add: i_at_def)
qed

lemma sample_active: "\<exists>lb. parse_lbpair (ac_data sample_pair_account) = Inr lb \<and> lb_active_id lb = 0"
proof -
  have "slice 76 80 (LBPAIR_DISC @ zeros 896) = slice 68 72 (zeros 896)" by (simp add: slice_def LBPAIR_DISC_def)
  then have "i_at 4 (ac_data sample_pair_account) 76 = 0"
    using i_at_zeros [of 4 896 68] by (simp add: i_at_def sample_pair_account_def)
  moreover have "length (ac_data sample_pair_account) = 904" "take 8 (ac_data sample_pair_account) = LBPAIR_DISC"
    by (simp_all add: sample_pair_account_def LBPAIR_DISC_def)
  ultimately show ?thesis by (simp add: parse_lbpair_def)
qed

lemma sample_key: "bin_array_pda (\<lambda>_. []) ''1'' 0 = Inr ''1''"
proof -
  have "rd_find_pda (\<lambda>_. []) seeds prog = Inr []" for seeds prog
    by (simp add: rd_find_pda_def rd_on_curve_def numeral_eq_Suc)
  moreover have "\<exists>p. b58decode rd_DLMM = Inr p" "\<exists>p. b58decode ''1'' = Inr p"
    by (rule b58decode_total, simp add: B58_def rd_DLMM_def)+
  moreover have "record_pk [] = ''1''" by code_simp
  ultimately show ?thesis by (auto simp: bin_array_pda_def pack_i_def)
qed

theorem pricing_window_complete_witness:
  "\<exists>p. pricing_snap (\<lambda>_. []) sample_fetch ''1'' 0 = Inr (Some p) \<and> length (pr_bins p) = 1"
proof -
  obtain lb where lb: "parse_lbpair (ac_data sample_pair_account) = Inr lb" "lb_active_id lb = 0"
    using sample_active by blast
  have idx: "array_indexes_k 0 0 = [0]" by (simp add: array_indexes_k_def bin_array_index_def)
  have keys: "rmap (bin_array_pda (\<lambda>_. []) ''1'') (array_indexes_k 0 0) = Inr [''1'']" by (simp add: idx sample_key)
  obtain p where p: "pricing_snap (\<lambda>_. []) sample_fetch ''1'' 0 = Inr (Some p)"
    using lb keys by (simp add: pricing_snap_def sample_fetch_def nth_amount_def Let_def)
      (simp add: sample_pair_account_def sample_fetch_def nth_amount_def Let_def)
  have arr: "list_all2 is_array (array_indexes_k (lb_active_id lb') 0) (sample_fetch 1 ks)"
    if "parse_lbpair (ac_data (the (hd (sample_fetch 0 [''1''])))) = Inr lb'"
      "rmap (bin_array_pda (\<lambda>_. []) ''1'') (array_indexes_k (lb_active_id lb') 0) = Inr ks" for lb' ks
  proof -
    have "lb' = lb" using that(1) lb(1) by (simp add: sample_fetch_def)
    then have "ks = [''1'']" using that(2) lb(2) keys by simp
    moreover have "is_array 0 (Some \<lparr> ac_slot = 1, ac_owner = rd_DLMM, ac_data = zeros 10136 \<rparr>)"
      using i_at_zeros [of 8 10128 0] by (simp add: is_array_def zeros_def)
    ultimately show ?thesis using \<open>lb' = lb\<close> lb(2) by (simp add: idx sample_fetch_def)
  qed
  have "map rb_id (pr_bins p) = [lb_active_id (pr_lb p) - 0..lb_active_id (pr_lb p) + 0]"
    using pricing_window_complete [OF p order_refl arr] by blast
  then have "length (pr_bins p) = 1" by (metis length_map length_upto diff_zero add.right_neutral diff_self nat_one_as_int add_0)
  with p show ?thesis by (intro exI conjI)
qed

end
