(* ===== verification/Live_Univ.thy ===== *)
theory Live_Univ
  imports Wire_Accounts "HOL-Library.Multiset"
begin

text \<open>
  \<^verbatim>\<open>arb-cap/live001.py\<close>: the writer of the pool universe. Parsers of the Pump pool, mint and
  global accounts, the rows fetched for each pool, the order of the rows, and the binary file
  the native side loads. A write to the file is the bytes it appends; \<^verbatim>\<open>struct.pack\<close> raises
  when a value does not fit. The account service is \<open>fetch n keys\<close>, as in \<open>Wire_Accounts\<close>;
  the clock is the argument \<open>now\<close>.
\<close>

definition lv_PUMP :: string where "lv_PUMP = ''pAMMBay6oceH9fJKBRHGP5D4bD4sWpmSwMn52FMfXEA''"
definition lv_SOL :: string where "lv_SOL = ''So11111111111111111111111111111111111111112''"
definition lv_USDC :: string where "lv_USDC = ''EPjFWdd5AufqSSqeM2qN1xzybapC8G4wEGGkZwyTDt1v''"
definition lv_USDT :: string where "lv_USDT = ''Es9vMFrzaCERmJfrF4H2FYD4KCoNkY11McCe8BenwNYB''"
definition lv_CPMM :: string where "lv_CPMM = ''CPMMoo8L3F4NbTegBCKVNunggL7H1ZpdTHKxQB5qKP1C''"
definition LIVE_MAGIC :: int where "LIVE_MAGIC = 0x4530314C"
definition LIVE_VER :: int where "LIVE_VER = 1"
definition PROTO_DLMM :: int where "PROTO_DLMM = 1"
definition PROTO_PUMP :: int where "PROTO_PUMP = 2"
definition lv_K :: int where "lv_K = 16"

section \<open>Pump accounts\<close>

definition lv_accounts :: "string list \<Rightarrow> ix \<Rightarrow> string list res" where
  "lv_accounts keys i = (case ix_accounts_of i of AccNames ns \<Rightarrow> Inr ns | AccIndexes ns \<Rightarrow> rmap (key_at keys) ns)"

definition pump_ix_pools :: "tx \<Rightarrow> bool \<Rightarrow> string list res" where
  "pump_ix_pools t err =
    (if err then Inr []
     else let keys = tx_keys t
          in rbind (rmap (\<lambda>i. if swap_program keys i \<noteq> Some lv_PUMP then Inr []
                              else rbind (lv_accounts keys i) (\<lambda>accs. Inr (take 1 accs)))
                     (tx_instructions t @ concat (map snd (tx_inner t))))
               (\<lambda>xss. Inr (concat xss)))"

definition dlmm_from_tx :: "tx \<Rightarrow> bool \<Rightarrow> string list res" where
  "dlmm_from_tx t err = rbind (decode_swaps t err) (\<lambda>sw. Inr (map sw_pair sw))"

record pump_pool =
  pp_base :: bytes
  pp_quote :: bytes
  pp_vault_base :: bytes
  pp_vault_quote :: bytes
  pp_mayhem :: int
  pp_cashback :: int
  pp_virtual :: int
  pp_creator :: bytes
  pp_coin_creator :: bytes
  pp_creator_fee_bps :: int
  pp_holder :: int

definition byte_or0 :: "bytes \<Rightarrow> nat \<Rightarrow> int" where
  "byte_or0 data i = (if length data > i then int (unat (data ! i)) else 0)"

definition parse_pump_pool :: "bytes \<Rightarrow> pump_pool option" where
  "parse_pump_pool data =
    (if length data < 211 then None
     else let virtual = (if length data \<ge> 261 then sint_le (slice 245 261 data) else 0) in
       if length data \<ge> 261 \<and> (virtual > 2 ^ 63 - 1 \<or> virtual < - (2 ^ 63)) then None
       else Some
         \<lparr> pp_base = slice 43 75 data, pp_quote = slice 75 107 data,
           pp_vault_base = slice 139 171 data, pp_vault_quote = slice 171 203 data,
           pp_mayhem = byte_or0 data 243, pp_cashback = byte_or0 data 244, pp_virtual = virtual,
           pp_creator = (if length data \<ge> 43 then slice 11 43 data else []),
           pp_coin_creator = (if length data \<ge> 243 then slice 211 243 data else []),
           pp_creator_fee_bps = (if length data \<ge> 269 then uint_le (slice 261 269 data) else 0),
           pp_holder = byte_or0 data 270 \<rparr>)"

definition parse_mint_supply :: "bytes \<Rightarrow> int" where
  "parse_mint_supply data = (if data = [] \<or> length data < 44 then 0 else uint_le (slice 36 44 data))"

definition parse_global :: "bytes \<Rightarrow> int \<times> int \<times> int \<times> int" where
  "parse_global data =
    (if length data < 57 then (20, 5, 0, 0)
     else let lp = u_at 8 data 40; proto = u_at 8 data 48; disabled = int (unat (data ! 56));
              creator = (if length data \<ge> 57 + 32 * 8 + 8 then u_at 8 data (57 + 32 * 8) else 0)
          in if lp > 10000 \<or> proto > 10000 \<or> creator > 10000 then (20, 5, 0, disabled)
             else (lp, proto, creator, disabled))"

section \<open>Writers\<close>

fun rconcat :: "bytes res list \<Rightarrow> bytes res" where
  "rconcat [] = Inr []"
| "rconcat (w # ws) = rbind w (\<lambda>a. rbind (rconcat ws) (\<lambda>b. Inr (a @ b)))"

definition write_u8 :: "int \<Rightarrow> bytes res" where "write_u8 v = pack_u 1 v"
definition write_u16 :: "int \<Rightarrow> bytes res" where "write_u16 v = pack_u 2 v"
definition write_u32 :: "int \<Rightarrow> bytes res" where "write_u32 v = pack_u 4 v"
definition write_u64 :: "int \<Rightarrow> bytes res" where "write_u64 v = pack_u 8 v"
definition write_i32 :: "int \<Rightarrow> bytes res" where "write_i32 v = pack_i 4 v"
definition write_i64 :: "int \<Rightarrow> bytes res" where "write_i64 v = pack_i 8 v"

lemmas write_defs = write_u8_def write_u16_def write_u32_def write_u64_def write_i32_def write_i64_def

text \<open>What \<^verbatim>\<open>write_dlmm\<close> reads of a snapshot.\<close>

record dlmm_snap =
  ds_lb :: lbpair
  ds_bins :: "rbin list"
  ds_reserve_x :: int
  ds_reserve_y :: int

fun dedup_ids :: "int list \<Rightarrow> rbin list \<Rightarrow> rbin list" where
  "dedup_ids seen [] = []"
| "dedup_ids seen (b # bs) = (if rb_id b \<in> set seen then dedup_ids seen bs else b # dedup_ids (rb_id b # seen) bs)"

definition window_bins :: "dlmm_snap \<Rightarrow> rbin list" where
  "window_bins s = sort_key rb_id (dedup_ids [] (filter (near (lb_active_id (ds_lb s)) lv_K) (ds_bins s)))"

definition write_bin :: "rbin \<Rightarrow> bytes res" where
  "write_bin b = rconcat [write_i32 (rb_id b), write_u64 (rb_x b), write_u64 (rb_y b)]"

definition write_dlmm :: "int \<Rightarrow> dlmm_snap \<Rightarrow> bytes res" where
  "write_dlmm now s =
    (let lb = ds_lb s; bins = window_bins s
     in rconcat ([write_i32 (lb_active_id lb), write_u16 (lb_bin_step lb), write_u8 (lb_status lb),
          write_u16 (lb_base_factor lb), write_u16 (lb_filter_period lb), write_u16 (lb_decay_period lb),
          write_u16 (lb_reduction_factor lb), write_u32 (lb_variable_fee_control lb),
          write_u32 (lb_max_volatility_accumulator lb), write_u16 (lb_protocol_share lb),
          write_u8 (lb_base_fee_power_factor lb), write_u8 (lb_collect_fee_mode lb),
          write_u32 (lb_vol_acc lb), write_u32 (lb_vol_ref lb), write_i32 (lb_idx_ref lb), write_i64 (lb_last_upd lb),
          write_u64 (ds_reserve_x s), write_u64 (ds_reserve_y s), write_i64 now, write_u16 (int (length bins))]
        @ map write_bin bins))"

record amm2_state =
  am_reserve_x :: int
  am_reserve_y :: int
  am_fee_bps :: "int option"
  am_status :: "int option"

definition write_amm2 :: "amm2_state \<Rightarrow> bytes res" where
  "write_amm2 st = rconcat [write_u64 (am_reserve_x st), write_u64 (am_reserve_y st),
     write_u16 (case am_fee_bps st of None \<Rightarrow> 25 | Some f \<Rightarrow> if f = 0 then 25 else f),
     write_u8 (case am_status st of None \<Rightarrow> 0 | Some s \<Rightarrow> s)]"

record pump_state =
  ps_reserve_base :: int
  ps_reserve_quote :: int
  ps_virtual_quote :: int
  ps_lp_fee_bps :: int
  ps_protocol_fee_bps :: int
  ps_creator_fee_bps :: int
  ps_disabled :: int
  ps_status :: int

definition write_pump :: "pump_state \<Rightarrow> bytes res" where
  "write_pump st = rconcat [write_u64 (ps_reserve_base st), write_u64 (ps_reserve_quote st),
     write_i64 (ps_virtual_quote st), write_u64 (ps_lp_fee_bps st), write_u64 (ps_protocol_fee_bps st),
     write_u64 (ps_creator_fee_bps st), write_u8 (ps_disabled st), write_u8 (ps_status st)]"

record live_meta =
  lm_pubkey :: bytes
  lm_mint_x :: bytes
  lm_mint_y :: bytes
  lm_vault_x :: bytes
  lm_vault_y :: bytes
  lm_slot :: int
  lm_token :: string
  lm_sol_side :: bool

definition write_meta :: "int \<Rightarrow> live_meta \<Rightarrow> bytes res" where
  "write_meta proto m = rconcat [write_u8 proto, Inr (lm_pubkey m), Inr (lm_mint_x m), Inr (lm_mint_y m),
     Inr (lm_vault_x m), Inr (lm_vault_y m)]"

section \<open>Fetching one pool\<close>

definition is_sol :: "bytes \<Rightarrow> bool" where "is_sol m \<longleftrightarrow> record_pk m = lv_SOL"

definition nth_token :: "account option list \<Rightarrow> nat \<Rightarrow> int res" where
  "nth_token vs i = (if i < length vs then Inr (case vs ! i of None \<Rightarrow> 0 | Some a \<Rightarrow> token_amount (ac_data a)) else Inl IndexError)"

definition fetch_pump ::
  "(nat \<Rightarrow> string list \<Rightarrow> account option list) \<Rightarrow> string \<Rightarrow> int \<times> int \<times> int \<times> int \<Rightarrow> (live_meta \<times> pump_state) option res" where
  "fetch_pump fetch pk fees =
    (case fetch 0 [pk] of
       Some a # _ \<Rightarrow>
         if ac_owner a \<noteq> lv_PUMP then Inr None
         else (case parse_pump_pool (ac_data a) of
            None \<Rightarrow> Inr None
          | Some p \<Rightarrow>
              let vaults = fetch 1 [record_pk (pp_vault_base p), record_pk (pp_vault_quote p)]
              in rbind (nth_token vaults 0) (\<lambda>rb. rbind (nth_token vaults 1) (\<lambda>rq.
                   if rb = 0 \<or> rq = 0 then Inr None
                   else rbind (b58decode pk) (\<lambda>raw.
                     let (lp, proto, creator, disabled) = fees
                     in Inr (Some (\<lparr> lm_pubkey = raw, lm_mint_x = pp_base p, lm_mint_y = pp_quote p,
                          lm_vault_x = pp_vault_base p, lm_vault_y = pp_vault_quote p, lm_slot = ac_slot a,
                          lm_token = (if is_sol (pp_quote p) then record_pk (pp_base p) else record_pk (pp_quote p)),
                          lm_sol_side = (is_sol (pp_quote p) \<or> is_sol (pp_base p)) \<rparr>,
                        \<lparr> ps_reserve_base = rb, ps_reserve_quote = rq, ps_virtual_quote = pp_virtual p,
                          ps_lp_fee_bps = lp, ps_protocol_fee_bps = proto, ps_creator_fee_bps = creator,
                          ps_disabled = disabled,
                          ps_status = (if pp_mayhem p \<noteq> 0 \<or> pp_cashback p \<noteq> 0 then 1 else 0) \<rparr>))))))
     | _ \<Rightarrow> Inr None)"

definition vault_or0 :: "account option list \<Rightarrow> nat \<Rightarrow> int res" where
  "vault_or0 vs i = (if vs = [] then Inr 0
     else if i < length vs
     then Inr (case vs ! i of None \<Rightarrow> 0 | Some a \<Rightarrow> if ac_data a = [] then 0 else token_amount (ac_data a))
     else Inl IndexError)"

definition fetch_cpmm :: "(nat \<Rightarrow> string list \<Rightarrow> account option list) \<Rightarrow> string \<Rightarrow> (live_meta \<times> amm2_state) option res" where
  "fetch_cpmm fetch pk =
    (case fetch 0 [pk] of
       Some a # _ \<Rightarrow>
         if ac_owner a \<noteq> lv_CPMM \<or> ac_data a = [] \<or> length (ac_data a) < 300 then Inr None
         else let data = ac_data a; mx = slice 72 104 data; my = slice 104 136 data;
                  vx = slice 168 200 data; vy = slice 200 232 data;
                  vs = fetch 1 [record_pk vx, record_pk vy]
              in rbind (vault_or0 vs 0) (\<lambda>rx. rbind (vault_or0 vs 1) (\<lambda>ry.
                   if rx = 0 \<or> ry = 0 then Inr None
                   else rbind (b58decode pk) (\<lambda>raw.
                     Inr (Some (\<lparr> lm_pubkey = raw, lm_mint_x = mx, lm_mint_y = my, lm_vault_x = vx, lm_vault_y = vy,
                        lm_slot = ac_slot a,
                        lm_token = (if record_pk my \<in> {lv_SOL, lv_USDC, lv_USDT} then record_pk mx else record_pk my),
                        lm_sol_side = (is_sol mx \<or> is_sol my) \<rparr>,
                      \<lparr> am_reserve_x = rx, am_reserve_y = ry, am_fee_bps = Some 25, am_status = Some 0 \<rparr>)))))
     | _ \<Rightarrow> Inr None)"

definition snap_of :: "snap \<Rightarrow> dlmm_snap" where
  "snap_of s = \<lparr> ds_lb = sn_lb s, ds_bins = sn_bins s, ds_reserve_x = sn_reserve_x s, ds_reserve_y = sn_reserve_y s \<rparr>"

definition fetch_dlmm ::
  "(bytes \<Rightarrow> bytes) \<Rightarrow> (nat \<Rightarrow> string list \<Rightarrow> account option list) \<Rightarrow> string \<Rightarrow> (live_meta \<times> dlmm_snap) option res" where
  "fetch_dlmm sha fetch pk =
    rbind (snapshot_pool sha fetch pk None) (\<lambda>sn.
      case sn of None \<Rightarrow> Inr None
      | Some s \<Rightarrow>
          let lb = sn_lb s in
          if filter (near (lb_active_id lb) lv_K) (sn_bins s) = [] then Inr None
          else rbind (b58decode pk) (\<lambda>raw.
            Inr (Some (\<lparr> lm_pubkey = raw, lm_mint_x = lb_token_x lb, lm_mint_y = lb_token_y lb,
               lm_vault_x = lb_vault_x lb, lm_vault_y = lb_vault_y lb, lm_slot = sn_slot s,
               lm_token = (if is_sol (lb_token_y lb) then record_pk (lb_token_x lb) else record_pk (lb_token_y lb)),
               lm_sol_side = (is_sol (lb_token_x lb) \<or> is_sol (lb_token_y lb)) \<rparr>, snap_of s))))"

section \<open>The order of the pools\<close>

text \<open>A row is named by its index; \<^verbatim>\<open>both\<close> is a set, its iteration order the list \<open>toks\<close>.\<close>

datatype pool_ref = DlmmRow nat | PumpRow nat

definition pick :: "live_meta list \<Rightarrow> string \<Rightarrow> nat list \<Rightarrow> nat option" where
  "pick rows tok used = find (\<lambda>i. lm_sol_side (rows ! i) \<and> lm_token (rows ! i) = tok \<and> i \<notin> set used) [0..<length rows]"

fun prefer_overlap :: "live_meta list \<Rightarrow> live_meta list \<Rightarrow> string list \<Rightarrow> nat list \<Rightarrow> nat list \<Rightarrow> pool_ref list \<times> nat list \<times> nat list" where
  "prefer_overlap ds ps [] ud up = ([], ud, up)"
| "prefer_overlap ds ps (tok # toks) ud up =
     (let (o1, ud1) = (case pick ds tok ud of None \<Rightarrow> ([], ud) | Some i \<Rightarrow> ([DlmmRow i], i # ud));
          (o2, up1) = (case pick ps tok up of None \<Rightarrow> ([], up) | Some i \<Rightarrow> ([PumpRow i], i # up));
          (os, ud2, up2) = prefer_overlap ds ps toks ud1 up1
      in (o1 @ o2 @ os, ud2, up2))"

definition order_rows :: "live_meta list \<Rightarrow> live_meta list \<Rightarrow> string list \<Rightarrow> pool_ref list" where
  "order_rows ds ps toks =
    (let (os, ud, up) = prefer_overlap ds ps toks [] []
     in os @ map DlmmRow (filter (\<lambda>i. i \<notin> set ud) [0..<length ds]) @ map PumpRow (filter (\<lambda>i. i \<notin> set up) [0..<length ps]))"

section \<open>The universe file\<close>

datatype live_row = RowDlmm live_meta dlmm_snap | RowPump live_meta pump_state

definition row_meta :: "live_row \<Rightarrow> live_meta" where
  "row_meta r = (case r of RowDlmm m s \<Rightarrow> m | RowPump m p \<Rightarrow> m)"

definition write_row :: "int \<Rightarrow> live_row \<Rightarrow> bytes res" where
  "write_row now r = (case r of
       RowDlmm m s \<Rightarrow> rconcat [write_meta PROTO_DLMM m, write_dlmm now s]
     | RowPump m p \<Rightarrow> rconcat [write_meta PROTO_PUMP m, write_pump p])"

definition max_slot :: "live_row list \<Rightarrow> int" where
  "max_slot rows = foldr (\<lambda>r s. max (lm_slot (row_meta r)) s) (tl rows) (case rows of [] \<Rightarrow> 0 | r # _ \<Rightarrow> lm_slot (row_meta r))"

definition write_universe :: "int \<Rightarrow> live_row list \<Rightarrow> bytes res" where
  "write_universe now rows =
    (if length rows > 65535 then Inl (SystemExit ''exceeds uint16 live.bin hard max'')
     else let slot = max_slot rows
          in rconcat ([write_u32 LIVE_MAGIC, write_u16 LIVE_VER, write_u16 (int (length rows)), write_u64 slot,
               write_u64 (if slot \<noteq> 0 then slot else 1)] @ map (write_row now) rows))"

section \<open>Reading the universe back\<close>

text \<open>\<^verbatim>\<open>arb-cap/state005/route0_cov.py\<close>, \<^verbatim>\<open>load_bin\<close>: one record per pool.\<close>

record live_rec =
  lr_proto :: string
  lr_pk :: string
  lr_mx :: bytes
  lr_my :: bytes

fun load_recs :: "nat \<Rightarrow> bytes \<Rightarrow> nat \<Rightarrow> live_rec list res" where
  "load_recs 0 b off = Inr []"
| "load_recs (Suc n) b off =
     rbind (byte_at b off) (\<lambda>proto.
     let pk = record_pk (slice (off + 1) (off + 33) b);
         mx = slice (off + 33) (off + 65) b;
         my = slice (off + 65) (off + 97) b;
         next = (if proto = PROTO_DLMM
                 then rbind (unpack_u 2 b (off + 161 + 71)) (\<lambda>nbin. Inr (off + 161 + 73 + nat nbin * 20))
                 else if proto = PROTO_PUMP then Inr (off + 161 + 50)
                 else Inl (SystemExit ''proto''))
     in rbind next (\<lambda>off'. rbind (load_recs n b off') (\<lambda>recs.
          Inr (\<lparr> lr_proto = (if proto = PROTO_DLMM then ''dlmm'' else ''pump''), lr_pk = pk, lr_mx = mx, lr_my = my \<rparr> # recs))))"

definition load_bin :: "bytes \<Rightarrow> live_rec list res" where
  "load_bin b =
    rbind (unpack_u 4 b 0) (\<lambda>magic. rbind (unpack_u 2 b 4) (\<lambda>ver. rbind (unpack_u 2 b 6) (\<lambda>n.
      if magic \<noteq> LIVE_MAGIC \<or> n = 0 then Inl (SystemExit ''bad liveuniv'')
      else load_recs (nat n) b 24)))"

section \<open>Concatenated fields\<close>

lemma rconcat_Nil_Inr [simp]: "rconcat [] = Inr bs \<longleftrightarrow> bs = []"
  by auto

lemma rconcat_Cons_Inr: "rconcat (w # ws) = Inr bs \<longleftrightarrow> (\<exists>a b. w = Inr a \<and> rconcat ws = Inr b \<and> bs = a @ b)"
  by (auto simp: rbind_Inr_iff)

lemma rconcat_append: "rconcat (ws @ vs) = rbind (rconcat ws) (\<lambda>a. rbind (rconcat vs) (\<lambda>b. Inr (a @ b)))"
proof (induction ws)
  case Nil
  show ?case by (cases "rconcat vs") simp_all
next
  case (Cons w ws)
  then show ?case by (cases w; cases "rconcat ws"; cases "rconcat vs") simp_all
qed

text \<open>A sequence of fixed-width fields, and what reading each of them at its offset gives.\<close>

datatype fld = FU nat int | FI nat int

definition enc_fld :: "fld \<Rightarrow> bytes res" where
  "enc_fld f = (case f of FU k v \<Rightarrow> pack_u k v | FI k v \<Rightarrow> pack_i k v)"

fun reads :: "fld list \<Rightarrow> bytes \<Rightarrow> nat \<Rightarrow> bool" where
  "reads [] bs off = True"
| "reads (FU k v # fs) bs off = (u_at k bs off = v \<and> reads fs bs (off + k))"
| "reads (FI k v # fs) bs off = (i_at k bs off = v \<and> reads fs bs (off + k))"

fun flds_width :: "fld list \<Rightarrow> nat" where
  "flds_width [] = 0"
| "flds_width (FU k v # fs) = k + flds_width fs"
| "flds_width (FI k v # fs) = k + flds_width fs"

lemma u_at_in: "pack_u k v = Inr a \<Longrightarrow> u_at k (pre @ a @ r) (length pre) = v"
  using pack_u_length [of k v a] uint_le_pack_u [of k v a] by (simp add: u_at_def slice_def)

lemma i_at_in: "pack_i k v = Inr a \<Longrightarrow> 0 < k \<Longrightarrow> i_at k (pre @ a @ r) (length pre) = v"
  using pack_i_length [of k v a] sint_le_pack_i [of k v a] by (simp add: i_at_def slice_def)

lemma rconcat_reads:
  assumes "rconcat (map enc_fld fs) = Inr bs" and "\<forall>k v. FI k v \<in> set fs \<longrightarrow> 0 < k"
  shows "reads fs (pre @ bs @ r) (length pre) \<and> length bs = flds_width fs"
  using assms
proof (induction fs arbitrary: pre bs)
  case (Cons f fs)
  then obtain a b where a: "enc_fld f = Inr a" and b: "rconcat (map enc_fld fs) = Inr b" and bs: "bs = a @ b"
    by (auto simp: rconcat_Cons_Inr simp del: rconcat.simps)
  have ih: "reads fs ((pre @ a) @ b @ r) (length (pre @ a)) \<and> length b = flds_width fs"
    by (rule Cons.IH [OF b]) (use Cons.prems(2) in auto)
  show ?case
  proof (cases f)
    case (FU k v)
    then have "pack_u k v = Inr a" using a by (simp add: enc_fld_def)
    then show ?thesis using ih u_at_in [of k v a pre "b @ r"] pack_u_length [of k v a] by (simp add: bs FU)
  next
    case (FI k v)
    then have "pack_i k v = Inr a" "0 < k" using a Cons.prems(2) by (simp_all add: enc_fld_def)
    then show ?thesis using ih i_at_in [of k v a pre "b @ r"] pack_i_length [of k v a] by (simp add: bs FI)
  qed
qed simp

definition bin_bytes_ok :: "rbin \<Rightarrow> bytes \<Rightarrow> bool" where
  "bin_bytes_ok b bs \<longleftrightarrow> length bs = 20 \<and> i_at 4 bs 0 = rb_id b \<and> u_at 8 bs 4 = rb_x b \<and> u_at 8 bs 12 = rb_y b"

lemma write_bin_flds: "write_bin b = rconcat (map enc_fld [FI 4 (rb_id b), FU 8 (rb_x b), FU 8 (rb_y b)])"
  by (simp add: write_bin_def write_defs enc_fld_def)

lemma write_bin_ok: "write_bin b = Inr bs \<Longrightarrow> bin_bytes_ok b bs"
  using rconcat_reads [of "[FI 4 (rb_id b), FU 8 (rb_x b), FU 8 (rb_y b)]" bs "[]" "[]"]
  by (simp add: write_bin_flds bin_bytes_ok_def del: rconcat.simps list.map)

lemma write_bins_ok:
  assumes "rconcat (map write_bin bs) = Inr body"
  shows "\<exists>xs. body = concat xs \<and> list_all2 bin_bytes_ok bs xs \<and> length body = 20 * length bs"
  using assms
proof (induction bs arbitrary: body)
  case (Cons b bs)
  then obtain x rest where "write_bin b = Inr x" "rconcat (map write_bin bs) = Inr rest" "body = x @ rest"
    by (auto simp: rconcat_Cons_Inr simp del: rconcat.simps)
  moreover from this Cons.IH obtain xs where "rest = concat xs" "list_all2 bin_bytes_ok bs xs" "length rest = 20 * length bs"
    by blast
  ultimately show ?case using write_bin_ok [of b x]
    by (intro exI [of _ "x # xs"]) (auto simp: bin_bytes_ok_def [of b x])
qed auto

section \<open>The window of bins\<close>

lemma dedup_ids_sub: "set (dedup_ids seen bs) \<subseteq> set bs"
  by (induction bs arbitrary: seen) auto

lemma dedup_ids_distinct: "distinct (map rb_id (dedup_ids seen bs)) \<and> rb_id ` set (dedup_ids seen bs) \<inter> set seen = {}"
proof (induction bs arbitrary: seen)
  case (Cons b bs)
  show ?case
  proof (cases "rb_id b \<in> set seen")
    case False
    then show ?thesis using Cons [of "rb_id b # seen"] by auto
  qed (use Cons in simp)
qed simp

lemma dedup_ids_ids: "rb_id ` set (dedup_ids seen bs) = rb_id ` set bs - set seen"
  by (induction bs arbitrary: seen) auto

lemma window_bins_props:
  "sorted (map rb_id (window_bins s))" "distinct (map rb_id (window_bins s))"
  "\<And>b. b \<in> set (window_bins s) \<Longrightarrow> b \<in> set (ds_bins s) \<and> \<bar>rb_id b - lb_active_id (ds_lb s)\<bar> \<le> 16"
proof -
  let ?w = "dedup_ids [] (filter (near (lb_active_id (ds_lb s)) lv_K) (ds_bins s))"
  show "sorted (map rb_id (window_bins s))" by (simp add: window_bins_def)
  have "mset (map rb_id (window_bins s)) = mset (map rb_id ?w)" by (simp add: window_bins_def)
  then show "distinct (map rb_id (window_bins s))"
    using dedup_ids_distinct [of "[]" "filter (near (lb_active_id (ds_lb s)) lv_K) (ds_bins s)"]
    by (metis mset_eq_imp_distinct_iff)
  show "b \<in> set (ds_bins s) \<and> \<bar>rb_id b - lb_active_id (ds_lb s)\<bar> \<le> 16" if "b \<in> set (window_bins s)" for b
    using that dedup_ids_sub [of "[]" "filter (near (lb_active_id (ds_lb s)) lv_K) (ds_bins s)"]
    by (auto simp: window_bins_def near_def lv_K_def)
qed

lemma window_bins_length: "length (window_bins s) \<le> 33"
proof -
  let ?a = "lb_active_id (ds_lb s)"
  have "set (map rb_id (window_bins s)) \<subseteq> {?a - 16..?a + 16}"
    using window_bins_props(3) [of _ s] by fastforce
  then have "card (set (map rb_id (window_bins s))) \<le> card {?a - 16..?a + 16}" by (intro card_mono) auto
  moreover have "card (set (map rb_id (window_bins s))) = length (window_bins s)"
    using distinct_card [OF window_bins_props(2) [of s]] by simp
  ultimately show ?thesis by simp
qed

section \<open>The order of the pools is a permutation\<close>

lemma pick_Some: "pick rows tok used = Some i \<Longrightarrow> i < length rows \<and> i \<notin> set used \<and> lm_sol_side (rows ! i) \<and> lm_token (rows ! i) = tok"
  by (auto simp: pick_def find_Some_iff)

lemma prefer_overlap_props:
  assumes "prefer_overlap ds ps toks ud up = (os, ud', up')"
  shows "distinct os \<and> set os = DlmmRow ` (set ud' - set ud) \<union> PumpRow ` (set up' - set up)
    \<and> set ud \<subseteq> set ud' \<and> set ud' \<subseteq> set ud \<union> {..<length ds} \<and> set up \<subseteq> set up' \<and> set up' \<subseteq> set up \<union> {..<length ps}"
  using assms
proof (induction toks arbitrary: ud up os ud' up')
  case (Cons tok toks)
  define d where "d = pick ds tok ud"
  define p where "p = pick ps tok up"
  obtain os1 where r: "prefer_overlap ds ps toks (opt_list d @ ud) (opt_list p @ up) = (os1, ud', up')"
    and os: "os = map DlmmRow (opt_list d) @ map PumpRow (opt_list p) @ os1"
    using Cons.prems by (cases d; cases p) (auto simp: d_def p_def opt_list_def split: prod.split_asm)
  from Cons.IH [OF r] have ih: "distinct os1"
    "set os1 = DlmmRow ` (set ud' - set (opt_list d @ ud)) \<union> PumpRow ` (set up' - set (opt_list p @ up))"
    "set (opt_list d @ ud) \<subseteq> set ud'" "set ud' \<subseteq> set (opt_list d @ ud) \<union> {..<length ds}"
    "set (opt_list p @ up) \<subseteq> set up'" "set up' \<subseteq> set (opt_list p @ up) \<union> {..<length ps}" by blast+
  have "\<And>i. d = Some i \<Longrightarrow> i < length ds \<and> i \<notin> set ud" "\<And>i. p = Some i \<Longrightarrow> i < length ps \<and> i \<notin> set up"
    unfolding d_def p_def using pick_Some by blast+
  with ih show ?case unfolding os by (cases d; cases p) (auto simp: opt_list_def)
qed simp

section \<open>The layout of a pool state\<close>

definition dlmm_flds :: "int \<Rightarrow> dlmm_snap \<Rightarrow> fld list" where
  "dlmm_flds now s =
    (let lb = ds_lb s
     in [FI 4 (lb_active_id lb), FU 2 (lb_bin_step lb), FU 1 (lb_status lb), FU 2 (lb_base_factor lb),
         FU 2 (lb_filter_period lb), FU 2 (lb_decay_period lb), FU 2 (lb_reduction_factor lb),
         FU 4 (lb_variable_fee_control lb), FU 4 (lb_max_volatility_accumulator lb), FU 2 (lb_protocol_share lb),
         FU 1 (lb_base_fee_power_factor lb), FU 1 (lb_collect_fee_mode lb), FU 4 (lb_vol_acc lb),
         FU 4 (lb_vol_ref lb), FI 4 (lb_idx_ref lb), FI 8 (lb_last_upd lb), FU 8 (ds_reserve_x s),
         FU 8 (ds_reserve_y s), FI 8 now, FU 2 (int (length (window_bins s)))])"

lemma write_dlmm_layout:
  assumes "write_dlmm now s = Inr bs"
  obtains h xs where "bs = h @ concat xs" "length h = 73" "\<And>r. reads (dlmm_flds now s) (h @ r) 0"
    "list_all2 bin_bytes_ok (window_bins s) xs" "length (concat xs) = 20 * length (window_bins s)"
proof -
  have "write_dlmm now s = rconcat (map enc_fld (dlmm_flds now s) @ map write_bin (window_bins s))"
    by (simp add: write_dlmm_def dlmm_flds_def write_defs enc_fld_def Let_def)
  then have "rbind (rconcat (map enc_fld (dlmm_flds now s)))
      (\<lambda>a. rbind (rconcat (map write_bin (window_bins s))) (\<lambda>b. Inr (a @ b))) = Inr bs"
    using assms by (simp add: rconcat_append)
  then obtain h body where h: "rconcat (map enc_fld (dlmm_flds now s)) = Inr h"
    and body: "rconcat (map write_bin (window_bins s)) = Inr body" and bs: "bs = h @ body"
    by (auto simp: rbind_Inr_iff)
  have pos: "\<forall>k v. FI k v \<in> set (dlmm_flds now s) \<longrightarrow> 0 < k" by (simp add: dlmm_flds_def Let_def)
  have "reads (dlmm_flds now s) (h @ r) 0" for r using rconcat_reads [OF h pos, of "[]" r] by simp
  moreover have "length h = 73"
    using rconcat_reads [OF h pos, of "[]" "[]"] by (simp add: dlmm_flds_def Let_def)
  ultimately show thesis using write_bins_ok [OF body] bs that by blast
qed

lemma write_dlmm_length:
  assumes "write_dlmm now s = Inr bs"
  shows "length bs = 73 + 20 * length (window_bins s)" "length bs \<le> 733" "u_at 2 bs 71 = int (length (window_bins s))"
proof -
  obtain h xs where h: "bs = h @ concat xs" "length h = 73" "\<And>r. reads (dlmm_flds now s) (h @ r) 0"
    "length (concat xs) = 20 * length (window_bins s)"
    using write_dlmm_layout [OF assms] by metis
  show "length bs = 73 + 20 * length (window_bins s)" using h by simp
  then show "length bs \<le> 733" using window_bins_length [of s] by simp
  show "u_at 2 bs 71 = int (length (window_bins s))"
    using h(3) [of "concat xs"] by (simp add: h(1) dlmm_flds_def Let_def)
qed

definition pump_flds :: "pump_state \<Rightarrow> fld list" where
  "pump_flds st = [FU 8 (ps_reserve_base st), FU 8 (ps_reserve_quote st), FI 8 (ps_virtual_quote st),
     FU 8 (ps_lp_fee_bps st), FU 8 (ps_protocol_fee_bps st), FU 8 (ps_creator_fee_bps st),
     FU 1 (ps_disabled st), FU 1 (ps_status st)]"

lemma write_pump_layout:
  assumes "write_pump st = Inr bs"
  shows "length bs = 50" "reads (pump_flds st) (bs @ r) 0"
proof -
  have "rconcat (map enc_fld (pump_flds st)) = Inr bs"
    using assms by (simp add: write_pump_def pump_flds_def write_defs enc_fld_def)
  from rconcat_reads [OF this, of "[]"] show "length bs = 50" "reads (pump_flds st) (bs @ r) 0"
    by (simp_all add: pump_flds_def)
qed

section \<open>The universe file round trip\<close>

definition keys32 :: "live_meta \<Rightarrow> bool" where
  "keys32 m \<longleftrightarrow> length (lm_pubkey m) = 32 \<and> length (lm_mint_x m) = 32 \<and> length (lm_mint_y m) = 32
     \<and> length (lm_vault_x m) = 32 \<and> length (lm_vault_y m) = 32"

definition rec_of_row :: "live_row \<Rightarrow> live_rec" where
  "rec_of_row r = \<lparr> lr_proto = (case r of RowDlmm m s \<Rightarrow> ''dlmm'' | RowPump m p \<Rightarrow> ''pump''),
     lr_pk = record_pk (lm_pubkey (row_meta r)), lr_mx = lm_mint_x (row_meta r), lr_my = lm_mint_y (row_meta r) \<rparr>"

definition proto_of_row :: "live_row \<Rightarrow> byte" where
  "proto_of_row r = (case r of RowDlmm m s \<Rightarrow> 1 | RowPump m p \<Rightarrow> 2)"

text \<open>The bytes of one row: protocol, five keys, and a state of the size the reader will skip.\<close>

lemma write_row_layout:
  assumes "write_row now r = Inr bs"
  obtains blob where
    "bs = proto_of_row r # lm_pubkey (row_meta r) @ lm_mint_x (row_meta r) @ lm_mint_y (row_meta r)
        @ lm_vault_x (row_meta r) @ lm_vault_y (row_meta r) @ blob"
    "case r of RowDlmm m s \<Rightarrow> length blob = 73 + 20 * nat (u_at 2 blob 71) | RowPump m p \<Rightarrow> length blob = 50"
proof (cases r)
  case (RowDlmm m s)
  then obtain h blob where "write_meta PROTO_DLMM m = Inr h" and b: "write_dlmm now s = Inr blob" and "bs = h @ blob"
    using assms by (auto simp: write_row_def rconcat_Cons_Inr simp del: rconcat.simps)
  moreover have "h = 1 # lm_pubkey m @ lm_mint_x m @ lm_mint_y m @ lm_vault_x m @ lm_vault_y m"
    using calculation(1) by (auto simp: write_meta_def write_u8_def PROTO_DLMM_def pack_u_def rbind_Inr_iff)
  ultimately show ?thesis using write_dlmm_length [OF b] RowDlmm that [of blob]
    by (simp add: row_meta_def proto_of_row_def)
next
  case (RowPump m p)
  then obtain h blob where "write_meta PROTO_PUMP m = Inr h" and b: "write_pump p = Inr blob" and "bs = h @ blob"
    using assms by (auto simp: write_row_def rconcat_Cons_Inr simp del: rconcat.simps)
  moreover have "h = 2 # lm_pubkey m @ lm_mint_x m @ lm_mint_y m @ lm_vault_x m @ lm_vault_y m"
    using calculation(1) by (auto simp: write_meta_def write_u8_def PROTO_PUMP_def pack_u_def rbind_Inr_iff)
  ultimately show ?thesis using write_pump_layout(1) [OF b] RowPump that [of blob]
    by (simp add: row_meta_def proto_of_row_def)
qed

lemma load_recs_step:
  assumes w: "write_row now r = Inr bs" and k: "keys32 (row_meta r)"
  shows "load_recs (Suc n) (pre @ bs @ rest) (length pre)
    = rbind (load_recs n (pre @ bs @ rest) (length (pre @ bs))) (\<lambda>recs. Inr (rec_of_row r # recs))"
proof -
  define b where "b = pre @ bs @ rest"
  obtain blob where bs: "bs = proto_of_row r # lm_pubkey (row_meta r) @ lm_mint_x (row_meta r) @ lm_mint_y (row_meta r)
        @ lm_vault_x (row_meta r) @ lm_vault_y (row_meta r) @ blob"
    and sz: "case r of RowDlmm m s \<Rightarrow> length blob = 73 + 20 * nat (u_at 2 blob 71) | RowPump m p \<Rightarrow> length blob = 50"
    by (rule write_row_layout [OF w])
  note len = k [unfolded keys32_def]
  have sl: "byte_at b (length pre) = Inr (int (unat (proto_of_row r)))"
    "slice (length pre + 1) (length pre + 33) b = lm_pubkey (row_meta r)"
    "slice (length pre + 33) (length pre + 65) b = lm_mint_x (row_meta r)"
    "slice (length pre + 65) (length pre + 97) b = lm_mint_y (row_meta r)"
    using len by (simp_all add: b_def bs byte_at_def slice_def nth_append)
  have lb: "length bs = 161 + length blob" using len by (simp add: bs)
  have nb: "unpack_u 2 b (length pre + 161 + 71) = Inr (u_at 2 blob 71)" if "73 \<le> length blob"
    using that len lb by (simp add: b_def unpack_checked) (simp add: bs u_at_def slice_def)
  show ?thesis
    using sl lb sz nb unfolding b_def [symmetric]
    by (cases r) (simp_all add: proto_of_row_def rec_of_row_def PROTO_DLMM_def PROTO_PUMP_def add.assoc Let_def mult.commute [of _ "20 :: nat"])
qed

lemma load_recs_rows:
  assumes "rconcat (map (write_row now) rows) = Inr body" and "list_all (\<lambda>r. keys32 (row_meta r)) rows"
  shows "load_recs (length rows) (pre @ body) (length pre) = Inr (map rec_of_row rows)"
  using assms
proof (induction rows arbitrary: pre body)
  case (Cons r rows)
  then obtain x rest where x: "write_row now r = Inr x" and rest: "rconcat (map (write_row now) rows) = Inr rest"
    and body: "body = x @ rest"
    by (auto simp: rconcat_Cons_Inr simp del: rconcat.simps)
  have "load_recs (length rows) ((pre @ x) @ rest) (length (pre @ x)) = Inr (map rec_of_row rows)"
    using Cons.IH [OF rest, of "pre @ x"] Cons.prems(2) by simp
  then show ?case using load_recs_step [OF x, of "length rows" pre rest] Cons.prems(2) by (simp add: body)
qed simp

section \<open>Properties\<close>

text \<open>
  C32: the universe file can be read back. Whatever non-empty list of pools is written, provided
  their keys have 32 bytes, loading the file gives one record per pool, in the order written,
  with its protocol, address and mints; variable-length pool states are skipped exactly.
\<close>
theorem universe_roundtrip:
  assumes "write_universe now rows = Inr bs" and "rows \<noteq> []" and "list_all (\<lambda>r. keys32 (row_meta r)) rows"
  shows "load_bin bs = Inr (map rec_of_row rows)"
proof -
  let ?slot = "max_slot rows"
  let ?fs = "[FU 4 LIVE_MAGIC, FU 2 LIVE_VER, FU 2 (int (length rows)), FU 8 ?slot, FU 8 (if ?slot \<noteq> 0 then ?slot else 1)]"
  have "write_universe now rows = rconcat (map enc_fld ?fs @ map (write_row now) rows)"
    using assms(1) by (simp add: write_universe_def write_defs enc_fld_def Let_def split: if_split_asm)
  then have "rbind (rconcat (map enc_fld ?fs)) (\<lambda>a. rbind (rconcat (map (write_row now) rows)) (\<lambda>b. Inr (a @ b))) = Inr bs"
    using assms(1) rconcat_append [of "map enc_fld ?fs" "map (write_row now) rows"] by metis
  then obtain h body where h: "rconcat (map enc_fld ?fs) = Inr h" and body: "rconcat (map (write_row now) rows) = Inr body"
    and bs: "bs = h @ body" by (auto simp: rbind_Inr_iff simp del: rconcat.simps list.map)
  have r: "reads ?fs ([] @ h @ body) (length ([] :: bytes)) \<and> length h = flds_width ?fs"
    by (rule rconcat_reads [OF h]) simp
  then have len: "length h = 24" by simp
  moreover have "u_at 4 bs 0 = LIVE_MAGIC" "u_at 2 bs 6 = int (length rows)" using r by (simp_all add: bs)
  ultimately show ?thesis
    using load_recs_rows [OF body assms(3), of h] assms(2)
    by (simp add: load_bin_def unpack_checked bs)
qed

definition sample_row_meta :: live_meta where
  "sample_row_meta = \<lparr> lm_pubkey = zeros 32, lm_mint_x = zeros 32, lm_mint_y = zeros 32, lm_vault_x = zeros 32,
     lm_vault_y = zeros 32, lm_slot = 5, lm_token = [], lm_sol_side = False \<rparr>"

definition sample_pump_state :: pump_state where
  "sample_pump_state = \<lparr> ps_reserve_base = 1, ps_reserve_quote = 2, ps_virtual_quote = -3, ps_lp_fee_bps = 20,
     ps_protocol_fee_bps = 5, ps_creator_fee_bps = 5, ps_disabled = 0, ps_status = 0 \<rparr>"

lemma sample_universe: "\<exists>bs. write_universe 9 [RowPump sample_row_meta sample_pump_state] = Inr bs"
  by (simp add: write_universe_def write_row_def write_meta_def write_pump_def write_defs pack_u_def pack_i_def
      max_slot_def row_meta_def sample_row_meta_def sample_pump_state_def LIVE_MAGIC_def LIVE_VER_def PROTO_PUMP_def Let_def)

theorem universe_roundtrip_witness:
  "\<exists>bs. write_universe 9 [RowPump sample_row_meta sample_pump_state] = Inr bs
     \<and> load_bin bs = Inr [rec_of_row (RowPump sample_row_meta sample_pump_state)]"
proof -
  obtain bs where w: "write_universe 9 [RowPump sample_row_meta sample_pump_state] = Inr bs" using sample_universe by blast
  have "list_all (\<lambda>r. keys32 (row_meta r)) [RowPump sample_row_meta sample_pump_state]"
    by (simp add: keys32_def row_meta_def sample_row_meta_def)
  from universe_roundtrip [OF w _ this] w show ?thesis by (intro exI conjI) simp_all
qed

text \<open>
  The order of the universe is a permutation: whatever tokens both protocols share, every
  fetched DLMM row and every fetched Pump row is written exactly once.
\<close>
lemma order_rows_permutation:
  "distinct (order_rows ds ps toks)
   \<and> set (order_rows ds ps toks) = DlmmRow ` {..<length ds} \<union> PumpRow ` {..<length ps}"
proof -
  obtain os ud up where p: "prefer_overlap ds ps toks [] [] = (os, ud, up)" by (cases "prefer_overlap ds ps toks [] []")
  from prefer_overlap_props [OF p] show ?thesis
    by (auto simp: order_rows_def p distinct_map inj_on_def)
qed

end
