(* ===== verification/Auth_Reader.thy ===== *)
theory Auth_Reader
  imports Auth_Ring Live_Univ
begin

text \<open>
  \<^verbatim>\<open>arb-cap/timer_decay/auth_ro.py\<close>: the read side of the state ring, and the parsers that turn
  a published blob into the state the quoting kernel works on. The mapped file is the
  \<open>auth_map\<close> of \<open>Auth_Ring\<close>; the reader's constants are the writer's.
\<close>

unbundle bit_operations_syntax

section \<open>Reading the newest entry\<close>

definition ro_n_pools :: "auth_map \<Rightarrow> nat res" where
  "ro_n_pools mm =
    (if am_magic mm \<noteq> MAGIC \<or> am_layout_ver mm \<noteq> VER \<or> am_ring mm \<noteq> RING
     then Inl (RuntimeError ''authpub header mismatch'') else Inr (am_n_pools mm))"

record ro_entry =
  ro_idx :: int
  ro_generation :: nat
  ro_slot :: int
  ro_txn_index :: int
  ro_flags :: int
  ro_proto :: int
  ro_sig :: bytes
  ro_blob :: bytes

definition latest :: "auth_map \<Rightarrow> int \<Rightarrow> ro_entry option" where
  "latest mm idx =
    (if idx < 0 \<or> idx \<ge> int POOL_CAP then None
     else let p = am_pools mm ! nat idx in
       if odd (ap_seq p) then None
       else if ap_head p = 0 then None
       else let e = ap_ring p ! ((ap_head p - 1) mod RING) in
         if ae_coherent e = 0 \<or> ae_flags e AND COHERENT = 0 \<or> ae_flags e AND (INCOMPLETE OR GAPPED) \<noteq> 0 then None
         else Some \<lparr> ro_idx = idx, ro_generation = ae_generation e, ro_slot = ae_slot e, ro_txn_index = ae_txn_index e,
                     ro_flags = ae_flags e, ro_proto = ae_proto e, ro_sig = ae_sig e,
                     ro_blob = take (min (ae_blob_len e) BLOB) (ae_blob e) \<rparr>)"

section \<open>Parsing a blob\<close>

fun ro_bins :: "nat \<Rightarrow> bytes \<Rightarrow> nat \<Rightarrow> Bin list option" where
  "ro_bins 0 blob off = Some []"
| "ro_bins (Suc n) blob off =
     (if off + 20 > length blob then None
      else (case ro_bins n blob (off + 20) of None \<Rightarrow> None
            | Some bs \<Rightarrow> Some (\<lparr> bin_id = i_at 4 blob off, bin_x = u_at 8 blob (off + 4),
                               bin_y = u_at 8 blob (off + 12), bin_price = 0 \<rparr> # bs)))"

text \<open>
  The fields up to byte 67 are there once the length is checked; the last two reads, the clock
  and the number of bins, may still run past the end.
\<close>

definition ro_parse_dlmm :: "bytes \<Rightarrow> Dlmm option res" where
  "ro_parse_dlmm blob =
    (if length blob < 67 then Inr None
     else rbind (unpack_i 8 blob 63) (\<lambda>now. rbind (unpack_u 2 blob 71) (\<lambda>nbin.
       Inr (case ro_bins (nat nbin) blob 73 of None \<Rightarrow> None
            | Some bs \<Rightarrow> Some
               \<lparr> active_id = i_at 4 blob 0, bin_step = u_at 2 blob 4, dl_status = u_at 1 blob 6,
                 base_factor = u_at 2 blob 7, filter_period = u_at 2 blob 9, decay_period = u_at 2 blob 11,
                 reduction_factor = u_at 2 blob 13, variable_fee_control = u_at 4 blob 15,
                 max_volatility_accumulator = u_at 4 blob 19, protocol_share = u_at 2 blob 23,
                 base_fee_power_factor = u_at 1 blob 25, collect_fee_mode = u_at 1 blob 26,
                 vol_acc = u_at 4 blob 27, vol_ref = u_at 4 blob 31, idx_ref = i_at 4 blob 35,
                 last_upd = i_at 8 blob 39, reserve_x = u_at 8 blob 47, reserve_y = u_at 8 blob 55,
                 now_ts = now, bins = bs \<rparr>))))"

definition ro_parse_pump :: "bytes \<Rightarrow> Pump option" where
  "ro_parse_pump blob =
    (if length blob < 50 then None
     else Some \<lparr> reserve_base = u_at 8 blob 0, reserve_quote = u_at 8 blob 8, virtual_quote = i_at 8 blob 16,
       lp_fee_bps = u_at 8 blob 24, protocol_fee_bps = u_at 8 blob 32, creator_fee_bps = u_at 8 blob 40,
       pm_disabled = u_at 1 blob 48, pm_status = u_at 1 blob 49 \<rparr>)"

section \<open>Blobs round trip\<close>

text \<open>The kernel state a snapshot stands for.\<close>

definition kernel_bin :: "rbin \<Rightarrow> Bin" where
  "kernel_bin b = \<lparr> bin_id = rb_id b, bin_x = rb_x b, bin_y = rb_y b, bin_price = 0 \<rparr>"

definition kernel_dlmm :: "int \<Rightarrow> dlmm_snap \<Rightarrow> Dlmm" where
  "kernel_dlmm now s =
    (let lb = ds_lb s
     in \<lparr> active_id = lb_active_id lb, bin_step = lb_bin_step lb, dl_status = lb_status lb,
          base_factor = lb_base_factor lb, filter_period = lb_filter_period lb, decay_period = lb_decay_period lb,
          reduction_factor = lb_reduction_factor lb, variable_fee_control = lb_variable_fee_control lb,
          max_volatility_accumulator = lb_max_volatility_accumulator lb, protocol_share = lb_protocol_share lb,
          base_fee_power_factor = lb_base_fee_power_factor lb, collect_fee_mode = lb_collect_fee_mode lb,
          vol_acc = lb_vol_acc lb, vol_ref = lb_vol_ref lb, idx_ref = lb_idx_ref lb, last_upd = lb_last_upd lb,
          reserve_x = ds_reserve_x s, reserve_y = ds_reserve_y s, now_ts = now,
          bins = map kernel_bin (window_bins s) \<rparr>)"

definition kernel_pump :: "pump_state \<Rightarrow> Pump" where
  "kernel_pump st = \<lparr> reserve_base = ps_reserve_base st, reserve_quote = ps_reserve_quote st,
     virtual_quote = ps_virtual_quote st, lp_fee_bps = ps_lp_fee_bps st, protocol_fee_bps = ps_protocol_fee_bps st,
     creator_fee_bps = ps_creator_fee_bps st, pm_disabled = ps_disabled st, pm_status = ps_status st \<rparr>"

lemma u_at_shift: "u_at k (pre @ r) (length pre + i) = u_at k r i"
  by (simp add: u_at_def slice_def)

lemma i_at_shift: "i_at k (pre @ r) (length pre + i) = i_at k r i"
  by (simp add: i_at_def slice_def)

lemma u_at_prefix: "i + k \<le> length a \<Longrightarrow> u_at k (a @ r) i = u_at k a i"
  by (simp add: u_at_def slice_def)

lemma i_at_prefix: "i + k \<le> length a \<Longrightarrow> i_at k (a @ r) i = i_at k a i"
  by (simp add: i_at_def slice_def)

lemma ro_bins_concat:
  "list_all2 bin_bytes_ok bs xs \<Longrightarrow> ro_bins (length bs) (pre @ concat xs) (length pre) = Some (map kernel_bin bs)"
proof (induction bs xs arbitrary: pre rule: list_all2_induct)
  case (Cons b bs x xs)
  have x: "length x = 20" "i_at 4 x 0 = rb_id b" "u_at 8 x 4 = rb_x b" "u_at 8 x 12 = rb_y b"
    using Cons.hyps(1) by (simp_all add: bin_bytes_ok_def)
  have "ro_bins (length bs) ((pre @ x) @ concat xs) (length (pre @ x)) = Some (map kernel_bin bs)" by (rule Cons.IH)
  then have rest: "ro_bins (length bs) (pre @ x @ concat xs) (length pre + 20) = Some (map kernel_bin bs)"
    using x(1) by simp
  have "i_at 4 (pre @ x @ concat xs) (length pre) = rb_id b" "u_at 8 (pre @ x @ concat xs) (length pre + 4) = rb_x b"
    "u_at 8 (pre @ x @ concat xs) (length pre + 12) = rb_y b"
    using x i_at_shift [of 4 pre "x @ concat xs" 0] u_at_shift [of 8 pre "x @ concat xs" 4]
      u_at_shift [of 8 pre "x @ concat xs" 12] i_at_prefix [of 0 4 x "concat xs"] u_at_prefix [of 4 8 x "concat xs"]
      u_at_prefix [of 12 8 x "concat xs"] by simp_all
  with rest x(1) show ?case by (simp add: kernel_bin_def)
qed simp

lemma ro_parse_dlmm_write:
  assumes "write_dlmm now s = Inr bs"
  shows "ro_parse_dlmm bs = Inr (Some (kernel_dlmm now s))"
proof -
  obtain h xs where h: "bs = h @ concat xs" "length h = 73" "\<And>r. reads (dlmm_flds now s) (h @ r) 0"
    "list_all2 bin_bytes_ok (window_bins s) xs"
    using write_dlmm_layout [OF assms] by metis
  have len: "73 \<le> length bs" using h(1,2) by simp
  have r: "reads (dlmm_flds now s) bs 0" using h(1,3) by simp
  have nb: "u_at 2 bs 71 = int (length (window_bins s))" using write_dlmm_length(3) [OF assms] .
  have "ro_bins (length (window_bins s)) bs 73 = Some (map kernel_bin (window_bins s))"
    using ro_bins_concat [OF h(4), of h] by (simp add: h(1,2))
  then show ?thesis using r len nb
    by (simp add: ro_parse_dlmm_def unpack_checked dlmm_flds_def Let_def kernel_dlmm_def)
qed

lemma ro_parse_pump_write:
  assumes "write_pump st = Inr bs"
  shows "ro_parse_pump bs = Some (kernel_pump st)"
  using write_pump_layout(1) [OF assms] write_pump_layout(2) [OF assms, of "[]"]
  by (simp add: ro_parse_pump_def pump_flds_def kernel_pump_def)

section \<open>The reader sees what the writer published\<close>

lemma entry_of_blob:
  "length (pa_blob pa) \<le> BLOB \<Longrightarrow>
    take (min (ae_blob_len (entry_of pa v)) BLOB) (ae_blob (entry_of pa v)) = pa_blob pa"
  by (simp add: entry_of_def)

lemma publish_map:
  assumes "auth_ok a" and "pub_mm a = Some mm" and "\<not> publish_refused a (int i) pa" and "entry_packs pa"
  shows "\<exists>mm'. pub_mm (fst (publish a (int i) pa)) = Some mm' \<and> i < length (am_pools mm)
    \<and> am_pools mm' = (am_pools mm)[i := publish_pool (am_pools mm ! i) pa (Suc (pub_ver a))]"
proof -
  have i: "i < length (am_pools mm)" using assms(1,2,3) by (auto simp: publish_refused_def auth_ok_def)
  then show ?thesis using publish_accepted [OF assms(2,3)] assms(4)
    by (simp add: foldl_store_map publish_pool_def)
qed

lemma latest_after_publish:
  assumes ok: "auth_ok a" and mm: "pub_mm a = Some mm" and acc: "\<not> publish_refused a (int i) pa" and pk: "entry_packs pa"
    and ev: "even (ap_seq (am_pools mm ! i))" and cap: "i < POOL_CAP"
    and clean: "entry_flags pa AND (INCOMPLETE OR GAPPED) = 0"
    and mm': "pub_mm (fst (publish a (int i) pa)) = Some mm'"
  shows "\<exists>e. latest mm' (int i) = Some e \<and> ro_blob e = pa_blob pa \<and> ro_slot e = pa_slot pa
    \<and> ro_generation e = Suc (pub_ver a) \<and> ro_proto e = pa_proto pa mod 256"
proof -
  define p where "p = publish_pool (am_pools mm ! i) pa (Suc (pub_ver a))"
  have i: "i < length (am_pools mm)" and pools: "am_pools mm' = (am_pools mm)[i := p]"
    using publish_map [OF ok mm acc pk] mm' by (auto simp: p_def)
  have sh: "length (ap_ring (am_pools mm ! i)) = 16"
    using ok mm i by (auto simp: auth_ok_def list_all_length pool_ok_def pool_shape_def RING_def)
  have e: "ap_ring p ! (ap_head (am_pools mm ! i) mod RING) = entry_of pa (Suc (pub_ver a))"
    using sh by (simp add: p_def publish_pool_eq RING_def)
  have wf: "entry_wf (entry_of pa (Suc (pub_ver a)))" and bl: "length (pa_blob pa) \<le> BLOB"
    using acc entry_of_wf by (auto simp: publish_refused_def)
  have fl: "ae_flags (entry_of pa (Suc (pub_ver a))) = entry_flags pa" by (simp add: entry_of_def)
  have "am_pools mm' ! i = p" using i by (simp add: pools)
  moreover have "ap_seq p = ap_seq (am_pools mm ! i) + 2" "ap_head p = Suc (ap_head (am_pools mm ! i))"
    by (simp_all add: p_def publish_pool_eq)
  ultimately show ?thesis
    using ev cap clean wf e fl entry_of_blob [OF bl, of "Suc (pub_ver a)"]
    by (simp add: latest_def entry_wf_def) (simp add: entry_of_def)
qed

end
