(* ===== verification/Bank_Journal.thy ===== *)
theory Bank_Journal
  imports Py_Prelude
begin

text \<open>
  \<^verbatim>\<open>arb-state/shyft/bank_context.py\<close>: the journal of bank evidence received on one provider
  connection. A row per (slot, bank identity) collects the parent slot, the statuses and the
  SlotHashes sysvar of that bank, and is marked in conflict, for good, when two pieces of
  evidence disagree. The rows are an insertion-ordered dictionary of bounded size. Events
  are a datatype with one constructor per \<^verbatim>\<open>kind\<close> and the fields the handler reads of it;
  SHA-256 is the parameter \<open>sha\<close>. Python's \<^verbatim>\<open>row\<close> is a reference into the dictionary, so a
  write to it is lost exactly when the entry has just been evicted: that is \<open>put_row\<close>.
\<close>

section \<open>The SlotHashes sysvar\<close>

definition SYSVAR_OWNER :: string where
  "SYSVAR_OWNER = ''Sysvar1111111111111111111111111111111111111''"

definition slot_hash_at :: "bytes \<Rightarrow> nat \<Rightarrow> int \<times> bytes" where
  "slot_hash_at data i = (u_at 8 data (8 + i * 40), slice (16 + i * 40) (48 + i * 40) data)"

fun out_of_order :: "(int \<times> bytes) list \<Rightarrow> bool" where
  "out_of_order (a # b # vs) = (fst a \<le> fst b \<or> out_of_order (b # vs))"
| "out_of_order _ = False"

definition parse_slot_hashes :: "bytes \<Rightarrow> (int \<times> string) list res" where
  "parse_slot_hashes data =
    (if length data < 8 then Inl (ValueError ''truncated SlotHashes'')
     else let n = nat (u_at 8 data 0) in
       if n > 512 \<or> length data < 8 + n * 40 \<or> list_ex (\<lambda>b. b \<noteq> 0) (drop (8 + n * 40) data)
       then Inl (ValueError ''invalid SlotHashes length'')
       else let values = map (slot_hash_at data) [0..<n] in
         if out_of_order values then Inl (ValueError ''invalid SlotHashes order'')
         else Inr (map (\<lambda>(s, h). (s, to_hex h)) values))"

section \<open>The journal\<close>

record bank_row =
  br_slot :: int
  br_bank_id :: int
  br_parent :: "int option"
  br_statuses :: "int list"
  br_hashes :: "(int \<times> string) list option"
  br_conflict :: bool
  br_last_rx :: int
  br_hashes_rx :: "int option"
  br_data_sha256 :: "string option"

record bank_journal =
  bj_capacity :: nat
  bj_generation :: "string option"
  bj_records :: "(int \<times> int, bank_row) dict"

text \<open>An evidence event: slot, bank identity when present, receipt time and what was received.\<close>

datatype bank_evidence =
    BankSlot "int option" int
  | BankAccount bool "string option" "string option"
  | BankOther

datatype bank_event =
    BankGeneration "string option"
  | BankDisconnect "string option"
  | BankEvidence "string option" int "int option" int bank_evidence

definition new_journal :: "nat \<Rightarrow> bank_journal" where
  "new_journal capacity = \<lparr> bj_capacity = capacity, bj_generation = None, bj_records = [] \<rparr>"

definition new_row :: "int \<Rightarrow> int \<Rightarrow> int \<Rightarrow> bank_row" where
  "new_row slot bank_id rx = \<lparr> br_slot = slot, br_bank_id = bank_id, br_parent = None, br_statuses = [],
     br_hashes = None, br_conflict = False, br_last_rx = rx, br_hashes_rx = None, br_data_sha256 = None \<rparr>"

definition open_row :: "bank_journal \<Rightarrow> int \<times> int \<Rightarrow> int \<Rightarrow> bank_row \<times> (int \<times> int, bank_row) dict" where
  "open_row j key rx =
    (case dget (bj_records j) key of
       Some row \<Rightarrow> (row, if length (bj_records j) > bj_capacity j then tl (bj_records j) else bj_records j)
     | None \<Rightarrow> let row = new_row (fst key) (snd key) rx; recs = dput key row (bj_records j)
               in (row, if length recs > bj_capacity j then tl recs else recs))"

definition put_row :: "int \<times> int \<Rightarrow> bank_row \<Rightarrow> (int \<times> int, bank_row) dict \<Rightarrow> (int \<times> int, bank_row) dict" where
  "put_row key row recs = (if dget recs key = None then recs else dput key row recs)"

definition conflicted :: "bank_row \<Rightarrow> bank_row" where
  "conflicted row = row \<lparr> br_conflict := True \<rparr>"

definition note_slot :: "bank_row \<Rightarrow> int option \<Rightarrow> int \<Rightarrow> bank_row" where
  "note_slot row parent status =
    (let row1 = (case parent of None \<Rightarrow> row
                 | Some p \<Rightarrow>
                     let clash = p \<ge> br_slot row \<or> (br_parent row \<noteq> None \<and> br_parent row \<noteq> Some p)
                     in (if clash then conflicted row else row) \<lparr> br_parent := Some p \<rparr>)
     in if status \<in> set (br_statuses row1) then row1
        else row1 \<lparr> br_statuses := br_statuses row1 @ [status] \<rparr>)"

text \<open>\<open>Inl\<close>: the early return, with the row as it leaves it.\<close>

definition note_account ::
  "(bytes \<Rightarrow> bytes) \<Rightarrow> bank_row \<Rightarrow> int \<Rightarrow> bool \<Rightarrow> string option \<Rightarrow> string option \<Rightarrow> (bank_row \<times> string) + bank_row" where
  "note_account sha row rx startup owner data_hex =
    (if startup \<or> owner \<noteq> Some SYSVAR_OWNER then Inl (conflicted row, ''invalid_sysvar_provenance'')
     else case data_hex of
       None \<Rightarrow> Inl (conflicted row, ''invalid_sysvar_bytes'')
     | Some hx \<Rightarrow>
       (case rbind (from_hex hx) (\<lambda>data. rbind (parse_slot_hashes data) (\<lambda>hs. Inr (data, hs))) of
          Inl _ \<Rightarrow> Inl (conflicted row, ''invalid_sysvar_bytes'')
        | Inr (data, hs) \<Rightarrow>
            let clash = (hs \<noteq> [] \<and> fst (hd hs) \<ge> br_slot row) \<or> (br_hashes row \<noteq> None \<and> br_hashes row \<noteq> Some hs);
                row1 = (if clash then conflicted row else row)
            in Inr (row1 \<lparr> br_hashes := Some hs,
                           br_hashes_rx := (case br_hashes_rx row1 of None \<Rightarrow> Some rx | Some r \<Rightarrow> Some r),
                           br_data_sha256 := Some (to_hex (sha data)) \<rparr>)))"

definition settle_row :: "bank_row \<Rightarrow> bank_row" where
  "settle_row row =
    (case (br_hashes row, br_parent row) of
       (Some hs, Some p) \<Rightarrow> if hs \<noteq> [] \<and> fst (hd hs) \<noteq> p then conflicted row else row
     | _ \<Rightarrow> row)"

definition verdict :: "bank_row \<Rightarrow> string" where
  "verdict row = (if br_conflict row then ''conflict'' else ''recorded'')"

definition note_evidence :: "(bytes \<Rightarrow> bytes) \<Rightarrow> bank_row \<Rightarrow> int \<Rightarrow> bank_evidence \<Rightarrow> bank_row \<times> string" where
  "note_evidence sha row rx ev =
    (if rx < br_last_rx row then (conflicted row, ''receipt_order_conflict'')
     else let row1 = row \<lparr> br_last_rx := rx \<rparr> in
       case ev of
         BankSlot parent status \<Rightarrow> let r = settle_row (note_slot row1 parent status) in (r, verdict r)
       | BankAccount startup owner data_hex \<Rightarrow>
           (case note_account sha row1 rx startup owner data_hex of
              Inl (r, why) \<Rightarrow> (r, why)
            | Inr r0 \<Rightarrow> let r = settle_row r0 in (r, verdict r))
       | BankOther \<Rightarrow> let r = settle_row row1 in (r, verdict r))"

definition journal_apply :: "(bytes \<Rightarrow> bytes) \<Rightarrow> bank_journal \<Rightarrow> bank_event \<Rightarrow> bank_journal \<times> string" where
  "journal_apply sha j e =
    (case e of
       BankGeneration g \<Rightarrow> (j \<lparr> bj_records := [], bj_generation := g \<rparr>, ''generation_started'')
     | BankDisconnect g \<Rightarrow>
         if g \<noteq> bj_generation j \<or> g = None then (j, ''stale_generation'')
         else (j \<lparr> bj_records := [], bj_generation := None \<rparr>, ''disconnected'')
     | BankEvidence g slot bank_id rx ev \<Rightarrow>
         if g \<noteq> bj_generation j \<or> g = None then (j, ''stale_generation'')
         else case bank_id of
           None \<Rightarrow> (j, ''identity_missing'')
         | Some b \<Rightarrow>
             let key = (slot, b); (row, recs) = open_row j key rx; (row', why) = note_evidence sha row rx ev
             in (j \<lparr> bj_records := put_row key row' recs \<rparr>, why))"

definition context_reason :: "bank_journal \<Rightarrow> int \<Rightarrow> int option \<Rightarrow> string option \<Rightarrow> int \<Rightarrow> string + bank_row" where
  "context_reason j slot bank_id generation deadline =
    (if generation = None \<or> generation \<noteq> bj_generation j then Inl ''generation_unbound''
     else case bank_id of
       None \<Rightarrow> Inl ''identity_missing''
     | Some b \<Rightarrow>
       (case dget (bj_records j) (slot, b) of
          None \<Rightarrow> Inl ''context_missing''
        | Some row \<Rightarrow>
            if br_last_rx row > deadline then Inl ''not_available_at_deadline''
            else if br_conflict row then Inl ''context_conflict''
            else if 6 \<in> set (br_statuses row) then Inl ''dead_bank''
            else if br_parent row = None \<or> br_hashes row = None \<or> br_hashes row = Some [] then Inl ''context_incomplete''
            else Inr row))"

definition journal_context :: "bank_journal \<Rightarrow> int \<Rightarrow> int option \<Rightarrow> string option \<Rightarrow> int \<Rightarrow> string \<times> bank_row option" where
  "journal_context j slot bank_id generation deadline =
    (case context_reason j slot bank_id generation deadline of
       Inl why \<Rightarrow> (why, None) | Inr row \<Rightarrow> (''available'', Some row))"

section \<open>Well-formed journals\<close>

lemma in_order_sorted: "\<not> out_of_order vs \<Longrightarrow> sorted_wrt (>) (map fst vs)"
proof (induction vs rule: out_of_order.induct)
  case (1 a b vs)
  then have "fst a > fst b" "sorted_wrt (>) (map fst (b # vs))" by auto
  then show ?case by (auto intro: less_trans)
qed auto

lemma parse_slot_hashes_sorted:
  assumes "parse_slot_hashes data = Inr hs"
  shows "sorted_wrt (>) (map fst hs) \<and> length hs \<le> 512"
proof -
  define n where "n = nat (u_at 8 data 0)"
  have n: "n \<le> 512" "\<not> out_of_order (map (slot_hash_at data) [0..<n])"
    "hs = map (\<lambda>(s, h). (s, to_hex h)) (map (slot_hash_at data) [0..<n])"
    using assms by (auto simp: parse_slot_hashes_def Let_def n_def split: if_split_asm)
  have fst: "map fst hs = map fst (map (slot_hash_at data) [0..<n])" by (simp add: n(3) case_prod_unfold)
  have "length hs = n" by (simp add: n(3))
  then show ?thesis unfolding fst using in_order_sorted [OF n(2)] n(1) by simp
qed

definition hashes_ok :: "int \<Rightarrow> int option \<Rightarrow> (int \<times> string) list \<Rightarrow> bool" where
  "hashes_ok slot parent hs \<longleftrightarrow> sorted_wrt (>) (map fst hs) \<and> length hs \<le> 512
     \<and> (hs \<noteq> [] \<longrightarrow> fst (hd hs) < slot \<and> (\<forall>p. parent = Some p \<longrightarrow> fst (hd hs) = p))"

text \<open>A row without conflict holds evidence that agrees with itself.\<close>

definition bank_row_ok :: "int \<times> int \<Rightarrow> bank_row \<Rightarrow> bool" where
  "bank_row_ok key row \<longleftrightarrow> br_slot row = fst key \<and> br_bank_id row = snd key \<and> distinct (br_statuses row)
     \<and> (\<not> br_conflict row \<longrightarrow>
          (\<forall>p. br_parent row = Some p \<longrightarrow> p < br_slot row)
        \<and> (\<forall>hs. br_hashes row = Some hs \<longrightarrow> hashes_ok (br_slot row) (br_parent row) hs))"

definition journal_ok :: "bank_journal \<Rightarrow> bool" where
  "journal_ok j \<longleftrightarrow> length (bj_records j) \<le> bj_capacity j \<and> dict_ok (bj_records j)
     \<and> dict_all bank_row_ok (bj_records j)"

lemma conflicted_sel [simp]:
  "br_slot (conflicted r) = br_slot r" "br_bank_id (conflicted r) = br_bank_id r"
  "br_parent (conflicted r) = br_parent r" "br_hashes (conflicted r) = br_hashes r"
  "br_statuses (conflicted r) = br_statuses r" "br_conflict (conflicted r)"
  by (simp_all add: conflicted_def)

lemma new_row_ok: "bank_row_ok key (new_row (fst key) (snd key) rx)"
  by (simp add: bank_row_ok_def new_row_def)

text \<open>The facts of a row before \<open>settle_row\<close> compares parent and hashes.\<close>

definition row_pre_ok :: "int \<times> int \<Rightarrow> bank_row \<Rightarrow> bool" where
  "row_pre_ok key row \<longleftrightarrow> br_slot row = fst key \<and> br_bank_id row = snd key \<and> distinct (br_statuses row)
     \<and> (\<not> br_conflict row \<longrightarrow>
          (\<forall>p. br_parent row = Some p \<longrightarrow> p < br_slot row)
        \<and> (\<forall>hs. br_hashes row = Some hs \<longrightarrow> hashes_ok (br_slot row) None hs))"

lemma row_ok_pre: "bank_row_ok key row \<Longrightarrow> row_pre_ok key (row \<lparr> br_last_rx := rx \<rparr>)"
  by (auto simp: bank_row_ok_def row_pre_ok_def hashes_ok_def)

lemma settle_row_ok: "row_pre_ok key row \<Longrightarrow> bank_row_ok key (settle_row row)"
  by (auto simp: bank_row_ok_def row_pre_ok_def hashes_ok_def settle_row_def split: option.split)

lemma conflicted_ok: "row_pre_ok key row \<Longrightarrow> bank_row_ok key (conflicted row)"
  by (simp add: bank_row_ok_def row_pre_ok_def)

lemma note_slot_ok: "row_pre_ok key row \<Longrightarrow> row_pre_ok key (note_slot row parent status)"
  by (auto simp: row_pre_ok_def note_slot_def Let_def split: option.split)

lemma note_account_ok:
  assumes "row_pre_ok key row"
  shows "(\<forall>r why. note_account sha row rx startup owner data_hex = Inl (r, why) \<longrightarrow> bank_row_ok key r)
    \<and> (\<forall>r. note_account sha row rx startup owner data_hex = Inr r \<longrightarrow> row_pre_ok key r)"
proof (intro conjI allI impI)
  fix r why
  assume "note_account sha row rx startup owner data_hex = Inl (r, why)"
  then have "r = conflicted row"
    by (auto simp: note_account_def Let_def split: if_split_asm option.split_asm sum.split_asm)
  then show "bank_row_ok key r" using assms conflicted_ok by simp
next
  fix r
  assume a: "note_account sha row rx startup owner data_hex = Inr r"
  then obtain hx data hs where p: "parse_slot_hashes data = Inr hs"
    and r: "br_hashes r = Some hs" "br_slot r = br_slot row" "br_bank_id r = br_bank_id row"
      "br_parent r = br_parent row" "br_statuses r = br_statuses row"
      "\<not> br_conflict r \<Longrightarrow> \<not> br_conflict row \<and> (hs \<noteq> [] \<longrightarrow> fst (hd hs) < br_slot row)"
    by (auto simp: note_account_def Let_def rbind_Inr_iff split: if_split_asm option.split_asm sum.split_asm prod.split_asm)
  show "row_pre_ok key r"
    using assms r parse_slot_hashes_sorted [OF p] by (auto simp: row_pre_ok_def hashes_ok_def)
qed

lemma note_evidence_ok:
  assumes "bank_row_ok key row"
  shows "bank_row_ok key (fst (note_evidence sha row rx ev))"
proof (cases "rx < br_last_rx row")
  case True
  then show ?thesis using assms by (simp add: note_evidence_def bank_row_ok_def)
next
  case False
  have pre: "row_pre_ok key (row \<lparr> br_last_rx := rx \<rparr>)" using assms by (rule row_ok_pre)
  show ?thesis
  proof (cases ev)
    case (BankSlot parent status)
    then show ?thesis using False note_slot_ok [OF pre] settle_row_ok by (simp add: note_evidence_def Let_def)
  next
    case (BankAccount startup owner data_hex)
    then show ?thesis using False note_account_ok [OF pre, of sha rx startup owner data_hex]
      by (auto simp: note_evidence_def Let_def settle_row_ok split: sum.split)
  next
    case BankOther
    then show ?thesis using False settle_row_ok [OF pre] by (simp add: note_evidence_def Let_def)
  qed
qed

lemma open_row_ok:
  assumes "journal_ok j" and "open_row j key rx = (row, recs)"
  shows "bank_row_ok key row \<and> length recs \<le> bj_capacity j \<and> dict_ok recs \<and> dict_all bank_row_ok recs"
proof (cases "dget (bj_records j) key")
  case (Some r)
  then show ?thesis using assms dict_all_dget [of bank_row_ok "bj_records j" key r]
    by (auto simp: journal_ok_def open_row_def)
next
  case None
  let ?recs = "dput key (new_row (fst key) (snd key) rx) (bj_records j)"
  have "dict_ok ?recs" "dict_all bank_row_ok ?recs" "length ?recs \<le> Suc (bj_capacity j)"
    using assms(1) new_row_ok [of key rx] by (auto simp: journal_ok_def dict_all_dput length_dput)
  then show ?thesis using None assms(2) new_row_ok [of key rx]
    by (auto simp: open_row_def Let_def dict_all_tl split: if_split_asm)
qed

lemma put_row_ok:
  assumes "bank_row_ok key row" "length recs \<le> cap" "dict_ok recs" "dict_all bank_row_ok recs"
  shows "length (put_row key row recs) \<le> cap \<and> dict_ok (put_row key row recs) \<and> dict_all bank_row_ok (put_row key row recs)"
  using assms by (auto simp: put_row_def length_dput dict_all_dput)

lemma journal_apply_ok:
  assumes "journal_ok j"
  shows "journal_ok (fst (journal_apply sha j e))"
proof (cases e)
  case (BankEvidence g slot bank_id rx ev)
  show ?thesis
  proof (cases bank_id)
    case (Some b)
    obtain row recs where o: "open_row j (slot, b) rx = (row, recs)" by (cases "open_row j (slot, b) rx")
    obtain row' why where n: "note_evidence sha row rx ev = (row', why)" by (cases "note_evidence sha row rx ev")
    have "bank_row_ok (slot, b) row'"
      using note_evidence_ok [of "(slot, b)" row sha rx ev] open_row_ok [OF assms o] n by simp
    then have "length (put_row (slot, b) row' recs) \<le> bj_capacity j \<and> dict_ok (put_row (slot, b) row' recs)
        \<and> dict_all bank_row_ok (put_row (slot, b) row' recs)"
      using put_row_ok open_row_ok [OF assms o] by blast
    then show ?thesis using assms BankEvidence Some o n by (simp add: journal_apply_def journal_ok_def)
  qed (use assms BankEvidence in \<open>simp add: journal_apply_def\<close>)
qed (use assms in \<open>simp_all add: journal_apply_def journal_ok_def\<close>)

interpretation journal: event_machine "\<lambda>j e. fst (journal_apply sha j e)" journal_ok "new_journal capacity" for sha capacity
  by unfold_locales (simp_all add: journal_apply_ok, simp add: new_journal_def journal_ok_def)

section \<open>Write-once evidence\<close>

text \<open>How a row may change: a conflict stays, and without one nothing known is replaced.\<close>

definition row_grows :: "bank_row \<Rightarrow> bank_row \<Rightarrow> bool" where
  "row_grows r r' \<longleftrightarrow> br_last_rx r \<le> br_last_rx r' \<and> set (br_statuses r) \<subseteq> set (br_statuses r')
     \<and> (\<not> br_conflict r' \<longrightarrow> \<not> br_conflict r
         \<and> (\<forall>p. br_parent r = Some p \<longrightarrow> br_parent r' = Some p)
         \<and> (\<forall>hs. br_hashes r = Some hs \<longrightarrow> br_hashes r' = Some hs))"

lemma row_grows_refl [simp]: "row_grows r r"
  by (simp add: row_grows_def)

lemma settle_grows: "row_grows r r' \<Longrightarrow> row_grows r (settle_row r')"
  by (auto simp: row_grows_def settle_row_def conflicted_def split: option.split)

lemma note_slot_grows: "row_grows r (note_slot r parent status)"
  by (auto simp: row_grows_def note_slot_def Let_def conflicted_def split: option.split)

lemma note_account_grows:
  "note_account sha r rx startup owner data_hex = Inl (r', why) \<Longrightarrow> row_grows r r'"
  "note_account sha r rx startup owner data_hex = Inr r' \<Longrightarrow> row_grows r r'"
  by (auto simp: note_account_def Let_def row_grows_def conflicted_def
      split: if_split_asm option.split_asm sum.split_asm prod.split_asm)

lemma row_grows_rx: "row_grows (r \<lparr> br_last_rx := rx \<rparr>) r' \<Longrightarrow> br_last_rx r \<le> rx \<Longrightarrow> row_grows r r'"
  by (auto simp: row_grows_def)

lemma note_evidence_grows: "row_grows r (fst (note_evidence sha r rx ev))"
proof (cases "rx < br_last_rx r")
  case True
  then show ?thesis by (simp add: note_evidence_def row_grows_def conflicted_def)
next
  case False
  let ?r1 = "r \<lparr> br_last_rx := rx \<rparr>"
  have "row_grows ?r1 (fst (note_evidence sha r rx ev))"
  proof (cases ev)
    case (BankAccount startup owner data_hex)
    then show ?thesis using False note_account_grows [of sha ?r1 rx startup owner data_hex]
      by (auto simp: note_evidence_def Let_def settle_grows split: sum.split)
  qed (use False in \<open>simp_all add: note_evidence_def Let_def settle_grows note_slot_grows\<close>)
  then show ?thesis using False by (simp add: row_grows_rx)
qed

lemma dget_tl: "dict_ok d \<Longrightarrow> dget (tl d) k = Some v \<Longrightarrow> dget d k = Some v"
  by (cases d) (auto simp: dict_ok_def dest!: map_of_SomeD split: if_splits intro: rev_image_eqI)

lemma open_row_dget:
  assumes "journal_ok j" and "open_row j key rx = (row, recs)" and "dget (bj_records j) k = Some r"
  shows "dget recs k = Some v \<Longrightarrow> v = r" and "k = key \<Longrightarrow> row = r"
proof -
  show "v = r" if "dget recs k = Some v"
  proof (cases "dget (bj_records j) key")
    case (Some r0)
    then show ?thesis using that assms dget_tl [of "bj_records j" k v]
      by (auto simp: open_row_def journal_ok_def split: if_split_asm)
  next
    case None
    let ?recs = "dput key (new_row (fst key) (snd key) rx) (bj_records j)"
    have "dget ?recs k = Some v"
      using None that assms dget_tl [of ?recs k v]
      by (auto simp: open_row_def journal_ok_def Let_def split: if_split_asm)
    then show ?thesis using None assms(3) by (auto split: if_split_asm)
  qed
  show "k = key \<Longrightarrow> row = r" using assms by (simp add: open_row_def)
qed

section \<open>Properties\<close>

definition sample_hashes :: bytes where
  "sample_hashes = le_bytes 8 1 @ le_bytes 8 9 @ zeros 32"

definition sample_events :: "bank_event list" where
  "sample_events = [BankGeneration (Some ''g''),
     BankEvidence (Some ''g'') 10 (Some 1) 1 (BankSlot (Some 9) 0),
     BankEvidence (Some ''g'') 10 (Some 1) 2 (BankAccount False (Some SYSVAR_OWNER) (Some (to_hex sample_hashes)))]"



text \<open>
  Evidence is write-once. Whatever event is applied, a row that is still there either is in
  conflict or has kept the parent and the hashes it had; a conflict is never taken back and
  the receipt time never goes back.
\<close>
lemma bank_evidence_write_once:
  assumes "journal_ok j" and "dget (bj_records j) key = Some row"
    and "dget (bj_records (fst (journal_apply sha j e))) key = Some row'"
  shows "br_last_rx row \<le> br_last_rx row' \<and> (br_conflict row \<longrightarrow> br_conflict row')
    \<and> (\<not> br_conflict row' \<longrightarrow> (br_parent row \<noteq> None \<longrightarrow> br_parent row' = br_parent row)
        \<and> (br_hashes row \<noteq> None \<longrightarrow> br_hashes row' = br_hashes row))"
proof -
  have "row_grows row row'"
  proof (cases e)
    case (BankEvidence g slot bank_id rx ev)
    show ?thesis
    proof (cases bank_id)
      case (Some b)
      obtain r recs where o: "open_row j (slot, b) rx = (r, recs)" by (cases "open_row j (slot, b) rx")
      obtain r' why where n: "note_evidence sha r rx ev = (r', why)" by (cases "note_evidence sha r rx ev")
      have g: "row_grows r r'" using note_evidence_grows [of r sha rx ev] n by simp
      show ?thesis
        using assms(2,3) g open_row_dget [OF assms(1) o assms(2)] BankEvidence Some o n
        by (auto simp: journal_apply_def put_row_def Let_def split: if_split_asm)
    qed (use assms BankEvidence in \<open>auto simp: journal_apply_def split: if_split_asm\<close>)
  qed (use assms in \<open>auto simp: journal_apply_def split: if_split_asm\<close>)
  then show ?thesis by (auto simp: row_grows_def)
qed

end
