(* ===== verification/Tx_Barrier.thy ===== *)
theory Tx_Barrier
  imports Py_Prelude
begin

text \<open>
  \<^verbatim>\<open>arb-state/shyft/txbarrier.py\<close>: the publication barrier. For each transaction signature and
  pool it keeps the accounts the transaction is expected to write and those whose writes have
  arrived; a pool's state may be published for that transaction only when nothing is missing
  and the accounts still carry exactly the writes that were captured. Python sets are lists
  without duplicates in order of insertion (\<^verbatim>\<open>for\<close> over a set visits them in some order; no
  property here depends on which).
\<close>

section \<open>Identity of a write\<close>

record acc_row =
  ar_provider_generation :: "string option"
  ar_bank_id :: "int option"
  ar_slot :: "int option"
  ar_write_version :: "int option"
  ar_txn_sig :: "bytes option"
  ar_owner :: "string option"
  ar_lamports :: "int option"
  ar_data :: "bytes option"

definition empty_row :: acc_row where
  "empty_row = \<lparr> ar_provider_generation = None, ar_bank_id = None, ar_slot = None, ar_write_version = None,
     ar_txn_sig = None, ar_owner = None, ar_lamports = None, ar_data = None \<rparr>"

definition or_bytes :: "bytes option \<Rightarrow> bytes" where
  "or_bytes b = (case b of None \<Rightarrow> [] | Some x \<Rightarrow> x)"

type_synonym identity = "string option \<times> int option \<times> int option \<times> int option \<times> bytes \<times> string option \<times> int option \<times> bytes"

definition write_identity :: "acc_row \<Rightarrow> identity" where
  "write_identity row = (ar_provider_generation row, ar_bank_id row, ar_slot row, ar_write_version row,
     or_bytes (ar_txn_sig row), ar_owner row, ar_lamports row, or_bytes (ar_data row))"

section \<open>The barrier\<close>

record tx_spec =
  sp_expected :: "string list"
  sp_received :: "string list"
  sp_slot :: int
  sp_kind :: "string option"
  sp_pubkey :: "string option"
  sp_variant :: "string option"
  sp_versions :: "(string, identity) dict"
  sp_version_conflict :: bool

record expect_row =
  er_expected :: "string list"
  er_kind :: "string option"
  er_pubkey :: "string option"
  er_variant :: "string option"

record barrier_counters =
  bc_tx_shape :: nat
  bc_wait_pair :: nat
  bc_wait_bin :: nat
  bc_wait_vault :: nat
  bc_wait_shape :: nat
  bc_incomplete_at_boundary :: nat
  bc_evicted :: nat

record tx_barrier =
  tb_by_sig :: "(string, (int, tx_spec) dict) dict"
  tb_m :: barrier_counters

definition new_barrier :: tx_barrier where
  "new_barrier = \<lparr> tb_by_sig = [], tb_m = \<lparr> bc_tx_shape = 0, bc_wait_pair = 0, bc_wait_bin = 0, bc_wait_vault = 0,
     bc_wait_shape = 0, bc_incomplete_at_boundary = 0, bc_evicted = 0 \<rparr> \<rparr>"

definition BARRIER_CAP :: nat where "BARRIER_CAP = 4096"

text \<open>\<^verbatim>\<open>d.setdefault(k, v)\<close>, the value it returns.\<close>

definition dflt :: "('k, 'v) dict \<Rightarrow> 'k \<Rightarrow> 'v \<Rightarrow> 'v" where
  "dflt d k v = (case dget d k of None \<Rightarrow> v | Some w \<Rightarrow> w)"

text \<open>\<^verbatim>\<open>s |= t\<close> and \<^verbatim>\<open>s.add(x)\<close>\<close>

definition set_add :: "'a list \<Rightarrow> 'a \<Rightarrow> 'a list" where
  "set_add xs x = (if x \<in> set xs then xs else xs @ [x])"

definition set_or :: "'a list \<Rightarrow> 'a list \<Rightarrow> 'a list" where
  "set_or xs ys = foldl set_add xs ys"

definition trim :: "tx_barrier \<Rightarrow> tx_barrier" where
  "trim b = b \<lparr> tb_by_sig := evict BARRIER_CAP (tb_by_sig b),
     tb_m := tb_m b \<lparr> bc_evicted := bc_evicted (tb_m b) + (length (tb_by_sig b) - BARRIER_CAP) \<rparr> \<rparr>"

definition fresh_spec :: "int \<Rightarrow> string option \<Rightarrow> string option \<Rightarrow> string option \<Rightarrow> tx_spec" where
  "fresh_spec slot kind pubkey variant = \<lparr> sp_expected = [], sp_received = [], sp_slot = slot, sp_kind = kind,
     sp_pubkey = pubkey, sp_variant = variant, sp_versions = [], sp_version_conflict = False \<rparr>"

definition note_expect :: "int \<Rightarrow> (int, tx_spec) dict \<Rightarrow> int \<times> expect_row \<Rightarrow> (int, tx_spec) dict" where
  "note_expect slot row e =
    (let (idx, er) = e;
         cur = dflt row idx (fresh_spec slot (er_kind er) (er_pubkey er) (er_variant er))
     in dput idx (cur \<lparr> sp_expected := set_or (sp_expected cur) (er_expected er), sp_slot := slot \<rparr>) row)"

definition note_tx :: "tx_barrier \<Rightarrow> string \<Rightarrow> int \<Rightarrow> (int, expect_row) dict \<Rightarrow> tx_barrier" where
  "note_tx b sig slot expect_by_idx =
    (if sig = [] \<or> expect_by_idx = [] then b
     else let row = foldl (note_expect slot) (dflt (tb_by_sig b) sig []) expect_by_idx
          in trim (b \<lparr> tb_by_sig := dput sig row (tb_by_sig b),
                       tb_m := tb_m b \<lparr> bc_tx_shape := bc_tx_shape (tb_m b) + 1 \<rparr> \<rparr>))"

definition capture :: "tx_spec \<Rightarrow> string \<Rightarrow> acc_row option \<Rightarrow> tx_spec" where
  "capture cur pk version =
    (case version of None \<Rightarrow> cur
     | Some v \<Rightarrow>
         let identity = write_identity v;
             clash = (case dget (sp_versions cur) pk of None \<Rightarrow> False | Some w \<Rightarrow> w \<noteq> identity)
         in cur \<lparr> sp_version_conflict := sp_version_conflict cur \<or> clash,
                  sp_versions := dput pk identity (sp_versions cur) \<rparr>)"

definition note_pool_write :: "(int, tx_spec) dict \<Rightarrow> int \<Rightarrow> int \<Rightarrow> string \<Rightarrow> acc_row option \<Rightarrow> tx_spec" where
  "note_pool_write row slot pool_idx pk version =
    (let cur = dflt row pool_idx (fresh_spec slot None None None);
         cur1 = capture (cur \<lparr> sp_received := set_add (sp_received cur) pk \<rparr>) pk version
     in if sp_slot cur1 = 0 then cur1 \<lparr> sp_slot := slot \<rparr> else cur1)"

definition note_write :: "tx_barrier \<Rightarrow> string \<Rightarrow> int \<Rightarrow> int \<Rightarrow> string \<Rightarrow> acc_row option \<Rightarrow> tx_barrier" where
  "note_write b sig slot pool_idx pk version =
    (if sig = [] \<or> pk = [] then b
     else let row = dflt (tb_by_sig b) sig []
          in trim (b \<lparr> tb_by_sig := dput sig (dput pool_idx (note_pool_write row slot pool_idx pk version) row) (tb_by_sig b) \<rparr>))"

definition spec :: "tx_barrier \<Rightarrow> string \<Rightarrow> int \<Rightarrow> tx_spec option" where
  "spec b sig pool_idx = dget (dflt (tb_by_sig b) sig []) pool_idx"

definition has_shape :: "tx_barrier \<Rightarrow> string \<Rightarrow> int \<Rightarrow> bool" where
  "has_shape b sig pool_idx = (case spec b sig pool_idx of None \<Rightarrow> False | Some sp \<Rightarrow> sp_expected sp \<noteq> [])"

definition missing :: "tx_barrier \<Rightarrow> string \<Rightarrow> int \<Rightarrow> string list" where
  "missing b sig pool_idx =
    (case spec b sig pool_idx of None \<Rightarrow> []
     | Some sp \<Rightarrow> if sp_expected sp = [] then [] else filter (\<lambda>pk. pk \<notin> set (sp_received sp)) (sp_expected sp))"

definition can_commit :: "tx_barrier \<Rightarrow> string \<Rightarrow> int \<Rightarrow> bool" where
  "can_commit b sig pool_idx =
    (case spec b sig pool_idx of None \<Rightarrow> False
     | Some sp \<Rightarrow> sp_expected sp \<noteq> [] \<and> list_all (\<lambda>pk. pk \<in> set (sp_received sp)) (sp_expected sp))"

section \<open>Freezing a read set\<close>

definition row_of :: "(string, acc_row) dict \<Rightarrow> string \<Rightarrow> acc_row" where
  "row_of latest pk = (case dget latest pk of None \<Rightarrow> empty_row | Some r \<Rightarrow> r)"

definition no_data :: "acc_row \<Rightarrow> bool" where
  "no_data row \<longleftrightarrow> or_bytes (ar_data row) = []"

definition slot_or0 :: "acc_row \<Rightarrow> int" where
  "slot_or0 row = (case ar_slot row of None \<Rightarrow> 0 | Some s \<Rightarrow> s)"

text \<open>The loop over the expected accounts; \<open>None\<close> when every account passes.\<close>

fun check_writes :: "tx_spec \<Rightarrow> string \<Rightarrow> (string \<Rightarrow> acc_row) \<Rightarrow> string list \<Rightarrow> string option" where
  "check_writes sp sig rows [] = None"
| "check_writes sp sig rows (pk # pks) =
     (case dget (sp_versions sp) pk of
        None \<Rightarrow> Some ''write_identity_missing''
      | Some captured \<Rightarrow>
          if captured \<noteq> write_identity (rows pk) then Some ''write_superseded''
          else if ar_slot (rows pk) \<noteq> Some (sp_slot sp) \<or> to_hex (or_bytes (ar_txn_sig (rows pk))) \<noteq> sig
          then Some ''write_identity_mismatch''
          else check_writes sp sig rows pks)"

definition snapshot ::
  "tx_barrier \<Rightarrow> string \<Rightarrow> int \<Rightarrow> string list \<Rightarrow> (string, acc_row) dict \<Rightarrow> string \<times> (string, acc_row) dict option" where
  "snapshot b sig pool_idx required latest =
    (case spec b sig pool_idx of
       None \<Rightarrow> (''writes_incomplete'', None)
     | Some sp \<Rightarrow>
         if \<not> can_commit b sig pool_idx then (''writes_incomplete'', None)
         else if sp_version_conflict sp then (''write_version_conflict'', None)
         else if \<not> set (sp_expected sp) \<subseteq> set required then (''read_set_incomplete'', None)
         else let rows = row_of latest in
           if list_ex (\<lambda>pk. no_data (rows pk)) required then (''account_missing'', None)
           else if list_ex (\<lambda>pk. slot_or0 (rows pk) > sp_slot sp) required then (''dependency_from_future_slot'', None)
           else case check_writes sp sig rows (sp_expected sp) of
                  Some why \<Rightarrow> (why, None)
                | None \<Rightarrow> (''available'', Some (map (\<lambda>pk. (pk, rows pk)) required)))"

section \<open>Waiting, expiry, removal\<close>

definition wait_class :: "string option \<Rightarrow> string" where
  "wait_class role =
    (if role = Some ''dlmm_lbpair'' \<or> role = Some ''pump_pool'' then ''pair''
     else if role = Some ''dlmm_binarray'' then ''bin''
     else if role = Some ''pump_vault_base'' \<or> role = Some ''pump_vault_quote'' then ''vault''
     else ''bin'')"

definition mark_wait :: "tx_barrier \<Rightarrow> string list \<Rightarrow> (string \<Rightarrow> string option) \<Rightarrow> tx_barrier" where
  "mark_wait b absent role_of =
    (if absent = [] then b
     else let saw = map (\<lambda>pk. wait_class (role_of pk)) absent;
              inc = (\<lambda>c n. if c \<in> set saw then n + 1 else n);
              m = tb_m b
          in b \<lparr> tb_m := m \<lparr> bc_wait_pair := inc ''pair'' (bc_wait_pair m), bc_wait_bin := inc ''bin'' (bc_wait_bin m),
                             bc_wait_vault := inc ''vault'' (bc_wait_vault m) \<rparr> \<rparr>)"

definition expired :: "int \<Rightarrow> tx_spec \<Rightarrow> bool" where
  "expired stream_slot sp \<longleftrightarrow> sp_expected sp \<noteq> [] \<and> \<not> stream_slot \<le> sp_slot sp
     \<and> \<not> list_all (\<lambda>pk. pk \<in> set (sp_received sp)) (sp_expected sp)"

definition expire_at_boundary :: "tx_barrier \<Rightarrow> int \<Rightarrow> (string \<times> int) list" where
  "expire_at_boundary b stream_slot =
    concat (map (\<lambda>(sig, pools). map (\<lambda>(idx, sp). (sig, idx)) (filter (\<lambda>(idx, sp). expired stream_slot sp) pools)) (tb_by_sig b))"

definition barrier_drop :: "tx_barrier \<Rightarrow> string \<Rightarrow> int option \<Rightarrow> tx_barrier" where
  "barrier_drop b sig pool_idx =
    (case pool_idx of
       None \<Rightarrow> b \<lparr> tb_by_sig := dpop sig (tb_by_sig b) \<rparr>
     | Some i \<Rightarrow>
         (case dget (tb_by_sig b) sig of
            None \<Rightarrow> b
          | Some row \<Rightarrow>
              if row = [] then b
              else let row' = dpop i row
                   in if row' = [] then b \<lparr> tb_by_sig := dpop sig (tb_by_sig b) \<rparr>
                      else b \<lparr> tb_by_sig := dput sig row' (tb_by_sig b) \<rparr>))"

section \<open>Well-formed barriers\<close>

lemma set_set_add [simp]: "set (set_add xs x) = insert x (set xs)"
  by (auto simp: set_add_def)

lemma distinct_set_add [simp]: "distinct (set_add xs x) = distinct xs"
  by (simp add: set_add_def)

lemma set_set_or [simp]: "set (set_or xs ys) = set xs \<union> set ys"
  unfolding set_or_def by (induction ys arbitrary: xs) auto

lemma distinct_set_or [simp]: "distinct (set_or xs ys) = distinct xs"
  unfolding set_or_def by (induction ys arbitrary: xs) auto

definition spec_ok :: "tx_spec \<Rightarrow> bool" where
  "spec_ok sp \<longleftrightarrow> distinct (sp_expected sp) \<and> distinct (sp_received sp) \<and> dict_ok (sp_versions sp)
     \<and> set (map fst (sp_versions sp)) \<subseteq> set (sp_received sp)"

definition pools_ok :: "(int, tx_spec) dict \<Rightarrow> bool" where
  "pools_ok row \<longleftrightarrow> dict_ok row \<and> dict_all (\<lambda>_. spec_ok) row"

definition barrier_ok :: "tx_barrier \<Rightarrow> bool" where
  "barrier_ok b \<longleftrightarrow> dict_ok (tb_by_sig b) \<and> length (tb_by_sig b) \<le> BARRIER_CAP
     \<and> dict_all (\<lambda>_ row. row \<noteq> [] \<and> pools_ok row) (tb_by_sig b)"

lemma dput_not_Nil [simp]: "dput k v d \<noteq> []"
  by (cases d) auto

lemma fresh_spec_ok [simp]: "spec_ok (fresh_spec slot kind pubkey variant)"
  by (simp add: spec_ok_def fresh_spec_def)

lemma dflt_spec_ok: "pools_ok row \<Longrightarrow> spec_ok d \<Longrightarrow> spec_ok (dflt row idx d)"
  by (auto simp: pools_ok_def dflt_def dest: dict_all_dget split: option.split)

lemma dflt_pools_ok: "barrier_ok b \<Longrightarrow> pools_ok (dflt (tb_by_sig b) sig [])"
  by (auto simp: barrier_ok_def dflt_def pools_ok_def [of "[]"] dest: dict_all_dget split: option.split)

lemma pools_ok_dput: "pools_ok row \<Longrightarrow> spec_ok sp \<Longrightarrow> pools_ok (dput idx sp row)"
  by (simp add: pools_ok_def dict_all_dput)

lemma spec_ok_expect: "spec_ok sp \<Longrightarrow> spec_ok (sp \<lparr> sp_expected := set_or (sp_expected sp) xs, sp_slot := sl \<rparr>)"
  by (simp add: spec_ok_def)

lemma note_expect_ok: "pools_ok row \<Longrightarrow> pools_ok (note_expect slot row e)"
  unfolding note_expect_def case_prod_unfold Let_def
  by (intro pools_ok_dput spec_ok_expect dflt_spec_ok fresh_spec_ok)

lemma note_expects_ok: "pools_ok row \<Longrightarrow> pools_ok (foldl (note_expect slot) row es)"
  by (induction es arbitrary: row) (simp_all add: note_expect_ok)

lemma note_expects_not_Nil: "es \<noteq> [] \<Longrightarrow> foldl (note_expect slot) row es \<noteq> []"
  by (induction es arbitrary: row rule: rev_induct) (auto simp: note_expect_def case_prod_unfold Let_def)

lemma dict_all_evict: "dict_all P d \<Longrightarrow> dict_all P (evict cap d)"
  by (rule dict_all_sub) (auto simp: evict_def dest: in_set_dropD)

lemma trim_ok:
  assumes "barrier_ok b" and "row \<noteq> []" and "pools_ok row"
  shows "barrier_ok (trim (b \<lparr> tb_by_sig := dput sig row (tb_by_sig b), tb_m := m \<rparr>))"
  using assms by (simp add: barrier_ok_def trim_def length_evict dict_all_evict dict_all_dput)

lemma note_tx_ok: "barrier_ok b \<Longrightarrow> barrier_ok (note_tx b sig slot es)"
  by (auto simp: note_tx_def Let_def note_expects_not_Nil intro!: trim_ok note_expects_ok dflt_pools_ok)

lemma capture_ok: "spec_ok sp \<Longrightarrow> pk \<in> set (sp_received sp) \<Longrightarrow> spec_ok (capture sp pk v)"
  by (auto simp: capture_def spec_ok_def Let_def keys_dput [unfolded set_map] split: option.split)

lemma capture_sel [simp]:
  "sp_expected (capture sp pk v) = sp_expected sp" "sp_received (capture sp pk v) = sp_received sp"
  "sp_slot (capture sp pk v) = sp_slot sp"
  by (simp_all add: capture_def Let_def split: option.split)

lemma note_pool_write_ok: "pools_ok row \<Longrightarrow> spec_ok (note_pool_write row slot i pk v)"
proof -
  assume "pools_ok row"
  then have "spec_ok (dflt row i (fresh_spec slot None None None))" by (rule dflt_spec_ok) simp
  then have "spec_ok (capture (dflt row i (fresh_spec slot None None None)
      \<lparr> sp_received := set_add (sp_received (dflt row i (fresh_spec slot None None None))) pk \<rparr>) pk v)"
    by (intro capture_ok) (auto simp: spec_ok_def)
  then show ?thesis unfolding note_pool_write_def Let_def by (simp add: spec_ok_def)
qed

lemma note_write_ok: "barrier_ok b \<Longrightarrow> barrier_ok (note_write b sig slot i pk v)"
  using trim_ok [of b "dput i (note_pool_write (dflt (tb_by_sig b) sig []) slot i pk v) (dflt (tb_by_sig b) sig [])" "tb_m b" sig]
  by (simp add: note_write_def Let_def pools_ok_dput note_pool_write_ok dflt_pools_ok)

lemma barrier_drop_ok: "barrier_ok b \<Longrightarrow> barrier_ok (barrier_drop b sig pool_idx)"
proof -
  assume ok: "barrier_ok b"
  then have pop: "barrier_ok (b \<lparr> tb_by_sig := dpop sig (tb_by_sig b) \<rparr>)"
    using length_delete_le [of sig "tb_by_sig b"] by (auto simp: barrier_ok_def dict_all_dpop)
  have "barrier_ok (b \<lparr> tb_by_sig := dput sig (dpop i row) (tb_by_sig b) \<rparr>)"
    if "dget (tb_by_sig b) sig = Some row" "dpop i row \<noteq> []" for i row
  proof -
    have "pools_ok row" using ok that(1) by (auto simp: barrier_ok_def dest: dict_all_dget)
    then have "pools_ok (dpop i row)" by (simp add: pools_ok_def dict_all_dpop)
    with ok that show ?thesis by (simp add: barrier_ok_def length_dput dict_all_dput)
  qed
  with ok pop show ?thesis by (auto simp: barrier_drop_def Let_def split: option.split)
qed

datatype barrier_event =
    EvTx string int "(int, expect_row) dict"
  | EvWrite string int int string "acc_row option"
  | EvDrop string "int option"

definition barrier_handle :: "tx_barrier \<Rightarrow> barrier_event \<Rightarrow> tx_barrier" where
  "barrier_handle b e = (case e of
       EvTx sig slot es \<Rightarrow> note_tx b sig slot es
     | EvWrite sig slot i pk v \<Rightarrow> note_write b sig slot i pk v
     | EvDrop sig i \<Rightarrow> barrier_drop b sig i)"

interpretation barrier: event_machine barrier_handle barrier_ok new_barrier
proof
  show "barrier_ok new_barrier" by (simp add: barrier_ok_def new_barrier_def)
  show "barrier_ok (barrier_handle b e)" if "barrier_ok b" for b e
    using that by (cases e) (simp_all add: barrier_handle_def note_tx_ok note_write_ok barrier_drop_ok)
qed

section \<open>What a write does to one specification\<close>

lemma trim_id: "length (tb_by_sig b) \<le> BARRIER_CAP \<Longrightarrow> tb_by_sig (trim b) = tb_by_sig b"
  by (simp add: trim_def)

lemma note_write_spec:
  assumes "dget (tb_by_sig b) sig = Some row" and "length (tb_by_sig b) \<le> BARRIER_CAP" and "dget row idx = Some sp"
  shows "\<exists>row' sp'. dget (tb_by_sig (note_write b sig slot i pk v)) sig = Some row'
    \<and> length (tb_by_sig (note_write b sig slot i pk v)) \<le> BARRIER_CAP \<and> dget row' idx = Some sp'
    \<and> sp_expected sp' = sp_expected sp
    \<and> set (sp_received sp') = set (sp_received sp) \<union> {p. p = pk \<and> i = idx \<and> sig \<noteq> [] \<and> pk \<noteq> []}"
proof (cases "sig = [] \<or> pk = []")
  case True
  then show ?thesis using assms by (auto simp: note_write_def)
next
  case False
  let ?sp = "note_pool_write row slot i pk v"
  have len: "length (dput sig (dput i ?sp row) (tb_by_sig b)) \<le> BARRIER_CAP"
    using assms by (simp add: length_dput)
  have nw: "tb_by_sig (note_write b sig slot i pk v) = dput sig (dput i ?sp row) (tb_by_sig b)"
    using False assms(1) len by (simp add: note_write_def Let_def dflt_def [of "tb_by_sig b"] trim_id)
  have "sp_expected ?sp = sp_expected sp \<and> set (sp_received ?sp) = insert pk (set (sp_received sp))" if "i = idx"
    using that assms(3) by (simp add: note_pool_write_def dflt_def Let_def)
  then show ?thesis
    using False assms(3) len
    by (intro exI [of _ "dput i ?sp row"] exI [of _ "if idx = i then ?sp else sp"]) (auto simp: nw)
qed

type_synonym acc_write = "int \<times> int \<times> string \<times> acc_row option"

definition note_writes :: "tx_barrier \<Rightarrow> string \<Rightarrow> acc_write list \<Rightarrow> tx_barrier" where
  "note_writes b sig ws = foldl (\<lambda>b (slot, i, pk, v). note_write b sig slot i pk v) b ws"

lemma note_writes_spec:
  assumes "dget (tb_by_sig b) sig = Some row" and "length (tb_by_sig b) \<le> BARRIER_CAP" and "dget row idx = Some sp"
    and "sig \<noteq> []"
  shows "\<exists>sp'. spec (note_writes b sig ws) sig idx = Some sp' \<and> sp_expected sp' = sp_expected sp
    \<and> set (sp_received sp') = set (sp_received sp) \<union> {pk. pk \<noteq> [] \<and> (\<exists>slot v. (slot, idx, pk, v) \<in> set ws)}"
  using assms
proof (induction ws arbitrary: b row sp)
  case Nil
  then show ?case by (simp add: note_writes_def spec_def dflt_def)
next
  case (Cons w ws)
  obtain slot i pk v where w: "w = (slot, i, pk, v)" by (cases w)
  obtain row' sp1 where 1: "dget (tb_by_sig (note_write b sig slot i pk v)) sig = Some row'"
    "length (tb_by_sig (note_write b sig slot i pk v)) \<le> BARRIER_CAP" "dget row' idx = Some sp1"
    "sp_expected sp1 = sp_expected sp"
    "set (sp_received sp1) = set (sp_received sp) \<union> {p. p = pk \<and> i = idx \<and> sig \<noteq> [] \<and> pk \<noteq> []}"
    using note_write_spec [OF Cons.prems(1,2,3), of slot i pk v] by blast
  from Cons.IH [OF 1(1,2,3) Cons.prems(4)] obtain sp' where 2:
    "spec (note_writes (note_write b sig slot i pk v) sig ws) sig idx = Some sp'" "sp_expected sp' = sp_expected sp1"
    "set (sp_received sp') = set (sp_received sp1) \<union> {pk. pk \<noteq> [] \<and> (\<exists>slot v. (slot, idx, pk, v) \<in> set ws)}"
    by blast
  have "note_writes b sig (w # ws) = note_writes (note_write b sig slot i pk v) sig ws"
    by (simp add: note_writes_def w)
  then show ?case using 1(4,5) 2 Cons.prems(4) by (intro exI [of _ sp']) (auto simp: w)
qed

lemma note_expects_fresh:
  assumes "dict_ok es" and "dget es idx = Some er" and "dget row idx = None"
  shows "\<exists>sp. dget (foldl (note_expect slot) row es) idx = Some sp
    \<and> set (sp_expected sp) = set (er_expected er) \<and> sp_received sp = []"
  using assms
proof (induction es arbitrary: row rule: rev_induct)
  case (snoc e es)
  obtain i x where e: "e = (i, x)" by (cases e)
  have ok: "dict_ok es" and i: "i \<notin> set (map fst es)" using snoc.prems(1) by (auto simp: dict_ok_def e)
  show ?case
  proof (cases "idx = i")
    case True
    then have "dget es idx = None" using i by (simp add: dget_None_iff)
    then have x: "x = er" using snoc.prems(2) True by (simp add: e map_add_def)
    have "dget (foldl (note_expect slot) row es) idx = None"
      using i True snoc.prems(3)
      by (induction es arbitrary: row rule: rev_induct) (auto simp: note_expect_def case_prod_unfold Let_def)
    then show ?thesis using True
      by (simp add: e note_expect_def [of slot "foldl (note_expect slot) row es"] x dflt_def fresh_spec_def Let_def)
  next
    case False
    then have "dget es idx = Some er" using snoc.prems(2) i by (auto simp: e map_add_def split: option.split_asm)
    with snoc.IH [OF ok this snoc.prems(3)] show ?thesis using False by (auto simp: e note_expect_def Let_def)
  qed
qed simp

lemma commits_iff:
  assumes "dget (tb_by_sig b) sig = None" and "sig \<noteq> []" and "length (tb_by_sig b) < BARRIER_CAP"
    and "dict_ok es" and "dget es idx = Some er" and "er_expected er \<noteq> []"
  shows "can_commit (note_writes (note_tx b sig slot es) sig ws) sig idx \<longleftrightarrow>
    set (er_expected er) \<subseteq> {pk. pk \<noteq> [] \<and> (\<exists>wslot v. (wslot, idx, pk, v) \<in> set ws)}"
proof -
  let ?b = "note_tx b sig slot es"
  let ?row = "foldl (note_expect slot) [] es"
  have es: "es \<noteq> []" using assms(5) by auto
  have len: "length (dput sig ?row (tb_by_sig b)) \<le> BARRIER_CAP" using assms(1,3) by (simp add: length_dput)
  have tx: "tb_by_sig ?b = dput sig ?row (tb_by_sig b)"
    using assms(1,2) es len by (simp add: note_tx_def Let_def dflt_def trim_id)
  obtain sp where sp: "dget ?row idx = Some sp" "set (sp_expected sp) = set (er_expected er)" "sp_received sp = []"
    using note_expects_fresh [OF assms(4,5), of "[]" slot] by auto
  have d: "dget (tb_by_sig ?b) sig = Some ?row" "length (tb_by_sig ?b) \<le> BARRIER_CAP" using len by (simp_all add: tx)
  obtain sp' where "spec (note_writes ?b sig ws) sig idx = Some sp'" "sp_expected sp' = sp_expected sp"
    "set (sp_received sp') = {pk. pk \<noteq> [] \<and> (\<exists>slot v. (slot, idx, pk, v) \<in> set ws)}"
    using note_writes_spec [OF d sp(1) assms(2), of ws] sp(3) by auto
  moreover have "sp_expected sp \<noteq> []" using sp(2) assms(6) by auto
  ultimately show ?thesis using sp(2) by (auto simp: can_commit_def list_all_iff)
qed

section \<open>Properties\<close>

text \<open>
  The barrier opens exactly when the last expected write has arrived. After a transaction
  with a new signature has been announced, and for any sequence of writes of that
  transaction, publication for a pool is allowed if and only if every account expected for
  that pool is among the accounts written for it.
\<close>
lemma barrier_commits_exactly:
  assumes "dget (tb_by_sig b) sig = None" and "sig \<noteq> []" and "length (tb_by_sig b) < BARRIER_CAP"
    and "dict_ok es" and "dget es idx = Some er" and "er_expected er \<noteq> []"
  shows "can_commit (note_writes (note_tx b sig slot es) sig ws) sig idx \<longleftrightarrow>
    set (er_expected er) \<subseteq> {pk. pk \<noteq> [] \<and> (\<exists>wslot v. (wslot, idx, pk, v) \<in> set ws)}"
  using assms by (rule commits_iff)

definition sample_expect :: "(int, expect_row) dict" where
  "sample_expect = [(3, \<lparr> er_expected = [''pair'', ''bin''], er_kind = Some ''dlmm'', er_pubkey = Some ''pair'', er_variant = None \<rparr>)]"

text \<open>
  C24: a frozen read set is exactly what was asked for, and it is coherent with its transaction:
  every row is the latest one and has data, none is from a slot after the transaction's, and
  every account the transaction was expected to write has been received and still carries,
  bit for bit, the one version captured for it, with the transaction's slot and signature.
\<close>
theorem snapshot_sound:
  assumes "snapshot b sig idx required latest = (why, Some rows)"
  shows "why = ''available'' \<and> can_commit b sig idx \<and> (\<exists>sp. spec b sig idx = Some sp
    \<and> \<not> sp_version_conflict sp \<and> map fst rows = required
    \<and> (\<forall>pk r. (pk, r) \<in> set rows \<longrightarrow> dget latest pk = Some r \<and> or_bytes (ar_data r) \<noteq> [] \<and> slot_or0 r \<le> sp_slot sp)
    \<and> (\<forall>pk\<in>set (sp_expected sp). pk \<in> set (sp_received sp) \<and> (\<exists>r. (pk, r) \<in> set rows
          \<and> dget (sp_versions sp) pk = Some (write_identity r)
          \<and> ar_slot r = Some (sp_slot sp) \<and> to_hex (or_bytes (ar_txn_sig r)) = sig)))"
proof -
  obtain sp where sp: "spec b sig idx = Some sp" using assms by (auto simp: snapshot_def split: option.split_asm)
  have c: "why = ''available''" "can_commit b sig idx" "\<not> sp_version_conflict sp" "set (sp_expected sp) \<subseteq> set required"
    "\<not> list_ex (\<lambda>pk. no_data (row_of latest pk)) required"
    "\<not> list_ex (\<lambda>pk. slot_or0 (row_of latest pk) > sp_slot sp) required"
    "check_writes sp sig (row_of latest) (sp_expected sp) = None" "rows = map (\<lambda>pk. (pk, row_of latest pk)) required"
    using assms sp by (simp_all add: snapshot_def Let_def split: if_split_asm option.split_asm)
  have w: "dget (sp_versions sp) pk = Some (write_identity (rs pk)) \<and> ar_slot (rs pk) = Some (sp_slot sp)
      \<and> to_hex (or_bytes (ar_txn_sig (rs pk))) = sig"
    if "check_writes sp sig rs pks = None" "pk \<in> set pks" for rs pks pk
    using that by (induction pks) (auto split: option.split_asm if_split_asm)
  have l: "dget latest pk = Some (row_of latest pk)" if "\<not> no_data (row_of latest pk)" for pk
    using that by (auto simp: row_of_def no_data_def empty_row_def or_bytes_def split: option.split_asm)
  show ?thesis
  proof (intro conjI exI [of _ sp] allI impI ballI)
    fix pk assume pk: "pk \<in> set (sp_expected sp)"
    then show "pk \<in> set (sp_received sp)" using c(2) sp by (auto simp: can_commit_def list_all_iff)
    show "\<exists>r. (pk, r) \<in> set rows \<and> dget (sp_versions sp) pk = Some (write_identity r)
        \<and> ar_slot r = Some (sp_slot sp) \<and> to_hex (or_bytes (ar_txn_sig r)) = sig"
      using w [OF c(7) pk] pk c(4,8) by (intro exI [of _ "row_of latest pk"]) auto
  qed (use c sp l in \<open>auto simp: list_ex_iff no_data_def comp_def\<close>)
qed

definition sample_row :: acc_row where
  "sample_row = empty_row \<lparr> ar_slot := Some 7, ar_txn_sig := Some [0xab], ar_data := Some [1] \<rparr>"

theorem snapshot_sound_witness:
  "\<exists>why rows. snapshot (note_writes (note_tx new_barrier ''ab'' 7 sample_expect) ''ab''
      [(7, 3, ''bin'', Some sample_row), (7, 3, ''pair'', Some sample_row)]) ''ab'' 3
      [''pair'', ''bin'', ''mint''] [(''pair'', sample_row), (''bin'', sample_row), (''mint'', sample_row)] = (why, Some rows)
     \<and> map fst rows = [''pair'', ''bin'', ''mint'']"
proof -
  let ?s = "snapshot (note_writes (note_tx new_barrier ''ab'' 7 sample_expect) ''ab''
      [(7, 3, ''bin'', Some sample_row), (7, 3, ''pair'', Some sample_row)]) ''ab'' 3
      [''pair'', ''bin'', ''mint''] [(''pair'', sample_row), (''bin'', sample_row), (''mint'', sample_row)]"
  have "snd ?s \<noteq> None" by code_simp
  then obtain why rows where s: "?s = (why, Some rows)" by (cases ?s) auto
  have "map fst rows = [''pair'', ''bin'', ''mint'']" using snapshot_sound [OF s] by (elim conjE exE)
  with s show ?thesis by (intro exI conjI)
qed

text \<open>
  In every reachable barrier the transactions reported at a slot boundary are exactly those
  still waiting: the pair (signature, pool) is reported if and only if it has expected
  writes, its slot is over, and something is missing. The barrier never holds more than 4096
  signatures.
\<close>
lemma expire_reports_exactly_waiting:
  "length (tb_by_sig (foldl barrier_handle new_barrier evs)) \<le> BARRIER_CAP \<and>
   ((sig, idx) \<in> set (expire_at_boundary (foldl barrier_handle new_barrier evs) stream_slot) \<longleftrightarrow>
     has_shape (foldl barrier_handle new_barrier evs) sig idx
     \<and> (\<exists>sp. spec (foldl barrier_handle new_barrier evs) sig idx = Some sp \<and> sp_slot sp < stream_slot)
     \<and> missing (foldl barrier_handle new_barrier evs) sig idx \<noteq> [])"
proof -
  define b where "b = foldl barrier_handle new_barrier evs"
  have ok: "barrier_ok b" unfolding b_def by (rule barrier.inv_run)
  have row: "dict_ok row" if "(sig, row) \<in> set (tb_by_sig b)" for row
    using ok that by (auto simp: barrier_ok_def dict_all_def list_all_iff pools_ok_def)
  have "(sig, idx) \<in> set (expire_at_boundary b stream_slot)
      \<longleftrightarrow> (\<exists>row sp. (sig, row) \<in> set (tb_by_sig b) \<and> (idx, sp) \<in> set row \<and> expired stream_slot sp)"
    unfolding expire_at_boundary_def by (fastforce simp: image_iff)
  also have "\<dots> \<longleftrightarrow> (\<exists>sp. spec b sig idx = Some sp \<and> expired stream_slot sp)"
  proof -
    have "dget (tb_by_sig b) sig = Some r" if "(sig, r) \<in> set (tb_by_sig b)" for r
      using ok that by (intro dict_ok_dget) (auto simp: barrier_ok_def)
    then show ?thesis using row
      by (auto simp: spec_def dflt_def dict_ok_dget split: option.split_asm) (blast dest: dget_in_set)
  qed
  also have "\<dots> \<longleftrightarrow> has_shape b sig idx \<and> (\<exists>sp. spec b sig idx = Some sp \<and> sp_slot sp < stream_slot) \<and> missing b sig idx \<noteq> []"
    by (auto simp: has_shape_def missing_def expired_def list_all_iff filter_empty_conv split: option.split_asm)
  finally show ?thesis using ok by (simp add: barrier_ok_def flip: b_def)
qed

end
