(* ===== verification/Tx_Expect.thy ===== *)
theory Tx_Expect
  imports Tx_Barrier Pump_Overlay
begin

text \<open>
  \<^verbatim>\<open>arb-state/shyft/txexpect.py\<close>, which derives from the instructions of a transaction the
  accounts whose writes the barrier waits for, and \<^verbatim>\<open>arb-state/shyft/overlay_n.py\<close>, which turns
  the same instructions into the steps of the Pump overlay. A transaction arrives as a
  protobuf message of the geyser stream: \<open>geyser_info\<close> has the fields the code reads of it,
  and the key encoder is the argument \<open>pk\<close>.
\<close>

section \<open>Instruction variants\<close>

definition txe_DLMM :: string where "txe_DLMM = ''LBUZKhRxPF3XUpBCjp4YzTKgLccjZhTSDM9YuVaPwxo''"
definition txe_PUMP :: string where "txe_PUMP = ''pAMMBay6oceH9fJKBRHGP5D4bD4sWpmSwMn52FMfXEA''"

definition txe_SWAP2 :: bytes where "txe_SWAP2 = [0x41, 0x4b, 0x3f, 0x4c, 0xeb, 0x5b, 0x5b, 0x88]"
definition txe_SWAP1 :: bytes where "txe_SWAP1 = [0xf8, 0xc6, 0x9e, 0x91, 0xe1, 0x75, 0x87, 0xc8]"
definition txe_SELL :: bytes where "txe_SELL = [0x33, 0xe6, 0x85, 0xa4, 0x01, 0x7f, 0x83, 0xad]"
definition txe_BUY_EQ :: bytes where "txe_BUY_EQ = [0xc6, 0x2e, 0x15, 0x52, 0xb4, 0xd9, 0xe8, 0x70]"
definition txe_BUY :: bytes where "txe_BUY = [0x66, 0x06, 0x3d, 0x12, 0x01, 0xda, 0xeb, 0xea]"

definition txe_EXACT :: "(string \<times> bytes, string) dict" where
  "txe_EXACT = [((txe_DLMM, txe_SWAP2), ''dlmm_swap2''), ((txe_DLMM, txe_SWAP1), ''dlmm_swap1''),
     ((txe_PUMP, txe_SELL), ''pump_sell''), ((txe_PUMP, txe_BUY_EQ), ''pump_buy_exact_quote''),
     ((txe_PUMP, txe_BUY), ''pump_buy_exact_out'')]"

text \<open>Account roles (\<^verbatim>\<open>submap.py\<close>) and the roles that are state of a quote.\<close>

definition ROLE_DLMM_PAIR :: string where "ROLE_DLMM_PAIR = ''dlmm_lbpair''"
definition ROLE_DLMM_BIN :: string where "ROLE_DLMM_BIN = ''dlmm_binarray''"
definition ROLE_PUMP_POOL :: string where "ROLE_PUMP_POOL = ''pump_pool''"
definition ROLE_PUMP_VAULT_BASE :: string where "ROLE_PUMP_VAULT_BASE = ''pump_vault_base''"
definition ROLE_PUMP_VAULT_QUOTE :: string where "ROLE_PUMP_VAULT_QUOTE = ''pump_vault_quote''"

lemmas role_defs = ROLE_DLMM_PAIR_def ROLE_DLMM_BIN_def ROLE_PUMP_POOL_def ROLE_PUMP_VAULT_BASE_def ROLE_PUMP_VAULT_QUOTE_def

definition DLMM_PRICING :: "string list" where "DLMM_PRICING = [ROLE_DLMM_PAIR, ROLE_DLMM_BIN]"
definition PUMP_PRICING :: "string list" where
  "PUMP_PRICING = [ROLE_PUMP_POOL, ROLE_PUMP_VAULT_BASE, ROLE_PUMP_VAULT_QUOTE]"
definition DLMM_FIXED :: nat where "DLMM_FIXED = 15"

record gix =
  gx_program :: string
  gx_accounts :: "string list"
  gx_data :: ix_data
  gx_outer :: "nat option"
  gx_inner :: "nat option"

record dep_row =
  dr_pool_idx :: int
  dr_role :: string
  dr_kind :: string

text \<open>\<^verbatim>\<open>ix.get("data") or b""\<close>; \<open>None\<close> when what is left is text.\<close>

definition gx_bytes :: "gix \<Rightarrow> bytes option" where
  "gx_bytes i = (case gx_data i of NoData \<Rightarrow> Some [] | DataText s \<Rightarrow> (if s = [] then Some [] else None) | DataBytes b \<Rightarrow> Some b)"

definition classify_ix :: "string \<Rightarrow> bytes \<Rightarrow> string option" where
  "classify_ix program data = (if data = [] \<or> length data < 8 then None else dget txe_EXACT (program, take 8 data))"

record exact_status =
  es_tx_exact :: bool
  es_n_exact :: nat
  es_n_unknown :: nat
  es_variants :: "string list"

definition ix_variant :: "gix \<Rightarrow> string option" where
  "ix_variant i = (case gx_bytes i of None \<Rightarrow> None | Some d \<Rightarrow> classify_ix (gx_program i) d)"

definition tx_exact_status :: "gix list \<Rightarrow> exact_status" where
  "tx_exact_status ixs =
    (let dex = filter (\<lambda>i. gx_program i \<in> {txe_DLMM, txe_PUMP}) ixs;
         variants = List.map_filter ix_variant dex;
         unknown = length (filter (\<lambda>i. ix_variant i = None) dex)
     in \<lparr> es_tx_exact = (length variants > 0 \<and> unknown = 0), es_n_exact = length variants,
          es_n_unknown = unknown, es_variants = variants \<rparr>)"

section \<open>Expected writes\<close>

definition txe_role_of :: "string \<Rightarrow> int \<Rightarrow> (string, dep_row list) dict \<Rightarrow> string option" where
  "txe_role_of pk idx acc_deps =
    (case dget acc_deps pk of None \<Rightarrow> None
     | Some rows \<Rightarrow> map_option dr_role (find (\<lambda>row. dr_pool_idx row = idx) rows))"

definition waits_for :: "string \<Rightarrow> int \<Rightarrow> (string, dep_row list) dict \<Rightarrow> nat \<Rightarrow> string \<Rightarrow> bool" where
  "waits_for kind pool_idx acc_deps i pk \<longleftrightarrow>
    (let pricing = (if kind = ''dlmm'' then DLMM_PRICING else PUMP_PRICING)
     in (case txe_role_of pk pool_idx acc_deps of None \<Rightarrow> False | Some role \<Rightarrow> role \<in> set pricing)
        \<or> (kind = ''dlmm'' \<and> i \<ge> DLMM_FIXED \<and> pk \<notin> {txe_DLMM, txe_PUMP}))"

definition expected_for_ix :: "string \<Rightarrow> string list \<Rightarrow> int \<Rightarrow> (string, dep_row list) dict \<Rightarrow> string list" where
  "expected_for_ix kind accounts pool_idx acc_deps =
    (case accounts of [] \<Rightarrow> []
     | a0 # _ \<Rightarrow> foldl (\<lambda>out (i, pk). if waits_for kind pool_idx acc_deps i pk then set_add out pk else out)
                  [a0] (enumerate 0 accounts))"

definition kind_of_variant :: "string \<Rightarrow> string" where
  "kind_of_variant v = (if take 4 v = ''dlmm'' then ''dlmm'' else ''pump'')"

definition add_expect ::
  "(string, dep_row list) dict \<Rightarrow> (string, int) dict \<Rightarrow> (int, expect_row) dict \<Rightarrow> gix \<Rightarrow> (int, expect_row) dict" where
  "add_expect acc_deps pools_by_pk by_idx ix =
    (case ix_variant ix of None \<Rightarrow> by_idx
     | Some variant \<Rightarrow>
       (case gx_accounts ix of [] \<Rightarrow> by_idx
        | pool # _ \<Rightarrow>
          (case dget pools_by_pk pool of None \<Rightarrow> by_idx
           | Some idx \<Rightarrow>
               let kind = kind_of_variant variant;
                   row = dflt by_idx idx \<lparr> er_expected = [], er_kind = Some kind, er_pubkey = Some pool, er_variant = Some variant \<rparr>
               in dput idx (row \<lparr> er_expected := set_or (er_expected row) (expected_for_ix kind (gx_accounts ix) idx acc_deps),
                                  er_variant := Some variant \<rparr>) by_idx)))"

definition expect_from_instructions ::
  "gix list \<Rightarrow> (string, dep_row list) dict \<Rightarrow> (string, int) dict \<Rightarrow> (int, expect_row) dict" where
  "expect_from_instructions ixs acc_deps pools_by_pk = foldl (add_expect acc_deps pools_by_pk) [] ixs"

section \<open>Reading a geyser transaction\<close>

record geyser_ix =
  gy_program_id_index :: nat
  gy_accounts :: bytes
  gy_data :: bytes

record geyser_meta =
  gm_writable :: "bytes list"
  gm_readonly :: "bytes list"
  gm_inner :: "(nat \<times> geyser_ix list) list"

record geyser_info =
  gi_signature :: bytes
  gi_account_keys :: "bytes list"
  gi_instructions :: "geyser_ix list"
  gi_meta :: "geyser_meta option"

record parsed_tx =
  pt_sig :: string
  pt_keys :: "string list"
  pt_instructions :: "gix list"

definition txe_b58 :: "(bytes \<Rightarrow> string) \<Rightarrow> bytes \<Rightarrow> string" where
  "txe_b58 pk raw = (if raw = [] then [] else pk raw)"

definition txe_ix_accounts :: "bytes \<Rightarrow> string list \<Rightarrow> string list" where
  "txe_ix_accounts raw keys = map (\<lambda>i. keys ! i) (filter (\<lambda>i. i < length keys) (map unat raw))"

definition txe_ix :: "string list \<Rightarrow> nat \<Rightarrow> nat option \<Rightarrow> geyser_ix \<Rightarrow> gix list" where
  "txe_ix keys outer inner g =
    (if gy_program_id_index g < length keys
     then [\<lparr> gx_program = keys ! gy_program_id_index g, gx_accounts = txe_ix_accounts (gy_accounts g) keys,
             gx_data = DataBytes (gy_data g), gx_outer = Some outer, gx_inner = inner \<rparr>]
     else [])"

definition geyser_inners :: "geyser_info \<Rightarrow> nat \<Rightarrow> geyser_ix list" where
  "geyser_inners info i = (case gi_meta info of None \<Rightarrow> []
     | Some m \<Rightarrow> concat (map snd (filter (\<lambda>g. fst g = i) (gm_inner m))))"

definition geyser_keys :: "(bytes \<Rightarrow> string) \<Rightarrow> geyser_info \<Rightarrow> string list" where
  "geyser_keys pk info = map (txe_b58 pk) (gi_account_keys info)
     @ (case gi_meta info of None \<Rightarrow> [] | Some m \<Rightarrow> map (txe_b58 pk) (gm_writable m) @ map (txe_b58 pk) (gm_readonly m))"

definition parse_geyser_tx :: "(bytes \<Rightarrow> string) \<Rightarrow> geyser_info \<Rightarrow> parsed_tx option" where
  "parse_geyser_tx pk info =
    (if gi_signature info = [] then None
     else let keys = geyser_keys pk info in
       Some \<lparr> pt_sig = to_hex (gi_signature info), pt_keys = keys,
         pt_instructions = concat (map (\<lambda>(i, ix). txe_ix keys i None ix
            @ concat (map (\<lambda>(j, iix). txe_ix keys i (Some j) iix) (enumerate 0 (geyser_inners info i))))
          (enumerate 0 (gi_instructions info))) \<rparr>)"

section \<open>The overlay of a parsed transaction\<close>

definition N_KIND :: "(string, string) dict" where
  "N_KIND = [(''pump_sell'', ''sell''), (''pump_buy_exact_quote'', ''buy_exact_quote_in''), (''pump_buy_exact_out'', ''buy_exact_out'')]"

definition cpi_of_parsed :: "string \<Rightarrow> gix \<Rightarrow> cpi option" where
  "cpi_of_parsed pool ix =
    (if gx_program ix \<noteq> txe_PUMP then None
     else if gx_accounts ix = [] \<or> hd (gx_accounts ix) \<noteq> pool then None
     else case gx_bytes ix of
       None \<Rightarrow> Some (unknown_cpi (Some pool) None None)
     | Some d \<Rightarrow>
       (case dget N_KIND (case classify_ix (gx_program ix) d of None \<Rightarrow> [] | Some v \<Rightarrow> v) of
          None \<Rightarrow> Some (unknown_cpi (Some pool) (gx_outer ix) (gx_inner ix))
        | Some kind \<Rightarrow>
            let accs = gx_accounts ix;
                amt = (if 16 \<le> length d then Some (uint_le (slice 8 16 d)) else None);
                mx = (if 24 \<le> length d then Some (uint_le (slice 16 24 d)) else None)
            in Some \<lparr> c_kind = kind, c_amount = amt,
                 c_max_quote = (if kind = ''buy_exact_out'' then mx else None), c_min_out = None,
                 c_pool = Some pool, c_direction = Some (if kind = ''sell'' then 1 else 0),
                 c_src_ata = (if kind = ''sell'' \<and> length accs > 5 then Some (accs ! 5) else at accs 6),
                 c_dst_ata = (if kind = ''sell'' \<and> length accs > 7 then Some (accs ! 7) else at accs 8),
                 c_outer_ix = gx_outer ix, c_inner_ordinal = gx_inner ix, c_user = None \<rparr>))"

definition cpis_from_parsed :: "gix list \<Rightarrow> string \<Rightarrow> cpi list" where
  "cpis_from_parsed ixs pool = List.map_filter (cpi_of_parsed pool) ixs"

definition apply_parsed :: "pump_row \<Rightarrow> cpi list \<Rightarrow> (pump_row option \<times> string option) res" where
  "apply_parsed last_s cpis = apply_sequence last_s cpis"

section \<open>The expected set, account by account\<close>

lemma foldl_set_add_if:
  "set (foldl (\<lambda>out x. if P x then set_add out (f x) else out) s xs) = set s \<union> f ` {x \<in> set xs. P x}"
  by (induction xs arbitrary: s) auto

lemma expected_for_ix_iff:
  "pk \<in> set (expected_for_ix kind accounts idx deps) \<longleftrightarrow>
    accounts \<noteq> [] \<and> (pk = hd accounts \<or> (\<exists>i<length accounts. accounts ! i = pk \<and> waits_for kind idx deps i pk))"
proof (cases accounts)
  case (Cons a as)
  have eq: "(\<lambda>out (i, pk). if waits_for kind idx deps i pk then set_add out pk else out)
      = (\<lambda>out x. if waits_for kind idx deps (fst x) (snd x) then set_add out (snd x) else out)"
    by (auto simp: fun_eq_iff)
  have "set (expected_for_ix kind accounts idx deps)
      = {a} \<union> snd ` {x \<in> set (enumerate 0 accounts). waits_for kind idx deps (fst x) (snd x)}"
    unfolding expected_for_ix_def eq Cons list.case foldl_set_add_if by simp
  moreover have "pk \<in> snd ` {x \<in> set (enumerate 0 accounts). waits_for kind idx deps (fst x) (snd x)}
      \<longleftrightarrow> (\<exists>i<length accounts. accounts ! i = pk \<and> waits_for kind idx deps i pk)"
    by (auto simp: in_set_enumerate_eq image_iff Bex_def)
  ultimately show ?thesis by (simp add: Cons)
qed (simp add: expected_for_ix_def)

text \<open>An instruction that makes the barrier wait for \<open>pk\<close> on behalf of pool \<open>idx\<close>.\<close>

definition ix_expects :: "(string, dep_row list) dict \<Rightarrow> (string, int) dict \<Rightarrow> int \<Rightarrow> string \<Rightarrow> gix \<Rightarrow> bool" where
  "ix_expects deps pools idx pk ix \<longleftrightarrow>
    (\<exists>v. ix_variant ix = Some v \<and> gx_accounts ix \<noteq> [] \<and> dget pools (hd (gx_accounts ix)) = Some idx
       \<and> (pk = hd (gx_accounts ix)
          \<or> (\<exists>i<length (gx_accounts ix). gx_accounts ix ! i = pk \<and> waits_for (kind_of_variant v) idx deps i pk)))"

definition expects :: "(int, expect_row) dict \<Rightarrow> int \<Rightarrow> string \<Rightarrow> bool" where
  "expects by_idx idx pk \<longleftrightarrow> (\<exists>er. dget by_idx idx = Some er \<and> pk \<in> set (er_expected er))"

lemma add_expect_iff:
  "expects (add_expect deps pools by_idx ix) idx pk \<longleftrightarrow> expects by_idx idx pk \<or> ix_expects deps pools idx pk ix"
proof (cases "ix_variant ix")
  case None
  then show ?thesis by (simp add: add_expect_def ix_expects_def)
next
  case (Some v)
  show ?thesis
  proof (cases "gx_accounts ix")
    case Nil
    then show ?thesis by (simp add: add_expect_def ix_expects_def split: option.split)
  next
    case (Cons pool rest)
    show ?thesis
    proof (cases "dget pools pool")
      case None
      then show ?thesis using Some Cons by (simp add: add_expect_def ix_expects_def)
    next
      case (Some i)
      show ?thesis
        using \<open>ix_variant ix = Some v\<close> Cons Some
        by (cases "dget by_idx i")
          (auto simp: add_expect_def ix_expects_def expects_def dflt_def Let_def expected_for_ix_iff)
    qed
  qed
qed

lemma add_expects_iff:
  "expects (foldl (add_expect deps pools) by_idx ixs) idx pk \<longleftrightarrow> expects by_idx idx pk \<or> (\<exists>ix\<in>set ixs. ix_expects deps pools idx pk ix)"
  by (induction ixs arbitrary: by_idx) (auto simp: add_expect_iff)

lemma add_expect_ok: "dict_ok by_idx \<Longrightarrow> dict_ok (add_expect deps pools by_idx ix)"
  by (simp add: add_expect_def Let_def split: option.split list.split)

lemma expect_ok: "dict_ok (expect_from_instructions ixs deps pools)"
proof -
  have "dict_ok (foldl (add_expect deps pools) by_idx ixs)" if "dict_ok by_idx" for by_idx
    using that by (induction ixs arbitrary: by_idx) (simp_all add: add_expect_ok)
  then show ?thesis by (simp add: expect_from_instructions_def)
qed

section \<open>The same transaction over RPC\<close>

text \<open>The JSON rendering of a geyser transaction, as \<^verbatim>\<open>pump_overlay.walk_cpis\<close> reads it.\<close>

definition rpc_ix :: "geyser_ix \<Rightarrow> ix" where
  "rpc_ix g = \<lparr> ix_programId = None, ix_programIdIndex = Some (gy_program_id_index g),
     ix_data_of = DataBytes (gy_data g), ix_accounts_of = AccIndexes (map unat (gy_accounts g)) \<rparr>"

definition rpc_tx :: "(bytes \<Rightarrow> string) \<Rightarrow> geyser_info \<Rightarrow> tx" where
  "rpc_tx pk info =
    \<lparr> tx_accountKeys = map (\<lambda>k. KeyText (txe_b58 pk k)) (gi_account_keys info),
      tx_writable = (case gi_meta info of None \<Rightarrow> [] | Some m \<Rightarrow> map (txe_b58 pk) (gm_writable m)),
      tx_readonly = (case gi_meta info of None \<Rightarrow> [] | Some m \<Rightarrow> map (txe_b58 pk) (gm_readonly m)),
      tx_instructions = map rpc_ix (gi_instructions info),
      tx_inner = (case gi_meta info of None \<Rightarrow> [] | Some m \<Rightarrow> map (\<lambda>(i, xs). (i, map rpc_ix xs)) (gm_inner m)) \<rparr>"

text \<open>The fields only one of the two decoders fills; the overlay reads neither.\<close>

definition strip :: "cpi \<Rightarrow> cpi" where
  "strip c = c \<lparr> c_min_out := None, c_user := None \<rparr>"

definition long_pump_data :: "string list \<Rightarrow> geyser_ix \<Rightarrow> bool" where
  "long_pump_data keys g \<longleftrightarrow>
    (gy_program_id_index g < length keys \<and> keys ! gy_program_id_index g = txe_PUMP \<longrightarrow> 16 \<le> length (gy_data g))"

lemma flatten_rpc: "flatten_keys (rpc_tx pk info) = geyser_keys pk info"
  by (simp add: flatten_keys_def rpc_tx_def geyser_keys_def comp_def split: option.split)

lemma inners_rpc: "inners_by (rpc_tx pk info) i = map rpc_ix (geyser_inners info i)"
  by (simp add: inners_by_def rpc_tx_def geyser_inners_def filter_map comp_def case_prod_unfold map_concat split: option.split)

lemma kind_of_disc:
  "dget N_KIND (case dget txe_EXACT (txe_PUMP, disc) of None \<Rightarrow> [] | Some v \<Rightarrow> v) = dget KIND disc"
proof -
  have "txe_PUMP \<noteq> txe_DLMM" "txe_SELL = SELL" "txe_BUY_EQ = BUY_EQ" "txe_BUY = BUY_OUT"
    by (simp_all add: txe_PUMP_def txe_DLMM_def txe_SELL_def SELL_def txe_BUY_EQ_def BUY_EQ_def txe_BUY_def BUY_OUT_def)
  then show ?thesis by (auto simp: N_KIND_def KIND_def txe_EXACT_def)
qed

lemma pump_same: "txe_PUMP = PUMP_AMM"
  by (simp add: txe_PUMP_def PUMP_AMM_def)

lemma accounts_same: "ix_account_names (rpc_ix g) keys = txe_ix_accounts (gy_accounts g) keys"
  by (simp add: ix_account_names_def rpc_ix_def txe_ix_accounts_def)

lemma decode_agrees:
  assumes "long_pump_data keys g"
  shows "List.map_filter (cpi_of_parsed pool) (txe_ix keys i inner g)
    = map strip (filter (\<lambda>c. c_pool c = Some pool) (opt_list (decode_ix (rpc_ix g) keys i inner)))"
proof (cases "gy_program_id_index g < length keys \<and> keys ! gy_program_id_index g = txe_PUMP")
  case False
  then have "ix_program (rpc_ix g) keys \<noteq> Some PUMP_AMM"
    by (auto simp: ix_program_def rpc_ix_def pump_same PUMP_AMM_def)
  then show ?thesis using False
    by (auto simp: decode_ix_def opt_list_def txe_ix_def cpi_of_parsed_def List.map_filter_simps)
next
  case True
  let ?accs = "txe_ix_accounts (gy_accounts g) keys"
  have len: "16 \<le> length (gy_data g)" using assms True by (simp add: long_pump_data_def)
  then have c: "classify_ix txe_PUMP (gy_data g) = dget txe_EXACT (txe_PUMP, take 8 (gy_data g))"
    by (auto simp: classify_ix_def)
  have raw: "ix_raw (rpc_ix g) = gy_data g" and prog: "ix_program (rpc_ix g) keys = Some PUMP_AMM"
    using True by (simp_all add: ix_raw_def ix_program_def rpc_ix_def pump_same)
  have tx: "txe_ix keys i inner g = [\<lparr> gx_program = txe_PUMP, gx_accounts = ?accs,
      gx_data = DataBytes (gy_data g), gx_outer = Some i, gx_inner = inner \<rparr>]"
    using True by (simp add: txe_ix_def)
  show ?thesis
    using len
    by (cases "?accs"; cases "dget KIND (take 8 (gy_data g))")
      (auto simp: tx decode_ix_def raw prog accounts_same cpi_of_parsed_def gx_bytes_def c kind_of_disc opt_list_def
        List.map_filter_simps strip_def unknown_cpi_def at_def Let_def PUMP_DIR_BASE_TO_QUOTE_def PUMP_DIR_QUOTE_TO_BASE_def)
qed

lemma map_filter_append [simp]: "List.map_filter f (xs @ ys) = List.map_filter f xs @ List.map_filter f ys"
  by (simp add: List.map_filter_def)

lemma map_filter_concat: "List.map_filter f (concat xss) = concat (map (List.map_filter f) xss)"
  by (induction xss) (simp_all add: List.map_filter_simps)

lemma enumerate_map: "enumerate n (map f xs) = map (\<lambda>(i, x). (i, f x)) (enumerate n xs)"
  by (induction xs arbitrary: n) simp_all

lemma walk_outer_agrees:
  assumes "long_pump_data keys ox" and "list_all (long_pump_data keys) (geyser_inners info i)"
  shows "List.map_filter (cpi_of_parsed pool)
      (txe_ix keys i None ox @ concat (map (\<lambda>(j, iix). txe_ix keys i (Some j) iix) (enumerate 0 (geyser_inners info i))))
    = map strip (filter (\<lambda>c. c_pool c = Some pool) (walk_outer (rpc_tx pk info) keys i (rpc_ix ox)))"
proof -
  have "concat (map (\<lambda>(j, iix). List.map_filter (cpi_of_parsed pool) (txe_ix keys i (Some j) iix)) (enumerate n xs))
    = map strip (filter (\<lambda>c. c_pool c = Some pool)
        (concat (map (\<lambda>(j, x). opt_list (decode_ix (rpc_ix x) keys i (Some j))) (enumerate n xs))))"
    if "list_all (long_pump_data keys) xs" for xs n
    using that by (induction xs arbitrary: n) (simp_all add: decode_agrees)
  with assms show ?thesis
    by (simp add: walk_outer_def inners_rpc enumerate_map decode_agrees map_filter_concat comp_def case_prod_unfold)
qed

lemma strip_sel [simp]: "c_kind (strip c) = c_kind c" "c_amount (strip c) = c_amount c" "c_max_quote (strip c) = c_max_quote c"
  by (simp_all add: strip_def)

lemma apply_cpi_strip [simp]: "apply_cpi s (strip c) = apply_cpi s c"
  by (simp only: apply_cpi_def strip_sel)

lemma sequence_loop_strip: "sequence_loop s (map strip cs) = sequence_loop s cs"
proof (induction cs arbitrary: s)
  case (Cons c cs)
  then show ?case by (auto intro!: arg_cong2 [where f = rbind] simp: fun_eq_iff split: option.split)
qed simp

lemma apply_sequence_strip: "apply_sequence s (map strip cs) = apply_sequence s cs"
  by (simp add: apply_sequence_def sequence_loop_strip list_ex_iff)

section \<open>Properties\<close>

text \<open>
  C25: the accounts the barrier is told to wait for are exactly right. An account is expected
  for a pool if and only if some recognised swap instruction of the transaction is on that
  pool and the account is the pool itself, or one of its accounts with a pricing role, or,
  for a DLMM swap, one of the trailing bin-array accounts.
\<close>
theorem expected_writes_exact:
  "dict_ok (expect_from_instructions ixs deps pools) \<and>
   ((\<exists>er. dget (expect_from_instructions ixs deps pools) idx = Some er \<and> pk \<in> set (er_expected er)) \<longleftrightarrow>
     (\<exists>ix v. ix \<in> set ixs \<and> ix_variant ix = Some v \<and> gx_accounts ix \<noteq> []
        \<and> dget pools (hd (gx_accounts ix)) = Some idx
        \<and> (pk = hd (gx_accounts ix)
           \<or> (\<exists>i<length (gx_accounts ix). gx_accounts ix ! i = pk
               \<and> ((\<exists>role. txe_role_of pk idx deps = Some role
                     \<and> role \<in> (if take 4 v = ''dlmm'' then {''dlmm_lbpair'', ''dlmm_binarray''}
                               else {''pump_pool'', ''pump_vault_base'', ''pump_vault_quote''}))
                  \<or> (take 4 v = ''dlmm'' \<and> 15 \<le> i \<and> pk \<noteq> txe_DLMM \<and> pk \<noteq> txe_PUMP))))))"
proof -
  have w: "waits_for (kind_of_variant v) idx deps i pk \<longleftrightarrow>
      (\<exists>role. txe_role_of pk idx deps = Some role
         \<and> role \<in> (if take 4 v = ''dlmm'' then {''dlmm_lbpair'', ''dlmm_binarray''}
                   else {''pump_pool'', ''pump_vault_base'', ''pump_vault_quote''}))
      \<or> (take 4 v = ''dlmm'' \<and> 15 \<le> i \<and> pk \<noteq> txe_DLMM \<and> pk \<noteq> txe_PUMP)" for v i
    by (cases "txe_role_of pk idx deps")
      (simp_all add: waits_for_def kind_of_variant_def Let_def DLMM_FIXED_def DLMM_PRICING_def PUMP_PRICING_def role_defs)
  show ?thesis
    using add_expects_iff [of deps pools "[]" ixs idx pk] expect_ok [of ixs deps pools]
    unfolding expects_def ix_expects_def expect_from_instructions_def w by (simp add: Bex_def conj_assoc)
qed


definition sample_info :: geyser_info where
  "sample_info = \<lparr> gi_signature = [7], gi_account_keys = [[1], [2]],
     gi_instructions = [\<lparr> gy_program_id_index = 1, gy_accounts = [0], gy_data = txe_SELL @ le_bytes 8 5 \<rparr>], gi_meta = None \<rparr>"

definition sample_pk :: "bytes \<Rightarrow> string" where
  "sample_pk raw = (if raw = [2] then txe_PUMP else ''pool'')"


end
