(* ===== verification/Exec_Gates.thy ===== *)
theory Exec_Gates
  imports Base58 "HOL-Library.Sublist"
begin

text \<open>
  \<^verbatim>\<open>arb-exec/scripts/exec_gates.py\<close>: the gates an opportunity passes before anything is sent.
  The plane file is indexed by pool; the gate combines the journal's record of the
  opportunity, the plane row of its pool, the READY file and the cooldown file. JSON values
  that the code converts with \<^verbatim>\<open>int(...)\<close> are \<open>num\<close> where a failing conversion is handled, and
  \<^verbatim>\<open>True\<close> is the integer 1, to which Python compares it equal.
\<close>

section \<open>Constants and the fee floor\<close>

definition MAX_IN :: int where "MAX_IN = 50000000"
definition MIN_IN :: int where "MIN_IN = 10000000"
definition ROUTE0_FAMILIES :: "int list" where "ROUTE0_FAMILIES = [0, 5]"
definition SUPPORTED_SEQ :: "string list" where "SUPPORTED_SEQ = [''dlmm-pump'', ''pump-dlmm'']"
definition CU_LIMIT :: int where "CU_LIMIT = 400000"
definition CU_PRICE :: int where "CU_PRICE = 800000"
definition SIG_FEE :: int where "SIG_FEE = 5000"
definition SWQOS_UNIT :: int where "SWQOS_UNIT = 150000"
definition SAFETY :: int where "SAFETY = 50000"

definition wire_hurdle :: "int \<Rightarrow> int \<Rightarrow> int" where
  "wire_hurdle cu_limit cu_price = cu_limit * cu_price div 1000000 + SIG_FEE + SWQOS_UNIT + SAFETY"

definition HURDLE :: int where "HURDLE = wire_hurdle CU_LIMIT CU_PRICE"

definition AUTH_READY_DEFAULT :: string where "AUTH_READY_DEFAULT = ''/home/louis/captures/state008/READY''"
definition STATE007_READY_ALIAS :: string where "STATE007_READY_ALIAS = ''/home/louis/captures/state007/READY''"

section \<open>Names of pools\<close>

text \<open>\<^verbatim>\<open>s.strip()\<close> and \<^verbatim>\<open>s.rstrip(c)\<close>\<close>

definition rstrip_by :: "(char \<Rightarrow> bool) \<Rightarrow> string \<Rightarrow> string" where
  "rstrip_by P s = rev (dropWhile P (rev s))"

definition strip_ws :: "string \<Rightarrow> string" where
  "strip_ws s = rstrip_by is_space (dropWhile is_space s)"

definition pool_pubkey :: "string \<Rightarrow> string" where
  "pool_pubkey pool =
    (let text = strip_ws pool in
     if length text = 64
     then (case from_hex text of
             Inl _ \<Rightarrow> text
           | Inr raw \<Rightarrow> if length raw = 32 then gates_b58encode raw else text)
     else text)"

datatype num = NNone | NInt int | NBad

definition v1_executable :: "num \<Rightarrow> num \<Rightarrow> string option \<Rightarrow> bool" where
  "v1_executable family n_hop seq =
    (case seq of
       Some s \<Rightarrow> if s \<noteq> [] then s \<in> set SUPPORTED_SEQ else
         (case family of NInt fam \<Rightarrow> \<not> (case n_hop of NInt h \<Rightarrow> h \<ge> 3 | _ \<Rightarrow> False) \<and> fam \<in> set ROUTE0_FAMILIES | _ \<Rightarrow> False)
     | None \<Rightarrow>
         (case family of NInt fam \<Rightarrow> \<not> (case n_hop of NInt h \<Rightarrow> h \<ge> 3 | _ \<Rightarrow> False) \<and> fam \<in> set ROUTE0_FAMILIES | _ \<Rightarrow> False))"

definition resolve_auth_ready :: "string option \<Rightarrow> string \<times> string option" where
  "resolve_auth_ready env_value =
    (case env_value of
       None \<Rightarrow> (AUTH_READY_DEFAULT, None)
     | Some v \<Rightarrow>
         if v = [] then (AUTH_READY_DEFAULT, None)
         else let norm = rstrip_by (\<lambda>c. c = CHR ''/'') (map (\<lambda>c. if c = CHR 0x5C then CHR ''/'' else c) v) in
           if norm = STATE007_READY_ALIAS \<or> sublist ''/captures/state007/'' norm then (norm, Some ''state007_ready_cannot_arm'')
           else if norm \<noteq> AUTH_READY_DEFAULT then (norm, Some ''auth_ready_path_not_mandatory'')
           else (norm, None))"

section \<open>The plane\<close>

record route =
  rt_dlmm :: "string option"
  rt_pump :: "string option"
  rt_RACE_READY :: bool
  rt_race_ready :: "int option"
  rt_vector_ready :: "int option"
  rt_tmpl0 :: "string option"
  rt_tmpl1 :: "string option"

type_synonym pair_key = "string option \<times> string option"

definition route_pair :: "route \<Rightarrow> pair_key" where
  "route_pair r = (rt_dlmm r, rt_pump r)"

text \<open>\<^verbatim>\<open>for key in pair: if not key: continue\<close>\<close>

definition route_keys :: "route \<Rightarrow> string list" where
  "route_keys r = List.map_filter (\<lambda>k. case k of Some s \<Rightarrow> if s = [] then None else Some s | None \<Rightarrow> None) [rt_dlmm r, rt_pump r]"

definition own_key :: "'p \<Rightarrow> (string, 'p) dict \<times> string list \<Rightarrow> string \<Rightarrow> (string, 'p) dict \<times> string list" where
  "own_key pair st key =
    (let (owners, ambiguous) = st
     in (dput key pair owners,
         case dget owners key of None \<Rightarrow> ambiguous
         | Some prev \<Rightarrow> if prev \<noteq> pair then List.insert key ambiguous else ambiguous))"

definition own_route :: "(string, pair_key) dict \<times> string list \<Rightarrow> route \<Rightarrow> (string, pair_key) dict \<times> string list" where
  "own_route st r = foldl (own_key (route_pair r)) st (route_keys r)"

definition ambiguous_pool_keys :: "route list \<Rightarrow> string list" where
  "ambiguous_pool_keys routes = snd (foldl own_route ([], []) routes)"

record plane_rec =
  pl_dlmm :: "string option"
  pl_pump :: "string option"
  pl_race_ready :: int
  pl_hops_race_ready :: int
  pl_vector_ready :: int
  pl_tmpl0 :: "string option"
  pl_tmpl1 :: "string option"
  pl_ambiguous :: int

definition truthy :: "string option \<Rightarrow> bool" where
  "truthy s = (case s of None \<Rightarrow> False | Some t \<Rightarrow> t \<noteq> [])"

definition num_or0 :: "int option \<Rightarrow> int" where
  "num_or0 v = (case v of None \<Rightarrow> 0 | Some n \<Rightarrow> n)"

definition plane_rec_of :: "string list \<Rightarrow> route \<Rightarrow> string \<Rightarrow> plane_rec" where
  "plane_rec_of ambiguous r key =
    (let ready = rt_RACE_READY r \<and> truthy (rt_tmpl0 r) \<and> truthy (rt_tmpl1 r)
     in \<lparr> pl_dlmm = rt_dlmm r, pl_pump = rt_pump r,
          pl_race_ready = (if key \<in> set ambiguous then 0 else if ready then 1 else 0),
          pl_hops_race_ready = num_or0 (rt_race_ready r), pl_vector_ready = num_or0 (rt_vector_ready r),
          pl_tmpl0 = rt_tmpl0 r, pl_tmpl1 = rt_tmpl1 r, pl_ambiguous = (if key \<in> set ambiguous then 1 else 0) \<rparr>)"

definition index_route :: "string list \<Rightarrow> (string, plane_rec) dict \<Rightarrow> route \<Rightarrow> (string, plane_rec) dict" where
  "index_route ambiguous by_key r = foldl (\<lambda>m key. dput key (plane_rec_of ambiguous r key) m) by_key (route_keys r)"

definition index_plane :: "route list \<Rightarrow> (string, plane_rec) dict" where
  "index_plane routes = foldl (index_route (ambiguous_pool_keys routes)) [] routes"

definition plane_row :: "(string, plane_rec) dict \<Rightarrow> string \<Rightarrow> plane_rec option" where
  "plane_row plane pool =
    (if pool = [] then None
     else case dget plane pool of Some row \<Rightarrow> Some row | None \<Rightarrow> dget plane (pool_pubkey pool))"

section \<open>The gates\<close>

record flags =
  fl_tx_exact :: int
  fl_plane_race_ready :: int
  fl_both :: int

definition race_flags :: "int option \<Rightarrow> int option \<Rightarrow> flags" where
  "race_flags journal plane_ready =
    (let t = (if journal = Some 1 then 1 else 0); p = (if plane_ready = Some 1 then 1 else 0)
     in \<lparr> fl_tx_exact = t, fl_plane_race_ready = p, fl_both = (if t = 1 \<and> p = 1 then 1 else 0) \<rparr>)"

text \<open>The cooldown file: route name to its \<^verbatim>\<open>SEND_BLOCKED\<close> flag.\<close>

definition route_blocked :: "string \<Rightarrow> (string, bool) dict \<Rightarrow> bool" where
  "route_blocked pool routes =
    (dget routes pool = Some True
     \<or> (pool_pubkey pool \<noteq> pool \<and> dget routes (pool_pubkey pool) = Some True)
     \<or> (let name = (if pool_pubkey pool = [] then pool else pool_pubkey pool); pref = take 8 name
        in list_ex (\<lambda>(key, blocked). blocked \<and> (prefix pref key \<or> prefix key name)) routes))"

record opp =
  op_class :: "string option"
  op_pool :: string
  op_race_ready :: "int option"
  op_direction :: "int option"
  op_cap_ok :: bool
  op_cap_gross :: "int option"
  op_seq :: "string option"
  op_arb_seq :: "string option"
  op_family :: num
  op_arb_family :: num
  op_n_hop :: num
  op_arb_n_hop :: num

definition framed_ready :: "opp \<Rightarrow> (string, plane_rec) dict \<Rightarrow> bool \<Rightarrow> bool" where
  "framed_ready rec plane ready_exists =
    (let row = plane_row plane (op_pool rec);
         fl = race_flags (op_race_ready rec) (map_option pl_race_ready row)
     in op_class rec = Some ''framed'' \<and> fl_both fl = 1 \<and> ready_exists \<and> op_pool rec \<noteq> []
        \<and> (case row of None \<Rightarrow> False | Some r \<Rightarrow> truthy (pl_tmpl0 r) \<and> truthy (pl_tmpl1 r)))"

definition opp_seq :: "opp \<Rightarrow> string option" where
  "opp_seq rec = (if truthy (op_seq rec) then op_seq rec else if truthy (op_arb_seq rec) then op_arb_seq rec else None)"

definition first_num :: "num \<Rightarrow> num \<Rightarrow> num" where
  "first_num a b = (if a = NNone then b else a)"

definition shape_ok :: "opp \<Rightarrow> bool" where
  "shape_ok rec =
    (let sq = opp_seq rec; fam = first_num (op_family rec) (op_arb_family rec); hops = first_num (op_n_hop rec) (op_arb_n_hop rec)
     in if sq \<noteq> None \<or> fam \<noteq> NNone \<or> hops \<noteq> NNone then v1_executable fam hops sq else True)"

definition size_gate :: "opp \<Rightarrow> (string, plane_rec) dict \<Rightarrow> bool \<Rightarrow> (string, bool) dict \<Rightarrow> (int \<times> int) option" where
  "size_gate rec plane ready_exists cool =
    (if \<not> framed_ready rec plane ready_exists then None
     else if op_direction rec \<noteq> Some 0 \<and> op_direction rec \<noteq> Some 1 then None
     else if route_blocked (op_pool rec) cool then None
     else if \<not> op_cap_ok rec then None
     else let gross = num_or0 (op_cap_gross rec) in
       if MAX_IN < MIN_IN \<or> gross \<le> HURDLE then None
       else if \<not> shape_ok rec then None
       else Some (MAX_IN, gross))"

definition classify_opp ::
  "opp \<Rightarrow> (string, plane_rec) dict \<Rightarrow> bool \<Rightarrow> (string, bool) dict \<Rightarrow> num \<Rightarrow> num \<Rightarrow> string option \<Rightarrow> string" where
  "classify_opp rec plane ready_exists cool family n_hop seq =
    (if (family \<noteq> NNone \<or> n_hop \<noteq> NNone \<or> truthy seq) \<and> \<not> v1_executable family n_hop seq then ''not_v1_executable''
     else if op_class rec \<noteq> Some ''framed'' then ''not_framed''
     else if op_race_ready rec \<noteq> Some 1 then ''ix_only''
     else if \<not> ready_exists then ''ready_file_missing''
     else case plane_row plane (op_pool rec) of
       None \<Rightarrow> ''plane_miss''
     | Some row \<Rightarrow>
         if pl_ambiguous row = 1 then ''ambiguous_pool''
         else if pl_race_ready row \<noteq> 1 \<or> \<not> truthy (pl_tmpl0 row) \<or> \<not> truthy (pl_tmpl1 row) then ''plane_not_race_ready''
         else if op_direction rec \<noteq> Some 0 \<and> op_direction rec \<noteq> Some 1 then ''bad_direction''
         else if route_blocked (op_pool rec) cool then ''cooldown''
         else if \<not> op_cap_ok rec then ''cap_not_ok''
         else if MAX_IN < MIN_IN \<or> num_or0 (op_cap_gross rec) \<le> HURDLE then ''below_oneshot_hurdle''
         else if size_gate rec plane ready_exists cool = None then ''size_gate''
         else ''would_fire'')"

section \<open>Ambiguous keys are exactly the shared ones\<close>

text \<open>The (key, pair) events in file order; \<open>own_key\<close> compares each with the previous owner.\<close>

definition key_events :: "route list \<Rightarrow> (string \<times> pair_key) list" where
  "key_events routes = concat (map (\<lambda>r. map (\<lambda>k. (k, route_pair r)) (route_keys r)) routes)"

lemma own_route_events:
  "foldl own_route st routes = foldl (\<lambda>st (k, p). own_key p st k) st (key_events routes)"
proof (induction routes arbitrary: st)
  case (Cons r routes)
  have "own_route st r = foldl (\<lambda>st (k, p). own_key p st k) st (map (\<lambda>k. (k, route_pair r)) (route_keys r))"
    by (simp add: own_route_def foldl_map)
  then show ?case using Cons by (simp add: key_events_def)
qed (simp add: key_events_def)

text \<open>What the scan knows: the owner of a key is one of its pairs, and without ambiguity the only one.\<close>

definition scan_ok :: "(string \<times> 'p) list \<Rightarrow> (string, 'p) dict \<times> string list \<Rightarrow> bool" where
  "scan_ok evs st \<longleftrightarrow>
    (\<forall>k. dget (fst st) k = None \<longleftrightarrow> k \<notin> fst ` set evs)
    \<and> (\<forall>k p. dget (fst st) k = Some p \<longrightarrow> (k, p) \<in> set evs)
    \<and> (\<forall>k. k \<in> set (snd st) \<longleftrightarrow> (\<exists>p q. (k, p) \<in> set evs \<and> (k, q) \<in> set evs \<and> p \<noteq> q))"

lemma scan_ok_step: "scan_ok evs st \<Longrightarrow> scan_ok (evs @ [(k, p)]) (own_key p st k)"
proof -
  assume ok: "scan_ok evs st"
  obtain owners amb where st: "st = (owners, amb)" by (cases st)
  have 1: "dget owners x = None \<longleftrightarrow> x \<notin> fst ` set evs" and 2: "dget owners x = Some q \<Longrightarrow> (x, q) \<in> set evs"
    and 3: "x \<in> set amb \<longleftrightarrow> (\<exists>p q. (x, p) \<in> set evs \<and> (x, q) \<in> set evs \<and> p \<noteq> q)" for x q
    using ok by (simp_all add: scan_ok_def st)
  have amb: "x \<in> set (snd (own_key p st k)) \<longleftrightarrow> x \<in> set amb \<or> (x = k \<and> (\<exists>q. dget owners k = Some q \<and> q \<noteq> p))" for x
    by (auto simp: own_key_def st split: option.split)
  have fst: "fst (own_key p st k) = dput k p owners" by (simp add: own_key_def st)
  have new: "x \<in> set amb \<or> (x = k \<and> (\<exists>q. dget owners k = Some q \<and> q \<noteq> p))
      \<longleftrightarrow> (\<exists>p' q. (x, p') \<in> set (evs @ [(k, p)]) \<and> (x, q) \<in> set (evs @ [(k, p)]) \<and> p' \<noteq> q)" for x
  proof (cases "x = k")
    case True
    show ?thesis
    proof
      assume "x \<in> set amb \<or> (x = k \<and> (\<exists>q. dget owners k = Some q \<and> q \<noteq> p))"
      then show "\<exists>p' q. (x, p') \<in> set (evs @ [(k, p)]) \<and> (x, q) \<in> set (evs @ [(k, p)]) \<and> p' \<noteq> q"
        using 2 3 True by auto
    next
      assume "\<exists>p' q. (x, p') \<in> set (evs @ [(k, p)]) \<and> (x, q) \<in> set (evs @ [(k, p)]) \<and> p' \<noteq> q"
      then obtain q where q: "(k, q) \<in> set evs" "q \<noteq> p \<or> x \<in> set amb" using True 3 by auto
      then obtain o1 where o1: "dget owners k = Some o1" using 1 [of k] by (cases "dget owners k") force+
      then have "o1 \<noteq> p \<or> x \<in> set amb" using q 2 [OF o1] 3 [of x] True by blast
      then show "x \<in> set amb \<or> (x = k \<and> (\<exists>q. dget owners k = Some q \<and> q \<noteq> p))" using o1 True by blast
    qed
  next
    case False
    then show ?thesis using 3 by auto
  qed
  show ?thesis unfolding scan_ok_def amb new fst using 1 2 by (auto split: if_split_asm)
qed

lemma scan_ok_events: "scan_ok evs (foldl (\<lambda>st (k, p). own_key p st k) ([], []) evs)"
proof (induction evs rule: rev_induct)
  case (snoc e evs)
  then show ?case using scan_ok_step [of evs _ "fst e" "snd e"] by (simp add: case_prod_unfold)
qed (simp add: scan_ok_def)

lemma key_events_iff: "(k, p) \<in> set (key_events routes) \<longleftrightarrow> (\<exists>r\<in>set routes. k \<in> set (route_keys r) \<and> p = route_pair r)"
  by (auto simp: key_events_def)

lemma ambiguous_iff:
  "k \<in> set (ambiguous_pool_keys routes) \<longleftrightarrow>
    (\<exists>r\<in>set routes. \<exists>r'\<in>set routes. k \<in> set (route_keys r) \<and> k \<in> set (route_keys r') \<and> route_pair r \<noteq> route_pair r')"
proof -
  have "k \<in> set (ambiguous_pool_keys routes) \<longleftrightarrow>
      (\<exists>p q. (k, p) \<in> set (key_events routes) \<and> (k, q) \<in> set (key_events routes) \<and> p \<noteq> q)"
    using scan_ok_events [of "key_events routes"] unfolding ambiguous_pool_keys_def own_route_events scan_ok_def by blast
  then show ?thesis unfolding key_events_iff by blast
qed

section \<open>The index\<close>

lemma index_route_dget:
  "dget (index_route amb m r) k = (if k \<in> set (route_keys r) then Some (plane_rec_of amb r k) else dget m k)"
proof -
  have "dget (foldl (\<lambda>m key. dput key (plane_rec_of amb r key) m) m ks) k
      = (if k \<in> set ks then Some (plane_rec_of amb r k) else dget m k)" for ks
    by (induction ks arbitrary: m) auto
  then show ?thesis by (simp add: index_route_def)
qed

lemma index_routes_dget:
  "dget (foldl (index_route amb) m routes) k = Some row \<Longrightarrow>
    dget m k = Some row \<or> (\<exists>r\<in>set routes. k \<in> set (route_keys r) \<and> row = plane_rec_of amb r k)"
proof (induction routes arbitrary: m)
  case (Cons r routes)
  then have "dget (index_route amb m r) k = Some row \<or> (\<exists>r\<in>set routes. k \<in> set (route_keys r) \<and> row = plane_rec_of amb r k)"
    by simp
  then show ?case by (auto simp: index_route_dget split: if_split_asm)
qed simp

lemma index_plane_dget:
  assumes "dget (index_plane routes) k = Some row"
  obtains r where "r \<in> set routes" "k \<in> set (route_keys r)" "row = plane_rec_of (ambiguous_pool_keys routes) r k"
  using assms index_routes_dget [of "ambiguous_pool_keys routes" "[]" routes k row] by (auto simp: index_plane_def)

lemma plane_row_key:
  assumes "plane_row plane pool = Some row"
  shows "\<exists>k. (k = pool \<or> k = pool_pubkey pool) \<and> dget plane k = Some row"
  using assms by (auto simp: plane_row_def split: if_split_asm option.split_asm)

lemma framed_ready_row:
  assumes "framed_ready rec plane ready"
  obtains row where "plane_row plane (op_pool rec) = Some row" "pl_race_ready row = 1" "op_race_ready rec = Some 1"
    "op_class rec = Some ''framed''" "ready" "truthy (pl_tmpl0 row)" "truthy (pl_tmpl1 row)"
  using assms by (auto simp: framed_ready_def race_flags_def Let_def split: if_split_asm option.split_asm)

lemma HURDLE_val: "HURDLE = 525000"
  by (simp add: HURDLE_def wire_hurdle_def CU_LIMIT_def CU_PRICE_def SIG_FEE_def SWQOS_UNIT_def SAFETY_def)

section \<open>Properties\<close>

text \<open>
  C1: nothing is sent unless every gate holds. A size comes out of the gate only for an exact,
  framed opportunity with the READY file present, whose pool is on the plane under exactly
  one DLMM/Pump pair, ready and with both templates, not in cooldown, in a known direction,
  and with a capped gross above 525000 lamports; the size is the frozen 50000000.
\<close>
theorem size_gate_safe:
  assumes "size_gate rec (index_plane routes) ready cool = Some (amt, gross)"
  shows "amt = 50000000 \<and> gross > 525000 \<and> op_cap_gross rec = Some gross \<and> op_cap_ok rec \<and> ready
    \<and> op_class rec = Some ''framed'' \<and> op_race_ready rec = Some 1 \<and> op_direction rec \<in> {Some 0, Some 1}
    \<and> \<not> route_blocked (op_pool rec) cool \<and> shape_ok rec
    \<and> (\<exists>r\<in>set routes. \<exists>k. (k = op_pool rec \<or> k = pool_pubkey (op_pool rec)) \<and> k \<in> set (route_keys r)
        \<and> rt_RACE_READY r \<and> truthy (rt_tmpl0 r) \<and> truthy (rt_tmpl1 r)
        \<and> (\<forall>r'\<in>set routes. k \<in> set (route_keys r') \<longrightarrow> route_pair r' = route_pair r))"
proof -
  have g: "framed_ready rec (index_plane routes) ready" "op_direction rec = Some 0 \<or> op_direction rec = Some 1"
    "\<not> route_blocked (op_pool rec) cool" "op_cap_ok rec" "num_or0 (op_cap_gross rec) > 525000" "shape_ok rec"
    "amt = 50000000" "gross = num_or0 (op_cap_gross rec)"
    using assms by (auto simp: size_gate_def Let_def HURDLE_val MAX_IN_def split: if_split_asm)
  obtain row where row: "plane_row (index_plane routes) (op_pool rec) = Some row" "pl_race_ready row = 1"
    "op_race_ready rec = Some 1" "op_class rec = Some ''framed''" "ready"
    by (rule framed_ready_row [OF g(1)])
  obtain k where k: "k = op_pool rec \<or> k = pool_pubkey (op_pool rec)" "dget (index_plane routes) k = Some row"
    using plane_row_key [OF row(1)] by blast
  obtain r where r: "r \<in> set routes" "k \<in> set (route_keys r)" "row = plane_rec_of (ambiguous_pool_keys routes) r k"
    by (rule index_plane_dget [OF k(2)])
  have rdy: "k \<notin> set (ambiguous_pool_keys routes)" "rt_RACE_READY r" "truthy (rt_tmpl0 r)" "truthy (rt_tmpl1 r)"
    using row(2) by (simp_all add: r(3) plane_rec_of_def Let_def split: if_split_asm)
  have u: "\<forall>r'\<in>set routes. k \<in> set (route_keys r') \<longrightarrow> route_pair r' = route_pair r"
    using rdy(1) r(1,2) ambiguous_iff [of k routes] by metis
  have gr: "op_cap_gross rec = Some gross" using g(5,8) by (cases "op_cap_gross rec") (simp_all add: num_or0_def)
  have gg: "gross > 525000" using g(5,8) by simp
  have dir: "op_direction rec \<in> {Some 0, Some 1}" using g(2) by simp
  show ?thesis
    by (intro conjI bexI [OF _ r(1)] exI [of _ k])
      (fact g(7), fact gg, fact gr, fact g(4), fact row(5), fact row(4), fact row(3), fact dir, fact g(3), fact g(6),
       fact k(1), fact r(2), fact rdy(2), fact rdy(3), fact rdy(4), fact u)
qed

definition sample_route :: route where
  "sample_route = \<lparr> rt_dlmm = Some ''D'', rt_pump = Some ''P'', rt_RACE_READY = True, rt_race_ready = None,
     rt_vector_ready = None, rt_tmpl0 = Some ''a'', rt_tmpl1 = Some ''b'' \<rparr>"

definition sample_opp :: opp where
  "sample_opp = \<lparr> op_class = Some ''framed'', op_pool = ''P'', op_race_ready = Some 1, op_direction = Some 1,
     op_cap_ok = True, op_cap_gross = Some 600000, op_seq = None, op_arb_seq = None, op_family = NInt 5,
     op_arb_family = NNone, op_n_hop = NInt 2, op_arb_n_hop = NNone \<rparr>"

theorem size_gate_safe_witness:
  "size_gate sample_opp (index_plane [sample_route]) True [] = Some (50000000, 600000)
   \<and> op_race_ready sample_opp = Some 1"
proof -
  have g: "size_gate sample_opp (index_plane [sample_route]) True [] = Some (50000000, 600000)" by code_simp
  have "op_race_ready sample_opp = Some 1" using size_gate_safe [OF g] by (elim conjE)
  with g show ?thesis by (rule conjI)
qed

text \<open>
  The report and the gate agree: on an indexed plane an opportunity is counted as one that
  would fire if and only if the gate lets it through.
\<close>
lemma classify_matches_gate:
  "classify_opp rec (index_plane routes) ready cool NNone NNone None = ''would_fire''
    \<longleftrightarrow> size_gate rec (index_plane routes) ready cool \<noteq> None"
proof
  assume "classify_opp rec (index_plane routes) ready cool NNone NNone None = ''would_fire''"
  then show "size_gate rec (index_plane routes) ready cool \<noteq> None"
    by (simp add: classify_opp_def truthy_def split: if_split_asm option.split_asm)
next
  assume g: "size_gate rec (index_plane routes) ready cool \<noteq> None"
  then have f: "framed_ready rec (index_plane routes) ready" by (simp add: size_gate_def split: if_split_asm)
  obtain row where row: "plane_row (index_plane routes) (op_pool rec) = Some row" "pl_race_ready row = 1"
    "op_race_ready rec = Some 1" "op_class rec = Some ''framed''" "ready" "truthy (pl_tmpl0 row)" "truthy (pl_tmpl1 row)"
    by (rule framed_ready_row [OF f])
  obtain k where k: "dget (index_plane routes) k = Some row" using plane_row_key [OF row(1)] by blast
  obtain r where "row = plane_rec_of (ambiguous_pool_keys routes) r k" by (rule index_plane_dget [OF k])
  then have "pl_ambiguous row = 0" using row(2) by (simp add: plane_rec_of_def Let_def split: if_split_asm)
  with row g show "classify_opp rec (index_plane routes) ready cool NNone NNone None = ''would_fire''"
    by (simp add: classify_opp_def truthy_def [of None]) (auto simp: size_gate_def Let_def split: if_split_asm)
qed

end
