(* ===== verification/Shadow_Gate.thy ===== *)
theory Shadow_Gate
  imports Complex_Main Py_Prelude
begin

text \<open>
  \<^verbatim>\<open>arb-state/shyft/shadow.py\<close>: the gate that scores predicted post-states against the next
  published state of the same transaction. A prediction waits under its signature and pool
  until a publication for the same pair arrives; the two are then compared field by field, and
  the outcome is counted, logged and, for a mismatch, written out as a bundle.

  The dictionaries the gate compares become one record whose fields are the keys the gate
  reads (\<open>None\<close> for an absent key); the dictionary without any of them is the empty one. The
  clock is an argument, in integral ticks; percentages are exact rationals. The text files become fields of the state: the
  append-only log, the bundle files by name, and the file of the first mismatch. Bundles keep
  the keys the gate computes or selects; keys copied through unread are left out.
\<close>

section \<open>Signatures\<close>

datatype sig_raw = SigNone | SigStr string | SigBytes bytes | SigOther

text \<open>\<^verbatim>\<open>str.strip()\<close> and \<^verbatim>\<open>str.lower()\<close> on code points below 256\<close>

definition str_space :: "char \<Rightarrow> bool" where
  "str_space c = (let n = of_char c :: nat in
     n = 32 \<or> (9 \<le> n \<and> n \<le> 13) \<or> (28 \<le> n \<and> n \<le> 31) \<or> n = 133 \<or> n = 160)"

definition str_strip :: "string \<Rightarrow> string" where
  "str_strip s = rev (dropWhile str_space (rev (dropWhile str_space s)))"

definition chr_lower :: "char \<Rightarrow> char" where
  "chr_lower c = (let n = of_char c :: nat in
     if (65 \<le> n \<and> n \<le> 90) \<or> (192 \<le> n \<and> n \<le> 222 \<and> n \<noteq> 215) then char_of (n + 32) else c)"

definition BOOT_SIG :: bytes where "BOOT_SIG = [98, 111, 111, 116]"

definition nonempty :: "'a list \<Rightarrow> 'a list option" where
  "nonempty xs = (if xs = [] then None else Some xs)"

definition sig_hex :: "sig_raw \<Rightarrow> string option" where
  "sig_hex raw = (case raw of
       SigNone \<Rightarrow> None
     | SigStr t \<Rightarrow> let s = str_strip t; s' = (if take 2 s = ''0x'' then drop 2 s else s) in nonempty (map chr_lower s')
     | SigBytes b \<Rightarrow> if b = BOOT_SIG \<or> b = [] then None else Some (to_hex b)
     | SigOther \<Rightarrow> None)"

text \<open>\<^verbatim>\<open>str(n)\<close> of an integer\<close>

fun nat_str :: "nat \<Rightarrow> string" where
  "nat_str n = (if n < 10 then [char_of (48 + n)] else nat_str (n div 10) @ [char_of (48 + n mod 10)])"

declare nat_str.simps [simp del]

definition int_str :: "int \<Rightarrow> string" where
  "int_str n = (if n < 0 then CHR ''-'' # nat_str (nat (- n)) else nat_str (nat n))"

section \<open>States, predictions, publications\<close>

datatype bucket =
    Kernel_bug | Missing_transaction_local_write | Wrong_transaction_association | Stale_preceding_state
  | Fee_volatility_timing | Bin_traversal_account_coverage | Fork_order | Trigger_decode_error
  | State_missing | Publication_incomplete | Exact

datatype field = Active_id | Volatility | Bin_liquidity | Reserves | Virtual_quote | Fee_state | Ordering

datatype bin_key = BinInt int | BinStr string

record touch =
  to_id :: int
  to_x :: int
  to_y :: int

record sstate =
  ss_slot :: "int option"
  ss_base_vault_amount :: "int option"
  ss_reserve_base :: "int option"
  ss_quote_vault_amount :: "int option"
  ss_reserve_quote :: "int option"
  ss_virtual_quote_reserves :: "int option"
  ss_virtual_quote :: "int option"
  ss_active_after :: "int option"
  ss_active_id :: "int option"
  ss_vol_acc :: "int option"
  ss_vol_ref :: "int option"
  ss_idx_ref :: "int option"
  ss_last_upd :: "int option"
  ss_touched :: "touch list"
  ss_bins :: "(bin_key, int list) dict"

definition no_state :: sstate where
  "no_state = \<lparr> ss_slot = None, ss_base_vault_amount = None, ss_reserve_base = None, ss_quote_vault_amount = None,
     ss_reserve_quote = None, ss_virtual_quote_reserves = None, ss_virtual_quote = None, ss_active_after = None,
     ss_active_id = None, ss_vol_acc = None, ss_vol_ref = None, ss_idx_ref = None, ss_last_upd = None,
     ss_touched = [], ss_bins = [] \<rparr>"

text \<open>\<^verbatim>\<open>if s_before and ...\<close>\<close>

definition truthy_state :: "sstate option \<Rightarrow> bool" where
  "truthy_state s \<longleftrightarrow> s \<noteq> None \<and> s \<noteq> Some no_state"

record pn =
  pn_pool_idx :: "int option"
  pn_direction :: "int option"
  pn_amount_in :: "int option"

record paper =
  pr_kind :: string
  pr_s_prime :: "sstate option"
  pr_n :: "pn option"
  pr_sig_hex :: sig_raw
  pr_auth_slot :: "int option"
  pr_auth_age_slots :: "int option"
  pr_fresh_age_slots :: "int option"
  pr_tx_exact :: "int option"
  pr_pool :: "string option"
  pr_source :: "string option"

record pend =
  pd_sig :: string
  pd_idx :: int
  pd_s_prime :: sstate
  pd_n :: pn
  pd_auth_slot :: "int option"
  pd_auth_age_slots :: "int option"
  pd_tx_exact :: "int option"
  pd_pool :: "string option"
  pd_raw :: paper
  pd_t_ingest :: int

record stage =
  sg_sig :: sig_raw
  sg_wait_slot :: bool
  sg_slot :: "int option"

definition empty_stage :: stage where
  "empty_stage = \<lparr> sg_sig = SigNone, sg_wait_slot = False, sg_slot = None \<rparr>"

record staged =
  sw_role :: "string option"
  sw_pubkey :: "string option"

record publication =
  pb_idx :: int
  pb_kind :: string
  pb_pubkey :: string
  pb_origin :: string
  pb_stage :: stage
  pb_staged :: "staged list"
  pb_before :: "sstate option"
  pb_pub :: sstate

section \<open>Exact comparison\<close>

definition first_of :: "int option \<Rightarrow> int option \<Rightarrow> int option" where
  "first_of a b = (case a of Some v \<Rightarrow> Some v | None \<Rightarrow> b)"

definition amt_base :: "sstate \<Rightarrow> int option" where
  "amt_base r = first_of (ss_base_vault_amount r) (ss_reserve_base r)"

definition amt_quote :: "sstate \<Rightarrow> int option" where
  "amt_quote r = first_of (ss_quote_vault_amount r) (ss_reserve_quote r)"

definition amt_virtual :: "sstate \<Rightarrow> int option" where
  "amt_virtual r = first_of (ss_virtual_quote_reserves r) (ss_virtual_quote r)"

text \<open>\<^verbatim>\<open>a is not None and b is not None and a != b\<close>\<close>

definition both_differ :: "int option \<Rightarrow> int option \<Rightarrow> bool" where
  "both_differ a b = (case (a, b) of (Some x, Some y) \<Rightarrow> x \<noteq> y | _ \<Rightarrow> False)"

definition compare_pump :: "sstate \<Rightarrow> sstate \<Rightarrow> sstate option \<Rightarrow> field list \<times> bucket" where
  "compare_pump s_prime s_pub s_before =
    (let fs = (if both_differ (amt_base s_prime) (amt_base s_pub) then [Reserves] else [])
                @ (if both_differ (amt_quote s_prime) (amt_quote s_pub) then [Reserves] else [])
                @ (if both_differ (amt_virtual s_prime) (amt_virtual s_pub) then [Virtual_quote] else [])
     in if fs = [] then ([], Exact)
        else if truthy_state s_before \<and> amt_base (the s_before) = amt_base s_pub \<and> amt_quote (the s_before) = amt_quote s_pub
        then (fs, Missing_transaction_local_write)
        else (fs, Kernel_bug))"

text \<open>\<^verbatim>\<open>int(v or -10**9)\<close>: absent and zero are both replaced.\<close>

definition or_sentinel :: "int option \<Rightarrow> int" where
  "or_sentinel v = (case v of None \<Rightarrow> - (10 ^ 9) | Some n \<Rightarrow> if n = 0 then - (10 ^ 9) else n)"

definition or_minus1 :: "int option \<Rightarrow> int" where
  "or_minus1 v = (case v of None \<Rightarrow> - 1 | Some n \<Rightarrow> n)"

definition wants :: "int option \<Rightarrow> int \<Rightarrow> bool" where
  "wants w got = (case w of None \<Rightarrow> False | Some v \<Rightarrow> v \<noteq> got)"

definition want_active :: "sstate \<Rightarrow> int option" where
  "want_active s_prime = first_of (ss_active_after s_prime) (ss_active_id s_prime)"

definition pub_bin :: "sstate \<Rightarrow> int \<Rightarrow> int list option" where
  "pub_bin s_pub bid = (case dget (ss_bins s_pub) (BinInt bid) of
       Some xy \<Rightarrow> Some xy | None \<Rightarrow> dget (ss_bins s_pub) (BinStr (int_str bid)))"

definition touch_field :: "sstate \<Rightarrow> touch \<Rightarrow> field list" where
  "touch_field s_pub b = (case pub_bin s_pub (to_id b) of
       None \<Rightarrow> [Bin_liquidity]
     | Some xy \<Rightarrow> if xy \<noteq> [to_x b, to_y b] then [Bin_liquidity] else [])"

definition missing_bin :: "sstate \<Rightarrow> touch list \<Rightarrow> bool" where
  "missing_bin s_pub bs = list_ex (\<lambda>b. pub_bin s_pub (to_id b) = None) bs"

definition dlmm_fields :: "sstate \<Rightarrow> sstate \<Rightarrow> field list" where
  "dlmm_fields s_prime s_pub =
      (if wants (want_active s_prime) (or_sentinel (ss_active_id s_pub)) then [Active_id] else [])
    @ (if wants (ss_vol_acc s_prime) (or_minus1 (ss_vol_acc s_pub)) then [Volatility] else [])
    @ (if wants (ss_vol_ref s_prime) (or_minus1 (ss_vol_ref s_pub)) then [Volatility] else [])
    @ (if wants (ss_idx_ref s_prime) (or_sentinel (ss_idx_ref s_pub)) then [Fee_state] else [])
    @ (if both_differ (ss_last_upd s_prime) (ss_last_upd s_pub) then [Fee_state] else [])
    @ concat (map (touch_field s_pub) (ss_touched s_prime))"

definition compare_dlmm :: "sstate \<Rightarrow> sstate \<Rightarrow> sstate option \<Rightarrow> field list \<times> bucket" where
  "compare_dlmm s_prime s_pub s_before =
    (let fs = dlmm_fields s_prime s_pub
     in if fs = [] then ([], Exact)
        else if missing_bin s_pub (ss_touched s_prime) then (uniq fs, Bin_traversal_account_coverage)
        else if set fs \<subseteq> {Volatility, Fee_state} then (fs, Fee_volatility_timing)
        else if truthy_state s_before \<and> ss_active_id (the s_before) = ss_active_id s_pub
             \<and> (Active_id \<in> set fs \<or> Bin_liquidity \<in> set fs)
        then (uniq fs, Missing_transaction_local_write)
        else (uniq fs, Kernel_bug))"

definition compare_exact :: "string \<Rightarrow> sstate \<Rightarrow> sstate \<Rightarrow> sstate option \<Rightarrow> field list \<times> bucket" where
  "compare_exact kind s_prime s_pub s_before =
    (if kind = ''pump'' then compare_pump s_prime s_pub s_before else compare_dlmm s_prime s_pub s_before)"

section \<open>The gate\<close>

record counters =
  paper_ingested :: nat
  shadow_total :: nat
  shadow_exact :: nat
  shadow_mismatch :: nat
  shadow_state_missing :: nat
  shadow_trigger_decode_error :: nat
  shadow_wrong_association :: nat
  pump_total :: nat
  pump_exact :: nat
  dlmm_total :: nat
  dlmm_exact :: nat
  tx_exact_total :: nat
  tx_exact_shadowed :: nat
  tx_exact_bitexact :: nat
  tx_exact_mismatch :: nat
  fastsoak_ingested :: nat
  publication_mismatch :: nat
  prediction_mismatch :: nat
  prediction_bug :: nat
  publication_bug :: nat
  unsupported_shape :: nat
  known_kernel_limitation :: nat
  mismatch_by :: "field \<Rightarrow> nat"
  bucket_by :: "bucket \<Rightarrow> nat"

record mis_bundle =
  bu_bucket :: bucket
  bu_reason :: string
  bu_fields :: "field list"
  bu_trigger_sig :: string
  bu_slot :: "int option"
  bu_pool :: string
  bu_idx :: int
  bu_kind :: string
  bu_direction :: "int option"
  bu_amount_in :: "int option"
  bu_auth_slot :: "int option"
  bu_s_before :: "sstate option"
  bu_s_prime :: sstate
  bu_published_s :: sstate
  bu_plane :: string
  bu_stage_sig :: "string option"
  bu_origin :: string
  bu_touched_bin_arrays :: "staged list"
  bu_update_order :: "string option list"

datatype log_row =
    LogExact int string string "int option"
  | LogMismatch int string bucket string string "int option" "field list" string

record gate =
  g_pending :: "(string \<times> int, pend) dict"
  g_by_idx :: "(int, (string \<times> int) list) dict"
  g_m :: counters
  g_bundles :: "(string, mis_bundle) dict"
  g_explain :: "mis_bundle option"
  g_log :: "log_row list"

definition zero_counters :: counters where
  "zero_counters = \<lparr> paper_ingested = 0, shadow_total = 0, shadow_exact = 0, shadow_mismatch = 0, shadow_state_missing = 0,
     shadow_trigger_decode_error = 0, shadow_wrong_association = 0, pump_total = 0, pump_exact = 0, dlmm_total = 0,
     dlmm_exact = 0, tx_exact_total = 0, tx_exact_shadowed = 0, tx_exact_bitexact = 0, tx_exact_mismatch = 0,
     fastsoak_ingested = 0, publication_mismatch = 0, prediction_mismatch = 0, prediction_bug = 0, publication_bug = 0,
     unsupported_shape = 0, known_kernel_limitation = 0,
     mismatch_by = (\<lambda>_. 0), bucket_by = (\<lambda>_. 0) \<rparr>"

definition new_gate :: gate where
  "new_gate = \<lparr> g_pending = [], g_by_idx = [], g_m = zero_counters, g_bundles = [], g_explain = None, g_log = [] \<rparr>"

definition PENDING_CAP :: nat where "PENDING_CAP = 512"

definition plane_of :: "bucket \<Rightarrow> string" where
  "plane_of b = (if b \<in> {Missing_transaction_local_write, Bin_traversal_account_coverage, Publication_incomplete}
     then ''publication'' else ''prediction'')"

definition count_bucket :: "bucket \<Rightarrow> counters \<Rightarrow> counters" where
  "count_bucket b m =
    (let m1 = (case b of
         Wrong_transaction_association \<Rightarrow> m \<lparr> shadow_wrong_association := shadow_wrong_association m + 1 \<rparr>
       | State_missing \<Rightarrow> m \<lparr> shadow_state_missing := shadow_state_missing m + 1 \<rparr>
       | Stale_preceding_state \<Rightarrow> m
       | Trigger_decode_error \<Rightarrow> m \<lparr> shadow_trigger_decode_error := shadow_trigger_decode_error m + 1 \<rparr>
       | _ \<Rightarrow> m \<lparr> shadow_mismatch := shadow_mismatch m + 1 \<rparr>)
     in m1 \<lparr> bucket_by := (bucket_by m1)(b := bucket_by m1 b + 1) \<rparr>)"

definition bundle_name :: "pend \<Rightarrow> string" where
  "bundle_name p = (if pd_sig p = [] then ''unknown'' else pd_sig p) @ ''_'' @ int_str (pd_idx p) @ ''.json''"

definition bundle_of :: "bucket \<Rightarrow> string \<Rightarrow> pend \<Rightarrow> publication \<Rightarrow> field list \<Rightarrow> mis_bundle" where
  "bundle_of b reason p pub fs = \<lparr> bu_bucket = b, bu_reason = reason, bu_fields = fs, bu_trigger_sig = pd_sig p,
     bu_slot = (if pb_pub pub \<noteq> no_state then ss_slot (pb_pub pub) else sg_slot (pb_stage pub)),
     bu_pool = pb_pubkey pub, bu_idx = pd_idx p, bu_kind = pb_kind pub,
     bu_direction = pn_direction (pd_n p), bu_amount_in = pn_amount_in (pd_n p), bu_auth_slot = pd_auth_slot p,
     bu_s_before = pb_before pub, bu_s_prime = pd_s_prime p, bu_published_s = pb_pub pub, bu_plane = plane_of b,
     bu_stage_sig = sig_hex (sg_sig (pb_stage pub)), bu_origin = pb_origin pub,
     bu_touched_bin_arrays = filter (\<lambda>w. sw_role w \<in> {Some ''dlmm_binarray'', Some ''dlmm_bin''}) (pb_staged pub),
     bu_update_order = map sw_pubkey (pb_staged pub) \<rparr>"

definition emit :: "gate \<Rightarrow> bucket \<Rightarrow> string \<Rightarrow> pend \<Rightarrow> publication \<Rightarrow> field list \<Rightarrow> gate" where
  "emit g b reason p pub fs =
    (let bu = bundle_of b reason p pub fs; path = bundle_name p
     in g \<lparr> g_m := count_bucket b (g_m g),
            g_bundles := dput path bu (g_bundles g),
            g_explain := (if b \<noteq> State_missing \<and> g_explain g = None then Some bu else g_explain g),
            g_log := g_log g @ [LogMismatch (bu_idx bu) (pb_kind pub) b reason (pd_sig p) (bu_slot bu) fs path] \<rparr>)"

definition by_idx_of :: "gate \<Rightarrow> int \<Rightarrow> (string \<times> int) list" where
  "by_idx_of g i = (case dget (g_by_idx g) i of None \<Rightarrow> [] | Some l \<Rightarrow> l)"

definition drop_key :: "gate \<Rightarrow> string \<times> int \<Rightarrow> gate" where
  "drop_key g key = (case dget (g_pending g) key of
       None \<Rightarrow> g
     | Some p \<Rightarrow> g \<lparr> g_pending := dpop key (g_pending g),
                     g_by_idx := dput (pd_idx p) (filter (\<lambda>item. item \<noteq> key) (by_idx_of g (pd_idx p))) (g_by_idx g) \<rparr>)"

text \<open>The arguments with which a prediction that never met its publication is reported.\<close>

definition expiry :: "pend \<Rightarrow> publication" where
  "expiry p = \<lparr> pb_idx = pd_idx p, pb_kind = ''unknown'', pb_pubkey = (case pd_pool p of None \<Rightarrow> [] | Some s \<Rightarrow> s),
     pb_origin = ''expire'', pb_stage = empty_stage, pb_staged = [], pb_before = None, pb_pub = no_state \<rparr>"

definition bound_pending :: "gate \<Rightarrow> gate" where
  "bound_pending g = (if length (g_pending g) > PENDING_CAP
     then case g_pending g of
            [] \<Rightarrow> g
          | (oldest, stale) # _ \<Rightarrow> drop_key (emit g State_missing ''pending_overflow'' stale (expiry stale) []) oldest
     else g)"

definition pend_of :: "int \<Rightarrow> paper \<Rightarrow> string \<Rightarrow> int \<Rightarrow> pn \<Rightarrow> sstate \<Rightarrow> pend" where
  "pend_of now rec sig idx n sp = \<lparr> pd_sig = sig, pd_idx = idx, pd_s_prime = sp, pd_n = n, pd_auth_slot = pr_auth_slot rec,
     pd_auth_age_slots = first_of (pr_auth_age_slots rec) (pr_fresh_age_slots rec), pd_tx_exact = pr_tx_exact rec,
     pd_pool = pr_pool rec, pd_raw = rec, pd_t_ingest = now \<rparr>"

definition add_pending :: "gate \<Rightarrow> string \<times> int \<Rightarrow> pend \<Rightarrow> gate" where
  "add_pending g key p = g \<lparr> g_pending := dput key p (g_pending g),
     g_m := (if pd_tx_exact p = Some 1 then (g_m g) \<lparr> tx_exact_total := tx_exact_total (g_m g) + 1 \<rparr> else g_m g),
     g_by_idx := dput (snd key) (by_idx_of g (snd key) @ [key]) (g_by_idx g) \<rparr>"

definition decode_error :: "gate \<Rightarrow> gate" where
  "decode_error g = g \<lparr> g_m := (g_m g) \<lparr> shadow_trigger_decode_error := shadow_trigger_decode_error (g_m g) + 1 \<rparr> \<rparr>"

definition ingest_paper :: "int \<Rightarrow> gate \<Rightarrow> paper \<Rightarrow> gate" where
  "ingest_paper now g rec =
    (if pr_kind rec \<noteq> ''opp_synced'' then g
     else let g1 = g \<lparr> g_m := (g_m g) \<lparr> paper_ingested := paper_ingested (g_m g) + 1 \<rparr> \<rparr> in
       case pr_n rec of None \<Rightarrow> g1
       | Some n \<Rightarrow> (case pn_pool_idx n of None \<Rightarrow> g1
         | Some idx \<Rightarrow> (case pr_s_prime rec of None \<Rightarrow> decode_error g1
           | Some sp \<Rightarrow> (case sig_hex (pr_sig_hex rec) of None \<Rightarrow> decode_error g1
             | Some sig \<Rightarrow> bound_pending (add_pending g1 (sig, idx) (pend_of now rec sig idx n sp))))))"

definition or_fastsoak :: "string option \<Rightarrow> string option" where
  "or_fastsoak s = (case s of None \<Rightarrow> Some ''fastsoak'' | Some t \<Rightarrow> if t = [] then Some ''fastsoak'' else Some t)"

definition ingest_direct :: "int \<Rightarrow> gate \<Rightarrow> paper \<Rightarrow> gate" where
  "ingest_direct now g rec =
    (let row = rec \<lparr> pr_kind := ''opp_synced'', pr_tx_exact := Some 1, pr_source := or_fastsoak (pr_source rec) \<rparr>
     in ingest_paper now (g \<lparr> g_m := (g_m g) \<lparr> fastsoak_ingested := fastsoak_ingested (g_m g) + 1 \<rparr> \<rparr>) row)"

definition slot_before_auth :: "pend \<Rightarrow> publication \<Rightarrow> bool" where
  "slot_before_auth p pub = (case (pd_auth_slot p, ss_slot (pb_pub pub)) of
       (Some auth, Some slot) \<Rightarrow> slot + 64 < auth | _ \<Rightarrow> False)"

definition count_scored :: "string \<Rightarrow> pend \<Rightarrow> counters \<Rightarrow> counters" where
  "count_scored kind p m =
    (let m1 = m \<lparr> shadow_total := shadow_total m + 1 \<rparr>;
         m2 = (if pd_tx_exact p = Some 1 then m1 \<lparr> tx_exact_shadowed := tx_exact_shadowed m1 + 1 \<rparr> else m1)
     in if kind = ''pump'' then m2 \<lparr> pump_total := pump_total m2 + 1 \<rparr> else m2 \<lparr> dlmm_total := dlmm_total m2 + 1 \<rparr>)"

definition count_exact :: "string \<Rightarrow> pend \<Rightarrow> counters \<Rightarrow> counters" where
  "count_exact kind p m =
    (let m1 = m \<lparr> shadow_exact := shadow_exact m + 1 \<rparr>;
         m2 = (if pd_tx_exact p = Some 1 then m1 \<lparr> tx_exact_bitexact := tx_exact_bitexact m1 + 1 \<rparr> else m1)
     in if kind = ''pump'' then m2 \<lparr> pump_exact := pump_exact m2 + 1 \<rparr> else m2 \<lparr> dlmm_exact := dlmm_exact m2 + 1 \<rparr>)"

definition count_field :: "counters \<Rightarrow> field \<Rightarrow> counters" where
  "count_field m f = m \<lparr> mismatch_by := (mismatch_by m)(f := mismatch_by m f + 1) \<rparr>"

definition count_failed :: "bucket \<Rightarrow> field list \<Rightarrow> pend \<Rightarrow> counters \<Rightarrow> counters" where
  "count_failed b fs p m =
    (let m1 = foldl count_field m fs;
         m2 = (if pd_tx_exact p = Some 1 then m1 \<lparr> tx_exact_mismatch := tx_exact_mismatch m1 + 1 \<rparr> else m1)
     in if plane_of b = ''publication''
        then m2 \<lparr> publication_mismatch := publication_mismatch m2 + 1, publication_bug := publication_bug m2 + 1 \<rparr>
        else m2 \<lparr> prediction_mismatch := prediction_mismatch m2 + 1, prediction_bug := prediction_bug m2 + 1 \<rparr>)"

definition score :: "gate \<Rightarrow> string \<Rightarrow> pend \<Rightarrow> publication \<Rightarrow> gate" where
  "score g txn p pub =
    (let (fs, b) = compare_exact (pb_kind pub) (pd_s_prime p) (pb_pub pub) (pb_before pub);
         g1 = g \<lparr> g_m := count_scored (pb_kind pub) p (g_m g) \<rparr>
     in if fs = []
        then g1 \<lparr> g_m := count_exact (pb_kind pub) p (g_m g1),
                  g_log := g_log g1 @ [LogExact (pb_idx pub) (pb_kind pub) txn (ss_slot (pb_pub pub))] \<rparr>
        else emit (g1 \<lparr> g_m := count_failed b fs p (g_m g1) \<rparr>) b ''bit_exact_fail'' p pub fs)"

definition on_publish :: "gate \<Rightarrow> publication \<Rightarrow> gate" where
  "on_publish g pub =
    (case sig_hex (sg_sig (pb_stage pub)) of None \<Rightarrow> g
     | Some txn \<Rightarrow>
       if pb_origin pub = ''boot'' \<or> sg_sig (pb_stage pub) = SigBytes BOOT_SIG then g
       else (case dget (g_pending g) (txn, pb_idx pub) of None \<Rightarrow> g
         | Some p \<Rightarrow>
           if first_of (pd_tx_exact p) (pr_tx_exact (pd_raw p)) = Some 0 then drop_key g (txn, pb_idx pub)
           else if slot_before_auth p pub
           then drop_key (emit g Fork_order ''publish_slot_before_paper_auth'' p pub [Ordering]) (txn, pb_idx pub)
           else if sg_wait_slot (pb_stage pub) \<and> txn = []
           then drop_key (emit g Fork_order ''multi_tx_same_slot'' p pub [Ordering]) (txn, pb_idx pub)
           else drop_key (score g txn p pub) (txn, pb_idx pub)))"

definition expire_one :: "int \<Rightarrow> int \<Rightarrow> gate \<Rightarrow> (string \<times> int) \<times> pend \<Rightarrow> gate" where
  "expire_one now max_age g e =
    (let (key, p) = e
     in if now - pd_t_ingest p < max_age then g
        else drop_key (emit g State_missing ''no_associated_publish'' p (expiry p) []) key)"

definition expire_stale :: "int \<Rightarrow> int \<Rightarrow> gate \<Rightarrow> gate" where
  "expire_stale now max_age g = foldl (expire_one now max_age) g (g_pending g)"

definition pct :: "nat \<Rightarrow> nat \<Rightarrow> rat option" where
  "pct num den = (if den = 0 then None else Some (100 * of_nat num / of_nat den))"

definition rates :: "gate \<Rightarrow> counters \<times> rat option \<times> rat option" where
  "rates g = (g_m g, pct (pump_exact (g_m g)) (pump_total (g_m g)), pct (dlmm_exact (g_m g)) (dlmm_total (g_m g)))"

datatype shadow_event =
    EvPaper int paper
  | EvDirect int paper
  | EvPublish publication
  | EvExpire int int

definition shadow_handle :: "gate \<Rightarrow> shadow_event \<Rightarrow> gate" where
  "shadow_handle g e = (case e of
       EvPaper now r \<Rightarrow> ingest_paper now g r
     | EvDirect now r \<Rightarrow> ingest_direct now g r
     | EvPublish pub \<Rightarrow> on_publish g pub
     | EvExpire now max_age \<Rightarrow> expire_stale now max_age g)"

section \<open>Outcomes of the comparison\<close>

lemma compare_fields_Nil: "compare_exact kind s p b = (fs, bk) \<Longrightarrow> fs = [] \<longleftrightarrow> bk = Exact"
proof -
  assume "compare_exact kind s p b = (fs, bk)"
  then show ?thesis
    by (auto simp: compare_exact_def compare_pump_def compare_dlmm_def Let_def split: if_split_asm)
qed

lemma compare_bucket:
  "compare_exact kind s p b = (fs, bk) \<Longrightarrow>
     bk \<in> {Exact, Kernel_bug, Missing_transaction_local_write, Bin_traversal_account_coverage, Fee_volatility_timing}"
  by (auto simp: compare_exact_def compare_pump_def compare_dlmm_def Let_def split: if_split_asm)

lemma both_differ_iff: "\<not> both_differ a b \<longleftrightarrow> (\<forall>x y. a = Some x \<longrightarrow> b = Some y \<longrightarrow> x = y)"
  by (auto simp: both_differ_def split: option.split)

lemma wants_sentinel:
  "(\<And>v. w = Some v \<Longrightarrow> - (10 ^ 9) < v) \<Longrightarrow> \<not> wants w (or_sentinel a) \<longleftrightarrow> (\<forall>v. w = Some v \<longrightarrow> a = Some v \<and> v \<noteq> 0)"
  by (force simp: wants_def or_sentinel_def split: option.splits)

lemma wants_minus1:
  "(\<And>v. w = Some v \<Longrightarrow> 0 \<le> v) \<Longrightarrow> \<not> wants w (or_minus1 a) \<longleftrightarrow> (\<forall>v. w = Some v \<longrightarrow> a = Some v)"
  by (force simp: wants_def or_minus1_def split: option.splits)

lemma touch_field_Nil: "touch_field p b = [] \<longleftrightarrow> pub_bin p (to_id b) = Some [to_x b, to_y b]"
  by (auto simp: touch_field_def split: option.split)

text \<open>The range the sentinels of the comparison lie outside of: bin ids above \<open>-10\<^sup>9\<close>, volatilities not negative.\<close>

definition in_range :: "sstate \<Rightarrow> bool" where
  "in_range s \<longleftrightarrow> pred_option (\<lambda>v. - (10 ^ 9) < v) (want_active s) \<and> pred_option (\<lambda>v. - (10 ^ 9) < v) (ss_idx_ref s)
     \<and> pred_option (\<lambda>v. 0 \<le> v) (ss_vol_acc s) \<and> pred_option (\<lambda>v. 0 \<le> v) (ss_vol_ref s)"

definition agrees_dlmm :: "sstate \<Rightarrow> sstate \<Rightarrow> bool" where
  "agrees_dlmm s p \<longleftrightarrow>
     (\<forall>v. want_active s = Some v \<longrightarrow> ss_active_id p = Some v \<and> v \<noteq> 0)
   \<and> (\<forall>v. ss_vol_acc s = Some v \<longrightarrow> ss_vol_acc p = Some v)
   \<and> (\<forall>v. ss_vol_ref s = Some v \<longrightarrow> ss_vol_ref p = Some v)
   \<and> (\<forall>v. ss_idx_ref s = Some v \<longrightarrow> ss_idx_ref p = Some v \<and> v \<noteq> 0)
   \<and> (\<forall>v w. ss_last_upd s = Some v \<longrightarrow> ss_last_upd p = Some w \<longrightarrow> v = w)
   \<and> (\<forall>b\<in>set (ss_touched s). pub_bin p (to_id b) = Some [to_x b, to_y b])"

definition agrees_pump :: "sstate \<Rightarrow> sstate \<Rightarrow> bool" where
  "agrees_pump s p \<longleftrightarrow> (\<forall>f\<in>{amt_base, amt_quote, amt_virtual}. \<forall>v w. f s = Some v \<longrightarrow> f p = Some w \<longrightarrow> v = w)"

lemma single_Nil: "(if c then [x] else []) = [] \<longleftrightarrow> \<not> c"
  by simp

lemma touched_Nil: "concat (map (touch_field p) bs) = [] \<longleftrightarrow> (\<forall>b\<in>set bs. pub_bin p (to_id b) = Some [to_x b, to_y b])"
  by (simp add: touch_field_Nil)

lemma dlmm_fields_Nil: "in_range s \<Longrightarrow> dlmm_fields s p = [] \<longleftrightarrow> agrees_dlmm s p"
proof -
  assume r: "in_range s"
  have "\<not> wants (want_active s) (or_sentinel a) \<longleftrightarrow> (\<forall>v. want_active s = Some v \<longrightarrow> a = Some v \<and> v \<noteq> 0)" for a
    by (rule wants_sentinel) (use r in \<open>simp add: in_range_def\<close>)
  moreover have "\<not> wants (ss_idx_ref s) (or_sentinel a) \<longleftrightarrow> (\<forall>v. ss_idx_ref s = Some v \<longrightarrow> a = Some v \<and> v \<noteq> 0)" for a
    by (rule wants_sentinel) (use r in \<open>simp add: in_range_def\<close>)
  moreover have "\<not> wants (ss_vol_acc s) (or_minus1 a) \<longleftrightarrow> (\<forall>v. ss_vol_acc s = Some v \<longrightarrow> a = Some v)" for a
    by (rule wants_minus1) (use r in \<open>simp add: in_range_def\<close>)
  moreover have "\<not> wants (ss_vol_ref s) (or_minus1 a) \<longleftrightarrow> (\<forall>v. ss_vol_ref s = Some v \<longrightarrow> a = Some v)" for a
    by (rule wants_minus1) (use r in \<open>simp add: in_range_def\<close>)
  ultimately show ?thesis
    unfolding dlmm_fields_def append_is_Nil_conv single_Nil agrees_dlmm_def touched_Nil both_differ_iff by (simp only:)
qed

lemma compare_exact_iff:
  "fst (compare_exact kind s p b) = [] \<longleftrightarrow> (if kind = ''pump'' then agrees_pump s p else agrees_dlmm s p)"
  if "in_range s"
proof -
  have "fst (compare_dlmm s p b) = [] \<longleftrightarrow> agrees_dlmm s p"
    using dlmm_fields_Nil [OF that] by (simp add: compare_dlmm_def Let_def)
  moreover have "fst (compare_pump s p b) = [] \<longleftrightarrow> agrees_pump s p"
  proof -
    have "fst (compare_pump s p b) = [] \<longleftrightarrow> \<not> both_differ (amt_base s) (amt_base p)
        \<and> \<not> both_differ (amt_quote s) (amt_quote p) \<and> \<not> both_differ (amt_virtual s) (amt_virtual p)"
      by (simp add: compare_pump_def Let_def)
    then show ?thesis by (simp add: agrees_pump_def both_differ_iff)
  qed
  ultimately show ?thesis by (simp add: compare_exact_def)
qed

section \<open>Invariant\<close>

definition mismatch_bucket :: "bucket \<Rightarrow> bool" where
  "mismatch_bucket b \<longleftrightarrow> b \<in> {Kernel_bug, Missing_transaction_local_write, Bin_traversal_account_coverage, Fee_volatility_timing}"

definition counts_ok :: "counters \<Rightarrow> bool" where
  "counts_ok m \<longleftrightarrow> shadow_total m = shadow_exact m + publication_mismatch m + prediction_mismatch m
     \<and> shadow_total m = pump_total m + dlmm_total m
     \<and> shadow_exact m = pump_exact m + dlmm_exact m \<and> pump_exact m \<le> pump_total m \<and> dlmm_exact m \<le> dlmm_total m
     \<and> tx_exact_shadowed m = tx_exact_bitexact m + tx_exact_mismatch m \<and> tx_exact_bitexact m \<le> shadow_exact m
     \<and> shadow_mismatch m = publication_mismatch m + prediction_mismatch m + bucket_by m Fork_order
     \<and> shadow_state_missing m = bucket_by m State_missing"

definition is_exact :: "log_row \<Rightarrow> bool" where
  "is_exact r = (case r of LogExact _ _ _ _ \<Rightarrow> True | _ \<Rightarrow> False)"

definition log_ok :: "gate \<Rightarrow> bool" where
  "log_ok g \<longleftrightarrow> length (filter is_exact (g_log g)) = shadow_exact (g_m g)
     \<and> length (filter (\<lambda>r. \<not> is_exact r) (g_log g)) = shadow_mismatch (g_m g) + shadow_state_missing (g_m g)"

definition tx1 :: "(string \<times> int) \<times> pend \<Rightarrow> bool" where
  "tx1 e \<longleftrightarrow> pd_tx_exact (snd e) = Some 1"

definition tx_ok :: "gate \<Rightarrow> bool" where
  "tx_ok g \<longleftrightarrow> length (filter tx1 (g_pending g)) + tx_exact_shadowed (g_m g) \<le> tx_exact_total (g_m g)"

definition pending_ok :: "gate \<Rightarrow> bool" where
  "pending_ok g \<longleftrightarrow> dict_ok (g_pending g) \<and> dict_all (\<lambda>k p. k = (pd_sig p, pd_idx p)) (g_pending g)
     \<and> (\<forall>i k. k \<in> set (by_idx_of g i) \<longleftrightarrow> snd k = i \<and> k \<in> set (map fst (g_pending g)))"

definition gate_ok :: "gate \<Rightarrow> bool" where
  "gate_ok g \<longleftrightarrow> pending_ok g \<and> counts_ok (g_m g) \<and> log_ok g \<and> tx_ok g \<and> length (g_pending g) \<le> PENDING_CAP"

lemma drop_key_sel [simp]:
  "g_m (drop_key g k) = g_m g" "g_log (drop_key g k) = g_log g" "g_explain (drop_key g k) = g_explain g"
  "g_bundles (drop_key g k) = g_bundles g"
  by (simp_all add: drop_key_def split: option.split)

lemma drop_key_pending [simp]: "g_pending (drop_key g k) = dpop k (g_pending g)"
  by (simp add: drop_key_def dget_None_iff delete_idem split: option.split)

lemma emit_sel [simp]:
  "g_pending (emit g b r p pub fs) = g_pending g" "g_by_idx (emit g b r p pub fs) = g_by_idx g"
  "g_m (emit g b r p pub fs) = count_bucket b (g_m g)"
  by (simp_all add: emit_def Let_def)

lemma score_pending [simp]:
  "g_pending (score g txn p pub) = g_pending g" "g_by_idx (score g txn p pub) = g_by_idx g"
  by (simp_all add: score_def Let_def split: prod.split)

lemma pending_ok_cong: "g_pending g' = g_pending g \<Longrightarrow> g_by_idx g' = g_by_idx g \<Longrightarrow> pending_ok g' = pending_ok g"
  by (simp add: pending_ok_def by_idx_of_def)

lemma keys_dpop: "set (map fst (dpop k d)) = set (map fst d) - {k}"
  by (induction d) auto

lemma drop_key_ok: "pending_ok g \<Longrightarrow> pending_ok (drop_key g k)"
proof (cases "dget (g_pending g) k")
  case None
  then show "pending_ok g \<Longrightarrow> pending_ok (drop_key g k)" by (simp add: drop_key_def)
next
  case (Some p)
  assume ok: "pending_ok g"
  then have k: "k = (pd_sig p, pd_idx p)" using Some by (auto simp: pending_ok_def dest: dict_all_dget)
  have "by_idx_of (drop_key g k) i = filter (\<lambda>x. x \<noteq> k \<or> i \<noteq> snd k) (by_idx_of g i)" for i
    using Some k by (auto simp: drop_key_def by_idx_of_def intro!: filter_cong split: option.split)
  moreover have "\<forall>i x. x \<in> set (by_idx_of g i) \<longleftrightarrow> snd x = i \<and> x \<in> set (map fst (g_pending g))"
    using ok by (simp add: pending_ok_def)
  ultimately have "\<forall>i x. x \<in> set (by_idx_of (drop_key g k) i) \<longleftrightarrow> snd x = i \<and> x \<in> set (map fst (g_pending g)) - {k}"
    by (auto simp del: set_map)
  then show ?thesis using ok
    unfolding pending_ok_def drop_key_pending keys_dpop by (simp add: dict_all_dpop)
qed

lemma add_pending_ok:
  assumes "pending_ok g" and "pd_sig p = fst key" and "pd_idx p = snd key"
  shows "pending_ok (add_pending g key p)"
proof -
  have "by_idx_of (add_pending g key p) i = by_idx_of g i @ (if i = snd key then [key] else [])" for i
    by (simp add: add_pending_def by_idx_of_def)
  moreover have "\<forall>i x. x \<in> set (by_idx_of g i) \<longleftrightarrow> snd x = i \<and> x \<in> set (map fst (g_pending g))"
    using assms(1) by (simp add: pending_ok_def)
  ultimately have "\<forall>i x. x \<in> set (by_idx_of (add_pending g key p) i)
      \<longleftrightarrow> snd x = i \<and> x \<in> insert key (set (map fst (g_pending g)))"
    by (auto simp del: set_map)
  moreover have "g_pending (add_pending g key p) = dput key p (g_pending g)" by (simp add: add_pending_def)
  moreover have "key = (pd_sig p, pd_idx p)" using assms by simp
  ultimately show ?thesis using assms(1)
    unfolding pending_ok_def by (simp only: keys_dput dict_ok_dput) (simp add: dict_all_dput)
qed

text \<open>What the counters do.\<close>

lemma count_bucket_mismatch:
  "counts_ok (m \<lparr> shadow_mismatch := shadow_mismatch m + 1 \<rparr>) \<Longrightarrow> mismatch_bucket b \<Longrightarrow> counts_ok (count_bucket b m)"
  by (auto simp: counts_ok_def mismatch_bucket_def count_bucket_def Let_def split: bucket.split)

lemma count_bucket_neutral:
  "counts_ok m \<Longrightarrow> b = State_missing \<or> b = Fork_order \<Longrightarrow> counts_ok (count_bucket b m)"
  by (auto simp: counts_ok_def count_bucket_def Let_def)

lemma count_bucket_sel [simp]:
  "shadow_exact (count_bucket b m) = shadow_exact m" "tx_exact_total (count_bucket b m) = tx_exact_total m"
  "tx_exact_shadowed (count_bucket b m) = tx_exact_shadowed m"
  by (simp_all add: count_bucket_def Let_def split: bucket.split)

lemma count_fields_sel:
  "foldl count_field m fs = m \<lparr> mismatch_by := mismatch_by (foldl count_field m fs) \<rparr>"
proof (induction fs arbitrary: m)
  case (Cons f fs)
  from Cons [of "count_field m f"] show ?case
    by (simp add: count_field_def)
qed simp

lemma emit_log_ok:
  "log_ok g \<Longrightarrow> b = State_missing \<or> b = Fork_order \<or> mismatch_bucket b \<Longrightarrow> log_ok (emit g b r p pub fs)"
  by (auto simp: log_ok_def emit_def Let_def is_exact_def count_bucket_def mismatch_bucket_def)

lemma emit_neutral:
  assumes "b = State_missing \<or> b = Fork_order"
  shows "counts_ok (g_m g) \<Longrightarrow> counts_ok (g_m (emit g b r p pub fs))" "log_ok g \<Longrightarrow> log_ok (emit g b r p pub fs)"
    "tx_ok g \<Longrightarrow> tx_ok (emit g b r p pub fs)"
  using assms count_bucket_neutral emit_log_ok by (auto simp: tx_ok_def)

lemma filter_dpop_le: "length (filter Q (dpop k d)) \<le> length (filter Q d)"
  by (induction d) auto

lemma filter_dpop:
  assumes "dict_ok d" and "dget d k = Some p"
  shows "length (filter Q (dpop k d)) + (if Q (k, p) then 1 else 0) = length (filter Q d)"
  using assms by (induction d) (auto simp: dict_ok_def dget_None_iff delete_idem split: if_split_asm)

lemma filter_dput: "length (filter Q (dput k p d)) \<le> length (filter Q d) + (if Q (k, p) then 1 else 0)"
  by (induction d) auto

lemma drop_key_more:
  "counts_ok (g_m g) \<Longrightarrow> counts_ok (g_m (drop_key g k))" "log_ok g \<Longrightarrow> log_ok (drop_key g k)" "tx_ok g \<Longrightarrow> tx_ok (drop_key g k)"
  using filter_dpop_le [of tx1 k "g_pending g"] by (auto simp: log_ok_def tx_ok_def)

lemma length_dpop: "length (dpop k d) \<le> length d"
  by (rule length_delete_le)

lemma report_ok:
  assumes "gate_ok g" and "b = State_missing \<or> b = Fork_order"
  shows "gate_ok (drop_key (emit g b r p pub fs) key)"
proof -
  have "pending_ok (emit g b r p pub fs)" using assms(1) by (simp add: gate_ok_def cong: pending_ok_cong)
  then show ?thesis
    using assms(1) emit_neutral [OF assms(2)] length_dpop [of key "g_pending g"]
    by (simp add: gate_ok_def drop_key_ok drop_key_more)
qed

lemma count_scored_exact: "counts_ok m \<Longrightarrow> counts_ok (count_exact kind p (count_scored kind p m))"
  by (simp add: counts_ok_def count_exact_def count_scored_def Let_def)

lemma count_scored_failed:
  assumes "counts_ok m" and "mismatch_bucket b"
  shows "counts_ok (count_bucket b (count_failed b fs p (count_scored kind p m)))"
proof (rule count_bucket_mismatch)
  define n where "n = count_scored kind p m"
  have n: "counts_ok (n \<lparr> shadow_mismatch := shadow_mismatch n + 1,
      publication_mismatch := publication_mismatch n + x, prediction_mismatch := prediction_mismatch n + y,
      tx_exact_mismatch := tx_exact_mismatch n + (if pd_tx_exact p = Some 1 then 1 else 0) \<rparr>)" if "x + y = 1" for x y
    using assms(1) that by (auto simp: counts_ok_def count_scored_def n_def Let_def)
  define q where "q = mismatch_by (foldl count_field n fs)"
  have f: "foldl count_field n fs = n \<lparr> mismatch_by := q \<rparr>" unfolding q_def by (rule count_fields_sel)
  show "counts_ok ((count_failed b fs p n) \<lparr> shadow_mismatch := shadow_mismatch (count_failed b fs p n) + 1 \<rparr>)"
    using n [of 1 0] n [of 0 1] by (simp add: counts_ok_def count_failed_def f Let_def)
qed fact

lemma count_failed_sel:
  "shadow_exact (count_failed b fs p m) = shadow_exact m" "shadow_mismatch (count_failed b fs p m) = shadow_mismatch m"
  "shadow_state_missing (count_failed b fs p m) = shadow_state_missing m"
  "tx_exact_total (count_failed b fs p m) = tx_exact_total m" "tx_exact_shadowed (count_failed b fs p m) = tx_exact_shadowed m"
  by (subst count_failed_def, subst count_fields_sel, simp add: Let_def)+

lemma count_scored_sel:
  "shadow_exact (count_scored kind p m) = shadow_exact m" "shadow_mismatch (count_scored kind p m) = shadow_mismatch m"
  "shadow_state_missing (count_scored kind p m) = shadow_state_missing m" "tx_exact_total (count_scored kind p m) = tx_exact_total m"
  "tx_exact_shadowed (count_scored kind p m) = tx_exact_shadowed m + (if pd_tx_exact p = Some 1 then 1 else 0)"
  by (simp_all add: count_scored_def Let_def)

lemma count_exact_sel:
  "shadow_exact (count_exact kind p m) = shadow_exact m + 1" "shadow_mismatch (count_exact kind p m) = shadow_mismatch m"
  "shadow_state_missing (count_exact kind p m) = shadow_state_missing m" "tx_exact_total (count_exact kind p m) = tx_exact_total m"
  "tx_exact_shadowed (count_exact kind p m) = tx_exact_shadowed m"
  by (simp_all add: count_exact_def Let_def)

lemmas count_sels = count_failed_sel count_scored_sel count_exact_sel

lemma score_cases:
  obtains (exact) "fst (compare_exact (pb_kind pub) (pd_s_prime p) (pb_pub pub) (pb_before pub)) = []"
      "score g txn p pub = g \<lparr> g_m := count_exact (pb_kind pub) p (count_scored (pb_kind pub) p (g_m g)),
         g_log := g_log g @ [LogExact (pb_idx pub) (pb_kind pub) txn (ss_slot (pb_pub pub))] \<rparr>"
  | (failed) fs b where "fst (compare_exact (pb_kind pub) (pd_s_prime p) (pb_pub pub) (pb_before pub)) = fs" "fs \<noteq> []"
      "mismatch_bucket b"
      "score g txn p pub = emit (g \<lparr> g_m := count_failed b fs p (count_scored (pb_kind pub) p (g_m g)) \<rparr>) b ''bit_exact_fail'' p pub fs"
proof -
  obtain fs b where c: "compare_exact (pb_kind pub) (pd_s_prime p) (pb_pub pub) (pb_before pub) = (fs, b)" by fastforce
  show thesis
  proof (cases "fs = []")
    case True
    then show thesis using c by (intro exact) (simp_all add: score_def Let_def)
  next
    case False
    moreover from this have "mismatch_bucket b" using compare_bucket [OF c] compare_fields_Nil [OF c]
      by (auto simp: mismatch_bucket_def)
    ultimately show thesis using c by (intro failed [of fs b]) (simp_all add: score_def Let_def)
  qed
qed

lemma score_counts: "counts_ok (g_m g) \<Longrightarrow> counts_ok (g_m (score g txn p pub))"
  by (rule score_cases [of pub p g txn]) (simp_all add: count_scored_exact count_scored_failed)

lemma score_log: "log_ok g \<Longrightarrow> log_ok (score g txn p pub)"
proof (rule score_cases [of pub p g txn])
  fix fs b assume "log_ok g" "mismatch_bucket b"
    and s: "score g txn p pub = emit (g \<lparr> g_m := count_failed b fs p (count_scored (pb_kind pub) p (g_m g)) \<rparr>) b ''bit_exact_fail'' p pub fs"
  then show ?thesis unfolding s by (intro emit_log_ok) (simp_all add: log_ok_def count_sels)
qed (simp add: log_ok_def count_sels is_exact_def)

lemma score_tx:
  "tx_exact_total (g_m (score g txn p pub)) = tx_exact_total (g_m g)"
  "tx_exact_shadowed (g_m (score g txn p pub)) = tx_exact_shadowed (g_m g) + (if pd_tx_exact p = Some 1 then 1 else 0)"
  by (rule score_cases [of pub p g txn]; simp add: count_sels)+

lemma score_ok:
  assumes "gate_ok g" and "dget (g_pending g) key = Some p"
  shows "gate_ok (drop_key (score g txn p pub) key)"
proof -
  have "pending_ok (score g txn p pub)" using assms(1) by (simp add: gate_ok_def cong: pending_ok_cong)
  moreover have "tx_ok (drop_key (score g txn p pub) key)"
    using assms filter_dpop [OF _ assms(2), of tx1]
    by (auto simp: gate_ok_def tx_ok_def pending_ok_def score_tx tx1_def split: if_split_asm)
  ultimately show ?thesis using assms(1) length_dpop [of key "g_pending g"]
    by (simp add: gate_ok_def drop_key_ok drop_key_more score_counts score_log)
qed

lemma drop_ok: "gate_ok g \<Longrightarrow> gate_ok (drop_key g key)"
  using length_dpop [of key "g_pending g"] by (simp add: gate_ok_def drop_key_ok drop_key_more)

lemma on_publish_ok: "gate_ok g \<Longrightarrow> gate_ok (on_publish g pub)"
  by (auto simp: on_publish_def intro: drop_ok report_ok score_ok split: option.split)

lemma expire_one_ok: "gate_ok g \<Longrightarrow> gate_ok (expire_one now max_age g e)"
  by (auto simp: expire_one_def case_prod_unfold Let_def intro: report_ok)

lemma expire_stale_ok: "gate_ok g \<Longrightarrow> gate_ok (expire_stale now max_age g)"
proof -
  have "gate_ok g \<Longrightarrow> gate_ok (foldl (expire_one now max_age) g es)" for es
    by (induction es arbitrary: g) (simp_all add: expire_one_ok)
  then show "gate_ok g \<Longrightarrow> ?thesis" by (simp add: expire_stale_def)
qed

lemma bound_pending_ok:
  assumes "pending_ok g" "counts_ok (g_m g)" "log_ok g" "tx_ok g" "length (g_pending g) \<le> Suc PENDING_CAP"
  shows "gate_ok (bound_pending g)"
proof (cases "length (g_pending g) > PENDING_CAP")
  case False
  then show ?thesis using assms by (simp add: gate_ok_def bound_pending_def)
next
  case True
  then obtain k p rest where g: "g_pending g = (k, p) # rest" by (cases "g_pending g") auto
  let ?e = "emit g State_missing ''pending_overflow'' p (expiry p) []"
  have "dpop k (g_pending g) = rest" using assms(1) by (auto simp: g pending_ok_def dict_ok_def intro: delete_idem)
  moreover have "pending_ok ?e" using assms(1) by (simp cong: pending_ok_cong)
  ultimately have "gate_ok (drop_key ?e k)" using assms emit_neutral [of State_missing g]
    by (simp add: gate_ok_def drop_key_ok drop_key_more g)
  then show ?thesis using True by (simp add: bound_pending_def g)
qed

lemma add_pending_counts:
  assumes "gate_ok g" and "pd_sig p = fst key" and "pd_idx p = snd key"
  shows "gate_ok (bound_pending (add_pending g key p))"
proof (rule bound_pending_ok)
  show "pending_ok (add_pending g key p)" using assms by (simp add: gate_ok_def add_pending_ok)
  show "tx_ok (add_pending g key p)" using assms(1) filter_dput [of tx1 key p "g_pending g"]
    by (auto simp: gate_ok_def tx_ok_def add_pending_def tx1_def split: if_split_asm)
qed (use assms(1) length_dput_bounds [of key p "g_pending g"]
     in \<open>auto simp: gate_ok_def counts_ok_def log_ok_def add_pending_def intro: le_trans\<close>)

lemma gate_ok_counter:
  assumes "gate_ok g"
  shows "gate_ok (g \<lparr> g_m := (g_m g) \<lparr> paper_ingested := n \<rparr> \<rparr>)" "gate_ok (g \<lparr> g_m := (g_m g) \<lparr> fastsoak_ingested := n \<rparr> \<rparr>)"
    "gate_ok (decode_error g)"
  using assms by (simp_all add: gate_ok_def pending_ok_def counts_ok_def log_ok_def tx_ok_def by_idx_of_def decode_error_def)

lemma ingest_paper_ok: "gate_ok g \<Longrightarrow> gate_ok (ingest_paper now g r)"
  by (auto simp: ingest_paper_def Let_def pend_of_def intro!: add_pending_counts gate_ok_counter split: option.split)

lemma ingest_direct_ok: "gate_ok g \<Longrightarrow> gate_ok (ingest_direct now g r)"
  by (simp add: ingest_direct_def Let_def ingest_paper_ok gate_ok_counter)

interpretation shadow: event_machine shadow_handle gate_ok new_gate
proof
  show "gate_ok new_gate"
    by (simp add: gate_ok_def pending_ok_def counts_ok_def log_ok_def tx_ok_def new_gate_def zero_counters_def by_idx_of_def)
  show "gate_ok (shadow_handle g e)" if "gate_ok g" for g e
    using that by (cases e)
      (simp_all add: shadow_handle_def ingest_paper_ok ingest_direct_ok on_publish_ok expire_stale_ok)
qed

section \<open>Expiry and the first mismatch\<close>

lemma sig_hex_nonempty: "sig_hex raw = Some s \<Longrightarrow> s \<noteq> [] \<and> raw \<noteq> SigBytes BOOT_SIG"
proof -
  have "to_hex b = [] \<longleftrightarrow> b = []" for b
    by (cases b) (auto simp: to_hex_def hex_digits_def)
  moreover have "nonempty xs = Some s \<Longrightarrow> s \<noteq> []" for xs by (simp add: nonempty_def split: if_split_asm)
  moreover assume "sig_hex raw = Some s"
  ultimately show ?thesis
    by (cases raw) (simp_all only: sig_hex_def Let_def sig_raw.case sig_raw.simps, auto split: if_split_asm)
qed

definition young :: "int \<Rightarrow> int \<Rightarrow> (string \<times> int) \<times> pend \<Rightarrow> bool" where
  "young now max_age e \<longleftrightarrow> now - pd_t_ingest (snd e) < max_age"

definition missing_row :: "(string \<times> int) \<times> pend \<Rightarrow> log_row" where
  "missing_row e = LogMismatch (pd_idx (snd e)) ''unknown'' State_missing ''no_associated_publish'' (pd_sig (snd e)) None []
     (bundle_name (snd e))"

lemma expire_one_sel:
  "g_pending (expire_one now a g e) = (if young now a e then g_pending g else dpop (fst e) (g_pending g))"
  "g_log (expire_one now a g e) = g_log g @ (if young now a e then [] else [missing_row e])"
  "g_explain (expire_one now a g e) = g_explain g"
  by (simp_all add: expire_one_def case_prod_unfold Let_def young_def emit_def missing_row_def bundle_of_def expiry_def
      empty_stage_def)

lemma expire_fold:
  "g_pending (foldl (expire_one now a) g es) = filter (\<lambda>e. fst e \<notin> fst ` set (filter (\<lambda>e. \<not> young now a e) es)) (g_pending g)"
  "g_log (foldl (expire_one now a) g es) = g_log g @ map missing_row (filter (\<lambda>e. \<not> young now a e) es)"
  "g_explain (foldl (expire_one now a) g es) = g_explain g"
  by (induction es arbitrary: g)
     (auto simp: expire_one_sel AList.delete_eq intro!: filter_cong)

lemma expire_stale_exact:
  assumes "dict_ok (g_pending g)"
  shows "g_pending (expire_stale now a g) = filter (young now a) (g_pending g)"
    "g_log (expire_stale now a g) = g_log g @ map missing_row (filter (\<lambda>e. \<not> young now a e) (g_pending g))"
proof -
  have "fst e \<notin> fst ` set (filter (\<lambda>e. \<not> young now a e) (g_pending g)) \<longleftrightarrow> young now a e" if "e \<in> set (g_pending g)" for e
  proof -
    have "e' = e" if "e' \<in> set (g_pending g)" "fst e' = fst e" for e'
      using assms that \<open>e \<in> set (g_pending g)\<close> by (auto simp: dict_ok_def distinct_map dest: inj_onD)
    then show ?thesis using that by (auto simp del: set_map)
  qed
  then show "g_pending (expire_stale now a g) = filter (young now a) (g_pending g)"
    unfolding expire_stale_def expire_fold by (intro filter_cong) auto
qed (simp add: expire_stale_def expire_fold)

lemma emit_explain: "g_explain g = Some b \<Longrightarrow> g_explain (emit g bk r p pub fs) = Some b"
  by (simp add: emit_def Let_def)

lemma score_explain: "g_explain g = Some b \<Longrightarrow> g_explain (score g txn p pub) = Some b"
  by (rule score_cases [of pub p g txn]) (simp_all add: emit_explain)

lemma explain_step: "g_explain g = Some b \<Longrightarrow> g_explain (shadow_handle g e) = Some b"
proof -
  assume b: "g_explain g = Some b"
  have i: "g_explain (ingest_paper now h r) = Some b" if "g_explain h = Some b" for now h r
    using that by (auto simp: ingest_paper_def Let_def bound_pending_def add_pending_def decode_error_def emit_explain
        split: option.split list.split)
  have "g_explain (on_publish g pub) = Some b" for pub
    using b by (auto simp: on_publish_def emit_explain score_explain split: option.split)
  then show ?thesis using b i
    by (cases e) (simp_all add: shadow_handle_def ingest_direct_def Let_def expire_stale_def expire_fold)
qed

lemma explain_kept: "g_explain g = Some b \<Longrightarrow> g_explain (foldl shadow_handle g es) = Some b"
  by (induction es arbitrary: g) (simp_all add: explain_step)

section \<open>Properties\<close>

text \<open>
  C27: the scores of the shadow gate account for every comparison. After any sequence of
  predictions, publications and expiries, every comparison made is counted once as exact or as
  a publication or prediction mismatch, and once as a pump or a DLMM comparison; the exact
  counts match the exact rows of the log and the other rows are the mismatches and the missing
  states; transactions scored never exceed the transactions ingested; at most 512 predictions
  wait, each under its own signature and pool, and the index by pool lists exactly them; the
  first mismatch on file is the one that stays.
\<close>
theorem shadow_accounts_for_every_score:
  "let g = foldl shadow_handle new_gate es; m = g_m g in
    shadow_total m = shadow_exact m + publication_mismatch m + prediction_mismatch m
    \<and> shadow_total m = pump_total m + dlmm_total m \<and> shadow_exact m = pump_exact m + dlmm_exact m
    \<and> shadow_exact m = length (filter is_exact (g_log g))
    \<and> shadow_mismatch m + shadow_state_missing m = length (filter (\<lambda>r. \<not> is_exact r) (g_log g))
    \<and> tx_exact_bitexact m + tx_exact_mismatch m = tx_exact_shadowed m \<and> tx_exact_shadowed m \<le> tx_exact_total m
    \<and> length (g_pending g) \<le> PENDING_CAP
    \<and> (\<forall>i sig j. (sig, j) \<in> set (by_idx_of g i) \<longleftrightarrow>
         j = i \<and> (\<exists>p. dget (g_pending g) (sig, i) = Some p \<and> pd_sig p = sig \<and> pd_idx p = i))
    \<and> (g_explain g = None \<or> g_explain (foldl shadow_handle g es') = g_explain g)"
proof -
  define g where "g = foldl shadow_handle new_gate es"
  define m where "m = g_m g"
  have ok: "gate_ok g" unfolding g_def by (rule shadow.inv_run)
  then have po: "pending_ok g" by (simp add: gate_ok_def)
  have "(sig, j) \<in> set (by_idx_of g i) \<longleftrightarrow> j = i \<and> (\<exists>p. dget (g_pending g) (sig, i) = Some p \<and> pd_sig p = sig \<and> pd_idx p = i)"
    for i sig j
  proof -
    have "(sig, j) \<in> set (by_idx_of g i) \<longleftrightarrow> j = i \<and> dget (g_pending g) (sig, i) \<noteq> None"
      using po by (auto simp: pending_ok_def dget_None_iff simp del: set_map)
    moreover have "pd_sig p = sig \<and> pd_idx p = i" if "dget (g_pending g) (sig, i) = Some p" for p
      using po that by (auto simp: pending_ok_def dest: dict_all_dget)
    ultimately show ?thesis by auto
  qed
  moreover have "length (filter tx1 (g_pending g)) + tx_exact_shadowed m \<le> tx_exact_total m"
    using ok by (simp add: gate_ok_def tx_ok_def m_def)
  moreover have "g_explain g = None \<or> g_explain (foldl shadow_handle g es') = g_explain g"
    using explain_kept [of g] by (cases "g_explain g") simp_all
  ultimately show ?thesis using ok unfolding Let_def g_def [symmetric] m_def [symmetric]
    by (simp add: gate_ok_def counts_ok_def log_ok_def m_def)
qed


definition sample_paper :: paper where
  "sample_paper = \<lparr> pr_kind = ''opp_synced'',
     pr_s_prime = Some (no_state \<lparr> ss_active_after := Some 7, ss_vol_acc := Some 0, ss_touched := [\<lparr> to_id = 7, to_x = 5, to_y = 9 \<rparr>] \<rparr>),
     pr_n = Some \<lparr> pn_pool_idx = Some 3, pn_direction = Some 1, pn_amount_in = Some 100 \<rparr>, pr_sig_hex = SigBytes [0xab],
     pr_auth_slot = Some 10, pr_auth_age_slots = None, pr_fresh_age_slots = None, pr_tx_exact = Some 1, pr_pool = None,
     pr_source = None \<rparr>"

definition sample_pub :: "int list \<Rightarrow> publication" where
  "sample_pub xy = \<lparr> pb_idx = 3, pb_kind = ''dlmm'', pb_pubkey = ''pair'', pb_origin = ''tx'',
     pb_stage = \<lparr> sg_sig = SigStr ''AB'', sg_wait_slot = False, sg_slot = Some 11 \<rparr>, pb_staged = [], pb_before = None,
     pb_pub = no_state \<lparr> ss_slot := Some 11, ss_active_id := Some 7, ss_vol_acc := Some 0, ss_bins := [(BinInt 7, xy)] \<rparr> \<rparr>"


end
