(* ===== verification/Recon_Log.thy ===== *)
theory Recon_Log
  imports Live_Univ
begin

text \<open>
  The reconciliation log: the append-only writer \<^verbatim>\<open>arb-state/shyft/recon.py\<close> and its two Python
  readers, the streaming one of \<^verbatim>\<open>arb-cap/timer_decay/replay.py\<close> and the one over the whole file of
  \<^verbatim>\<open>recon_span.py\<close>. A file is its bytes; a write returns what it appends, and nothing is appended
  when packing a field fails, since every field is packed before the first byte is written.
\<close>

section \<open>Writer\<close>

definition RECON_MAGIC :: int where "RECON_MAGIC = 0x36305453"
definition RECON_AUTH :: int where "RECON_AUTH = 3"
definition RECON_INVALIDATE :: int where "RECON_INVALIDATE = 4"
definition RECON_PLANE :: int where "RECON_PLANE = 5"

text \<open>\<open>None\<close> is a file that does not exist yet.\<close>

definition open_recon :: "bytes option \<Rightarrow> bytes res" where
  "open_recon f = (case f of
       Some bs \<Rightarrow> if bs = [] then rconcat [write_u32 RECON_MAGIC, write_u16 1, write_u16 0] else Inr bs
     | None \<Rightarrow> rconcat [write_u32 RECON_MAGIC, write_u16 1, write_u16 0])"

definition pad_sig :: "bytes \<Rightarrow> bytes" where
  "pad_sig sig = (if length sig \<noteq> 64 then take 64 (sig @ zeros 64) else sig)"

definition write_rec :: "int \<Rightarrow> int \<Rightarrow> int \<Rightarrow> bytes \<Rightarrow> int \<Rightarrow> bytes \<Rightarrow> bytes res" where
  "write_rec kind proto pool_idx sig slot body =
    rbind (rconcat [write_u8 kind, write_u8 proto, write_u16 0, write_u32 pool_idx, Inr (pad_sig sig), write_u64 slot]) (\<lambda>fixed.
      if length fixed \<noteq> 80 then Inl (RuntimeError ''recon fixed'')
      else rconcat [write_u32 (80 + int (length body)), Inr fixed, Inr body])"

definition recon_invalidate :: "int \<Rightarrow> int \<Rightarrow> int \<Rightarrow> int \<Rightarrow> bytes res" where
  "recon_invalidate proto pool_idx rx_ns slot =
    rbind (rconcat [write_u64 rx_ns, write_u64 0]) (\<lambda>ts.
      write_rec RECON_INVALIDATE proto pool_idx (ts @ zeros 48) slot [])"

definition recon_plane :: "bool \<Rightarrow> int \<Rightarrow> bytes res" where
  "recon_plane ready slot = write_rec RECON_PLANE 0 0 (zeros 64) (if ready then 1 else 0) []"

definition recon_auth :: "int \<Rightarrow> int \<Rightarrow> int \<Rightarrow> bytes \<Rightarrow> bytes res" where
  "recon_auth proto pool_idx slot body = write_rec RECON_AUTH proto pool_idx (zeros 64) slot body"

section \<open>Readers\<close>

record recon_rec =
  rr_kind :: int
  rr_proto :: int
  rr_idx :: int
  rr_slot :: int
  rr_body :: bytes

definition FIXED :: nat where "FIXED = 80"
definition MAX_REC :: nat where "MAX_REC = 5000"

definition rec_at :: "bytes \<Rightarrow> nat \<Rightarrow> nat \<Rightarrow> recon_rec" where
  "rec_at data off ln = \<lparr> rr_kind = u_at 1 data off, rr_proto = u_at 1 data (off + 1), rr_idx = u_at 4 data (off + 4),
     rr_slot = u_at 8 data (off + 72), rr_body = slice (off + FIXED) (off + ln) data \<rparr>"

text \<open>\<^verbatim>\<open>replay.iter_recs\<close>: what is left of the open file after its header.\<close>

fun read_recs :: "bytes \<Rightarrow> recon_rec list" where
  "read_recs f =
    (if length f < 4 then []
     else let ln = le_nat (take 4 f); rest = drop 4 f
          in if ln < FIXED \<or> ln > MAX_REC then []
             else if length (take ln rest) < ln then []
             else rec_at (take ln rest) 0 ln # read_recs (drop ln rest))"

declare read_recs.simps [simp del]

definition iter_recs :: "bytes \<Rightarrow> recon_rec list res" where
  "iter_recs f =
    (let hdr = take 8 f
     in if length hdr < 8 \<or> u_at 4 hdr 0 \<noteq> RECON_MAGIC then Inl (RuntimeError ''bad recon magic'') else Inr (read_recs (drop 8 f)))"

text \<open>\<^verbatim>\<open>recon_span.iter_recs\<close>: offsets into the whole file.\<close>

function span_recs :: "bytes \<Rightarrow> nat \<Rightarrow> recon_rec list" where
  "span_recs data off =
    (if off + 4 \<le> length data
     then let ln = nat (u_at 4 data off); off' = off + 4
          in if ln < FIXED \<or> off' + ln > length data \<or> ln > MAX_REC then []
             else rec_at data off' ln # span_recs data (off' + ln)
     else [])"
  by pat_completeness auto
termination by (relation "measure (\<lambda>(data, off). length data - off)") auto

declare span_recs.simps [simp del]

section \<open>What is written is what is read\<close>

datatype recon_op = OpInvalidate int int int int | OpPlane bool int | OpAuth int int int bytes

definition op_bytes :: "recon_op \<Rightarrow> bytes res" where
  "op_bytes op = (case op of
       OpInvalidate proto idx rx slot \<Rightarrow> recon_invalidate proto idx rx slot
     | OpPlane ready slot \<Rightarrow> recon_plane ready slot
     | OpAuth proto idx slot body \<Rightarrow> recon_auth proto idx slot body)"

definition op_rec :: "recon_op \<Rightarrow> recon_rec" where
  "op_rec op = (case op of
       OpInvalidate proto idx rx slot \<Rightarrow> \<lparr> rr_kind = 4, rr_proto = proto, rr_idx = idx, rr_slot = slot, rr_body = [] \<rparr>
     | OpPlane ready slot \<Rightarrow> \<lparr> rr_kind = 5, rr_proto = 0, rr_idx = 0, rr_slot = (if ready then 1 else 0), rr_body = [] \<rparr>
     | OpAuth proto idx slot body \<Rightarrow> \<lparr> rr_kind = 3, rr_proto = proto, rr_idx = idx, rr_slot = slot, rr_body = body \<rparr>)"

lemma rconcat_Cons: "rconcat (w # ws) = Inr bs \<longleftrightarrow> (\<exists>a b. w = Inr a \<and> rconcat ws = Inr b \<and> bs = a @ b)"
  by (cases w; cases "rconcat ws") auto

lemma u_at_append: "length pre = off \<Longrightarrow> pack_u k v = Inr a \<Longrightarrow> u_at k (pre @ a @ r) off = v"
  using u_at_in by blast

lemma length_pad_sig [simp]: "length (pad_sig sig) = 64"
  by (simp add: pad_sig_def) linarith

lemma write_rec_layout:
  assumes "write_rec kind proto idx sig slot body = Inr bs"
  shows "\<exists>ln fixed. bs = ln @ fixed @ body \<and> length ln = 4 \<and> length fixed = 80 \<and> le_nat ln = 80 + length body
    \<and> u_at 1 fixed 0 = kind \<and> u_at 1 fixed 1 = proto \<and> u_at 4 fixed 4 = idx \<and> u_at 8 fixed 72 = slot"
proof -
  obtain k p z i s l where w: "pack_u 1 kind = Inr k" "pack_u 1 proto = Inr p" "pack_u 2 0 = Inr z" "pack_u 4 idx = Inr i"
      "pack_u 8 slot = Inr s" "pack_u 4 (80 + int (length body)) = Inr l"
    and bs: "bs = l @ (k @ p @ z @ i @ pad_sig sig @ s) @ body"
    using assms by (auto simp: write_rec_def rbind_Inr_iff rconcat_Cons write_defs simp del: rconcat.simps split: if_split_asm)
  have n: "length k = 1" "length p = 1" "length z = 2" "length i = 4" "length s = 8" "length l = 4"
    using w pack_u_length by metis+
  have "int (le_nat l) = 80 + int (length body)" using uint_le_pack_u [OF w(6)] by (simp add: uint_le_def)
  then have "le_nat l = 80 + length body" by linarith
  moreover have "u_at 1 (k @ p @ z @ i @ pad_sig sig @ s) 0 = kind"
    using u_at_append [of "[]" 0 1 kind k, OF _ w(1)] by simp
  moreover have "u_at 1 (k @ p @ z @ i @ pad_sig sig @ s) 1 = proto"
    using u_at_append [of k 1 1 proto p, OF n(1) w(2)] by simp
  moreover have "u_at 4 (k @ p @ z @ i @ pad_sig sig @ s) 4 = idx"
    using u_at_append [of "k @ p @ z" 4 4 idx i, OF _ w(4)] n by simp
  moreover have "u_at 8 (k @ p @ z @ i @ pad_sig sig @ s) 72 = slot"
    using u_at_append [of "k @ p @ z @ i @ pad_sig sig" 72 8 slot s "[]", OF _ w(5)] n by simp
  ultimately show ?thesis using n bs by (intro exI [of _ l] exI [of _ "k @ p @ z @ i @ pad_sig sig @ s"]) simp
qed


definition short_body :: "recon_op \<Rightarrow> bool" where
  "short_body op = (case op of OpAuth _ _ _ body \<Rightarrow> length body \<le> 4920 | _ \<Rightarrow> True)"

lemma op_layout:
  assumes "op_bytes op = Inr bs"
  shows "\<exists>ln fixed. bs = ln @ fixed @ rr_body (op_rec op) \<and> length ln = 4 \<and> length fixed = 80
    \<and> le_nat ln = 80 + length (rr_body (op_rec op)) \<and> rec_at (fixed @ rr_body (op_rec op)) 0 (le_nat ln) = op_rec op"
proof -
  obtain sig where w: "write_rec (rr_kind (op_rec op)) (rr_proto (op_rec op)) (rr_idx (op_rec op)) sig (rr_slot (op_rec op)) (rr_body (op_rec op)) = Inr bs"
    using assms by (cases op)
      (auto simp: op_bytes_def op_rec_def recon_invalidate_def recon_plane_def recon_auth_def RECON_AUTH_def
        RECON_INVALIDATE_def RECON_PLANE_def rbind_Inr_iff)
  obtain ln fixed where l: "bs = ln @ fixed @ rr_body (op_rec op)" "length ln = 4" "length fixed = 80"
    "le_nat ln = 80 + length (rr_body (op_rec op))" "u_at 1 fixed 0 = rr_kind (op_rec op)" "u_at 1 fixed 1 = rr_proto (op_rec op)"
    "u_at 4 fixed 4 = rr_idx (op_rec op)" "u_at 8 fixed 72 = rr_slot (op_rec op)"
    using write_rec_layout [OF w] by blast
  have "u_at k (fixed @ r) off = u_at k fixed off" if "off + k \<le> 80" for k off r
    using that l(3) by (simp add: u_at_def slice_append_left)
  moreover have "slice 80 (80 + length r) (fixed @ r) = r" for r :: bytes using l(3) by (simp add: slice_def)
  ultimately have "rec_at (fixed @ rr_body (op_rec op)) 0 (le_nat ln) = op_rec op"
    using l by (simp add: rec_at_def FIXED_def)
  with l show ?thesis by (intro exI conjI)
qed

lemma read_recs_op:
  assumes "op_bytes op = Inr bs" and "short_body op"
  shows "read_recs (bs @ rest) = op_rec op # read_recs rest"
proof -
  obtain ln fixed where l: "bs = ln @ fixed @ rr_body (op_rec op)" "length ln = 4" "length fixed = 80"
    "le_nat ln = 80 + length (rr_body (op_rec op))" "rec_at (fixed @ rr_body (op_rec op)) 0 (le_nat ln) = op_rec op"
    using op_layout [OF assms(1)] by blast
  have "length (rr_body (op_rec op)) \<le> 4920"
    using assms(2) by (cases op) (simp_all add: short_body_def op_rec_def)
  then show ?thesis using l by (subst read_recs.simps) (simp add: Let_def FIXED_def MAX_REC_def)
qed

lemma read_recs_torn:
  assumes "op_bytes op = Inr bs" and "n < length bs"
  shows "read_recs (take n bs) = []"
proof -
  obtain ln fixed where l: "bs = ln @ fixed @ rr_body (op_rec op)" "length ln = 4" "length fixed = 80"
    "le_nat ln = 80 + length (rr_body (op_rec op))"
    using op_layout [OF assms(1)] by blast
  show ?thesis using assms(2) l by (subst read_recs.simps) (auto simp: Let_def)
qed

text \<open>How many records of the given lengths are whole within the first \<open>n\<close> bytes.\<close>

fun whole :: "nat list \<Rightarrow> nat \<Rightarrow> nat" where
  "whole [] n = 0"
| "whole (l # ls) n = (if l \<le> n then Suc (whole ls (n - l)) else 0)"

lemma whole_all: "sum_list ls \<le> n \<Longrightarrow> whole ls n = length ls"
  by (induction ls arbitrary: n) auto

lemma read_recs_prefix:
  assumes "rmap op_bytes ops = Inr bss" and "list_all short_body ops"
  shows "read_recs (take n (concat bss)) = take (whole (map length bss) n) (map op_rec ops)"
  using assms
proof (induction ops arbitrary: bss n)
  case Nil
  then show ?case by (simp add: read_recs.simps [of "[]"])
next
  case (Cons op ops)
  then obtain bs bss' where b: "op_bytes op = Inr bs" "rmap op_bytes ops = Inr bss'" "bss = bs # bss'"
    by (auto simp: rbind_Inr_iff)
  show ?case
  proof (cases "length bs \<le> n")
    case True
    then show ?thesis using Cons.IH [OF b(2)] Cons.prems(2) read_recs_op [OF b(1)] by (simp add: b(3))
  next
    case False
    then show ?thesis using read_recs_torn [OF b(1), of n] by (simp add: b(3))
  qed
qed

lemma span_is_read: "off \<le> length data \<Longrightarrow> span_recs data off = read_recs (drop off data)"
proof (induction data off rule: span_recs.induct)
  case (1 data off)
  have ln: "nat (u_at 4 data off) = le_nat (take 4 (drop off data))"
    by (simp add: u_at_def uint_le_def slice_def)
  have at: "rec_at data (off + 4) n = rec_at (take n (drop 4 (drop off data))) 0 n" if "80 \<le> n" for n
    using that by (simp add: rec_at_def u_at_def slice_def FIXED_def min_def add.commute take_drop)
  show ?case
  proof (cases "off + 4 \<le> length data \<and> \<not> (nat (u_at 4 data off) < FIXED \<or> off + 4 + nat (u_at 4 data off) > length data
      \<or> nat (u_at 4 data off) > MAX_REC)")
    case True
    then have "span_recs data (off + 4 + nat (u_at 4 data off)) = read_recs (drop (off + 4 + nat (u_at 4 data off)) data)"
      using 1 by simp
    with True show ?thesis
      by (subst span_recs.simps, subst read_recs.simps) (auto simp: Let_def ln at FIXED_def add.commute add.left_commute)
  next
    case False
    then show ?thesis by (subst span_recs.simps, subst read_recs.simps) (auto simp: Let_def ln)
  qed
qed

lemma header_ok:
  assumes "open_recon None = Inr hdr"
  shows "length hdr = 8 \<and> u_at 4 hdr 0 = RECON_MAGIC"
proof -
  obtain a b c where w: "pack_u 4 RECON_MAGIC = Inr a" "pack_u 2 1 = Inr b" "pack_u 2 0 = Inr c" "hdr = a @ b @ c"
    using assms by (auto simp: open_recon_def rconcat_Cons write_defs simp del: rconcat.simps)
  then show ?thesis using u_at_append [of "[]" 0 4 RECON_MAGIC a "b @ c"] pack_u_length by fastforce
qed

section \<open>Properties\<close>

text \<open>
  C30: the reconciliation log survives a crash. For a log started by the writer and any sequence
  of appended records whose bodies fit the readers' limit, both readers return, from the file
  cut anywhere after its header, exactly the records that are whole before the cut, in order
  and with every field as written; uncut, that is all of them.
\<close>
theorem recon_log_survives_crash:
  assumes "open_recon None = Inr hdr" and "rmap op_bytes ops = Inr bss" and "list_all short_body ops"
  shows "iter_recs (take (8 + n) (hdr @ concat bss)) = Inr (take (whole (map length bss) n) (map op_rec ops))
    \<and> span_recs (take (8 + n) (hdr @ concat bss)) 8 = take (whole (map length bss) n) (map op_rec ops)
    \<and> iter_recs (hdr @ concat bss) = Inr (map op_rec ops)"
proof -
  have h: "length hdr = 8" "u_at 4 hdr 0 = RECON_MAGIC" using header_ok [OF assms(1)] by auto
  have f: "take (8 + m) (hdr @ concat bss) = hdr @ take m (concat bss)" for m using h(1) by simp
  have it: "iter_recs (take (8 + m) (hdr @ concat bss)) = Inr (take (whole (map length bss) m) (map op_rec ops))" for m
    unfolding f using h read_recs_prefix [OF assms(2,3)] by (simp add: iter_recs_def Let_def)
  have "span_recs (take (8 + n) (hdr @ concat bss)) 8 = take (whole (map length bss) n) (map op_rec ops)"
    unfolding f using h(1) read_recs_prefix [OF assms(2,3)] by (simp add: span_is_read)
  moreover have "iter_recs (hdr @ concat bss) = Inr (map op_rec ops)"
    using it [of "length (concat bss)"] h(1) rmap_Inr_length [OF assms(2)] by (simp add: whole_all length_concat)
  ultimately show ?thesis using it by blast
qed

definition sample_ops :: "recon_op list" where
  "sample_ops = [OpPlane True 7, OpAuth 1 3 99 [1, 2, 3], OpInvalidate 1 3 5 100]"

theorem recon_log_survives_crash_witness:
  "\<exists>hdr bss. open_recon None = Inr hdr \<and> rmap op_bytes sample_ops = Inr bss
    \<and> iter_recs (take 200 (hdr @ concat bss)) = Inr (map op_rec [OpPlane True 7, OpAuth 1 3 99 [1, 2, 3]])"
proof -
  obtain hdr where h: "open_recon None = Inr hdr"
    by (simp add: open_recon_def write_defs pack_u_def RECON_MAGIC_def)
  obtain bss where b: "rmap op_bytes sample_ops = Inr bss" "map length bss = [84, 87, 84]"
    by (auto simp: sample_ops_def op_bytes_def recon_plane_def recon_auth_def recon_invalidate_def write_rec_def write_defs
        pack_u_def RECON_AUTH_def RECON_PLANE_def RECON_INVALIDATE_def)
  have "iter_recs (take (8 + 192) (hdr @ concat bss)) = Inr (take (whole (map length bss) 192) (map op_rec sample_ops))"
    using recon_log_survives_crash [OF h b(1), of 192] by (simp add: sample_ops_def short_body_def)
  then show ?thesis using h b by (intro exI [of _ hdr] exI [of _ bss]) (simp add: sample_ops_def)
qed

end
