(* ===== verification/Dep_Map.thy ===== *)
theory Dep_Map
  imports Live_Univ Tx_Expect "HOL-Library.List_Lexorder" "HOL-Library.Char_ord"
begin

text \<open>
  Which accounts price a pool: \<^verbatim>\<open>arb-state/shyft/submap.py\<close> (the subscription map of a universe),
  \<^verbatim>\<open>arb-state/shyft/deps.py\<close> (the complete dependency set of a generation) and the account fetch of
  \<^verbatim>\<open>arb-cap/record_dlmm.py\<close> they use (\<^verbatim>\<open>get_multiple\<close>). The RPC call and SHA-256 are parameters.
  A pool of the universe is a record of the keys these functions read.
\<close>

section \<open>Fetching accounts\<close>

record rpc_value =
  rv_owner :: string
  rv_data :: bytes
  rv_lamports :: int

record rpc_acc =
  ra_slot :: int
  ra_owner :: string
  ra_data :: bytes
  ra_lamports :: int

type_synonym rpc_call = "string option \<Rightarrow> int option \<Rightarrow> string list \<Rightarrow> (int \<times> rpc_value option list) res"

text \<open>\<^verbatim>\<open>for i in range(0, len(xs), n): xs[i:i + n]\<close>\<close>

fun chunks :: "nat \<Rightarrow> 'a list \<Rightarrow> 'a list list" where
  "chunks n [] = []"
| "chunks n (x # xs) = take (Suc n) (x # xs) # chunks n (drop n xs)"

definition acc_of_value :: "int \<Rightarrow> rpc_value \<Rightarrow> rpc_acc" where
  "acc_of_value slot v = \<lparr> ra_slot = slot, ra_owner = rv_owner v, ra_data = rv_data v, ra_lamports = rv_lamports v \<rparr>"

definition get_chunk :: "rpc_call \<Rightarrow> string option \<Rightarrow> int option \<Rightarrow> string list \<Rightarrow> rpc_acc option list res" where
  "get_chunk rpc commitment min_slot chunk =
    rbind (rpc commitment min_slot chunk) (\<lambda>(ctx_slot, vals).
      if (case min_slot of None \<Rightarrow> False | Some m \<Rightarrow> ctx_slot < m) then Inl (RuntimeError ''RPC context below requested minimum'')
      else if length vals \<noteq> length chunk then Inl (RuntimeError ''RPC account count mismatch'')
      else Inr (map (map_option (acc_of_value ctx_slot)) vals))"

definition get_multiple :: "rpc_call \<Rightarrow> string option \<Rightarrow> int option \<Rightarrow> string list \<Rightarrow> rpc_acc option list res" where
  "get_multiple rpc commitment min_slot keys =
    (if (case commitment of None \<Rightarrow> False | Some c \<Rightarrow> c \<notin> {''processed'', ''confirmed'', ''finalized''})
     then Inl (ValueError ''invalid commitment'')
     else if (case min_slot of None \<Rightarrow> False | Some m \<Rightarrow> m < 0) then Inl (ValueError ''invalid min_context_slot'')
     else rbind (rmap (get_chunk rpc commitment min_slot) (chunks 99 keys)) (\<lambda>rows. Inr (concat rows)))"

definition keep_row :: "(string, rpc_acc) dict \<Rightarrow> string \<times> rpc_acc option \<Rightarrow> (string, rpc_acc) dict" where
  "keep_row out e = (case snd e of None \<Rightarrow> out | Some row \<Rightarrow> if ra_data row = [] then out else dput (fst e) row out)"

definition chunk_get :: "rpc_call \<Rightarrow> string option \<Rightarrow> int option \<Rightarrow> string list \<Rightarrow> (string, rpc_acc) dict res" where
  "chunk_get rpc commitment min_slot keys =
    (let ks = filter (\<lambda>k. k \<noteq> []) (uniq keys)
     in rbind (rmap (\<lambda>c. rbind (get_multiple rpc commitment min_slot c) (\<lambda>rows. Inr (zip c rows))) (chunks 79 ks)) (\<lambda>parts.
          Inr (foldl keep_row [] (concat parts))))"

section \<open>The universe and the subscription map\<close>

record univ_pool =
  up_proto :: "string option"
  up_kind :: "string option"
  up_pubkey :: "string option"
  up_pk :: "string option"
  up_idx :: "int option"
  up_snap_active :: "int option"
  up_vault_base :: "string option"
  up_vault_x :: "string option"
  up_vault_quote :: "string option"
  up_vault_y :: "string option"

text \<open>\<^verbatim>\<open>a or b\<close> on optional text\<close>

definition or_text :: "string option \<Rightarrow> string option \<Rightarrow> string option" where
  "or_text a b = (case a of None \<Rightarrow> b | Some s \<Rightarrow> if s = [] then b else a)"

definition pool_kind :: "univ_pool \<Rightarrow> string" where
  "pool_kind p = or_empty (or_text (up_proto p) (up_kind p))"

definition pool_idx :: "univ_pool \<Rightarrow> int" where
  "pool_idx p = (case up_idx p of None \<Rightarrow> - 1 | Some i \<Rightarrow> i)"

definition ROLE_DLMM_ORACLE :: string where "ROLE_DLMM_ORACLE = ''dlmm_oracle''"
definition ROLE_PUMP_GLOBAL :: string where "ROLE_PUMP_GLOBAL = ''pump_global''"
definition ROLE_PUMP_FEE_CONFIG :: string where "ROLE_PUMP_FEE_CONFIG = ''pump_fee_config''"
definition ROLE_MINT :: string where "ROLE_MINT = ''mint''"

definition is_vault :: "string option \<Rightarrow> bool" where
  "is_vault v = (case v of None \<Rightarrow> False | Some s \<Rightarrow> length s > 20)"

definition vault_rows :: "string option \<Rightarrow> string \<Rightarrow> (string \<times> string) list" where
  "vault_rows v role = (if is_vault v then [(the v, role)] else [])"

definition bin_keys_for_active :: "(bytes \<Rightarrow> bytes) \<Rightarrow> string \<Rightarrow> int \<Rightarrow> string list res" where
  "bin_keys_for_active sha pair active = rmap (bin_array_pda sha pair) (array_indexes active)"

definition accounts_for_pool :: "(bytes \<Rightarrow> bytes) \<Rightarrow> univ_pool \<Rightarrow> (string \<times> string) list res" where
  "accounts_for_pool sha p =
    (let kind = pool_kind p; pk = or_empty (up_pubkey p)
     in if pk = [] then Inr []
        else if kind = ''dlmm'' then
          (case up_snap_active p of
             None \<Rightarrow> Inr [(pk, ROLE_DLMM_PAIR)]
           | Some active \<Rightarrow> rbind (bin_keys_for_active sha pk active) (\<lambda>bs.
               Inr ((pk, ROLE_DLMM_PAIR) # map (\<lambda>b. (b, ROLE_DLMM_BIN)) bs)))
        else if kind = ''pump'' then
          Inr ([(pk, ROLE_PUMP_POOL)] @ vault_rows (or_text (up_vault_base p) (up_vault_x p)) ROLE_PUMP_VAULT_BASE
             @ vault_rows (or_text (up_vault_quote p) (up_vault_y p)) ROLE_PUMP_VAULT_QUOTE)
        else Inr [])"

text \<open>\<^verbatim>\<open>d.setdefault(k, []).append(v)\<close>\<close>

definition dappend :: "('k, 'v list) dict \<Rightarrow> 'k \<times> 'v \<Rightarrow> ('k, 'v list) dict" where
  "dappend d e = dput (fst e) (dflt d (fst e) [] @ [snd e]) d"

record sub_pool =
  sb_idx :: int
  sb_kind :: string
  sb_pubkey :: "string option"
  sb_n_acc :: nat

record submap =
  sm_accounts :: "(string, dep_row list) dict"
  sm_pools :: "sub_pool list"
  sm_n_account :: nat
  sm_n_pool :: nat

definition priced :: "univ_pool \<Rightarrow> bool" where
  "priced p \<longleftrightarrow> pool_kind p = ''dlmm'' \<or> pool_kind p = ''pump''"

definition add_sub_pool ::
  "(string, dep_row list) dict \<times> sub_pool list \<Rightarrow> univ_pool \<Rightarrow> (string \<times> string) list \<Rightarrow> (string, dep_row list) dict \<times> sub_pool list" where
  "add_sub_pool acc p keys =
    (foldl dappend (fst acc) (map (\<lambda>(pk, role). (pk, \<lparr> dr_pool_idx = pool_idx p, dr_role = role, dr_kind = pool_kind p \<rparr>)) keys),
     snd acc @ [\<lparr> sb_idx = pool_idx p, sb_kind = pool_kind p, sb_pubkey = up_pubkey p, sb_n_acc = length keys \<rparr>])"

definition build_submap :: "(bytes \<Rightarrow> bytes) \<Rightarrow> univ_pool list \<Rightarrow> submap res" where
  "build_submap sha pools =
    (let ps = filter (\<lambda>p. \<not> (pool_idx p < 0 \<or> \<not> priced p)) pools
     in rbind (rmap (accounts_for_pool sha) ps) (\<lambda>keyss.
          let (acc2, rows) = foldl (\<lambda>acc (p, keys). add_sub_pool acc p keys) ([], []) (zip ps keyss)
          in Inr \<lparr> sm_accounts = acc2, sm_pools = rows, sm_n_account = length acc2, sm_n_pool = length rows \<rparr>))"

definition diff_keys :: "(string, 'a) dict \<Rightarrow> (string, 'b) dict \<Rightarrow> string list \<times> string list" where
  "diff_keys old new = (let a = map fst old; b = map fst new
     in (sort (filter (\<lambda>k. k \<notin> set a) b), sort (filter (\<lambda>k. k \<notin> set b) a)))"

section \<open>Dependencies of a generation\<close>

definition FEE_CONFIG :: string where "FEE_CONFIG = ''5PHirr8joyTMp9JMm6nW7hNDVyEYdkzDqazxPD7RaTjx''"

definition pump_global :: "(bytes \<Rightarrow> bytes) \<Rightarrow> string res" where
  "pump_global sha = rbind (b58decode lv_PUMP) (\<lambda>prog. rbind (rd_find_pda sha [ascii ''global_config''] prog) (\<lambda>raw. Inr (record_pk raw)))"

definition dlmm_oracle :: "(bytes \<Rightarrow> bytes) \<Rightarrow> string \<Rightarrow> string res" where
  "dlmm_oracle sha pair = rbind (b58decode pair) (\<lambda>p. rbind (b58decode rd_DLMM) (\<lambda>prog.
     rbind (rd_find_pda sha [ascii ''oracle'', p] prog) (\<lambda>raw. Inr (record_pk raw))))"

record derived =
  dv_required :: "(string \<times> string) list"
  dv_optional :: "(string \<times> string) list"
  dv_idx :: int
  dv_kind :: string
  dv_pubkey :: "string option"
  dv_active_id :: "int option"
  dv_vault_base :: "string option"
  dv_vault_quote :: "string option"

definition no_deps :: "univ_pool \<Rightarrow> derived" where
  "no_deps p = \<lparr> dv_required = [], dv_optional = [], dv_idx = pool_idx p, dv_kind = pool_kind p,
     dv_pubkey = or_text (up_pubkey p) (up_pk p), dv_active_id = None, dv_vault_base = None, dv_vault_quote = None \<rparr>"

definition derive_dlmm :: "(bytes \<Rightarrow> bytes) \<Rightarrow> univ_pool \<Rightarrow> string \<Rightarrow> bytes option \<Rightarrow> derived res" where
  "derive_dlmm sha p pk raw =
    (let d0 = (no_deps p) \<lparr> dv_required := [(pk, ROLE_DLMM_PAIR)] \<rparr>;
         with_bins = (\<lambda>active bs. d0 \<lparr> dv_active_id := Some active,
                        dv_required := (pk, ROLE_DLMM_PAIR) # map (\<lambda>b. (b, ROLE_DLMM_BIN)) bs \<rparr>)
     in case raw of
          Some data \<Rightarrow>
            (case parse_lbpair data of
               Inl _ \<Rightarrow> Inr d0
             | Inr lb \<Rightarrow>
                 rbind (bin_keys_for_active sha pk (lb_active_id lb)) (\<lambda>bs.
                 rbind (dlmm_oracle sha pk) (\<lambda>o'.
                   Inr ((with_bins (lb_active_id lb) bs)
                     \<lparr> dv_optional := [(o', ROLE_DLMM_ORACLE), (record_pk (lb_token_x lb), ROLE_MINT),
                                      (record_pk (lb_token_y lb), ROLE_MINT)] \<rparr>))))
        | None \<Rightarrow>
            (case up_snap_active p of None \<Rightarrow> Inr d0
             | Some active \<Rightarrow> rbind (bin_keys_for_active sha pk active) (\<lambda>bs. Inr (with_bins active bs))))"

definition derive_pump :: "(bytes \<Rightarrow> bytes) \<Rightarrow> univ_pool \<Rightarrow> string \<Rightarrow> bytes option \<Rightarrow> derived res" where
  "derive_pump sha p pk raw =
    rbind (pump_global sha) (\<lambda>glob.
      let parsed = (case raw of None \<Rightarrow> None | Some data \<Rightarrow> parse_pump_pool data);
          vb = or_text (map_option (\<lambda>q. record_pk (pp_vault_base q)) parsed) (or_text (up_vault_base p) (up_vault_x p));
          vq = or_text (map_option (\<lambda>q. record_pk (pp_vault_quote q)) parsed) (or_text (up_vault_quote p) (up_vault_y p))
      in Inr ((no_deps p)
           \<lparr> dv_required := [(pk, ROLE_PUMP_POOL), (glob, ROLE_PUMP_GLOBAL), (FEE_CONFIG, ROLE_PUMP_FEE_CONFIG)]
               @ (case parsed of None \<Rightarrow> [] | Some q \<Rightarrow> [(record_pk (pp_base q), ROLE_MINT)])
               @ vault_rows vb ROLE_PUMP_VAULT_BASE @ vault_rows vq ROLE_PUMP_VAULT_QUOTE,
             dv_optional := (case parsed of None \<Rightarrow> [] | Some q \<Rightarrow> [(record_pk (pp_quote q), ROLE_MINT)]),
             dv_vault_base := (if is_vault vb then vb else None),
             dv_vault_quote := (if is_vault vq then vq else None) \<rparr>))"

definition derive_pool :: "(bytes \<Rightarrow> bytes) \<Rightarrow> (string, rpc_acc) dict \<Rightarrow> univ_pool \<Rightarrow> derived res" where
  "derive_pool sha got p =
    (let pk = or_empty (or_text (up_pubkey p) (up_pk p));
         data = map_option ra_data (dget got pk);
         raw = (if data = Some [] then None else data)
     in if pk = [] \<or> pool_idx p < 0 \<or> \<not> priced p then Inr (no_deps p)
        else if pool_kind p = ''dlmm'' then derive_dlmm sha p pk raw
        else derive_pump sha p pk raw)"

record acc_dep = dep_row +
  ad_required :: bool

record gen_pool =
  gp_idx :: int
  gp_kind :: string
  gp_pubkey :: "string option"
  gp_required :: "(string \<times> string) list"
  gp_optional :: "(string \<times> string) list"
  gp_n_required :: nat
  gp_active_id :: "int option"
  gp_vault_base :: "string option"
  gp_vault_quote :: "string option"

record generation =
  gn_accounts :: "(string, acc_dep list) dict"
  gn_pools :: "gen_pool list"
  gn_n_account :: nat
  gn_n_required :: nat
  gn_n_pool :: nat
  gn_univ_n :: int

definition dep_rows :: "derived \<Rightarrow> (string \<times> acc_dep) list" where
  "dep_rows d = map (\<lambda>(pk, role). (pk, \<lparr> dr_pool_idx = dv_idx d, dr_role = role, dr_kind = dv_kind d,
     ad_required = ((pk, role) \<in> set (dv_required d)) \<rparr>)) (dv_required d @ dv_optional d)"

definition gen_pool_of :: "derived \<Rightarrow> gen_pool" where
  "gen_pool_of d = \<lparr> gp_idx = dv_idx d, gp_kind = dv_kind d, gp_pubkey = dv_pubkey d, gp_required = dv_required d,
     gp_optional = dv_optional d, gp_n_required = length (dv_required d), gp_active_id = dv_active_id d,
     gp_vault_base = dv_vault_base d, gp_vault_quote = dv_vault_quote d \<rparr>"

definition derive_generation :: "(bytes \<Rightarrow> bytes) \<Rightarrow> rpc_call \<Rightarrow> int option \<Rightarrow> univ_pool list \<Rightarrow> generation res" where
  "derive_generation sha rpc n pools0 =
    (let pools = filter priced pools0;
         pks = map (\<lambda>p. or_empty (or_text (up_pubkey p) (up_pk p))) pools
     in rbind (chunk_get rpc None None (filter (\<lambda>k. k \<noteq> []) pks)) (\<lambda>got.
        rbind (rmap (derive_pool sha got) pools) (\<lambda>ds.
          let accounts = foldl dappend [] (concat (map dep_rows ds))
          in Inr \<lparr> gn_accounts = accounts, gn_pools = map gen_pool_of ds, gn_n_account = length accounts,
                   gn_n_required = sum_list (map (\<lambda>d. length (dv_required d)) ds), gn_n_pool = length ds,
                   gn_univ_n = (case n of None \<Rightarrow> int (length pools) | Some k \<Rightarrow> if k = 0 then int (length pools) else k) \<rparr>)))"

section \<open>Chunking is invisible\<close>

lemma concat_chunks: "concat (chunks n xs) = xs"
  by (induction n xs rule: chunks.induct) auto

definition answers :: "rpc_call \<Rightarrow> string option \<Rightarrow> int option \<Rightarrow> int \<Rightarrow> (string \<Rightarrow> rpc_value option) \<Rightarrow> bool" where
  "answers rpc commitment min_slot slot led \<longleftrightarrow> (\<forall>ks. rpc commitment min_slot ks = Inr (slot, map led ks))"

lemma get_multiple_answers:
  assumes "answers rpc commitment min_slot slot led"
    and "commitment = None \<or> commitment = Some ''processed''" and "pred_option (\<lambda>m. 0 \<le> m \<and> m \<le> slot) min_slot"
  shows "get_multiple rpc commitment min_slot ks = Inr (map (\<lambda>k. map_option (acc_of_value slot) (led k)) ks)"
proof -
  have c: "get_chunk rpc commitment min_slot c = Inr (map (\<lambda>k. map_option (acc_of_value slot) (led k)) c)" for c
    using assms(1,3) by (auto simp: answers_def get_chunk_def comp_def split: option.split)
  have "rmap (get_chunk rpc commitment min_slot) (chunks 99 ks)
      = Inr (map (map (\<lambda>k. map_option (acc_of_value slot) (led k))) (chunks 99 ks))"
    by (rule rmap_Inr_all) (rule c)
  then show ?thesis using assms(2,3)
    by (auto simp: get_multiple_def concat_chunks simp flip: map_concat split: option.split)
qed

lemma keep_rows:
  assumes "distinct (map fst out @ ks)"
  shows "foldl keep_row out (map (\<lambda>k. (k, f k)) ks)
    = out @ map (\<lambda>k. (k, the (f k))) (filter (\<lambda>k. pred_option (\<lambda>r. ra_data r \<noteq> []) (f k) \<and> f k \<noteq> None) ks)"
  using assms
proof (induction ks arbitrary: out)
  case (Cons k ks)
  have "dget out k = None" using Cons.prems by (auto simp: dget_None_iff)
  then have "keep_row out (k, f k) = out @ map (\<lambda>k. (k, the (f k))) (filter (\<lambda>k. pred_option (\<lambda>r. ra_data r \<noteq> []) (f k) \<and> f k \<noteq> None) [k])"
    by (auto simp: keep_row_def dput_absent split: option.split)
  moreover have "distinct (map fst (keep_row out (k, f k)) @ ks)"
    using Cons.prems unfolding calculation by auto
  ultimately show ?case using Cons.IH [of "keep_row out (k, f k)"] by simp
qed simp

section \<open>The account map of a generation\<close>

lemma dappend_rows:
  "r \<in> set (dflt (foldl dappend d es) k []) \<longleftrightarrow> r \<in> set (dflt d k []) \<or> (k, r) \<in> set es"
proof (induction es arbitrary: d)
  case (Cons e es)
  have "dflt (dappend d e) k [] = (if k = fst e then dflt d k [] @ [snd e] else dflt d k [])"
    by (simp add: dappend_def dflt_def)
  then show ?case using Cons [of "dappend d e"] by (cases e) auto
qed simp

lemma generation_rows:
  assumes "derive_generation sha rpc n pools = Inr gen"
  obtains ds got where "rmap (derive_pool sha got) (filter priced pools) = Inr ds" "gn_pools gen = map gen_pool_of ds"
    "gn_accounts gen = foldl dappend [] (concat (map dep_rows ds))"
  using assms by (auto simp: derive_generation_def rbind_Inr_iff Let_def)

lemma rmap_Inr_set: "rmap f xs = Inr ys \<Longrightarrow> y \<in> set ys \<Longrightarrow> \<exists>x\<in>set xs. f x = Inr y"
  by (induction xs arbitrary: ys) (auto simp: rbind_Inr_iff)

lemma rmap_Inr_mem: "rmap f xs = Inr ys \<Longrightarrow> x \<in> set xs \<Longrightarrow> \<exists>y\<in>set ys. f x = Inr y"
  by (induction xs arbitrary: ys) (auto simp: rbind_Inr_iff)

lemma window_index: "\<bar>b - active\<bar> \<le> 16 \<Longrightarrow> bin_array_index b \<in> set (array_indexes active)"
  by (auto simp: array_indexes_def bin_array_index_def BINS_PER_ARRAY_def intro: zdiv_mono1)

lemma bin_keys_cover:
  assumes "bin_keys_for_active sha pk a = Inr bs" and "\<bar>b - a\<bar> \<le> 16"
  shows "\<exists>k\<in>set bs. bin_array_pda sha pk (bin_array_index b) = Inr k"
  using rmap_Inr_mem [OF assms(1) [unfolded bin_keys_for_active_def] window_index [OF assms(2)]] .

lemma derive_covers:
  assumes "derive_pool sha got p = Inr d" and "dv_kind d = ''dlmm''" and "dv_active_id d = Some a" and "\<bar>b - a\<bar> \<le> 16"
  shows "\<exists>pk k. dv_pubkey d = Some pk \<and> (pk, ROLE_DLMM_PAIR) \<in> set (dv_required d)
    \<and> bin_array_pda sha pk (bin_array_index b) = Inr k \<and> (k, ROLE_DLMM_BIN) \<in> set (dv_required d)"
proof -
  define pk where "pk = or_empty (or_text (up_pubkey p) (up_pk p))"
  define raw where "raw = (if map_option ra_data (dget got pk) = Some [] then None else map_option ra_data (dget got pk))"
  have kind: "pool_kind p = ''dlmm''" and ne: "pk \<noteq> []" and d: "derive_dlmm sha p pk raw = Inr d"
    using assms(1,2,3)
    by (auto simp: derive_pool_def Let_def no_deps_def derive_pump_def rbind_Inr_iff raw_def simp flip: pk_def split: if_split_asm)
  have pub: "or_text (up_pubkey p) (up_pk p) = Some pk"
    using ne unfolding pk_def or_empty_def by (auto split: option.split_asm)
  obtain bs where "bin_keys_for_active sha pk a = Inr bs"
    "dv_required d = (pk, ROLE_DLMM_PAIR) # map (\<lambda>b. (b, ROLE_DLMM_BIN)) bs" "dv_pubkey d = Some pk"
    using d assms(3) pub
    by (auto simp: derive_dlmm_def Let_def no_deps_def rbind_Inr_iff split: option.split_asm sum.split_asm)
  with bin_keys_cover [OF this(1) assms(4)] show ?thesis by auto
qed

section \<open>Properties\<close>

text \<open>
  Fetching in chunks is fetching at once. If the RPC node answers every request from one
  ledger at a slot not below the requested minimum, the chunked fetch (80 keys at a time, each
  request split again at 100) returns exactly the accounts of the ledger that have data, each
  distinct non-empty key once, in the order of the keys and with the slot of the answer.
\<close>
lemma chunk_get_exact:
  assumes "answers rpc commitment min_slot slot led"
    and "commitment = None \<or> commitment = Some ''processed''" and "pred_option (\<lambda>m. 0 \<le> m \<and> m \<le> slot) min_slot"
  shows "chunk_get rpc commitment min_slot keys
    = Inr (map (\<lambda>k. (k, acc_of_value slot (the (led k))))
        (filter (\<lambda>k. k \<noteq> [] \<and> (\<exists>v. led k = Some v \<and> rv_data v \<noteq> [])) (uniq keys)))"
proof -
  let ?f = "\<lambda>k. map_option (acc_of_value slot) (led k)"
  let ?ks = "filter (\<lambda>k. k \<noteq> []) (uniq keys)"
  have z: "zip c (map g c) = map (\<lambda>k. (k, g k)) c" for g :: "string \<Rightarrow> rpc_acc option" and c by (induction c) simp_all
  have "rmap (\<lambda>c. rbind (get_multiple rpc commitment min_slot c) (\<lambda>rows. Inr (zip c rows))) (chunks 79 ?ks)
      = Inr (map (map (\<lambda>k. (k, ?f k))) (chunks 79 ?ks))"
    by (rule rmap_Inr_all) (simp add: get_multiple_answers [OF assms] z)
  then have "chunk_get rpc commitment min_slot keys = Inr (foldl keep_row [] (map (\<lambda>k. (k, ?f k)) ?ks))"
    by (simp add: chunk_get_def Let_def concat_chunks flip: map_concat)
  also have "\<dots> = Inr (map (\<lambda>k. (k, the (?f k))) (filter (\<lambda>k. pred_option (\<lambda>r. ra_data r \<noteq> []) (?f k) \<and> ?f k \<noteq> None) ?ks))"
    by (subst keep_rows) simp_all
  also have "\<dots> = Inr (map (\<lambda>k. (k, acc_of_value slot (the (led k))))
      (filter (\<lambda>k. k \<noteq> [] \<and> (\<exists>v. led k = Some v \<and> rv_data v \<noteq> [])) (uniq keys)))"
    by (auto simp: acc_of_value_def filter_filter option.map_sel intro!: map_cong filter_cong)
  finally show ?thesis .
qed

text \<open>
  C31: the dependencies of a generation cover what the quote reads. For every DLMM pool whose
  active bin is known, the pair account and the bin array of every bin within 16 of the active
  one are required; and the account map of the generation lists a pool under an account, with
  its role and whether it is required, if and only if the pool depends on it so.
\<close>
theorem generation_covers_quote:
  assumes "derive_generation sha rpc n pools = Inr gen"
  shows "(\<forall>g a b. g \<in> set (gn_pools gen) \<longrightarrow> gp_kind g = ''dlmm'' \<longrightarrow> gp_active_id g = Some a \<longrightarrow> \<bar>b - a\<bar> \<le> 16 \<longrightarrow>
      (\<exists>pk k. gp_pubkey g = Some pk \<and> (pk, ROLE_DLMM_PAIR) \<in> set (gp_required g)
         \<and> bin_array_pda sha pk (bin_array_index b) = Inr k \<and> (k, ROLE_DLMM_BIN) \<in> set (gp_required g)))
    \<and> (\<forall>pk i role req. (\<exists>r\<in>set (dflt (gn_accounts gen) pk []). dr_pool_idx r = i \<and> dr_role r = role \<and> ad_required r = req)
        \<longleftrightarrow> (\<exists>g\<in>set (gn_pools gen). gp_idx g = i \<and> (pk, role) \<in> set (gp_required g @ gp_optional g)
              \<and> req = ((pk, role) \<in> set (gp_required g))))"
proof -
  obtain ds got where ds: "rmap (derive_pool sha got) (filter priced pools) = Inr ds" "gn_pools gen = map gen_pool_of ds"
    "gn_accounts gen = foldl dappend [] (concat (map dep_rows ds))"
    using generation_rows [OF assms] .
  have "\<exists>pk k. gp_pubkey g = Some pk \<and> (pk, ROLE_DLMM_PAIR) \<in> set (gp_required g)
         \<and> bin_array_pda sha pk (bin_array_index b) = Inr k \<and> (k, ROLE_DLMM_BIN) \<in> set (gp_required g)"
    if g: "g \<in> set (gn_pools gen)" "gp_kind g = ''dlmm''" "gp_active_id g = Some a" "\<bar>b - a\<bar> \<le> 16" for g a b
  proof -
    obtain d where d: "d \<in> set ds" "g = gen_pool_of d" using g(1) ds(2) by auto
    obtain p where "derive_pool sha got p = Inr d" using rmap_Inr_set [OF ds(1) d(1)] by blast
    from derive_covers [OF this, of a b] g(2-4) show ?thesis by (simp add: d(2) gen_pool_of_def)
  qed
  moreover have "(\<exists>r\<in>set (dflt (gn_accounts gen) pk []). dr_pool_idx r = i \<and> dr_role r = role \<and> ad_required r = req)
      \<longleftrightarrow> (\<exists>g\<in>set (gn_pools gen). gp_idx g = i \<and> (pk, role) \<in> set (gp_required g @ gp_optional g)
            \<and> req = ((pk, role) \<in> set (gp_required g)))" for pk i role req
    unfolding ds(2,3) Bex_def dappend_rows
    by (fastforce simp: dflt_def dep_rows_def gen_pool_of_def)
  ultimately show ?thesis by blast
qed

definition sample_univ :: univ_pool where
  "sample_univ = \<lparr> up_proto = Some ''dlmm'', up_kind = None, up_pubkey = Some ''1'', up_pk = None, up_idx = Some 4,
     up_snap_active = Some 35, up_vault_base = None, up_vault_x = None, up_vault_quote = None, up_vault_y = None \<rparr>"

theorem generation_covers_quote_witness:
  "\<exists>gen g k. derive_generation (\<lambda>_. []) (\<lambda>c m ks. Inr (9, map (\<lambda>_. None) ks)) None [sample_univ] = Inr gen
    \<and> gn_pools gen = [g] \<and> bin_array_pda (\<lambda>_. []) ''1'' (bin_array_index 50) = Inr k \<and> (k, ROLE_DLMM_BIN) \<in> set (gp_required g)"
proof -
  let ?rpc = "\<lambda>c m ks. Inr (9, map (\<lambda>_. None) ks) :: (int \<times> rpc_value option list) res"
  have got: "chunk_get ?rpc None None [''1''] = Inr []"
    by (simp add: chunk_get_def get_multiple_def get_chunk_def keep_row_def)
  have keys: "bin_keys_for_active (\<lambda>_. []) ''1'' 35 = Inr [''1'']"
    by (simp add: bin_keys_for_active_def array_indexes_def bin_array_index_def BINS_PER_ARRAY_def sample_key)
  obtain gen g where gen: "derive_generation (\<lambda>_. []) ?rpc None [sample_univ] = Inr gen"
    and g: "gn_pools gen = [g]" "gp_kind g = ''dlmm''" "gp_active_id g = Some 35" "gp_pubkey g = Some ''1''"
    by (simp add: derive_generation_def sample_univ_def priced_def pool_kind_def or_text_def or_empty_def got derive_pool_def
        pool_idx_def derive_dlmm_def keys no_deps_def gen_pool_of_def Let_def)
  have "\<exists>pk k. gp_pubkey g = Some pk \<and> (pk, ROLE_DLMM_PAIR) \<in> set (gp_required g)
     \<and> bin_array_pda (\<lambda>_. []) pk (bin_array_index 50) = Inr k \<and> (k, ROLE_DLMM_BIN) \<in> set (gp_required g)"
    by (rule generation_covers_quote [OF gen, THEN conjunct1, rule_format, of g 35 50]) (use g in simp_all)
  then show ?thesis using gen g(1,4) by (elim exE conjE, intro exI conjI) simp_all
qed

end
