(* ===== verification/State_Owner.thy ===== *)
theory State_Owner
  imports Dep_Map Recon_Log Auth_Ring Bank_Journal Shadow_Gate
begin

text \<open>
  The state owner of \<^verbatim>\<open>arb-state/shyft/state008.py\<close>: one record per pool, the accounts they are
  priced from, and every operation that changes them, composed with the barrier, the journal,
  the shared ring, the reconciliation log and the shadow gate. Operations that may raise are
  computations of the state-with-exceptions type of the prelude. Readings of the clocks, the
  fresh token of a bootstrap, SHA-256 and the external \<^verbatim>\<open>state_apply\<close> program are an environment
  argument. Threads appear as what they are asked to do: subscriptions and fetches are queued
  in the state, and their results come back as events. Latency samples and console output are
  left out; the READY file is a flag, the log files are their bytes.
\<close>

section \<open>Data\<close>

datatype pool_status = ST_INCOMPLETE | ST_STAGING | ST_COHERENT | ST_GAPPED

record pstage =
  st_rx :: "int option"
  st_slot :: "int option"
  st_wait_slot :: "int option"
  st_sig :: "bytes option"
  st_reconcile :: bool

definition no_stage :: pstage where
  "no_stage = \<lparr> st_rx = None, st_slot = None, st_wait_slot = None, st_sig = None, st_reconcile = False \<rparr>"

record staged_row =
  sr_pubkey :: string
  sr_role :: string
  sr_slot :: int
  sr_write_version :: int
  sr_txn_sig :: "string option"
  sr_dlen :: int

record pub_dlmm =
  ud_lb :: lbpair
  ud_reserve_x :: int
  ud_reserve_y :: int
  ud_bins :: "(int, int \<times> int) dict"
  ud_slot :: int

record pub_pump =
  us_reserve_base :: int
  us_reserve_quote :: int
  us_virtual_quote :: int
  us_lp :: int
  us_protocol :: int
  us_creator :: int
  us_disabled :: int
  us_slot :: int
  us_pool_creator :: string
  us_coin_creator :: string
  us_pool_creator_fee_bps :: int
  us_base_mint :: string
  us_quote_mint :: string
  us_base_supply :: int
  us_fee_state :: "fee_state option"

datatype published = PubDlmm pub_dlmm | PubPump pub_pump

record pool_rec =
  p_idx :: int
  p_kind :: string
  p_pubkey :: "string option"
  p_required :: "string list"
  p_optional :: "string list"
  p_status :: pool_status
  p_stage :: pstage
  p_upd_since :: int
  p_gen :: nat
  p_last_s :: "published option"
  p_last_blob :: "bytes option"
  p_s_before :: "published option"
  p_staged :: "staged_row list"
  p_active_id :: "int option"

definition new_pool_rec :: "gen_pool \<Rightarrow> pool_rec" where
  "new_pool_rec row = \<lparr> p_idx = gp_idx row, p_kind = gp_kind row, p_pubkey = gp_pubkey row,
     p_required = uniq (map fst (gp_required row)), p_optional = uniq (map fst (gp_optional row)), p_status = ST_INCOMPLETE,
     p_stage = no_stage, p_upd_since = 0, p_gen = 0, p_last_s = None, p_last_blob = None, p_s_before = None, p_staged = [],
     p_active_id = gp_active_id row \<rparr>"

record acct_ev =
  av_generation :: "string option"
  av_bank_id :: "int option"
  av_pubkey :: string
  av_slot :: int
  av_write_version :: int
  av_owner :: string
  av_lamports :: int
  av_data :: bytes
  av_txn_sig :: "bytes option"
  av_t_rx :: int

record tx_ev =
  tv_generation :: "string option"
  tv_slot :: "int option"
  tv_parsed :: "parsed_tx option"

datatype buffered = BufAccount acct_ev | BufTx tx_ev

datatype fetch =
    FetchBootstrap string string
  | FetchAccounts string "string list" "string option" "string option" int

record env =
  e_sha :: "bytes \<Rightarrow> bytes"
  e_mono :: int
  e_now :: int
  e_token :: string
  e_apply :: "published \<Rightarrow> string list \<Rightarrow> bytes \<Rightarrow> bytes \<Rightarrow> (sstate \<times> int option \<times> int option) option res"

record s008 =
  s_bytes :: "(string, acc_row) dict"
  s_acc_deps :: "(string, acc_dep list) dict"
  s_pools :: "(int, pool_rec) dict"
  s_proto_of :: "(int, int) dict"
  s_fees :: "int \<times> int \<times> int \<times> int"
  s_stream_slot :: int
  s_bank_journal :: bank_journal
  s_provider_generation :: "string option"
  s_bootstrap_token :: "string option"
  s_bootstrap_done :: bool
  s_rpc_floors :: "(string, int) dict"
  s_bootstrap_slot :: int
  s_bootstrapping :: bool
  s_ready :: bool
  s_buf :: "buffered list"
  s_last_wv :: "(string, int) dict"
  s_seen :: "(string \<times> int \<times> int) list"
  s_univ_n :: int
  s_univ_mtime :: int
  s_sub_keys :: "string list"
  s_req_q :: "(string option \<times> string list) list"
  s_fetches :: "fetch list"
  s_shadow :: gate
  s_barrier :: tx_barrier
  s_auth :: auth_pub
  s_recon :: bytes
  s_ready_file :: bool
  s_m :: "(string, int) dict"
  s_rejections :: "(string, nat) dict"

definition JOURNAL_CAP :: nat where "JOURNAL_CAP = 2048"

definition new_s008 :: "auth_pub \<Rightarrow> bytes \<Rightarrow> s008" where
  "new_s008 auth recon = \<lparr> s_bytes = [], s_acc_deps = [], s_pools = [], s_proto_of = [], s_fees = (20, 5, 0, 0),
     s_stream_slot = 0, s_bank_journal = new_journal JOURNAL_CAP, s_provider_generation = None, s_bootstrap_token = None,
     s_bootstrap_done = False, s_rpc_floors = [], s_bootstrap_slot = 0, s_bootstrapping = True, s_ready = False,
     s_buf = [], s_last_wv = [], s_seen = [], s_univ_n = 0, s_univ_mtime = 0, s_sub_keys = [], s_req_q = [],
     s_fetches = [], s_shadow = new_gate, s_barrier = new_barrier, s_auth = auth, s_recon = recon,
     s_ready_file = False, s_m = [], s_rejections = [] \<rparr>"

type_synonym 'a op = "(s008, 'a) sx"

definition bump :: "string \<Rightarrow> int \<Rightarrow> s008 \<Rightarrow> s008" where
  "bump k n s = s \<lparr> s_m := dput k (dflt (s_m s) k 0 + n) (s_m s) \<rparr>"

definition upd_pool :: "int \<Rightarrow> (pool_rec \<Rightarrow> pool_rec) \<Rightarrow> s008 \<Rightarrow> s008" where
  "upd_pool i f s = (case dget (s_pools s) i of None \<Rightarrow> s | Some r \<Rightarrow> s \<lparr> s_pools := dput i (f r) (s_pools s) \<rparr>)"

definition set_pool_status :: "pool_status \<Rightarrow> pool_rec \<Rightarrow> pool_rec" where
  "set_pool_status st r = r \<lparr> p_status := st \<rparr>"

text \<open>Appending to the reconciliation log; \<^verbatim>\<open>self.proto_of[rec.idx]\<close>.\<close>

definition log_append :: "bytes res \<Rightarrow> unit op" where
  "log_append w = sbind (slift w) (\<lambda>bs. smod (\<lambda>s. s \<lparr> s_recon := s_recon s @ bs \<rparr>))"

definition log_invalidate :: "int \<Rightarrow> int \<Rightarrow> int \<Rightarrow> unit op" where
  "log_invalidate i rx_ns slot = sbind (sget (\<lambda>s. dget (s_proto_of s) i)) (\<lambda>proto.
     case proto of None \<Rightarrow> slift (Inl KeyError) | Some p \<Rightarrow> log_append (recon_invalidate p i rx_ns slot))"

section \<open>Bookkeeping\<close>

definition has_data :: "s008 \<Rightarrow> string \<Rightarrow> bool" where
  "has_data s pk \<longleftrightarrow> \<not> no_data (row_of (s_bytes s) pk)"

definition pool_complete :: "s008 \<Rightarrow> pool_rec \<Rightarrow> bool" where
  "pool_complete s r \<longleftrightarrow> p_required r \<noteq> [] \<and> list_all (has_data s) (p_required r)"

definition n_coherent :: "s008 \<Rightarrow> int" where
  "n_coherent s = int (length (filter (\<lambda>e. p_status (snd e) = ST_COHERENT) (s_pools s)))"

definition recount_pool :: "s008 \<Rightarrow> pool_rec \<Rightarrow> pool_rec" where
  "recount_pool s r = (if p_status r = ST_COHERENT \<and> \<not> pool_complete s r then r \<lparr> p_status := ST_INCOMPLETE \<rparr> else r)"

definition set_m :: "string \<Rightarrow> int \<Rightarrow> s008 \<Rightarrow> s008" where
  "set_m k n s = s \<lparr> s_m := dput k n (s_m s) \<rparr>"

definition recount :: "s008 \<Rightarrow> s008" where
  "recount s =
    (let recv = int (length (filter (\<lambda>e. has_data s (fst e)) (s_acc_deps s)));
         s1 = set_m ''dependencies_subscribed'' (int (length (s_sub_keys s))) (set_m ''dependencies_received'' recv s);
         s2 = s1 \<lparr> s_pools := map (\<lambda>(i, r). (i, recount_pool s1 r)) (s_pools s1) \<rparr>
     in set_m ''pool_complete'' (n_coherent s2) s2)"

definition mark_uncertain :: "env \<Rightarrow> unit op" where
  "mark_uncertain e =
    sseq (smod (\<lambda>s. bump ''gaps'' 1 (s \<lparr> s_ready := False,
            s_auth := set_ready (s_auth s) False (length (s_pools s)) (s_stream_slot s) \<rparr>)))
   (sseq (sbind (sget s_stream_slot) (\<lambda>slot. log_append (recon_plane False slot)))
   (sseq (sbind (sget s_pools) (\<lambda>pools. sfor pools (\<lambda>(i, _).
            sbind (sget (\<lambda>s. map_option p_status (dget (s_pools s) i))) (\<lambda>st.
              swhen (st = Some ST_COHERENT)
                (sseq (smod (upd_pool i (set_pool_status ST_GAPPED)))
                      (sbind (sget s_stream_slot) (\<lambda>slot. log_invalidate i (e_mono e) slot)))))))
         (smod (\<lambda>s. s \<lparr> s_ready_file := False \<rparr>))))"

definition mark_ready :: "unit op" where
  "mark_ready =
    sbind (sget (\<lambda>s. s_provider_generation s = None \<or> \<not> s_bootstrap_done s)) (\<lambda>no.
      swhen (\<not> no)
        (sseq (smod (\<lambda>s. s \<lparr> s_ready := True, s_bootstrapping := False, s_ready_file := True,
                 s_auth := set_ready (s_auth s) True (length (s_pools s)) (s_stream_slot s) \<rparr>))
              (sbind (sget s_stream_slot) (\<lambda>slot. log_append (recon_plane True slot)))))"

definition clear_pool :: "pool_rec \<Rightarrow> pool_rec" where
  "clear_pool r = r \<lparr> p_stage := no_stage, p_staged := [], p_last_s := None, p_last_blob := None, p_s_before := None,
     p_status := ST_GAPPED \<rparr>"

definition reset_connection :: "env \<Rightarrow> string option \<Rightarrow> unit op" where
  "reset_connection e generation =
    sseq (mark_uncertain e)
   (sseq (smod (\<lambda>s. s \<lparr> s_auth := reset_history (s_auth s),
            s_req_q := (if generation \<noteq> s_provider_generation s then [] else s_req_q s),
            s_bank_journal := (case generation of None \<Rightarrow> new_journal JOURNAL_CAP
               | Some g \<Rightarrow> fst (journal_apply (e_sha e) (new_journal JOURNAL_CAP) (BankGeneration (Some g)))),
            s_provider_generation := generation, s_bootstrap_token := None, s_bootstrap_done := False,
            s_bootstrapping := True, s_stream_slot := 0, s_bootstrap_slot := 0, s_bytes := [], s_rpc_floors := [],
            s_last_wv := [], s_seen := [], s_buf := [], s_barrier := new_barrier,
            s_shadow := (s_shadow s) \<lparr> g_pending := [], g_by_idx := [] \<rparr> \<rparr>))
         (sbind (sget s_pools) (\<lambda>pools. sfor pools (\<lambda>(i, _).
            sseq (smod (upd_pool i clear_pool)) (log_invalidate i (e_mono e) 0)))))"

definition rpc_row :: "string option \<Rightarrow> rpc_acc \<Rightarrow> acc_row" where
  "rpc_row generation a = \<lparr> ar_provider_generation = generation, ar_bank_id = None, ar_slot = Some (ra_slot a),
     ar_write_version = Some 0, ar_txn_sig = None, ar_owner = Some (ra_owner a), ar_lamports = Some (ra_lamports a),
     ar_data = Some (ra_data a) \<rparr>"

definition has_dep :: "acc_dep list \<Rightarrow> int \<Rightarrow> string \<Rightarrow> bool" where
  "has_dep rows i role = list_ex (\<lambda>x. dr_pool_idx x = i \<and> dr_role x = role) rows"

definition add_dep :: "gen_pool \<Rightarrow> (string, acc_dep list) dict \<Rightarrow> string \<times> string \<Rightarrow> (string, acc_dep list) dict" where
  "add_dep row d e =
    (let (pk, role) = e; rows = dflt d pk []
     in dput pk (if has_dep rows (gp_idx row) role then rows
                 else rows @ [\<lparr> dr_pool_idx = gp_idx row, dr_role = role, dr_kind = gp_kind row,
                                ad_required = ((pk, role) \<in> set (gp_required row)) \<rparr>]) d)"

definition merge_pool :: "gen_pool \<Rightarrow> pool_rec \<Rightarrow> pool_rec" where
  "merge_pool row r = r \<lparr> p_required := set_or (p_required r) (map fst (gp_required row)),
     p_optional := set_or (p_optional r) (map fst (gp_optional row)),
     p_active_id := (case gp_active_id row of None \<Rightarrow> p_active_id r | Some a \<Rightarrow> Some a) \<rparr>"

definition install_pool :: "s008 \<Rightarrow> gen_pool \<Rightarrow> s008" where
  "install_pool s row =
    (let i = gp_idx row;
         s1 = (case dget (s_pools s) i of
                 None \<Rightarrow> s \<lparr> s_pools := dput i (new_pool_rec row) (s_pools s),
                             s_proto_of := dput i (if gp_kind row = ''dlmm'' then PROTO_DLMM else PROTO_PUMP) (s_proto_of s) \<rparr>
               | Some r \<Rightarrow> s \<lparr> s_pools := dput i (merge_pool row r) (s_pools s) \<rparr>)
     in s1 \<lparr> s_acc_deps := foldl (add_dep row) (s_acc_deps s1) (gp_required row @ gp_optional row) \<rparr>)"

definition add_fetched :: "s008 \<Rightarrow> string \<times> rpc_acc \<Rightarrow> s008" where
  "add_fetched s e = (let (pk, a) = e in
     if dget (s_bytes s) pk \<noteq> None then s
     else s \<lparr> s_bytes := dput pk (rpc_row (s_provider_generation s) a) (s_bytes s),
              s_rpc_floors := dput pk (ra_slot a) (s_rpc_floors s) \<rparr>)"

definition install_generation :: "generation \<Rightarrow> (string, rpc_acc) dict \<Rightarrow> s008 \<Rightarrow> s008" where
  "install_generation gen extra s =
    (let s1 = set_m ''dependencies_expected'' (int (gn_n_required gen))
                (s \<lparr> s_univ_n := (if gn_univ_n gen \<noteq> 0 then gn_univ_n gen else int (gn_n_pool gen)) \<rparr>)
     in recount (foldl add_fetched (foldl install_pool s1 (gn_pools gen)) extra))"

definition subscribe_keys :: "string list \<Rightarrow> s008 \<Rightarrow> s008" where
  "subscribe_keys keys s =
    (let ks = uniq keys
     in set_m ''dependencies_subscribed'' (int (length ks))
          (s \<lparr> s_sub_keys := ks, s_req_q := s_req_q s @ [(s_provider_generation s, ks)] \<rparr>))"

definition subscribe_all :: "s008 \<Rightarrow> s008" where
  "subscribe_all s = subscribe_keys (map fst (s_acc_deps s)) s"

definition fetch_async :: "string \<Rightarrow> string list \<Rightarrow> string option \<Rightarrow> s008 \<Rightarrow> s008" where
  "fetch_async kind keys token s =
    s \<lparr> s_fetches := s_fetches s @ [FetchAccounts kind keys token (s_provider_generation s) (s_stream_slot s)] \<rparr>"

definition pools_by_pk :: "s008 \<Rightarrow> (string, int) dict" where
  "pools_by_pk s = foldl (\<lambda>d (i, r). case p_pubkey r of None \<Rightarrow> d | Some pk \<Rightarrow> if pk = [] then d else dput pk (p_idx r) d) [] (s_pools s)"

definition role_in :: "s008 \<Rightarrow> int \<Rightarrow> string \<Rightarrow> string option" where
  "role_in s i pk = map_option dr_role (find (\<lambda>row. dr_pool_idx row = i) (dflt (s_acc_deps s) pk []))"

definition add_required :: "int \<Rightarrow> string \<Rightarrow> string \<Rightarrow> s008 \<Rightarrow> bool \<times> s008" where
  "add_required i pk role s =
    (case dget (s_pools s) i of None \<Rightarrow> (False, s)
     | Some r \<Rightarrow>
       if pk \<in> set (p_required r) then (False, s)
       else (dget (s_bytes s) pk = None,
             s \<lparr> s_pools := dput i (r \<lparr> p_required := p_required r @ [pk], p_status := ST_INCOMPLETE \<rparr>) (s_pools s),
                 s_acc_deps := dappend (s_acc_deps s) (pk, \<lparr> dr_pool_idx = i, dr_role = role, dr_kind = p_kind r, ad_required = True \<rparr>) \<rparr>))"

definition restage :: "int \<Rightarrow> int \<Rightarrow> pool_rec \<Rightarrow> pool_rec" where
  "restage rx_ns slot r = r \<lparr> p_status := ST_STAGING, p_upd_since := rx_ns,
     p_stage := (p_stage r) \<lparr> st_rx := (case st_rx (p_stage r) of None \<Rightarrow> Some rx_ns | Some x \<Rightarrow> Some x), st_slot := Some slot \<rparr> \<rparr>"

definition unstage :: "pool_rec \<Rightarrow> pool_rec" where
  "unstage r = r \<lparr> p_s_before := (case p_last_s r of None \<Rightarrow> p_s_before r | Some x \<Rightarrow> Some x), p_staged := [] \<rparr>"

definition invalidate :: "int \<Rightarrow> int \<Rightarrow> int \<Rightarrow> unit op" where
  "invalidate i rx_ns slot =
    sbind (sget (\<lambda>s. map_option p_status (dget (s_pools s) i))) (\<lambda>st.
      sseq (swhen (st \<noteq> Some ST_STAGING) (sseq (log_invalidate i rx_ns slot) (smod (upd_pool i unstage))))
           (smod (upd_pool i (restage rx_ns slot))))"

end
