(* ===== verification/State_Events.thy ===== *)
theory State_Events
  imports State_Owner
begin

text \<open>
  Publication and event handling of \<^verbatim>\<open>arb-state/shyft/state008.py\<close>: from the staged writes of a
  pool to its published state, and the one handler through which every event of the stream
  and every result of a fetch reaches the state.
\<close>

section \<open>Published states\<close>

definition snap_dlmm :: "bytes \<Rightarrow> bytes list \<Rightarrow> dlmm_snap option" where
  "snap_dlmm pair_data bin_datas =
    (case parse_lbpair pair_data of Inl _ \<Rightarrow> None
     | Inr lb \<Rightarrow>
         let use = filter (near (lb_active_id lb) lv_K) (concat (map parse_bin_array bin_datas))
         in if use = [] then None
            else Some \<lparr> ds_lb = lb, ds_bins = use, ds_reserve_x = sum_x use, ds_reserve_y = sum_y use \<rparr>)"

definition pub_of_snap :: "dlmm_snap \<Rightarrow> int \<Rightarrow> pub_dlmm" where
  "pub_of_snap sn slot = \<lparr> ud_lb = ds_lb sn, ud_reserve_x = ds_reserve_x sn, ud_reserve_y = ds_reserve_y sn,
     ud_bins = foldl (\<lambda>d b. dput (rb_id b) (rb_x b, rb_y b) d) [] (ds_bins sn), ud_slot = slot \<rparr>"

definition sstate_of :: "published \<Rightarrow> sstate" where
  "sstate_of p = (case p of
       PubDlmm u \<Rightarrow> no_state \<lparr> ss_slot := Some (ud_slot u), ss_active_id := Some (lb_active_id (ud_lb u)),
         ss_vol_acc := Some (lb_vol_acc (ud_lb u)), ss_vol_ref := Some (lb_vol_ref (ud_lb u)),
         ss_idx_ref := Some (lb_idx_ref (ud_lb u)), ss_last_upd := Some (lb_last_upd (ud_lb u)),
         ss_bins := map (\<lambda>(i, x, y). (BinInt i, [x, y])) (ud_bins u) \<rparr>
     | PubPump u \<Rightarrow> no_state \<lparr> ss_slot := Some (us_slot u), ss_base_vault_amount := Some (us_reserve_base u),
         ss_reserve_base := Some (us_reserve_base u), ss_quote_vault_amount := Some (us_reserve_quote u),
         ss_reserve_quote := Some (us_reserve_quote u), ss_virtual_quote_reserves := Some (us_virtual_quote u),
         ss_virtual_quote := Some (us_virtual_quote u) \<rparr>)"

definition row_of_pub :: "pub_pump \<Rightarrow> pump_row" where
  "row_of_pub u = \<lparr> row_kind = Some ''pump'', row_reserve_base = Some (us_reserve_base u),
     row_reserve_quote = Some (us_reserve_quote u), row_virtual_quote = Some (us_virtual_quote u),
     row_base_vault = Some (us_reserve_base u), row_quote_vault = Some (us_reserve_quote u),
     row_virtual_reserves = Some (us_virtual_quote u), row_lp = Some (us_lp u), row_protocol = Some (us_protocol u),
     row_creator = Some (us_creator u), row_status = None, row_amount_in = None, row_direction = None, row_base_out = None \<rparr>"

definition sstate_of_row :: "pump_row \<Rightarrow> sstate" where
  "sstate_of_row t = no_state \<lparr> ss_base_vault_amount := row_base_vault t, ss_reserve_base := row_reserve_base t,
     ss_quote_vault_amount := row_quote_vault t, ss_reserve_quote := row_reserve_quote t,
     ss_virtual_quote_reserves := row_virtual_reserves t, ss_virtual_quote := row_virtual_quote t \<rparr>"

definition stage_of :: "pstage \<Rightarrow> stage" where
  "stage_of st = \<lparr> sg_sig = (case st_sig st of None \<Rightarrow> SigNone | Some b \<Rightarrow> SigBytes b),
     sg_wait_slot = (case st_wait_slot st of None \<Rightarrow> False | Some w \<Rightarrow> w \<noteq> 0), sg_slot = st_slot st \<rparr>"

definition staged_of :: "staged_row \<Rightarrow> staged" where
  "staged_of w = \<lparr> sw_role = Some (sr_role w), sw_pubkey = Some (sr_pubkey w) \<rparr>"

section \<open>Publication\<close>

definition max_write_version :: "staged_row list \<Rightarrow> int" where
  "max_write_version ws = foldl (\<lambda>m w. max m (sr_write_version w)) 0 ws"

definition finish_args :: "pool_rec \<Rightarrow> int \<Rightarrow> bytes \<Rightarrow> int \<Rightarrow> publish_args" where
  "finish_args r slot blob proto = \<lparr> pa_slot = slot, pa_blob = blob, pa_proto = proto, pa_sig = st_sig (p_stage r),
     pa_txn_index = None, pa_write_version = (if p_staged r = [] then None else Some (max_write_version (p_staged r))),
     pa_flags = (if p_status r = ST_GAPPED then COHERENT OR GAPPED else COHERENT),
     pa_boot = (st_sig (p_stage r) = Some BOOT_SIG) \<rparr>"

definition auth_publish :: "int \<Rightarrow> publish_args \<Rightarrow> unit op" where
  "auth_publish i pa = (\<lambda>s. let (a, err) = publish (s_auth s) i pa
     in (case err of None \<Rightarrow> Inr () | Some x \<Rightarrow> Inl x, s \<lparr> s_auth := a \<rparr>))"

definition publication_of :: "pool_rec \<Rightarrow> published \<Rightarrow> publication" where
  "publication_of r pub = \<lparr> pb_idx = p_idx r, pb_kind = p_kind r, pb_pubkey = or_empty (p_pubkey r),
     pb_origin = (if st_sig (p_stage r) = Some BOOT_SIG then ''boot'' else ''tx''), pb_stage = stage_of (p_stage r),
     pb_staged = map staged_of (p_staged r), pb_before = map_option sstate_of (p_s_before r), pb_pub = sstate_of pub \<rparr>"

definition pub_slot :: "published \<Rightarrow> int" where
  "pub_slot p = (case p of PubDlmm u \<Rightarrow> ud_slot u | PubPump u \<Rightarrow> us_slot u)"

definition with_pool :: "int \<Rightarrow> (pool_rec \<Rightarrow> 'a op) \<Rightarrow> 'a op" where
  "with_pool i f = sbind (sget (\<lambda>s. dget (s_pools s) i)) (\<lambda>r. case r of None \<Rightarrow> slift (Inl KeyError) | Some r \<Rightarrow> f r)"

definition finish_publish :: "int \<Rightarrow> published \<Rightarrow> bytes \<Rightarrow> int \<Rightarrow> unit op" where
  "finish_publish i pub blob proto = with_pool i (\<lambda>r.
     sseq (auth_publish i (finish_args r (pub_slot pub) blob proto))
    (sseq (smod (upd_pool i (\<lambda>q. q \<lparr> p_stage := no_stage, p_staged := [] \<rparr>)))
          (smod (\<lambda>s. s \<lparr> s_shadow := on_publish (s_shadow s) (publication_of r pub) \<rparr>))))"

text \<open>What both kinds of pool do once their state is encoded.\<close>

definition install_published :: "int \<Rightarrow> published \<Rightarrow> bytes \<Rightarrow> int \<Rightarrow> bool op" where
  "install_published i pub blob proto =
     sseq (log_append (recon_auth proto i (pub_slot pub) blob))
    (sseq (smod (upd_pool i (\<lambda>q. q \<lparr> p_status := ST_COHERENT, p_gen := p_gen q + 1, p_last_s := Some pub, p_last_blob := Some blob \<rparr>)))
    (sseq (smod (bump ''published'' 1))
    (sseq (finish_publish i pub blob proto) (sret True))))"

definition roles_of :: "s008 \<Rightarrow> int \<Rightarrow> string \<Rightarrow> string list" where
  "roles_of s i pk = map dr_role (filter (\<lambda>x. dr_pool_idx x = i) (dflt (s_acc_deps s) pk []))"

definition data_of :: "(string, acc_row) dict \<Rightarrow> string \<Rightarrow> bytes" where
  "data_of accounts pk = or_bytes (ar_data (row_of accounts pk))"

text \<open>The data of the last required account with a role.\<close>

definition last_with :: "(string \<Rightarrow> bool) \<Rightarrow> (string, acc_row) dict \<Rightarrow> string list \<Rightarrow> bytes option" where
  "last_with P accounts ks = (case filter P ks of [] \<Rightarrow> None | xs \<Rightarrow> Some (data_of accounts (last xs)))"

definition add_bins :: "int \<Rightarrow> string list \<Rightarrow> s008 \<Rightarrow> bool \<times> s008" where
  "add_bins i need s = foldl (\<lambda>(added, t) pk. let (b, t') = add_required i pk ROLE_DLMM_BIN t in (added \<or> b, t')) (False, s) need"

definition set_status_op :: "int \<Rightarrow> pool_status \<Rightarrow> unit op" where
  "set_status_op i st = smod (upd_pool i (set_pool_status st))"

text \<open>The two ends of \<^verbatim>\<open>publish_dlmm\<close>: the bins the active bin needs, and the state once they are there.\<close>

definition dlmm_encode :: "env \<Rightarrow> int \<Rightarrow> int \<Rightarrow> lbpair \<Rightarrow> dlmm_snap option \<Rightarrow> bool op" where
  "dlmm_encode e i slot lb snap =
    (case snap of
       None \<Rightarrow> sseq (set_status_op i ST_INCOMPLETE) (sret False)
     | Some sn \<Rightarrow>
         sseq (smod (upd_pool i (\<lambda>q. q \<lparr> p_active_id := Some (lb_active_id lb) \<rparr>)))
        (sbind (slift (write_dlmm (e_now e) sn)) (\<lambda>blob.
           install_published i (PubDlmm (pub_of_snap sn slot)) blob PROTO_DLMM)))"

definition dlmm_bins :: "env \<Rightarrow> int \<Rightarrow> int \<Rightarrow> (string, acc_row) dict \<Rightarrow> bytes \<Rightarrow> lbpair \<Rightarrow> string list \<Rightarrow> bool op" where
  "dlmm_bins e i slot accounts raw lb need =
     sbind (\<lambda>s. (Inr (fst (add_bins i need s)), snd (add_bins i need s))) (\<lambda>added.
     sseq (swhen added (smod (\<lambda>s. fetch_async ''dependency_result'' (filter (\<lambda>k. dget (s_bytes s) k = None) need) None (subscribe_all s))))
       (if list_ex (\<lambda>k. dget accounts k = None) need then sseq (set_status_op i ST_INCOMPLETE) (sret False)
        else dlmm_encode e i slot lb (snap_dlmm raw (map (data_of accounts) need))))"

definition publish_dlmm :: "env \<Rightarrow> int \<Rightarrow> int \<Rightarrow> (string, acc_row) dict \<Rightarrow> bool op" where
  "publish_dlmm e i slot accounts = with_pool i (\<lambda>r.
     sbind (sget (\<lambda>s. last_with (\<lambda>pk. ROLE_DLMM_PAIR \<in> set (roles_of s i pk)) accounts (p_required r))) (\<lambda>pair.
     if list_ex (\<lambda>pk. no_data (row_of accounts pk)) (p_required r) then sret False
     else case pair of None \<Rightarrow> sret False
     | Some raw \<Rightarrow>
       (case parse_lbpair raw of
          Inl _ \<Rightarrow> sseq (smod (bump ''decode_fail'' 1)) (sret False)
        | Inr lb \<Rightarrow>
            sbind (slift (bin_keys_for_active (e_sha e) (or_empty (p_pubkey r)) (lb_active_id lb)))
              (dlmm_bins e i slot accounts raw lb))))"

text \<open>
  The roles of a required pump account are tested in the order of the source: an account is
  used for the first role it has.
\<close>

definition PUMP_ROLES :: "string list" where
  "PUMP_ROLES = [ROLE_PUMP_POOL, ROLE_PUMP_VAULT_BASE, ROLE_PUMP_VAULT_QUOTE, ROLE_PUMP_GLOBAL, ROLE_PUMP_FEE_CONFIG, ROLE_MINT]"

definition used_role :: "s008 \<Rightarrow> int \<Rightarrow> string \<Rightarrow> string option" where
  "used_role s i pk = find (\<lambda>role. role \<in> set (roles_of s i pk)) PUMP_ROLES"

definition role_data :: "s008 \<Rightarrow> int \<Rightarrow> (string, acc_row) dict \<Rightarrow> string list \<Rightarrow> string \<Rightarrow> bytes option" where
  "role_data s i accounts ks role = last_with (\<lambda>pk. used_role s i pk = Some role) accounts ks"

definition key_text :: "bytes \<Rightarrow> string" where
  "key_text raw = (if raw = [] then [] else record_pk raw)"

definition pump_fee_state ::
  "env \<Rightarrow> bytes option \<Rightarrow> bytes option \<Rightarrow> pump_pool \<Rightarrow> int \<Rightarrow> int \<Rightarrow> int \<Rightarrow> fee_state option" where
  "pump_fee_state e fee_raw glob p supply rb rq =
    (case (fee_raw, glob) of
       (Some f, Some g) \<Rightarrow>
         (case rbind (parse_fee_config f) (\<lambda>fc. rbind (parse_global_config g) (\<lambda>gc.
            resolve_fee_state (e_sha e) fc gc
              \<lparr> pmeta_creator = key_text (pp_creator p), pmeta_base_mint = key_text (pp_base p),
                pmeta_quote_mint = key_text (pp_quote p), pmeta_coin_creator = key_text (pp_coin_creator p),
                pmeta_creator_fee_bps = pp_creator_fee_bps p, pmeta_virtual = 0, pmeta_mayhem = 0, pmeta_cashback = 0,
                pmeta_holder = 0, pmeta_canonical = False \<rparr>
              supply rb rq None ''coin_creator'' ''flat'')) of
            Inl _ \<Rightarrow> None | Inr fs \<Rightarrow> Some fs)
     | _ \<Rightarrow> None)"

definition pump_published ::
  "env \<Rightarrow> bytes option \<Rightarrow> bytes option \<Rightarrow> bytes option \<Rightarrow> int \<times> int \<times> int \<times> int \<Rightarrow> pump_pool \<Rightarrow> int \<Rightarrow> int \<Rightarrow> int \<Rightarrow> pub_pump" where
  "pump_published e fee_raw glob mint_raw fees p rb rq slot =
    (let (lp0, proto0, creator0, disabled) = fees;
         supply = (case mint_raw of None \<Rightarrow> 0 | Some m \<Rightarrow> parse_mint_supply m);
         fs = pump_fee_state e fee_raw glob p supply rb rq;
         pick = (\<lambda>sel d. case fs of None \<Rightarrow> d | Some f \<Rightarrow> sel f)
     in \<lparr> us_reserve_base = rb, us_reserve_quote = rq, us_virtual_quote = pp_virtual p,
          us_lp = pick fs_lp_fee_bps lp0, us_protocol = pick fs_protocol_fee_bps proto0,
          us_creator = pick fs_creator_fee_bps creator0, us_disabled = disabled, us_slot = slot,
          us_pool_creator = key_text (pp_creator p), us_coin_creator = key_text (pp_coin_creator p),
          us_pool_creator_fee_bps = pp_creator_fee_bps p, us_base_mint = key_text (pp_base p),
          us_quote_mint = key_text (pp_quote p), us_base_supply = supply, us_fee_state = fs \<rparr>)"

definition pump_state_of :: "pub_pump \<Rightarrow> pump_pool \<Rightarrow> pump_state" where
  "pump_state_of u p = \<lparr> ps_reserve_base = us_reserve_base u, ps_reserve_quote = us_reserve_quote u,
     ps_virtual_quote = us_virtual_quote u, ps_lp_fee_bps = us_lp u, ps_protocol_fee_bps = us_protocol u,
     ps_creator_fee_bps = us_creator u, ps_disabled = us_disabled u,
     ps_status = (if pp_mayhem p \<noteq> 0 \<or> pp_cashback p \<noteq> 0 then 1 else 0) \<rparr>"

definition pump_encode :: "env \<Rightarrow> int \<Rightarrow> int \<Rightarrow> (string \<Rightarrow> bytes option) \<Rightarrow> pump_pool \<Rightarrow> int \<Rightarrow> int \<Rightarrow> bool op" where
  "pump_encode e i slot at_role p rb rq =
     sseq (smod (\<lambda>s. s \<lparr> s_fees := (case at_role ROLE_PUMP_GLOBAL of None \<Rightarrow> s_fees s | Some g \<Rightarrow> parse_global g) \<rparr>))
    (sbind (sget s_fees) (\<lambda>fees.
      let u = pump_published e (at_role ROLE_PUMP_FEE_CONFIG) (at_role ROLE_PUMP_GLOBAL) (at_role ROLE_MINT) fees p rb rq slot
      in sbind (slift (write_pump (pump_state_of u p))) (\<lambda>blob. install_published i (PubPump u) blob PROTO_PUMP)))"

definition publish_pump :: "env \<Rightarrow> int \<Rightarrow> int \<Rightarrow> (string, acc_row) dict \<Rightarrow> bool op" where
  "publish_pump e i slot accounts = with_pool i (\<lambda>r.
     if list_ex (\<lambda>pk. no_data (row_of accounts pk)) (p_required r) then sret False
     else sbind (sget (\<lambda>s. role_data s i accounts (p_required r))) (\<lambda>at_role.
       case (at_role ROLE_PUMP_POOL, at_role ROLE_PUMP_VAULT_BASE, at_role ROLE_PUMP_VAULT_QUOTE) of
         (Some pool_raw, Some vb, Some vq) \<Rightarrow>
           (case parse_pump_pool pool_raw of
              None \<Rightarrow> sseq (smod (bump ''decode_fail'' 1)) (sret False)
            | Some p \<Rightarrow>
                if token_amount vb = 0 \<or> token_amount vq = 0 then sseq (set_status_op i ST_INCOMPLETE) (sret False)
                else pump_encode e i slot at_role p (token_amount vb) (token_amount vq))
       | _ \<Rightarrow> sseq (set_status_op i ST_INCOMPLETE) (sret False)))"

definition barrier_incomplete :: "tx_barrier \<Rightarrow> tx_barrier" where
  "barrier_incomplete b = b \<lparr> tb_m := (tb_m b) \<lparr> bc_incomplete_at_boundary := bc_incomplete_at_boundary (tb_m b) + 1 \<rparr> \<rparr>"

definition fail_tx_incomplete :: "env \<Rightarrow> int \<Rightarrow> string \<Rightarrow> unit op" where
  "fail_tx_incomplete e i hx =
     sseq (smod (\<lambda>s. bump ''publish_incomplete_at_boundary'' 1
        (s \<lparr> s_barrier := (let b = barrier_incomplete (s_barrier s) in if hx = [] then b else barrier_drop b hx (Some i)) \<rparr>)))
    (sseq (smod (upd_pool i (\<lambda>q. q \<lparr> p_stage := no_stage, p_staged := [], p_status := ST_INCOMPLETE \<rparr>)))
          (sbind (sget s_stream_slot) (\<lambda>slot. log_invalidate i (e_mono e) slot)))"

definition wait_shape :: "s008 \<Rightarrow> s008" where
  "wait_shape s = bump ''publish_wait_shape'' 1
     (s \<lparr> s_barrier := (s_barrier s) \<lparr> tb_m := (tb_m (s_barrier s)) \<lparr> bc_wait_shape := bc_wait_shape (tb_m (s_barrier s)) + 1 \<rparr> \<rparr> \<rparr>)"

definition note_wait :: "int \<Rightarrow> string list \<Rightarrow> s008 \<Rightarrow> s008" where
  "note_wait i absent s =
    (let b = mark_wait (s_barrier s) absent (role_in s i)
     in set_m ''publish_wait_vault'' (int (bc_wait_vault (tb_m b))) (set_m ''publish_wait_bin'' (int (bc_wait_bin (tb_m b)))
          (set_m ''publish_wait_pair'' (int (bc_wait_pair (tb_m b))) (s \<lparr> s_barrier := b \<rparr>))))"

definition sig_text :: "bytes \<Rightarrow> string" where
  "sig_text b = (case sig_hex (SigBytes b) of None \<Rightarrow> [] | Some h \<Rightarrow> h)"

definition is_tx_sig :: "bytes option \<Rightarrow> bool" where
  "is_tx_sig g = (case g of None \<Rightarrow> False | Some b \<Rightarrow> b \<noteq> [] \<and> b \<noteq> BOOT_SIG)"

text \<open>
  Whether a staged pool may go on to publication, and with which signature: \<open>Inl\<close> the signature
  when it may, \<open>Inr\<close> what the early return does when it may not.
\<close>

datatype gate_out = Go "bytes option" bool | Wait_slot | Wait_shape | Wait_writes "string list" | Incomplete

definition publish_gate :: "s008 \<Rightarrow> pool_rec \<Rightarrow> int \<Rightarrow> gate_out" where
  "publish_gate s r stream_slot =
    (let st = p_stage r; sig = st_sig st; slot0 = or0 (st_slot st);
         wait = (case st_wait_slot st of None \<Rightarrow> slot0 + 1 | Some w \<Rightarrow> if w = 0 then slot0 + 1 else w)
     in if sig = None \<or> sig = Some [] then (if stream_slot < wait then Wait_slot else Go sig False)
        else if sig = Some BOOT_SIG then Go sig False
        else let hx = sig_text (the sig) in
          if \<not> has_shape (s_barrier s) hx (p_idx r)
          then (if stream_slot > slot0 + 8 then Go (Some BOOT_SIG) True else Wait_shape)
          else if \<not> can_commit (s_barrier s) hx (p_idx r)
          then (if stream_slot > slot0 then Incomplete else Wait_writes (missing (s_barrier s) hx (p_idx r)))
          else Go sig False)"

definition reauth :: "pool_rec \<Rightarrow> pool_rec" where
  "reauth r = r \<lparr> p_stage := (p_stage r) \<lparr> st_sig := Some BOOT_SIG, st_reconcile := True \<rparr> \<rparr>"

definition publish_kind :: "env \<Rightarrow> int \<Rightarrow> int \<Rightarrow> (string, acc_row) dict \<Rightarrow> bool op" where
  "publish_kind e i slot accounts = with_pool i (\<lambda>r.
     if p_kind r = ''dlmm'' then publish_dlmm e i slot accounts else publish_pump e i slot accounts)"

definition freeze :: "s008 \<Rightarrow> string list \<Rightarrow> (string, acc_row) dict" where
  "freeze s ks = map (\<lambda>pk. (pk, row_of (s_bytes s) pk)) ks"

definition publish_tx :: "env \<Rightarrow> int \<Rightarrow> int \<Rightarrow> bytes \<Rightarrow> unit op" where
  "publish_tx e i slot sig = with_pool i (\<lambda>r.
     sbind (sget (\<lambda>s. snapshot (s_barrier s) (sig_text sig) i (p_required r) (s_bytes s))) (\<lambda>(reason, frozen).
       case frozen of
         None \<Rightarrow> sseq (smod (\<lambda>s. s \<lparr> s_rejections := dput reason (dflt (s_rejections s) reason 0 + 1) (s_rejections s) \<rparr>))
                      (fail_tx_incomplete e i (sig_text sig))
       | Some accounts \<Rightarrow> sbind (publish_kind e i slot accounts) (\<lambda>ok.
           swhen ok (smod (\<lambda>s. bump ''auth_predicted_exact'' 1 (s \<lparr> s_barrier := barrier_drop (s_barrier s) (sig_text sig) (Some i) \<rparr>))))))"

definition publish_boot :: "env \<Rightarrow> int \<Rightarrow> int \<Rightarrow> bool \<Rightarrow> unit op" where
  "publish_boot e i slot reconcile = with_pool i (\<lambda>r.
     sbind (sget (\<lambda>s. freeze s (p_required r))) (\<lambda>accounts.
     sbind (publish_kind e i slot accounts) (\<lambda>ok.
       swhen (ok \<and> reconcile) (smod (bump ''auth_reconciled_unknown'' 1)))))"

definition try_publish :: "env \<Rightarrow> int \<Rightarrow> int \<Rightarrow> unit op" where
  "try_publish e stream_slot i = with_pool i (\<lambda>r.
     sbind (sget (\<lambda>s. (pool_complete s r, publish_gate s r stream_slot))) (\<lambda>(complete, out).
       if \<not> complete then set_status_op i ST_INCOMPLETE
       else if p_stage r = no_stage then sret ()
       else case out of
         Wait_slot \<Rightarrow> sret ()
       | Wait_shape \<Rightarrow> smod wait_shape
       | Wait_writes absent \<Rightarrow> smod (note_wait i absent)
       | Incomplete \<Rightarrow> fail_tx_incomplete e i (sig_text (the (st_sig (p_stage r))))
       | Go sig re \<Rightarrow>
           sseq (swhen re (smod (\<lambda>s. bump ''non_exact_reauth'' 1 (upd_pool i reauth s))))
             (let slot = (case st_slot (p_stage r) of None \<Rightarrow> stream_slot | Some n \<Rightarrow> if n = 0 then stream_slot else n)
              in if is_tx_sig sig then publish_tx e i slot (the sig)
                 else publish_boot e i slot (re \<or> st_reconcile (p_stage r)))))"

definition publishable :: "pool_status \<Rightarrow> bool" where
  "publishable st \<longleftrightarrow> st \<in> {ST_STAGING, ST_INCOMPLETE, ST_GAPPED}"

definition maybe_publish :: "env \<Rightarrow> int \<Rightarrow> unit op" where
  "maybe_publish e stream_slot = sbind (sget s_pools) (\<lambda>pools. sfor pools (\<lambda>(i, _).
     with_pool i (\<lambda>r. swhen (publishable (p_status r)) (try_publish e stream_slot i))))"

section \<open>Account updates\<close>

definition row_of_ev :: "acct_ev \<Rightarrow> acc_row" where
  "row_of_ev ev = \<lparr> ar_provider_generation = av_generation ev, ar_bank_id = av_bank_id ev, ar_slot = Some (av_slot ev),
     ar_write_version = Some (av_write_version ev), ar_txn_sig = av_txn_sig ev, ar_owner = Some (av_owner ev),
     ar_lamports = Some (av_lamports ev), ar_data = Some (av_data ev) \<rparr>"

definition stale :: "s008 \<Rightarrow> string option \<Rightarrow> bool" where
  "stale s g \<longleftrightarrow> g \<noteq> s_provider_generation s \<or> s_provider_generation s = None"

definition wipe_stage :: "pool_rec \<Rightarrow> pool_rec" where
  "wipe_stage r = r \<lparr> p_stage := no_stage, p_staged := [] \<rparr>"

definition for_deps :: "string \<Rightarrow> (acc_dep \<Rightarrow> int \<Rightarrow> unit op) \<Rightarrow> unit op" where
  "for_deps pk f = sbind (sget (\<lambda>s. dflt (s_acc_deps s) pk [])) (\<lambda>rows. sfor rows (\<lambda>row.
     sbind (sget (\<lambda>s. dget (s_pools s) (dr_pool_idx row) \<noteq> None)) (\<lambda>known.
       swhen known (f row (dr_pool_idx row)))))"

definition ambiguous_update :: "acct_ev \<Rightarrow> unit op" where
  "ambiguous_update ev =
    sseq (smod (\<lambda>s. s \<lparr> s_bytes := dpop (av_pubkey ev) (s_bytes s) \<rparr>))
   (sseq (for_deps (av_pubkey ev) (\<lambda>row i.
            sseq (invalidate i (av_t_rx ev) (av_slot ev)) (smod (upd_pool i wipe_stage))))
         (smod (bump ''rpc_same_slot_ambiguous'' 1)))"

definition SEEN_CAP :: nat where "SEEN_CAP = 400000"

definition note_bytes :: "acct_ev \<Rightarrow> s008 \<Rightarrow> s008" where
  "note_bytes ev s =
    (let seen = set_add (s_seen s) (av_pubkey ev, av_slot ev, av_write_version ev)
     in s \<lparr> s_seen := (if length seen > SEEN_CAP then [] else seen),
            s_last_wv := dput (av_pubkey ev) (av_write_version ev) (s_last_wv s),
            s_bytes := dput (av_pubkey ev) (row_of_ev ev) (s_bytes s) \<rparr>)"

definition ev_sig :: "acct_ev \<Rightarrow> string option" where
  "ev_sig ev = sig_hex (case av_txn_sig ev of None \<Rightarrow> SigNone | Some b \<Rightarrow> SigBytes b)"

definition stage_sig :: "acct_ev \<Rightarrow> pstage \<Rightarrow> pstage" where
  "stage_sig ev st =
    (let signed = or_bytes (av_txn_sig ev) \<noteq> [] in
     if signed \<and> or_bytes (st_sig st) \<noteq> [] \<and> av_txn_sig ev \<noteq> st_sig st \<and> st_slot st = Some (av_slot ev)
     then st \<lparr> st_wait_slot := Some (av_slot ev + 1) \<rparr>
     else if signed then st \<lparr> st_sig := av_txn_sig ev, st_slot := Some (av_slot ev) \<rparr>
     else st \<lparr> st_wait_slot := Some (av_slot ev + 1), st_slot := Some (av_slot ev) \<rparr>)"

definition stage_row :: "acct_ev \<Rightarrow> string \<Rightarrow> pool_rec \<Rightarrow> pool_rec" where
  "stage_row ev role r = r \<lparr> p_staged := p_staged r @ [\<lparr> sr_pubkey = av_pubkey ev, sr_role = role, sr_slot = av_slot ev,
     sr_write_version = av_write_version ev, sr_txn_sig = ev_sig ev, sr_dlen = int (length (av_data ev)) \<rparr>] \<rparr>"

definition stage_write :: "acct_ev \<Rightarrow> acc_dep \<Rightarrow> int \<Rightarrow> unit op" where
  "stage_write ev row i =
    sseq (invalidate i (av_t_rx ev) (av_slot ev))
   (sseq (smod (upd_pool i (stage_row ev (dr_role row))))
   (sseq (smod (\<lambda>s. case ev_sig ev of None \<Rightarrow> s
             | Some hx \<Rightarrow> s \<lparr> s_barrier := note_write (s_barrier s) hx (av_slot ev) i (av_pubkey ev) (Some (row_of_ev ev)) \<rparr>))
         (smod (upd_pool i (\<lambda>r. r \<lparr> p_stage := stage_sig ev (p_stage r) \<rparr>)))))"

datatype upd_class = Upd_stale | Upd_below_floor | Upd_ambiguous | Upd_dup | Upd_old | Upd_new

definition classify_update :: "s008 \<Rightarrow> acct_ev \<Rightarrow> upd_class" where
  "classify_update s ev =
    (let pk = av_pubkey ev; slot = av_slot ev; wv = av_write_version ev; floor = dflt (s_rpc_floors s) pk (- 1) in
     if stale s (av_generation ev) then Upd_stale
     else if slot \<le> floor then (if slot = floor \<and> slot_or0 (row_of (s_bytes s) pk) \<le> floor then Upd_ambiguous else Upd_below_floor)
     else if (pk, slot, wv) \<in> set (s_seen s) then Upd_dup
     else if 0 \<le> wv \<and> wv < dflt (s_last_wv s) pk (- 1) then Upd_old
     else Upd_new)"

definition apply_update :: "acct_ev \<Rightarrow> bool \<Rightarrow> unit op" where
  "apply_update ev from_buf =
    sbind (sget (\<lambda>s. (classify_update s ev, s_bootstrapping s))) (\<lambda>(cls, booting).
      case cls of
        Upd_stale \<Rightarrow> smod (bump ''stale_generation_events'' 1)
      | Upd_below_floor \<Rightarrow> sret ()
      | Upd_ambiguous \<Rightarrow> ambiguous_update ev
      | Upd_dup \<Rightarrow> smod (bump ''dup'' 1)
      | Upd_old \<Rightarrow> sret ()
      | Upd_new \<Rightarrow> sseq (smod (note_bytes ev)) (swhen (\<not> (booting \<and> \<not> from_buf)) (for_deps (av_pubkey ev) (stage_write ev))))"

section \<open>Transactions\<close>

definition plain_deps :: "s008 \<Rightarrow> (string, dep_row list) dict" where
  "plain_deps s = map (\<lambda>(pk, rows). (pk, map dep_row.truncate rows)) (s_acc_deps s)"

definition require_expected :: "int \<Rightarrow> string \<Rightarrow> unit op" where
  "require_expected i pk = with_pool i (\<lambda>r.
     sbind (sget (\<lambda>s. role_in s i pk)) (\<lambda>role.
       swhen (role = None \<and> p_kind r = ''dlmm'' \<and> Some pk \<noteq> p_pubkey r)
         (smod (\<lambda>s. let (new, t) = add_required i pk ROLE_DLMM_BIN s in if new then subscribe_all t else t))))"

definition direct_paper :: "string \<Rightarrow> pool_rec \<Rightarrow> published \<Rightarrow> sstate \<Rightarrow> int option \<Rightarrow> int option \<Rightarrow> paper" where
  "direct_paper sig r last_s sp direction amount = \<lparr> pr_kind = [], pr_s_prime = Some sp,
     pr_n = Some \<lparr> pn_pool_idx = Some (p_idx r), pn_direction = direction, pn_amount_in = amount \<rparr>, pr_sig_hex = SigStr sig,
     pr_auth_slot = Some (pub_slot last_s), pr_auth_age_slots = None, pr_fresh_age_slots = None, pr_tx_exact = Some 1,
     pr_pool = p_pubkey r, pr_source = Some ''fastsoak'' \<rparr>"

definition predict :: "env \<Rightarrow> string \<Rightarrow> pool_rec \<Rightarrow> published \<Rightarrow> sstate \<Rightarrow> int option \<Rightarrow> int option \<Rightarrow> s008 \<Rightarrow> s008" where
  "predict e sig r last_s sp direction amount s =
    bump ''fastsoak_predict'' 1 (s \<lparr> s_shadow := ingest_direct (e_now e) (s_shadow s) (direct_paper sig r last_s sp direction amount) \<rparr>)"

definition predict_pump :: "env \<Rightarrow> string \<Rightarrow> pool_rec \<Rightarrow> pub_pump \<Rightarrow> gix list \<Rightarrow> unit op" where
  "predict_pump e sig r u ixs =
    (let cpis = cpis_from_parsed ixs (or_empty (p_pubkey r)) in
     if list_ex (\<lambda>c. c_kind c = ''unknown'') cpis then smod (bump ''fastsoak_fail_closed'' 1)
     else if cpis = [] then smod (bump ''fastsoak_skip_apply'' 1)
     else sbind (slift (apply_parsed (row_of_pub u) cpis)) (\<lambda>(term, fail).
       case (term, fail) of
         (Some t, None) \<Rightarrow> smod (predict e sig r (PubPump u) (sstate_of_row t) (c_direction (last cpis)) (c_amount (last cpis)))
       | _ \<Rightarrow> smod (bump (if fail = Some ''unsupported_cpi'' then ''fastsoak_fail_closed'' else ''fastsoak_skip_apply'') 1)))"

definition dlmm_hit :: "string option \<Rightarrow> gix list \<Rightarrow> gix option" where
  "dlmm_hit pubkey ixs = find (\<lambda>ix. ix_variant ix \<noteq> None \<and> gx_accounts ix \<noteq> [] \<and> Some (hd (gx_accounts ix)) = pubkey) ixs"

definition predict_dlmm :: "env \<Rightarrow> string \<Rightarrow> pool_rec \<Rightarrow> published \<Rightarrow> bytes \<Rightarrow> string option \<Rightarrow> gix list \<Rightarrow> unit op" where
  "predict_dlmm e sig r last_s blob pubkey ixs =
    (case dlmm_hit pubkey ixs of None \<Rightarrow> smod (bump ''fastsoak_skip_apply'' 1)
     | Some ix \<Rightarrow>
       (case gx_bytes ix of None \<Rightarrow> smod (bump ''fastsoak_skip_apply'' 1)
        | Some d \<Rightarrow> sbind (slift (e_apply e last_s (gx_accounts ix) d blob)) (\<lambda>out.
            case out of None \<Rightarrow> smod (bump ''fastsoak_skip_apply'' 1)
            | Some (sp, direction, amount) \<Rightarrow> smod (predict e sig r last_s sp direction amount))))"

definition fastsoak_predict :: "env \<Rightarrow> string \<Rightarrow> (int, expect_row) dict \<Rightarrow> gix list \<Rightarrow> unit op" where
  "fastsoak_predict e sig expect ixs = sfor expect (\<lambda>(i, row).
     sbind (sget (\<lambda>s. dget (s_pools s) i)) (\<lambda>r'. case r' of None \<Rightarrow> sret ()
     | Some r \<Rightarrow>
       (case (p_last_s r, p_last_blob r) of
          (Some last_s, Some blob) \<Rightarrow>
            (if p_kind r = ''pump''
             then (case last_s of PubPump u \<Rightarrow> predict_pump e sig r u ixs | PubDlmm _ \<Rightarrow> slift (Inl KeyError))
             else predict_dlmm e sig r last_s blob (er_pubkey row) ixs)
        | _ \<Rightarrow> smod (bump ''fastsoak_skip_no_auth'' 1))))"

definition count_tx :: "exact_status \<Rightarrow> s008 \<Rightarrow> s008" where
  "count_tx k s =
    (let s1 = (if es_n_unknown k \<noteq> 0 then bump ''unsupported_shape'' 1 (bump ''tx_unknown_dex'' 1 s) else s)
     in if es_n_exact k \<noteq> 0 then bump ''tx_exact_seen'' (int (es_n_exact k)) s1 else s1)"

definition apply_tx :: "env \<Rightarrow> tx_ev \<Rightarrow> unit op" where
  "apply_tx e ev =
    sbind (sget (\<lambda>s. (stale s (tv_generation ev), plain_deps s, pools_by_pk s))) (\<lambda>(old, deps, by_pk).
      case tv_parsed ev of None \<Rightarrow> sret ()
      | Some parsed \<Rightarrow>
        if old then sret ()
        else let ixs = pt_instructions parsed; expect = expect_from_instructions ixs deps by_pk; k = tx_exact_status ixs in
          sseq (smod (count_tx k))
          (swhen (expect \<noteq> [])
            (sseq (sfor expect (\<lambda>(i, row). sbind (sget (\<lambda>s. dget (s_pools s) i \<noteq> None)) (\<lambda>known.
                     swhen known (sfor (er_expected row) (require_expected i)))))
            (sseq (smod (\<lambda>s. s \<lparr> s_barrier := note_tx (s_barrier s) (pt_sig parsed) (or0 (tv_slot ev)) expect \<rparr>))
            (sseq (swhen (es_n_exact k \<noteq> 0) (fastsoak_predict e (pt_sig parsed) expect ixs))
                  (sbind (sget s_stream_slot) (maybe_publish e)))))))"

section \<open>Bootstrap\<close>

definition boot_bytes :: "string option \<Rightarrow> (string, rpc_acc) dict \<Rightarrow> (string, acc_row) dict" where
  "boot_bytes g accounts = map (\<lambda>(pk, a). (pk, rpc_row g a)) (filter (\<lambda>(pk, a). ra_data a \<noteq> [] \<and> ra_slot a > 0) accounts)"

definition boot_floors :: "(string, rpc_acc) dict \<Rightarrow> (string, int) dict" where
  "boot_floors accounts = map (\<lambda>(pk, a). (pk, ra_slot a)) (filter (\<lambda>(pk, a). ra_data a \<noteq> [] \<and> ra_slot a > 0) accounts)"

definition load_boot :: "(string, rpc_acc) dict \<Rightarrow> s008 \<Rightarrow> s008" where
  "load_boot accounts s = s \<lparr> s_bytes := boot_bytes (s_provider_generation s) accounts, s_rpc_floors := boot_floors accounts,
     s_bootstrap_slot := foldl (\<lambda>m e. max m (snd e)) 0 (boot_floors accounts), s_buf := [] \<rparr>"

definition replay_one :: "env \<Rightarrow> buffered \<Rightarrow> unit op" where
  "replay_one e b = (case b of BufAccount ev \<Rightarrow> apply_update ev True | BufTx ev \<Rightarrow> apply_tx e ev)"

definition boot_slot_of :: "s008 \<Rightarrow> pool_rec \<Rightarrow> int" where
  "boot_slot_of s r = (case p_required r of [] \<Rightarrow> 0
     | k # ks \<Rightarrow> foldl (\<lambda>m pk. max m (slot_or0 (row_of (s_bytes s) pk))) (slot_or0 (row_of (s_bytes s) k)) ks)"

definition boot_pool :: "env \<Rightarrow> int \<Rightarrow> unit op" where
  "boot_pool e i = with_pool i (\<lambda>r.
     sbind (sget (\<lambda>s. (pool_complete s r, boot_slot_of s r, s_stream_slot s))) (\<lambda>(complete, slot, stream).
       if complete
       then sseq (smod (upd_pool i (\<lambda>q. q \<lparr> p_stage := no_stage \<lparr> st_slot := Some slot, st_rx := Some (e_mono e), st_sig := Some BOOT_SIG \<rparr> \<rparr>)))
                 (try_publish e (max stream slot) i)
       else set_status_op i ST_INCOMPLETE))"

definition ready_if_caught_up :: "unit op" where
  "ready_if_caught_up = sbind (sget (\<lambda>s. s_stream_slot s \<ge> s_bootstrap_slot s \<and> s_bootstrap_slot s > 0)) (\<lambda>c. swhen c mark_ready)"

definition finish_bootstrap :: "env \<Rightarrow> string option \<Rightarrow> string option \<Rightarrow> (string, rpc_acc) dict \<Rightarrow> unit op" where
  "finish_bootstrap e generation token accounts =
    sbind (sget (\<lambda>s. (stale s generation \<or> s_bootstrap_token s = None \<or> token \<noteq> s_bootstrap_token s \<or> s_bootstrap_done s, s_buf s)))
     (\<lambda>(refuse, buffered).
       if refuse then sret ()
       else sseq (smod (load_boot accounts))
           (sseq (sfor buffered (replay_one e))
           (sseq (smod (\<lambda>s. s \<lparr> s_bootstrap_done := True, s_bootstrapping := False \<rparr>))
           (sseq (sbind (sget s_pools) (\<lambda>pools. sfor pools (\<lambda>(i, _). boot_pool e i)))
           (sseq (smod recount) ready_if_caught_up)))))"

section \<open>The event handler\<close>

datatype s_event =
    EBank bank_event
  | EBootPlan "string option" "string option" generation
  | EBootResult "string option" "string option" "(string, rpc_acc) dict"
  | EFetchError "string option" "string option"
  | EUniv "string option" generation "(string, rpc_acc) dict" int
  | EDeps "string option" "(string, rpc_acc) dict"
  | ETx tx_ev
  | EAccount acct_ev

definition bank_generation :: "bank_event \<Rightarrow> string option" where
  "bank_generation b = (case b of BankGeneration g \<Rightarrow> g | BankDisconnect g \<Rightarrow> g | BankEvidence g _ _ _ _ \<Rightarrow> g)"

definition ev_generation :: "s_event \<Rightarrow> string option" where
  "ev_generation ev = (case ev of
       EBank b \<Rightarrow> bank_generation b | EBootPlan g _ _ \<Rightarrow> g | EBootResult g _ _ \<Rightarrow> g | EFetchError g _ \<Rightarrow> g
     | EUniv g _ _ _ \<Rightarrow> g | EDeps g _ \<Rightarrow> g | ETx t \<Rightarrow> tv_generation t | EAccount a \<Rightarrow> av_generation a)"

definition BUF_CAP :: nat where "BUF_CAP = 20000"

definition processed_slot :: "bank_event \<Rightarrow> int option" where
  "processed_slot b = (case b of BankEvidence _ slot _ _ (BankSlot _ status) \<Rightarrow> (if status = 0 then Some slot else None) | _ \<Rightarrow> None)"

definition advance_slot :: "env \<Rightarrow> string option \<Rightarrow> int \<Rightarrow> unit op" where
  "advance_slot e generation slot =
    sbind (sget s_stream_slot) (\<lambda>prev.
    sseq (smod (\<lambda>s. s \<lparr> s_stream_slot := max prev slot \<rparr>))
         (swhen (prev \<noteq> 0 \<and> slot > prev + 32)
           (sseq (reset_connection e generation) (smod (\<lambda>s. s \<lparr> s_stream_slot := slot \<rparr>)))))"

definition start_bootstrap :: "env \<Rightarrow> string option \<Rightarrow> s008 \<Rightarrow> s008" where
  "start_bootstrap e generation s =
    (if s_bootstrapping s \<and> s_bootstrap_token s = None
     then s \<lparr> s_bootstrap_token := Some (e_token e), s_fetches := s_fetches s @ [FetchBootstrap (or_empty generation) (e_token e)] \<rparr>
     else s)"

definition expire_writes :: "env \<Rightarrow> unit op" where
  "expire_writes e = sbind (sget (\<lambda>s. expire_at_boundary (s_barrier s) (s_stream_slot s))) (\<lambda>due. sfor due (\<lambda>(sig, i).
     sbind (sget (\<lambda>s. map_option p_status (dget (s_pools s) i))) (\<lambda>st.
       swhen (st = Some ST_STAGING) (fail_tx_incomplete e i sig))))"

definition on_slot :: "env \<Rightarrow> string option \<Rightarrow> int \<Rightarrow> unit op" where
  "on_slot e generation slot =
    sseq (advance_slot e generation slot)
   (sseq (smod (start_bootstrap e generation))
   (sseq (sbind (sget (\<lambda>s. s_bootstrap_done s \<and> \<not> s_ready s)) (\<lambda>c. swhen c ready_if_caught_up))
         (sbind (sget s_ready) (\<lambda>ready. swhen ready
           (sseq (expire_writes e) (sbind (sget s_stream_slot) (maybe_publish e)))))))"

definition add_missing :: "s008 \<Rightarrow> (string, rpc_acc) dict \<Rightarrow> s008" where
  "add_missing s accounts = foldl add_fetched s accounts"

definition buffer :: "env \<Rightarrow> string option \<Rightarrow> buffered \<Rightarrow> string op" where
  "buffer e generation b =
    sseq (smod (\<lambda>s. s \<lparr> s_buf := s_buf s @ [b] \<rparr>))
   (sbind (sget (\<lambda>s. length (s_buf s) > BUF_CAP)) (\<lambda>full.
      if full then sseq (smod (bump ''bootstrap_buffer_overflow'' 1))
                  (sseq (reset_connection e generation) (sret ''bootstrap_buffer_overflow''))
      else sret ''buffered''))"

definition handle_live :: "env \<Rightarrow> s_event \<Rightarrow> s008 \<Rightarrow> string op" where
  "handle_live e ev s0 = (case ev of
      EBank b \<Rightarrow>
        sseq (smod (\<lambda>s. s \<lparr> s_bank_journal := fst (journal_apply (e_sha e) (s_bank_journal s) b) \<rparr>))
          (case processed_slot b of
             None \<Rightarrow> sret (snd (journal_apply (e_sha e) (s_bank_journal s0) b))
           | Some slot \<Rightarrow> sseq (on_slot e (bank_generation b) slot) (sret ''processed_slot''))
    | EBootPlan g token plan \<Rightarrow>
        (if s_bootstrap_token s0 = None \<or> token \<noteq> s_bootstrap_token s0 \<or> s_bootstrap_done s0
         then sseq (smod (bump ''stale_bootstrap_results'' 1)) (sret ''stale_bootstrap'')
         else sseq (smod (\<lambda>s. let t = subscribe_all (install_generation plan [] s)
                             in fetch_async ''bootstrap_result'' (map fst (s_acc_deps t)) (s_bootstrap_token t) t))
                   (sret ''bootstrap_plan''))
    | EBootResult g token accounts \<Rightarrow>
        (if s_bootstrap_token s0 = None \<or> token \<noteq> s_bootstrap_token s0 \<or> s_bootstrap_done s0
         then sseq (smod (bump ''stale_bootstrap_results'' 1)) (sret ''stale_bootstrap'')
         else sseq (finish_bootstrap e g token accounts) (sret ''bootstrap_result''))
    | EFetchError g token \<Rightarrow>
        sseq (smod (\<lambda>s. bump ''fetch_errors'' 1
                (if token \<noteq> None \<and> token = s_bootstrap_token s \<and> \<not> s_bootstrap_done s then s \<lparr> s_bootstrap_token := None \<rparr> else s)))
             (sret ''fetch_error'')
    | EUniv g plan accounts mtime \<Rightarrow>
        (if s_bootstrapping s0 then sret ''bootstrap_in_progress''
         else sseq (smod (\<lambda>s. recount (subscribe_all (install_generation plan accounts (s \<lparr> s_univ_mtime := mtime \<rparr>)))))
             (sseq (sbind (sget s_stream_slot) (maybe_publish e)) (sret ''univ_result'')))
    | EDeps g accounts \<Rightarrow>
        (if s_bootstrapping s0 then sret ''bootstrap_in_progress''
         else sseq (smod (\<lambda>s. recount (add_missing s accounts)))
             (sseq (sbind (sget s_stream_slot) (maybe_publish e)) (sret ''dependency_result'')))
    | ETx t \<Rightarrow> (if s_bootstrapping s0 then buffer e (tv_generation t) (BufTx t) else sseq (apply_tx e t) (sret ''tx''))
    | EAccount a \<Rightarrow>
        (if s_bootstrapping s0 then buffer e (av_generation a) (BufAccount a)
         else sseq (apply_update a False) (sseq (sbind (sget s_stream_slot) (maybe_publish e)) (sret ''account''))))"

definition handle_event :: "env \<Rightarrow> s_event \<Rightarrow> string op" where
  "handle_event e ev = sbind (sget (\<lambda>s. s)) (\<lambda>s0.
     if ev_generation ev = None \<or> ev_generation ev \<noteq> s_provider_generation s0
     then sseq (smod (bump ''stale_generation_events'' 1)) (sret ''stale_generation'')
     else handle_live e ev s0)"

text \<open>The other threads that take the lock: connection, metrics, paper audit, idle decoding.\<close>

datatype s_step =
    Handle env s_event
  | Connect env string
  | Disconnect env string
  | Idle env
  | Metrics int int
  | Paper int paper

definition s_do :: "s_step \<Rightarrow> unit op" where
  "s_do x = (case x of
      Handle e ev \<Rightarrow> sbind (handle_event e ev) (\<lambda>_. sret ())
    | Connect e g \<Rightarrow> reset_connection e (Some g)
    | Disconnect e g \<Rightarrow> sbind (sget s_provider_generation) (\<lambda>cur. swhen (cur = Some g) (reset_connection e None))
    | Idle e \<Rightarrow> sbind (sget (\<lambda>s. (s_ready s, s_stream_slot s))) (\<lambda>(ready, slot). swhen ready (maybe_publish e slot))
    | Metrics now max_age \<Rightarrow> smod (\<lambda>s. let t = recount s in t \<lparr> s_shadow := expire_stale now max_age (s_shadow t) \<rparr>)
    | Paper now rec \<Rightarrow> smod (\<lambda>s. if s_ready s then s \<lparr> s_shadow := ingest_paper now (s_shadow s) rec \<rparr> else s))"

end
