(* ===== verification/State_Invariant.thy ===== *)
theory State_Invariant
  imports State_Events Auth_Reader
begin

text \<open>
  The invariant of the state owner and its preservation by every step of every thread: the
  proofs behind the properties of \<^verbatim>\<open>state008.py\<close>. Operations may break the completeness of some
  pools for a while; \<open>okX K X\<close> is the invariant with the pools of \<open>X\<close> exempt, over the pool keys \<open>K\<close>.
\<close>

section \<open>The invariant\<close>

definition indexed :: "s008 \<Rightarrow> int \<Rightarrow> pool_rec \<Rightarrow> bool" where
  "indexed s i r \<longleftrightarrow> (\<forall>pk\<in>set (p_required r). \<exists>row\<in>set (dflt (s_acc_deps s) pk []). dr_pool_idx row = i)"

text \<open>
  What a reader of the shared ring finds for a pool, and that it is what the owner last
  published for it. Publication is silently skipped for an index beyond the map and for a blob
  that does not fit an entry.
\<close>

definition seen_by_readers :: "auth_pub \<Rightarrow> int \<Rightarrow> (int \<times> bytes) option" where
  "seen_by_readers a i = (case pub_mm a of None \<Rightarrow> None | Some mm \<Rightarrow> map_option (\<lambda>e. (ro_slot e, ro_blob e)) (latest mm i))"

definition in_ring :: "auth_pub \<Rightarrow> int \<Rightarrow> bool" where
  "in_ring a i \<longleftrightarrow> pub_mm a \<noteq> None \<and> 0 \<le> i \<and> i < int (pub_cap a) \<and> i < int POOL_CAP"

definition mirrored :: "auth_pub \<Rightarrow> int \<Rightarrow> pool_rec \<Rightarrow> bool" where
  "mirrored a i r \<longleftrightarrow> (\<exists>pub blob. p_last_s r = Some pub \<and> p_last_blob r = Some blob
     \<and> (in_ring a i \<and> length blob \<le> BLOB \<longrightarrow> seen_by_readers a i = Some (pub_slot pub, blob)))"

definition seqs_even :: "auth_pub \<Rightarrow> bool" where
  "seqs_even a \<longleftrightarrow> (case pub_mm a of None \<Rightarrow> True | Some mm \<Rightarrow> list_all (\<lambda>p. even (ap_seq p)) (am_pools mm))"

definition pool_inv :: "int set \<Rightarrow> s008 \<Rightarrow> int \<Rightarrow> pool_rec \<Rightarrow> bool" where
  "pool_inv X s i r \<longleftrightarrow> p_idx r = i \<and> indexed s i r \<and> (p_status r = ST_COHERENT \<and> i \<notin> X \<longrightarrow> pool_complete s r)
     \<and> (p_status r = ST_COHERENT \<longrightarrow> mirrored (s_auth s) i r)"

definition parts_ok :: "s008 \<Rightarrow> bool" where
  "parts_ok s \<longleftrightarrow> auth_ok (s_auth s) \<and> seqs_even (s_auth s) \<and> barrier_ok (s_barrier s) \<and> gate_ok (s_shadow s) \<and> journal_ok (s_bank_journal s)
     \<and> (s_ready s \<longrightarrow> s_bootstrap_done s \<and> s_provider_generation s \<noteq> None \<and> \<not> s_bootstrapping s)"

definition okX :: "int list \<Rightarrow> int set \<Rightarrow> s008 \<Rightarrow> bool" where
  "okX K X s \<longleftrightarrow> map fst (s_pools s) = K \<and> distinct K \<and> dict_all (pool_inv X s) (s_pools s) \<and> parts_ok s"

definition s_ok :: "s008 \<Rightarrow> bool" where
  "s_ok s \<longleftrightarrow> okX (map fst (s_pools s)) {} s"

lemma pool_inv_cong:
  "s_acc_deps s' = s_acc_deps s \<Longrightarrow> s_bytes s' = s_bytes s \<Longrightarrow> mirrored (s_auth s') = mirrored (s_auth s)
    \<Longrightarrow> pool_inv X s' = pool_inv X s"
  by (simp add: pool_inv_def indexed_def pool_complete_def has_data_def [abs_def] fun_eq_iff)

lemma okX_cong:
  assumes "s_pools s' = s_pools s" "s_acc_deps s' = s_acc_deps s" "s_bytes s' = s_bytes s" "parts_ok s \<Longrightarrow> parts_ok s'"
    "mirrored (s_auth s') = mirrored (s_auth s)"
  shows "okX K X s \<Longrightarrow> okX K X s'"
  using assms pool_inv_cong [OF assms(2,3,5), of X] by (simp add: okX_def)

lemma parts_same:
  assumes "s_auth s' = s_auth s" "s_barrier s' = s_barrier s" "s_shadow s' = s_shadow s" "s_bank_journal s' = s_bank_journal s"
    "s_ready s' = s_ready s" "s_bootstrap_done s' = s_bootstrap_done s" "s_provider_generation s' = s_provider_generation s"
    "s_bootstrapping s' = s_bootstrapping s"
  shows "parts_ok s \<Longrightarrow> parts_ok s'"
  using assms by (simp add: parts_ok_def)

lemma bump_sel [simp]:
  "s_pools (bump k n s) = s_pools s" "s_acc_deps (bump k n s) = s_acc_deps s" "s_bytes (bump k n s) = s_bytes s"
  "parts_ok (bump k n s) = parts_ok s" "s_stream_slot (bump k n s) = s_stream_slot s" "s_proto_of (bump k n s) = s_proto_of s"
  "s_auth (bump k n s) = s_auth s"
  by (simp_all add: bump_def parts_ok_def)

lemma set_m_sel [simp]:
  "s_pools (set_m k n s) = s_pools s" "s_acc_deps (set_m k n s) = s_acc_deps s" "s_bytes (set_m k n s) = s_bytes s"
  "parts_ok (set_m k n s) = parts_ok s" "s_provider_generation (set_m k n s) = s_provider_generation s"
  "s_auth (set_m k n s) = s_auth s"
  by (simp_all add: set_m_def parts_ok_def)

lemma keys_dput_known: "dget d k \<noteq> None \<Longrightarrow> map fst (dput k v d) = map fst d"
  by (induction d) auto

lemma upd_pool_sel [simp]:
  "s_acc_deps (upd_pool i f s) = s_acc_deps s" "s_bytes (upd_pool i f s) = s_bytes s" "parts_ok (upd_pool i f s) = parts_ok s"
  "s_stream_slot (upd_pool i f s) = s_stream_slot s" "s_barrier (upd_pool i f s) = s_barrier s"
  "s_auth (upd_pool i f s) = s_auth s"
  by (simp_all add: upd_pool_def parts_ok_def split: option.split)

lemma upd_pool_keys [simp]: "map fst (s_pools (upd_pool i f s)) = map fst (s_pools s)"
  by (auto simp: upd_pool_def keys_dput_known split: option.split)

lemma upd_pool_dget: "dget (s_pools (upd_pool i f s)) j = (if j = i then map_option f (dget (s_pools s) i) else dget (s_pools s) j)"
  by (simp add: upd_pool_def split: option.split)

lemma okX_dget: "okX K X s \<Longrightarrow> dget (s_pools s) i = Some r \<Longrightarrow> pool_inv X s i r"
  by (auto simp: okX_def dest: dict_all_dget)

lemma okX_upd_pool:
  assumes "okX K X s" and "\<And>r. dget (s_pools s) i = Some r \<Longrightarrow> pool_inv X s i r \<Longrightarrow> pool_inv X s i (f r)"
  shows "okX K X (upd_pool i f s)"
proof (cases "dget (s_pools s) i")
  case None
  then show ?thesis using assms(1) by (simp add: upd_pool_def)
next
  case (Some r)
  have "dict_all (pool_inv X s) (dput i (f r) (s_pools s))"
    using assms Some okX_dget by (intro dict_all_dput) (auto simp: okX_def)
  then have "dict_all (pool_inv X s) (s_pools (upd_pool i f s))" by (simp add: upd_pool_def Some)
  then show ?thesis using assms(1) pool_inv_cong [of "upd_pool i f s" s X]
    by (simp add: okX_def flip: upd_pool_keys [of i f s] del: upd_pool_keys)
qed

text \<open>A change to a pool that keeps its index and its accounts and does not make it coherent.\<close>

definition mild :: "(pool_rec \<Rightarrow> pool_rec) \<Rightarrow> bool" where
  "mild f \<longleftrightarrow> (\<forall>r. p_idx (f r) = p_idx r \<and> p_required (f r) = p_required r \<and> (p_status (f r) = ST_COHERENT \<longrightarrow> p_status r = ST_COHERENT \<and> p_last_s (f r) = p_last_s r \<and> p_last_blob (f r) = p_last_blob r))"

lemma pool_complete_required: "p_required r' = p_required r \<Longrightarrow> pool_complete s r' = pool_complete s r"
  by (simp add: pool_complete_def)

lemma pool_inv_mild: "mild f \<Longrightarrow> pool_inv X s i r \<Longrightarrow> pool_inv X s i (f r)"
  by (auto simp: mild_def pool_inv_def indexed_def mirrored_def pool_complete_required [of "f r" r])

lemma keeps_upd_mild [keeps_intros]: "mild f \<Longrightarrow> keeps (okX K X) (smod (upd_pool i f))"
  by (rule leads_smod, rule okX_upd_pool) (auto intro: pool_inv_mild)

lemma mild_simps [simp]:
  "st \<noteq> ST_COHERENT \<Longrightarrow> mild (set_pool_status st)" "mild clear_pool" "mild (restage rx slot)" "mild unstage" "mild wipe_stage"
  "mild reauth" "mild (stage_row ev role)" "mild (\<lambda>q. q \<lparr> p_stage := sf q, p_staged := w q \<rparr>)"
  "mild (\<lambda>q. q \<lparr> p_stage := sf q, p_staged := w q, p_status := ST_INCOMPLETE \<rparr>)" "mild (\<lambda>r. r \<lparr> p_stage := sf r \<rparr>)"
  "mild (\<lambda>q. q \<lparr> p_active_id := a \<rparr>)"
  by (simp_all add: mild_def set_pool_status_def clear_pool_def restage_def unstage_def wipe_stage_def reauth_def stage_row_def)

section \<open>Small operations\<close>

lemma keeps_cong_smod:
  assumes "\<And>s. s_pools (f s) = s_pools s" "\<And>s. s_acc_deps (f s) = s_acc_deps s" "\<And>s. s_bytes (f s) = s_bytes s"
    "\<And>s. parts_ok s \<Longrightarrow> parts_ok (f s)" "\<And>s. mirrored (s_auth (f s)) = mirrored (s_auth s)"
  shows "keeps (okX K X) (smod f)"
  using assms by (intro leads_smod) (rule okX_cong)

lemma keeps_bump [keeps_intros]: "keeps (okX K X) (smod (bump k n))"
  by (rule keeps_cong_smod) simp_all

lemma keeps_log_append [keeps_intros]: "keeps (okX K X) (log_append w)"
  unfolding log_append_def by (intro keeps_intros keeps_cong_smod) (auto simp: parts_ok_def)

lemma keeps_log_invalidate [keeps_intros]: "keeps (okX K X) (log_invalidate i rx slot)"
  unfolding log_invalidate_def by (intro keeps_intros)

lemma keeps_invalidate [keeps_intros]: "keeps (okX K X) (invalidate i rx slot)"
  unfolding invalidate_def by (intro keeps_intros) simp_all

lemma keeps_set_status [keeps_intros]: "st \<noteq> ST_COHERENT \<Longrightarrow> keeps (okX K X) (set_status_op i st)"
  unfolding set_status_op_def by (intro keeps_intros) simp

lemma keeps_with_pool [keeps_intros]: "(\<And>r. keeps P (f r)) \<Longrightarrow> keeps P (with_pool i f)"
  unfolding with_pool_def by (intro keeps_intros)

lemma leads_with_pool: "(\<And>r. leads (\<lambda>s. P s \<and> dget (s_pools s) i = Some r) Q (f r)) \<Longrightarrow> leads P Q (with_pool i f)"
  unfolding with_pool_def by (auto simp: leads_def split: option.split)

lemma leads_pre: "leads P' Q m \<Longrightarrow> (\<And>s. P s \<Longrightarrow> P' s) \<Longrightarrow> leads P Q m"
  unfolding leads_def by blast

lemma set_ready_view [simp]: "mirrored (set_ready a r n sl) = mirrored a" "seqs_even (set_ready a r n sl) = seqs_even a"
  by (auto simp: fun_eq_iff mirrored_def in_ring_def seen_by_readers_def seqs_even_def set_ready_def latest_def split: option.split)

lemma keeps_mark_uncertain [keeps_intros]: "keeps (okX K X) (mark_uncertain e)"
  unfolding mark_uncertain_def
  by (intro keeps_intros keeps_cong_smod) (auto simp: parts_ok_def set_ready_ok bump_def)

lemma keeps_mark_ready [keeps_intros]: "keeps (okX K X) mark_ready"
  unfolding mark_ready_def
proof (rule leads_sget)
  fix no
  show "leads (\<lambda>s. okX K X s \<and> (s_provider_generation s = None \<or> \<not> s_bootstrap_done s) = no) (okX K X)
      (swhen (\<not> no) (sseq (smod (\<lambda>s. s \<lparr> s_ready := True, s_bootstrapping := False, s_ready_file := True,
                 s_auth := set_ready (s_auth s) True (length (s_pools s)) (s_stream_slot s) \<rparr>))
              (sbind (sget s_stream_slot) (\<lambda>slot. log_append (recon_plane True slot)))))"
  proof (cases no)
    case True
    then show ?thesis by (simp add: swhen_def leads_def)
  next
    case False
    have "leads (\<lambda>s. okX K X s \<and> \<not> (s_provider_generation s = None \<or> \<not> s_bootstrap_done s)) (okX K X)
       (smod (\<lambda>s. s \<lparr> s_ready := True, s_bootstrapping := False, s_ready_file := True,
                 s_auth := set_ready (s_auth s) True (length (s_pools s)) (s_stream_slot s) \<rparr>))"
      by (rule leads_smod, elim conjE, rule okX_cong) (auto simp: parts_ok_def set_ready_ok)
    with False show ?thesis unfolding swhen_def by (auto intro!: leads_sseq keeps_intros)
  qed
qed

section \<open>Exempt pools\<close>

lemma okX_weaken: "okX K X s \<Longrightarrow> X \<subseteq> Y \<Longrightarrow> okX K Y s"
  unfolding okX_def by (auto elim!: dict_all_imp simp: pool_inv_def)

lemma okX_disjoint:
  assumes "okX K X s" and "set K \<inter> X = {}"
  shows "okX K {} s"
proof -
  have "pool_inv {} s i r" if "(i, r) \<in> set (s_pools s)" for i r
  proof -
    have "i \<in> set K" using assms(1) that by (force simp: okX_def)
    moreover have "pool_inv X s i r" using assms(1) that by (auto simp: okX_def dict_all_def list_all_iff)
    ultimately show ?thesis using assms(2) by (auto simp: pool_inv_def)
  qed
  then show ?thesis using assms(1) by (auto simp: okX_def dict_all_def list_all_iff)
qed

lemma okX_release:
  assumes "okX K X s" and "\<And>r. dget (s_pools s) i = Some r \<Longrightarrow> p_status r = ST_COHERENT \<Longrightarrow> pool_complete s r"
  shows "okX K (X - {i}) s"
proof -
  have d: "dict_ok (s_pools s)" using assms(1) by (simp add: okX_def dict_ok_def)
  have "pool_inv (X - {i}) s j r" if "(j, r) \<in> set (s_pools s)" for j r
  proof -
    have "dget (s_pools s) j = Some r" by (rule dict_ok_dget [OF d that])
    then show ?thesis using okX_dget [OF assms(1)] assms(2) by (fastforce simp: pool_inv_def)
  qed
  then show ?thesis using assms(1) by (auto simp: okX_def dict_all_def list_all_iff)
qed

lemma okX_release_upd:
  assumes "okX K X s" and "mild f" and "\<And>r. p_status (f r) \<noteq> ST_COHERENT"
  shows "okX K (X - {i}) (upd_pool i f s)"
proof (rule okX_release)
  show "okX K X (upd_pool i f s)" using assms(1,2) by (auto intro: okX_upd_pool pool_inv_mild)
qed (use assms(3) in \<open>auto simp: upd_pool_dget\<close>)

lemma dict_all_all:
  assumes "\<And>i r. (i, r) \<in> set d \<Longrightarrow> P i r"
  shows "dict_all P d"
  using assms by (auto simp: dict_all_def list_all_iff)

lemma recount_sel [simp]:
  "s_acc_deps (recount s) = s_acc_deps s" "s_bytes (recount s) = s_bytes s" "parts_ok (recount s) = parts_ok s"
  "s_shadow (recount s) = s_shadow s" "s_auth (recount s) = s_auth s"
  by (simp_all add: recount_def Let_def set_m_def parts_ok_def)

lemma complete_same: "s_bytes s' = s_bytes s \<Longrightarrow> pool_complete s' = pool_complete s"
  by (simp add: pool_complete_def has_data_def [abs_def] fun_eq_iff)

lemma recount_pools: "s_pools (recount s) = map (\<lambda>(i, r). (i, recount_pool s r)) (s_pools s)"
  by (simp add: recount_def Let_def recount_pool_def
      complete_same [of "set_m ''dependencies_subscribed'' n (set_m ''dependencies_received'' m s)" s for n m])

lemma recount_ok:
  assumes "okX K X s"
  shows "okX K {} (recount s)"
proof -
  have "pool_inv {} (recount s) i (recount_pool s r)" if "pool_inv X s i r" for i r
    using that complete_same [of "recount s" s] pool_complete_required [of "recount_pool s r" r s]
    by (auto simp: pool_inv_def recount_pool_def indexed_def)
  then have "dict_all (pool_inv {} (recount s)) (s_pools (recount s))"
    using assms by (auto simp: recount_pools okX_def dict_all_def list_all_iff)
  moreover have "map fst (s_pools (recount s)) = map fst (s_pools s)" by (simp add: recount_pools case_prod_unfold)
  ultimately show ?thesis using assms by (simp add: okX_def)
qed

section \<open>Connection reset\<close>

lemma keeps_conj: "keeps P m \<Longrightarrow> keeps Q m \<Longrightarrow> keeps (\<lambda>s. P s \<and> Q s) m"
  by (auto simp: leads_def)

definition down :: "s008 \<Rightarrow> bool" where
  "down s \<longleftrightarrow> \<not> s_ready s"

lemma down_upd_pool [simp]: "down (upd_pool i f s) = down s"
  by (simp add: down_def upd_pool_def split: option.split)

lemma keeps_down_log [keeps_intros]: "keeps down (log_append w)" "keeps down (log_invalidate i rx slot)"
proof -
  show a: "keeps down (log_append w)" for w
    unfolding log_append_def by (intro keeps_intros leads_smod) (simp add: down_def)
  show "keeps down (log_invalidate i rx slot)"
    unfolding log_invalidate_def by (intro keeps_intros a)
qed

lemma mark_uncertain_down: "leads P down (mark_uncertain e)"
  unfolding mark_uncertain_def
  by (rule leads_sseq [where Q = down], rule leads_smod, simp add: down_def bump_def,
      (intro keeps_intros leads_smod)+) (simp_all, simp add: down_def)

text \<open>After the pools have been marked none of those the loop went over is coherent.\<close>

definition coherent_in :: "int set \<Rightarrow> s008 \<Rightarrow> bool" where
  "coherent_in Y s \<longleftrightarrow> (\<forall>i r. dget (s_pools s) i = Some r \<longrightarrow> p_status r = ST_COHERENT \<longrightarrow> i \<in> Y)"

lemma keeps_coherent_log: "keeps (coherent_in Y) (log_append w)" "keeps (coherent_in Y) (log_invalidate i rx slot)"
proof -
  show a: "keeps (coherent_in Y) (log_append w)" for w
    unfolding log_append_def by (intro keeps_intros leads_smod) (simp add: coherent_in_def)
  show "keeps (coherent_in Y) (log_invalidate i rx slot)"
    unfolding log_invalidate_def by (intro keeps_intros a)
qed

lemma mark_uncertain_gaps: "leads P (coherent_in {}) (mark_uncertain e)"
proof -
  have one: "leads (coherent_in Y) (coherent_in (Y - {fst x})) (case x of (i, _) \<Rightarrow>
      sbind (sget (\<lambda>s. map_option p_status (dget (s_pools s) i))) (\<lambda>st. swhen (st = Some ST_COHERENT)
        (sseq (smod (upd_pool i (set_pool_status ST_GAPPED))) (sbind (sget s_stream_slot) (\<lambda>slot. log_invalidate i (e_mono e) slot)))))"
    for Y and x :: "int \<times> pool_rec"
  proof (cases x)
    case (Pair i r)
    have a: "leads (coherent_in Y) (coherent_in (Y - {i})) (sseq (smod (upd_pool i (set_pool_status ST_GAPPED)))
        (sbind (sget s_stream_slot) (\<lambda>slot. log_invalidate i (e_mono e) slot)))"
      by (rule leads_sseq, rule leads_smod [where Q = "coherent_in (Y - {i})"])
         (auto simp: coherent_in_def upd_pool_dget set_pool_status_def split: if_split_asm intro: keeps_coherent_log keeps_sbind keeps_sget)
    show ?thesis unfolding Pair prod.case fst_conv
    proof (rule leads_sget)
      fix st
      show "leads (\<lambda>s. coherent_in Y s \<and> map_option p_status (dget (s_pools s) i) = st) (coherent_in (Y - {i}))
        (swhen (st = Some ST_COHERENT) (sseq (smod (upd_pool i (set_pool_status ST_GAPPED)))
           (sbind (sget s_stream_slot) (\<lambda>slot. log_invalidate i (e_mono e) slot))))"
        using a by (auto simp: swhen_def leads_def coherent_in_def)
    qed
  qed
  have loop: "leads (coherent_in UNIV) (coherent_in {}) (sbind (sget s_pools) (\<lambda>pools. sfor pools (\<lambda>(i, _).
      sbind (sget (\<lambda>s. map_option p_status (dget (s_pools s) i))) (\<lambda>st. swhen (st = Some ST_COHERENT)
        (sseq (smod (upd_pool i (set_pool_status ST_GAPPED))) (sbind (sget s_stream_slot) (\<lambda>slot. log_invalidate i (e_mono e) slot)))))))"
    (is "leads _ _ (sbind _ (\<lambda>pools. sfor pools ?f))")
  proof (rule leads_sget)
    fix pools
    have "leads (coherent_in (fst ` set pools)) (coherent_in (fst ` set pools - fst ` set pools)) (sfor pools ?f)"
      by (rule leads_sfor) (rule one)
    then show "leads (\<lambda>s. coherent_in UNIV s \<and> s_pools s = pools) (coherent_in {}) (sfor pools ?f)"
      unfolding Diff_cancel by (rule leads_pre) (force simp: coherent_in_def dest!: map_of_SomeD)
  qed
  have any: "leads P (coherent_in UNIV) m" for P and m :: "unit op" by (simp add: leads_def coherent_in_def)
  show ?thesis unfolding mark_uncertain_def
    by (rule leads_sseq [OF any], rule leads_sseq [OF any], rule leads_sseq [OF loop], rule leads_smod) (simp add: coherent_in_def)
qed

lemma okX_stopped: "okX K X s \<Longrightarrow> coherent_in {} s \<Longrightarrow> (i, r) \<in> set (s_pools s) \<Longrightarrow> p_status r \<noteq> ST_COHERENT"
  using dict_ok_dget [of "s_pools s" i r] by (auto simp: okX_def dict_ok_def coherent_in_def)

lemma gate_clear_ok: "gate_ok g \<Longrightarrow> gate_ok (g \<lparr> g_pending := [], g_by_idx := [] \<rparr>)"
  by (auto simp: gate_ok_def pending_ok_def log_ok_def tx_ok_def by_idx_of_def)

lemma new_barrier_ok: "barrier_ok new_barrier"
  by (rule barrier.inv_start)

lemma reset_history_even: "seqs_even a \<Longrightarrow> seqs_even (reset_history a)"
  by (auto simp: seqs_even_def reset_history_def set_ready_def reset_pool_eq list_all_iff split: option.split)

lemma fresh_journal_ok: "journal_ok (new_journal n)" "journal_ok (fst (journal_apply sha (new_journal n) ev))"
  by (rule journal.inv_start) (rule journal.inv_step, rule journal.inv_start)

lemma leads_all_pools:
  assumes "\<And>Y x. leads (okX K Y) (okX K (Y - {fst x})) (f x)"
  shows "leads (okX K X) (okX K {}) (sbind (sget s_pools) (\<lambda>pools. sfor pools f))"
proof (rule leadsI)
  fix s x s' assume ok: "okX K X s" and run: "sbind (sget s_pools) (\<lambda>pools. sfor pools f) s = (Inr x, s')"
  have "leads (okX K X) (okX K (X - fst ` set (s_pools s))) (sfor (s_pools s) f)" by (rule leads_sfor) (rule assms)
  moreover have "sfor (s_pools s) f s = (Inr x, s')" using run by simp
  ultimately have "okX K (X - fst ` set (s_pools s)) s'" using ok unfolding leads_def by blast
  moreover have "set K = fst ` set (s_pools s)" using ok by (auto simp: okX_def simp flip: set_map)
  ultimately show "okX K {} s'" by (intro okX_disjoint) auto
qed

lemma reset_connection_ok: "leads (okX K X) (okX K {}) (reset_connection e g)"
  unfolding reset_connection_def
proof (rule leads_sseq)
  show "leads (okX K X) (\<lambda>s. okX K X s \<and> down s \<and> coherent_in {} s) (mark_uncertain e)"
    using keeps_mark_uncertain [of K X e] mark_uncertain_down [of "okX K X" e] mark_uncertain_gaps [of "okX K X" e]
    unfolding leads_def by blast
  let ?f = "\<lambda>s. s \<lparr> s_auth := reset_history (s_auth s),
            s_req_q := (if g \<noteq> s_provider_generation s then [] else s_req_q s),
            s_bank_journal := (case g of None \<Rightarrow> new_journal JOURNAL_CAP
               | Some g \<Rightarrow> fst (journal_apply (e_sha e) (new_journal JOURNAL_CAP) (BankGeneration (Some g)))),
            s_provider_generation := g, s_bootstrap_token := None, s_bootstrap_done := False,
            s_bootstrapping := True, s_stream_slot := 0, s_bootstrap_slot := 0, s_bytes := [], s_rpc_floors := [],
            s_last_wv := [], s_seen := [], s_buf := [], s_barrier := new_barrier,
            s_shadow := (s_shadow s) \<lparr> g_pending := [], g_by_idx := [] \<rparr> \<rparr>"
  have f: "leads (\<lambda>s. okX K X s \<and> down s \<and> coherent_in {} s) (okX K UNIV) (smod ?f)"
  proof (rule leads_smod, elim conjE)
    fix s assume ok: "okX K X s" and d: "down s" and c: "coherent_in {} s"
    have "parts_ok (?f s)" using ok d
      by (auto simp: okX_def down_def parts_ok_def reset_history_ok reset_history_even new_barrier_ok gate_clear_ok fresh_journal_ok
          split: option.split)
    moreover have "dict_all (pool_inv UNIV (?f s)) (s_pools s)"
      using ok okX_stopped [OF ok c] by (auto simp: okX_def dict_all_def list_all_iff pool_inv_def indexed_def)
    ultimately show "okX K UNIV (?f s)" using ok by (simp add: okX_def)
  qed
  have l: "leads (okX K UNIV) (okX K {}) (sbind (sget s_pools) (\<lambda>pools. sfor pools (\<lambda>(i, _).
            sseq (smod (upd_pool i clear_pool)) (log_invalidate i (e_mono e) 0))))"
  proof (rule leads_all_pools)
    fix Y :: "int set" and x :: "int \<times> pool_rec"
    obtain i r where x: "x = (i, r)" by (cases x)
    have "leads (okX K Y) (okX K (Y - {i})) (smod (upd_pool i clear_pool))"
      by (rule leads_smod, rule okX_release_upd) (simp_all add: clear_pool_def)
    then show "leads (okX K Y) (okX K (Y - {fst x})) (case x of (i, _) \<Rightarrow> sseq (smod (upd_pool i clear_pool)) (log_invalidate i (e_mono e) 0))"
      unfolding x prod.case fst_conv by (rule leads_sseq) (rule keeps_log_invalidate)
  qed
  show "leads (\<lambda>s. okX K X s \<and> down s \<and> coherent_in {} s) (okX K {}) (sseq (smod ?f) (sbind (sget s_pools) (\<lambda>pools. sfor pools (\<lambda>(i, _).
            sseq (smod (upd_pool i clear_pool)) (log_invalidate i (e_mono e) 0)))))"
    by (rule leads_sseq [OF f l])
qed

section \<open>New pools and accounts\<close>

lemma indexed_mono:
  assumes "indexed s i r" and "\<And>pk. set (dflt (s_acc_deps s) pk []) \<subseteq> set (dflt (s_acc_deps s') pk [])"
  shows "indexed s' i r"
  using assms unfolding indexed_def by blast

lemma add_dep_dflt:
  "dflt (add_dep row d (pk, role)) k [] = (if k = pk \<and> \<not> has_dep (dflt d pk []) (gp_idx row) role
     then dflt d pk [] @ [\<lparr> dr_pool_idx = gp_idx row, dr_role = role, dr_kind = gp_kind row, ad_required = ((pk, role) \<in> set (gp_required row)) \<rparr>]
     else dflt d k [])"
  by (simp add: add_dep_def Let_def dflt_def)

lemma add_deps_mono: "set (dflt d k []) \<subseteq> set (dflt (foldl (add_dep row) d es) k [])"
proof (induction es arbitrary: d)
  case (Cons x es)
  have "set (dflt d k []) \<subseteq> set (dflt (add_dep row d x) k [])"
    by (cases x) (auto simp: add_dep_dflt)
  with Cons [of "add_dep row d x"] show ?case by auto
qed simp

lemma add_deps_new:
  "(k, role) \<in> set es \<Longrightarrow> \<exists>x\<in>set (dflt (foldl (add_dep row) d es) k []). dr_pool_idx x = gp_idx row"
proof (induction es arbitrary: d)
  case (Cons x es)
  show ?case
  proof (cases "x = (k, role)")
    case True
    have "\<exists>y\<in>set (dflt (add_dep row d x) k []). dr_pool_idx y = gp_idx row"
      by (auto simp: True add_dep_dflt has_dep_def list_ex_iff)
    then show ?thesis using add_deps_mono [of "add_dep row d x" k row es] by auto
  qed (use Cons in auto)
qed simp

definition owner_shape :: "s008 \<Rightarrow> bool" where
  "owner_shape s \<longleftrightarrow> okX (map fst (s_pools s)) UNIV s"

lemma owner_shape_iff:
  "owner_shape s \<longleftrightarrow> dict_ok (s_pools s) \<and> dict_all (\<lambda>i r. p_idx r = i \<and> indexed s i r \<and> (p_status r = ST_COHERENT \<longrightarrow> mirrored (s_auth s) i r)) (s_pools s) \<and> parts_ok s"
  by (simp add: owner_shape_def okX_def dict_ok_def pool_inv_def [abs_def])

lemma install_pool_shape:
  assumes "owner_shape s"
  shows "owner_shape (install_pool s row)"
proof -
  let ?t = "install_pool s row"
  let ?new = "case dget (s_pools s) (gp_idx row) of None \<Rightarrow> new_pool_rec row | Some r \<Rightarrow> merge_pool row r"
  have pools: "s_pools ?t = dput (gp_idx row) ?new (s_pools s)"
    by (simp add: install_pool_def Let_def split: option.split)
  have deps: "s_acc_deps ?t = foldl (add_dep row) (s_acc_deps s) (gp_required row @ gp_optional row)"
    by (simp add: install_pool_def Let_def split: option.split)
  have parts: "parts_ok ?t = parts_ok s" by (simp add: install_pool_def Let_def parts_ok_def split: option.split)
  have auth: "s_auth ?t = s_auth s" by (simp add: install_pool_def Let_def split: option.split)
  have mono: "indexed ?t i r" if "indexed s i r" for i r
    using that by (rule indexed_mono) (simp only: deps add_deps_mono)
  have fresh: "\<exists>x\<in>set (dflt (s_acc_deps ?t) pk []). dr_pool_idx x = gp_idx row" if pk: "pk \<in> set (map fst (gp_required row))" for pk
  proof -
    obtain role where "(pk, role) \<in> set (gp_required row @ gp_optional row)"
      using pk by (metis Un_iff imageE list.set_map prod.collapse set_append)
    then show ?thesis unfolding deps by (rule add_deps_new)
  qed
  have new: "p_idx ?new = gp_idx row \<and> indexed ?t (gp_idx row) ?new
      \<and> (p_status ?new = ST_COHERENT \<longrightarrow> mirrored (s_auth ?t) (gp_idx row) ?new)"
  proof (cases "dget (s_pools s) (gp_idx row)")
    case None
    then show ?thesis using fresh by (auto simp: indexed_def new_pool_rec_def mirrored_def)
  next
    case (Some r)
    then have r: "p_idx r = gp_idx row" "indexed s (gp_idx row) r" "p_status r = ST_COHERENT \<longrightarrow> mirrored (s_auth s) (gp_idx row) r"
      using assms by (auto simp: owner_shape_iff dest: dict_all_dget)
    show ?thesis using Some r(1,3) mono [OF r(2)] fresh by (auto simp: indexed_def merge_pool_def mirrored_def auth)
  qed
  have "dict_all (\<lambda>i r. p_idx r = i \<and> indexed ?t i r \<and> (p_status r = ST_COHERENT \<longrightarrow> mirrored (s_auth ?t) i r)) (s_pools s)"
    using assms mono by (auto simp: owner_shape_iff auth elim!: dict_all_imp)
  then show ?thesis using assms new by (simp add: owner_shape_iff pools parts dict_all_dput)
qed

lemma add_fetched_shape: "owner_shape s \<Longrightarrow> owner_shape (add_fetched s x)"
  by (auto simp: owner_shape_iff add_fetched_def Let_def indexed_def parts_ok_def case_prod_unfold)

lemma foldl_keeps: "P s \<Longrightarrow> (\<And>s x. P s \<Longrightarrow> P (f s x)) \<Longrightarrow> P (foldl f s xs)"
  by (induction xs arbitrary: s) auto

lemma recount_s_ok: "owner_shape s \<Longrightarrow> s_ok (recount s)"
  using recount_ok [of "map fst (s_pools s)" UNIV s] by (simp add: s_ok_def owner_shape_def recount_pools case_prod_unfold comp_def)

lemma s_ok_shape: "s_ok s \<Longrightarrow> owner_shape s"
  by (auto simp: s_ok_def owner_shape_def intro: okX_weaken)

lemma install_generation_ok: "owner_shape s \<Longrightarrow> s_ok (install_generation gen extra s)"
proof -
  assume ok: "owner_shape s"
  then have "owner_shape (set_m ''dependencies_expected'' n (s \<lparr> s_univ_n := u \<rparr>))" for n u
    by (simp add: owner_shape_iff indexed_def set_m_def parts_ok_def)
  then show ?thesis unfolding install_generation_def Let_def
    by (intro recount_s_ok foldl_keeps [of owner_shape] add_fetched_shape install_pool_shape)
qed

section \<open>Publication\<close>

lemma add_required_ok: "okX K X s \<Longrightarrow> okX K X (snd (add_required i pk role s))"
proof (cases "dget (s_pools s) i")
  case (Some r)
  assume ok: "okX K X s"
  let ?d = "dappend (s_acc_deps s) (pk, \<lparr> dr_pool_idx = i, dr_role = role, dr_kind = p_kind r, ad_required = True \<rparr>)"
  let ?r = "r \<lparr> p_required := p_required r @ [pk], p_status := ST_INCOMPLETE \<rparr>"
  let ?t = "s \<lparr> s_pools := dput i ?r (s_pools s), s_acc_deps := ?d \<rparr>"
  have d: "set (dflt (s_acc_deps s) k []) \<subseteq> set (dflt ?d k [])" for k by (auto simp: dappend_def dflt_def)
  have "pool_inv X ?t j q" if "pool_inv X s j q" for j q
    using that indexed_mono [of s j q ?t] d complete_same [of ?t s] by (auto simp: pool_inv_def)
  moreover have "pool_inv X ?t i ?r"
    using okX_dget [OF ok Some] indexed_mono [of s i r ?t] d
    by (auto simp: pool_inv_def indexed_def) (auto simp: dappend_def dflt_def)
  ultimately have "dict_all (pool_inv X ?t) (s_pools ?t)"
    using ok by (auto simp: okX_def intro!: dict_all_dput elim!: dict_all_imp)
  then have "okX K X ?t" using ok keys_dput_known [of "s_pools s" i ?r] Some
    by (simp add: okX_def parts_ok_def)
  then show ?thesis using ok by (simp add: add_required_def Some)
qed (simp add: add_required_def)

lemma add_bins_snd:
  "snd (foldl (\<lambda>(added, t) pk. let (b, t') = add_required i pk ROLE_DLMM_BIN t in (added \<or> b, t')) p ks)
     = foldl (\<lambda>t pk. snd (add_required i pk ROLE_DLMM_BIN t)) (snd p) ks"
  by (induction ks arbitrary: p) (simp_all add: case_prod_unfold Let_def)

lemma add_bins_Cons: "snd (add_bins i (pk # ks) s) = snd (add_bins i ks (snd (add_required i pk ROLE_DLMM_BIN s)))"
  unfolding add_bins_def add_bins_snd by simp

lemma add_bins_ok: "okX K X s \<Longrightarrow> okX K X (snd (add_bins i need s))"
proof (induction need arbitrary: s)
  case Nil
  then show ?case by (simp add: add_bins_def)
next
  case (Cons k ks)
  then show ?case by (simp only: add_bins_Cons add_required_ok)
qed

lemma add_bins_noop:
  assumes "dget (s_pools s) i = Some r" and "set need \<subseteq> set (p_required r)"
  shows "add_bins i need s = (False, s)"
  using assms unfolding add_bins_def by (induction need) (auto simp: add_required_def)

lemma subscribe_sel [simp]:
  "s_pools (subscribe_all s) = s_pools s" "s_acc_deps (subscribe_all s) = s_acc_deps s" "s_bytes (subscribe_all s) = s_bytes s"
  "parts_ok (subscribe_all s) = parts_ok s" "s_auth (subscribe_all s) = s_auth s"
  by (simp_all add: subscribe_all_def subscribe_keys_def Let_def parts_ok_def set_m_def)

lemma fetch_sel [simp]:
  "s_pools (fetch_async k ks t s) = s_pools s" "s_acc_deps (fetch_async k ks t s) = s_acc_deps s" "s_bytes (fetch_async k ks t s) = s_bytes s"
  "parts_ok (fetch_async k ks t s) = parts_ok s" "s_auth (fetch_async k ks t s) = s_auth s"
  by (simp_all add: fetch_async_def parts_ok_def)

definition ready_at :: "int list \<Rightarrow> int set \<Rightarrow> int \<Rightarrow> s008 \<Rightarrow> bool" where
  "ready_at K X i s \<longleftrightarrow> okX K X s \<and> (\<exists>r. dget (s_pools s) i = Some r \<and> pool_complete s r)"

lemma keeps_ready_cong:
  assumes "\<And>s. s_pools (f s) = s_pools s" "\<And>s. s_acc_deps (f s) = s_acc_deps s" "\<And>s. s_bytes (f s) = s_bytes s"
    "\<And>s. parts_ok s \<Longrightarrow> parts_ok (f s)" "\<And>s. mirrored (s_auth (f s)) = mirrored (s_auth s)"
  shows "keeps (ready_at K X i) (smod f)"
proof (rule leads_smod)
  fix s assume ok: "ready_at K X i s"
  then have "okX K X (f s)" unfolding ready_at_def using assms by (blast intro: okX_cong)
  moreover have "pool_complete (f s) = pool_complete s" by (rule complete_same) (rule assms)
  ultimately show "ready_at K X i (f s)" using ok by (simp add: ready_at_def assms)
qed

lemma keeps_ready_log [keeps_intros]: "keeps (ready_at K X i) (log_append w)"
  unfolding log_append_def by (intro keeps_intros keeps_ready_cong) (auto simp: parts_ok_def)

lemma keeps_ready_mild [keeps_intros]: "mild f \<Longrightarrow> keeps (ready_at K X i) (smod (upd_pool i f))"
proof (rule leads_smod)
  fix s assume f: "mild f" and ok: "ready_at K X i s"
  have "okX K X (upd_pool i f s)"
    by (rule okX_upd_pool) (use ok in \<open>simp add: ready_at_def\<close>, rule pool_inv_mild [OF f])
  moreover have "pool_complete (upd_pool i f s) = pool_complete s" by (rule complete_same) simp
  moreover have "pool_complete s (f r) = pool_complete s r" for r
    by (rule pool_complete_required) (use f in \<open>simp add: mild_def\<close>)
  ultimately show "ready_at K X i (upd_pool i f s)" using ok by (auto simp: ready_at_def upd_pool_dget)
qed

text \<open>The ring after a publication that returned normally.\<close>

lemma latest_other: "i \<noteq> j \<Longrightarrow> 0 \<le> i \<Longrightarrow> 0 \<le> j \<Longrightarrow> am_pools mm' = (am_pools mm)[nat i := p] \<Longrightarrow> latest mm' j = latest mm j"
  by (cases "nat i < length (am_pools mm)") (auto simp: latest_def Let_def nat_eq_iff)

lemma latest_negative: "j < 0 \<Longrightarrow> latest mm j = None"
  by (simp add: latest_def)

lemma publish_even:
  assumes ok: "auth_ok a" and ev: "seqs_even a" and none: "snd (publish a i pa) = None"
  shows "seqs_even (fst (publish a i pa))"
proof (cases "pub_mm a")
  case None
  then show ?thesis by (simp add: publish_def seqs_even_def)
next
  case (Some mm)
  show ?thesis
  proof (cases "publish_refused a i pa")
    case True
    then show ?thesis using publish_refused_same [OF Some] ev by simp
  next
    case False
    then have i: "0 \<le> i" "i = int (nat i)" by (auto simp: publish_refused_def)
    have pk: "entry_packs pa" using none publish_accepted [OF Some False] by (simp split: if_split_asm)
    obtain mm' where mm': "pub_mm (fst (publish a i pa)) = Some mm'" "nat i < length (am_pools mm)"
        "am_pools mm' = (am_pools mm)[nat i := publish_pool (am_pools mm ! nat i) pa (Suc (pub_ver a))]"
      using publish_map [OF ok Some, of "nat i" pa] False pk i(2) by auto
    have "even (ap_seq (publish_pool (am_pools mm ! nat i) pa (Suc (pub_ver a))))"
      using ev Some mm'(2) by (simp add: publish_pool_eq seqs_even_def list_all_length)
    then show ?thesis using ev Some mm' by (auto simp: seqs_even_def intro!: list_all_update)
  qed
qed

lemma publish_view:
  assumes ok: "auth_ok a" and ev: "seqs_even a" and none: "snd (publish a i pa) = None"
  shows "pub_cap (fst (publish a i pa)) = pub_cap a" "(pub_mm (fst (publish a i pa)) = None) = (pub_mm a = None)"
    and "j \<noteq> i \<Longrightarrow> seen_by_readers (fst (publish a i pa)) j = seen_by_readers a j"
    and "pa_txn_index pa = None \<Longrightarrow> length (pa_blob pa) \<le> BLOB \<Longrightarrow> pa_flags pa = COHERENT \<Longrightarrow> in_ring a i
      \<Longrightarrow> seen_by_readers (fst (publish a i pa)) i = Some (pa_slot pa, pa_blob pa)"
proof -
  show "pub_cap (fst (publish a i pa)) = pub_cap a" "(pub_mm (fst (publish a i pa)) = None) = (pub_mm a = None)"
    by (auto simp: publish_def Let_def split: option.split)
  have acc: "entry_packs pa" if "pub_mm a = Some mm" "\<not> publish_refused a i pa" for mm
    using none publish_accepted [OF that] by (simp split: if_split_asm)
  show "seen_by_readers (fst (publish a i pa)) j = seen_by_readers a j" if "j \<noteq> i"
  proof (cases "\<exists>mm. pub_mm a = Some mm \<and> \<not> publish_refused a i pa")
    case True
    then obtain mm where mm: "pub_mm a = Some mm" "\<not> publish_refused a i pa" by blast
    then have i: "0 \<le> i" "i = int (nat i)" by (auto simp: publish_refused_def)
    obtain mm' where "pub_mm (fst (publish a i pa)) = Some mm'"
        "am_pools mm' = (am_pools mm)[nat i := publish_pool (am_pools mm ! nat i) pa (Suc (pub_ver a))]"
      using publish_map [OF ok mm(1), of "nat i" pa] mm(2) acc [OF mm] i(2) by auto
    then show ?thesis using that mm(1) i(1) latest_other [of i j mm' mm] latest_negative
      by (cases "j < 0") (auto simp: seen_by_readers_def)
  next
    case False
    then show ?thesis using publish_refused_same [of a] by (cases "pub_mm a") (auto simp: publish_def)
  qed
  assume pa: "pa_txn_index pa = None" "length (pa_blob pa) \<le> BLOB" "pa_flags pa = COHERENT" and ring: "in_ring a i"
  obtain mm where mm: "pub_mm a = Some mm" using ring by (auto simp: in_ring_def)
  have i: "i = int (nat i)" "nat i < POOL_CAP" "nat i < pub_cap a" "0 \<le> i" "i < int (pub_cap a)" using ring by (auto simp: in_ring_def)
  have acc': "\<not> publish_refused a i pa"
    using none pa i(4,5) mm by (auto simp: publish_refused_def publish_def split: if_split_asm option.split_asm)
  obtain mm' where mm': "pub_mm (fst (publish a i pa)) = Some mm'" "nat i < length (am_pools mm)"
    using publish_map [OF ok mm, of "nat i" pa] acc' acc [OF mm acc'] i(1) by auto
  have "even (ap_seq (am_pools mm ! nat i))" using ev mm mm'(2) by (simp add: seqs_even_def list_all_length)
  moreover have "entry_flags pa AND (INCOMPLETE OR GAPPED) = 0"
    by (simp add: entry_flags_def pa flag_defs Let_def)
  ultimately obtain e where "latest mm' (int (nat i)) = Some e" "ro_blob e = pa_blob pa" "ro_slot e = pa_slot pa"
    using latest_after_publish [OF ok mm, of "nat i" pa mm'] acc' acc [OF mm acc'] i(1,2) mm'(1) by auto
  then show "seen_by_readers (fst (publish a i pa)) i = Some (pa_slot pa, pa_blob pa)"
    using i(1) mm'(1) by (simp add: seen_by_readers_def)
qed

lemma okX_by_dget:
  assumes "map fst (s_pools s) = K" "distinct K" "parts_ok s" "\<And>j q. dget (s_pools s) j = Some q \<Longrightarrow> pool_inv X s j q"
  shows "okX K X s"
proof -
  have d: "dict_ok (s_pools s)" using assms(1,2) by (simp add: dict_ok_def)
  then show ?thesis unfolding okX_def using assms by (auto intro!: dict_all_all dict_ok_dget)
qed

text \<open>The state after the tail of \<^verbatim>\<open>publish_dlmm\<close> and \<^verbatim>\<open>publish_pump\<close>, when it returns.\<close>

lemma finish_publish_run:
  assumes "finish_publish i pub blob proto s = (Inr x, s')" and "dget (s_pools s) i = Some r"
  shows "let out = publish (s_auth s) i (finish_args r (pub_slot pub) blob proto)
    in snd out = None \<and> s_pools s' = dput i (r \<lparr> p_stage := no_stage, p_staged := [] \<rparr>) (s_pools s)
     \<and> s_acc_deps s' = s_acc_deps s \<and> s_bytes s' = s_bytes s \<and> s_auth s' = fst out
     \<and> (parts_ok s \<longrightarrow> parts_ok s')"
proof -
  let ?out = "publish (s_auth s) i (finish_args r (pub_slot pub) blob proto)"
  have none: "snd ?out = None"
    using assms by (auto simp: finish_publish_def with_pool_def sseq_def sbind_def auth_publish_def Let_def case_prod_unfold
        split: option.split_asm)
  then have s': "s' = upd_pool i (\<lambda>q. q \<lparr> p_stage := no_stage, p_staged := [] \<rparr>) (s \<lparr> s_auth := fst ?out \<rparr>)
      \<lparr> s_shadow := on_publish (s_shadow s) (publication_of r pub) \<rparr>"
    using assms by (auto simp: finish_publish_def with_pool_def sseq_def sbind_def auth_publish_def Let_def case_prod_unfold upd_pool_def)
  have "parts_ok s'" if "parts_ok s"
    using that none by (auto simp: s' parts_ok_def on_publish_ok publish_ok publish_even upd_pool_def split: option.split)
  then show ?thesis using none assms(2) by (simp add: Let_def s' upd_pool_def)
qed

definition coherent_with :: "published \<Rightarrow> bytes \<Rightarrow> pool_rec \<Rightarrow> pool_rec" where
  "coherent_with pub blob q = q \<lparr> p_status := ST_COHERENT, p_gen := p_gen q + 1, p_last_s := Some pub, p_last_blob := Some blob \<rparr>"

lemma install_tail_ok:
  "leads (ready_at K X i) (okX K X) (sseq (smod (upd_pool i (coherent_with pub blob)))
    (sseq (smod (bump ''published'' 1)) (sseq (finish_publish i pub blob proto) (sret True))))"
proof (rule leadsI)
  fix s x s' assume ready: "ready_at K X i s" and run: "sseq (smod (upd_pool i (coherent_with pub blob)))
    (sseq (smod (bump ''published'' 1)) (sseq (finish_publish i pub blob proto) (sret True))) s = (Inr x, s')"
  obtain r where ok: "okX K X s" and r: "dget (s_pools s) i = Some r" and full: "pool_complete s r"
    using ready by (auto simp: ready_at_def)
  let ?t = "bump ''published'' 1 (upd_pool i (coherent_with pub blob) s)"
  let ?q = "coherent_with pub blob r"
  let ?pa = "finish_args ?q (pub_slot pub) blob proto"
  have "finish_publish i pub blob proto ?t = (Inr (), s')"
    using run by (auto simp: sseq_def [of "finish_publish i pub blob proto"] sbind_Inr)
  then have out: "snd (publish (s_auth s) i ?pa) = None" and pools: "s_pools s' = dput i (?q \<lparr> p_stage := no_stage, p_staged := [] \<rparr>) (s_pools ?t)"
    and same: "s_acc_deps s' = s_acc_deps s" "s_bytes s' = s_bytes s" "s_auth s' = fst (publish (s_auth s) i ?pa)" "parts_ok s'"
    using finish_publish_run [of i pub blob proto ?t "()" s' ?q] ok r by (auto simp: upd_pool_dget Let_def okX_def)
  have au: "auth_ok (s_auth s)" "seqs_even (s_auth s)" using ok by (auto simp: okX_def parts_ok_def)
  note view = publish_view [OF au out]
  have pa: "pa_txn_index ?pa = None" "pa_blob ?pa = blob" "pa_flags ?pa = COHERENT" "pa_slot ?pa = pub_slot pub"
    by (simp_all add: finish_args_def coherent_with_def)
  show "okX K X s'"
  proof (rule okX_by_dget)
    show "map fst (s_pools s') = K" using ok r by (auto simp: pools okX_def keys_dput_known upd_pool_dget)
    show "distinct K" using ok by (simp add: okX_def)
    fix j q assume q: "dget (s_pools s') j = Some q"
    have ring: "in_ring (s_auth s') k = in_ring (s_auth s) k" for k using view(1,2) by (simp add: in_ring_def same)
    show "pool_inv X s' j q"
    proof (cases "j = i")
      case True
      then have "q = ?q \<lparr> p_stage := no_stage, p_staged := [] \<rparr>" using q by (simp add: pools)
      moreover have "mirrored (s_auth s') i (?q \<lparr> p_stage := no_stage, p_staged := [] \<rparr>)"
        using view(4) pa ring by (simp add: mirrored_def same(3) coherent_with_def)
      moreover have "pool_complete s' r" using full complete_same [OF same(2)] by simp
      ultimately show ?thesis using okX_dget [OF ok r] True same(1)
        by (simp add: pool_inv_def indexed_def coherent_with_def pool_complete_def)
    next
      case False
      then have "dget (s_pools s) j = Some q" using q by (simp add: pools upd_pool_dget)
      moreover have "mirrored (s_auth s') j q = mirrored (s_auth s) j q"
        using view(3) [OF False] ring by (simp add: mirrored_def same(3))
      ultimately show ?thesis using okX_dget [OF ok] complete_same [OF same(2)] same(1)
        by (fastforce simp: pool_inv_def indexed_def)
    qed
  qed (rule same(4))
qed

lemma install_published_ok: "leads (ready_at K X i) (okX K X) (install_published i pub blob proto)"
  using leads_sseq [OF keeps_ready_log install_tail_ok [unfolded coherent_with_def [abs_def]]]
  by (simp add: install_published_def)

end
