(* ===== verification/State_Reach.thy ===== *)
theory State_Reach
  imports State_Invariant "HOL-Library.Sublist"
begin

text \<open>
  Every step of the state owner keeps its invariant: publication, account updates,
  transactions, bootstrap and the event handler, and what follows for the states it reaches.
\<close>

section \<open>Rules for branches\<close>

lemma leads_weaken: "keeps Q m \<Longrightarrow> (\<And>s. P s \<Longrightarrow> Q s) \<Longrightarrow> leads P Q m"
  by (rule leads_pre)

lemma leads_slift: "(\<And>x. r = Inr x \<Longrightarrow> leads P Q (f x)) \<Longrightarrow> leads P Q (sbind (slift r) f)"
  by (auto simp: leads_def sbind_Inr)

lemma leads_if: "(c \<Longrightarrow> leads P Q m) \<Longrightarrow> (\<not> c \<Longrightarrow> leads P Q n) \<Longrightarrow> leads P Q (if c then m else n)"
  by simp

lemma leads_option: "leads P Q m \<Longrightarrow> (\<And>x. leads P Q (f x)) \<Longrightarrow> leads P Q (case v of None \<Rightarrow> m | Some x \<Rightarrow> f x)"
  by (cases v) simp_all

lemma leads_sum: "(\<And>x. leads P Q (f x)) \<Longrightarrow> (\<And>x. leads P Q (g x)) \<Longrightarrow> leads P Q (case v of Inl x \<Rightarrow> f x | Inr x \<Rightarrow> g x)"
  by (cases v) simp_all

lemma leads_skip_get: "(\<And>v. leads P Q (g v)) \<Longrightarrow> leads P Q (sbind (sget f) g)"
  by (auto simp: leads_def)

section \<open>Publishing a frozen read set\<close>

text \<open>A pool all of whose accounts are present, and a read set taken from them.\<close>

definition can_read :: "int list \<Rightarrow> int set \<Rightarrow> int \<Rightarrow> (string, acc_row) dict \<Rightarrow> s008 \<Rightarrow> bool" where
  "can_read K X i accounts s \<longleftrightarrow> okX K X s \<and> (\<exists>r. dget (s_pools s) i = Some r \<and> pool_complete s r
     \<and> (\<forall>k. dget accounts k \<noteq> None \<longrightarrow> k \<in> set (p_required r)))"

lemma can_read_ready: "can_read K X i accounts s \<Longrightarrow> ready_at K X i s"
  by (auto simp: can_read_def ready_at_def)

lemma can_read_ok: "can_read K X i accounts s \<Longrightarrow> okX K X s"
  by (simp add: can_read_def)

lemma ready_at_ok: "ready_at K X i s \<Longrightarrow> okX K X s"
  by (simp add: ready_at_def)

lemma add_bins_can_read:
  assumes "\<not> list_ex (\<lambda>k. dget accounts k = None) need"
  shows "leads (can_read K X i accounts) (ready_at K X i) (\<lambda>s. (Inr (fst (add_bins i need s)), snd (add_bins i need s)))"
proof (rule leadsI)
  fix s x s' assume ok: "can_read K X i accounts s" and run: "(Inr (fst (add_bins i need s)), snd (add_bins i need s)) = (Inr x, s')"
  obtain r where r: "dget (s_pools s) i = Some r" "\<forall>k. dget accounts k \<noteq> None \<longrightarrow> k \<in> set (p_required r)"
    using ok by (auto simp: can_read_def)
  have "set need \<subseteq> set (p_required r)" using assms r(2) by (auto simp: list_ex_iff)
  then show "ready_at K X i s'" using add_bins_noop [OF r(1)] run can_read_ready [OF ok] by simp
qed

lemma keeps_add_bins [keeps_intros]: "keeps (okX K X) (\<lambda>s. (Inr (fst (add_bins i need s)), snd (add_bins i need s)))"
  by (auto simp: leads_def add_bins_ok)

lemma fetch_bins_ready: "keeps (ready_at K X i) (smod (\<lambda>s. fetch_async k (h s) t (subscribe_all s)))"
  by (rule keeps_ready_cong) simp_all

lemma fetch_bins_ok [keeps_intros]: "keeps (okX K X) (smod (\<lambda>s. fetch_async k (h s) t (subscribe_all s)))"
  by (rule keeps_cong_smod) simp_all

lemma set_incomplete_ok: "keeps (okX K X) (sseq (set_status_op i ST_INCOMPLETE) (sret b))"
  by (intro keeps_intros) simp

lemma dlmm_encode_ok: "leads (ready_at K X i) (okX K X) (dlmm_encode e i slot lb snap)"
  unfolding dlmm_encode_def
proof (rule leads_option)
  show "leads (ready_at K X i) (okX K X) (sseq (set_status_op i ST_INCOMPLETE) (sret False))"
    by (rule leads_weaken [OF set_incomplete_ok ready_at_ok])
  show "leads (ready_at K X i) (okX K X) (sseq (smod (upd_pool i (\<lambda>q. q \<lparr> p_active_id := Some (lb_active_id lb) \<rparr>)))
      (sbind (slift (write_dlmm (e_now e) sn)) (\<lambda>blob. install_published i (PubDlmm (pub_of_snap sn slot)) blob PROTO_DLMM)))" for sn
    by (rule leads_sseq [OF keeps_ready_mild], simp, rule leads_slift, rule install_published_ok)
qed

lemma dlmm_bins_ok: "leads (can_read K X i accounts) (okX K X) (dlmm_bins e i slot accounts raw lb need)"
proof (cases "list_ex (\<lambda>k. dget accounts k = None) need")
  case True
  have "keeps (okX K X) (dlmm_bins e i slot accounts raw lb need)"
    unfolding dlmm_bins_def if_P [OF True] by (intro keeps_intros) simp
  then show ?thesis by (rule leads_weaken) (rule can_read_ok)
next
  case False
  show ?thesis unfolding dlmm_bins_def if_not_P [OF False]
    by (rule leads_sbind [OF add_bins_can_read [OF False]], intro leads_sseq [OF _ dlmm_encode_ok] keeps_swhen fetch_bins_ready)
qed

lemma can_read_refuse:
  "leads (can_read K X i accounts) (okX K X) (sret b)"
  "leads (can_read K X i accounts) (okX K X) (sseq (smod (bump k n)) (sret b))"
  "leads (can_read K X i accounts) (okX K X) (sseq (set_status_op i ST_INCOMPLETE) (sret b))"
  by (rule leads_weaken [OF keeps_sret can_read_ok], assumption)
     (rule leads_weaken [OF keeps_sseq [OF keeps_bump keeps_sret] can_read_ok], assumption,
      rule leads_weaken [OF set_incomplete_ok can_read_ok], assumption)

lemma publish_dlmm_ok: "leads (can_read K X i accounts) (okX K X) (publish_dlmm e i slot accounts)"
  unfolding publish_dlmm_def
  by (rule leads_with_pool, rule leads_pre [of "can_read K X i accounts"],
      intro leads_skip_get leads_if leads_option leads_sum leads_slift dlmm_bins_ok can_read_refuse)
     simp_all

lemma pump_encode_ok: "leads (ready_at K X i) (okX K X) (pump_encode e i slot at_role p rb rq)"
proof -
  have "keeps (ready_at K X i) (smod (\<lambda>s. s \<lparr> s_fees := (case at_role ROLE_PUMP_GLOBAL of None \<Rightarrow> s_fees s | Some g \<Rightarrow> parse_global g) \<rparr>))"
    by (rule keeps_ready_cong) (simp_all add: parts_ok_def)
  then show ?thesis unfolding pump_encode_def Let_def
    by (rule leads_sseq) (intro leads_skip_get leads_slift install_published_ok)
qed

lemma publish_pump_ok: "leads (can_read K X i accounts) (okX K X) (publish_pump e i slot accounts)"
  unfolding publish_pump_def prod.case
  by (rule leads_with_pool, rule leads_pre [of "can_read K X i accounts"],
      intro leads_skip_get leads_if leads_option leads_pre [OF pump_encode_ok can_read_ready] can_read_refuse)
     simp_all

lemma publish_kind_ok: "leads (can_read K X i accounts) (okX K X) (publish_kind e i slot accounts)"
  unfolding publish_kind_def
  by (rule leads_with_pool, rule leads_pre [of "can_read K X i accounts"])
     (auto intro: leads_if publish_dlmm_ok publish_pump_ok)

section \<open>Trying to publish\<close>

lemma parts_barrier: "parts_ok s \<Longrightarrow> (barrier_ok (s_barrier s) \<Longrightarrow> barrier_ok b) \<Longrightarrow> parts_ok (s \<lparr> s_barrier := b \<rparr>)"
  by (simp add: parts_ok_def)

lemma keeps_barrier:
  assumes "\<And>s. barrier_ok (s_barrier s) \<Longrightarrow> barrier_ok (g s)"
  shows "keeps (okX K X) (smod (\<lambda>s. s \<lparr> s_barrier := g s \<rparr>))"
  by (rule keeps_cong_smod) (simp_all add: parts_barrier assms)

lemma keeps_bump_barrier:
  assumes "\<And>s. barrier_ok (s_barrier s) \<Longrightarrow> barrier_ok (g s)"
  shows "keeps (okX K X) (smod (\<lambda>s. bump k n (s \<lparr> s_barrier := g s \<rparr>)))"
  by (rule keeps_cong_smod) (simp_all add: parts_barrier assms)

lemma counters_ok [simp]: "barrier_ok (b \<lparr> tb_m := m \<rparr>) = barrier_ok b"
  by (simp add: barrier_ok_def)

lemma keeps_fail_tx [keeps_intros]: "keeps (okX K X) (fail_tx_incomplete e i hx)"
  unfolding fail_tx_incomplete_def
  by (intro keeps_intros keeps_bump_barrier) (simp_all add: Let_def barrier_incomplete_def barrier_drop_ok)

lemma snapshot_reads: "snd (snapshot b sig i required rows) = Some accounts \<Longrightarrow> dget accounts k = Some v \<Longrightarrow> k \<in> set required"
proof -
  assume "snd (snapshot b sig i required rows) = Some accounts" and k: "dget accounts k = Some v"
  then have "accounts = map (\<lambda>pk. (pk, row_of rows pk)) required"
    by (auto simp: snapshot_def Let_def split: option.split_asm if_split_asm)
  with k show ?thesis by (auto dest!: map_of_SomeD)
qed

lemma freeze_reads: "dget (freeze s ks) k = Some v \<Longrightarrow> k \<in> set ks"
  by (auto simp: freeze_def dest!: map_of_SomeD)

lemma publish_tx_ok: "leads (ready_at K X i) (okX K X) (publish_tx e i slot sig)"
  unfolding publish_tx_def
proof (rule leads_with_pool, rule leads_sget, rule leads_pre, unfold case_prod_unfold)
  fix r and v :: "string \<times> (string, acc_row) dict option"
  let ?P = "\<lambda>s. okX K X s \<and> (case snd v of None \<Rightarrow> True | Some accounts \<Rightarrow> can_read K X i accounts s)"
  show "?P s" if "(ready_at K X i s \<and> dget (s_pools s) i = Some r)
      \<and> snapshot (s_barrier s) (sig_text sig) i (p_required r) (s_bytes s) = v" for s
    using that by (auto simp: ready_at_def can_read_def split: option.split intro: snapshot_reads)
  show "leads ?P (okX K X) (case snd v of
       None \<Rightarrow> sseq (smod (\<lambda>s. s \<lparr> s_rejections := dput (fst v) (dflt (s_rejections s) (fst v) 0 + 1) (s_rejections s) \<rparr>))
                    (fail_tx_incomplete e i (sig_text sig))
     | Some accounts \<Rightarrow> sbind (publish_kind e i slot accounts) (\<lambda>ok.
         swhen ok (smod (\<lambda>s. bump ''auth_predicted_exact'' 1 (s \<lparr> s_barrier := barrier_drop (s_barrier s) (sig_text sig) (Some i) \<rparr>)))))"
  proof (cases "snd v")
    case None
    have "keeps (okX K X) (smod (\<lambda>s. s \<lparr> s_rejections := dput (fst v) (dflt (s_rejections s) (fst v) 0 + 1) (s_rejections s) \<rparr>))"
      by (rule keeps_cong_smod) (simp_all add: parts_ok_def)
    with None show ?thesis by (simp add: keeps_sseq keeps_fail_tx)
  next
    case (Some accounts)
    have "leads ?P (okX K X) (publish_kind e i slot accounts)"
      by (rule leads_pre [OF publish_kind_ok]) (simp add: Some)
    then show ?thesis unfolding Some option.case
      by (rule leads_sbind) (intro keeps_intros keeps_bump_barrier barrier_drop_ok)
  qed
qed

lemma publish_boot_ok: "leads (ready_at K X i) (okX K X) (publish_boot e i slot reconcile)"
  unfolding publish_boot_def
proof (rule leads_with_pool, rule leads_sget, rule leads_sbind)
  fix r accounts
  show "leads (\<lambda>s. (ready_at K X i s \<and> dget (s_pools s) i = Some r) \<and> freeze s (p_required r) = accounts) (okX K X)
      (publish_kind e i slot accounts)"
    by (rule leads_pre [OF publish_kind_ok]) (auto simp: ready_at_def can_read_def intro: freeze_reads [of _ "p_required r"])
qed (intro keeps_intros)

lemma keeps_wait [keeps_intros]: "keeps (okX K X) (smod wait_shape)" "keeps (okX K X) (smod (note_wait i absent))"
  unfolding wait_shape_def [abs_def] note_wait_def [abs_def]
  by (rule keeps_bump_barrier, simp, rule keeps_cong_smod) (simp_all add: Let_def parts_barrier mark_wait_def)

lemma keeps_ready_reauth: "keeps (ready_at K X i) (smod (\<lambda>s. bump k n (upd_pool i reauth s)))"
proof -
  have "keeps (ready_at K X i) (sseq (smod (upd_pool i reauth)) (smod (bump k n)))"
    by (rule keeps_sseq, rule keeps_ready_mild, simp, rule keeps_ready_cong) simp_all
  moreover have "sseq (smod (upd_pool i reauth)) (smod (bump k n)) = smod (\<lambda>s. bump k n (upd_pool i reauth s))"
    by (simp add: fun_eq_iff)
  ultimately show ?thesis by simp
qed

lemma keeps_try_publish [keeps_intros]: "keeps (okX K X) (try_publish e stream_slot i)"
  unfolding try_publish_def
proof (rule leads_with_pool, rule leads_sget, unfold case_prod_unfold, rule leads_if)
  fix r v
  let ?P = "\<lambda>s. (okX K X s \<and> dget (s_pools s) i = Some r) \<and> (pool_complete s r, publish_gate s r stream_slot) = v"
  show "leads ?P (okX K X) (set_status_op i ST_INCOMPLETE)"
    by (rule leads_weaken [OF keeps_set_status]) simp_all
  assume "\<not> \<not> fst v"
  then have ready: "ready_at K X i s" if "?P s" for s using that by (auto simp: ready_at_def)
  have ok: "okX K X s" if "?P s" for s using that by simp
  have go: "leads (ready_at K X i) (okX K X) (sseq (swhen re (smod (\<lambda>s. bump ''non_exact_reauth'' 1 (upd_pool i reauth s))))
       (let slot = (case st_slot (p_stage r) of None \<Rightarrow> stream_slot | Some n \<Rightarrow> if n = 0 then stream_slot else n)
        in if is_tx_sig sig then publish_tx e i slot (the sig) else publish_boot e i slot (re \<or> st_reconcile (p_stage r))))" for sig re
    unfolding Let_def by (rule leads_sseq [OF keeps_swhen [OF keeps_ready_reauth]]) (intro leads_if publish_tx_ok publish_boot_ok)
  show "leads ?P (okX K X) (if p_stage r = no_stage then sret () else case snd v of
         Wait_slot \<Rightarrow> sret ()
       | Wait_shape \<Rightarrow> smod wait_shape
       | Wait_writes absent \<Rightarrow> smod (note_wait i absent)
       | Incomplete \<Rightarrow> fail_tx_incomplete e i (sig_text (the (st_sig (p_stage r))))
       | Go sig re \<Rightarrow>
           sseq (swhen re (smod (\<lambda>s. bump ''non_exact_reauth'' 1 (upd_pool i reauth s))))
             (let slot = (case st_slot (p_stage r) of None \<Rightarrow> stream_slot | Some n \<Rightarrow> if n = 0 then stream_slot else n)
              in if is_tx_sig sig then publish_tx e i slot (the sig)
                 else publish_boot e i slot (re \<or> st_reconcile (p_stage r))))"
    by (cases "snd v") (simp_all add: leads_pre [OF go ready] leads_weaken [OF _ ok] keeps_sret keeps_wait keeps_fail_tx)
qed

lemma keeps_maybe_publish [keeps_intros]: "keeps (okX K X) (maybe_publish e stream_slot)"
  unfolding maybe_publish_def by (intro keeps_intros)

section \<open>Account updates\<close>

definition dep_pools :: "s008 \<Rightarrow> string \<Rightarrow> int set" where
  "dep_pools s pk = dr_pool_idx ` set (dflt (s_acc_deps s) pk [])"

lemma okX_touch:
  assumes ok: "okX K {} s" and same: "s_pools s' = s_pools s" "s_acc_deps s' = s_acc_deps s" "s_auth s' = s_auth s" "parts_ok s'"
    and other: "\<And>k. k \<noteq> pk \<Longrightarrow> row_of (s_bytes s') k = row_of (s_bytes s) k"
  shows "okX K (dep_pools s' pk) s'"
proof -
  have "pool_inv (dep_pools s' pk) s' i r" if inv: "pool_inv {} s i r" for i r
  proof (cases "pk \<in> set (p_required r)")
    case True
    then obtain row where "row \<in> set (dflt (s_acc_deps s) pk [])" "dr_pool_idx row = i"
      using inv unfolding pool_inv_def indexed_def by blast
    then have "i \<in> dep_pools s' pk" unfolding dep_pools_def same by blast
    then show ?thesis using inv by (simp add: pool_inv_def indexed_def same)
  next
    case False
    then have "has_data s' k = has_data s k" if "k \<in> set (p_required r)" for k
      using other [of k] that unfolding has_data_def by metis
    then have "pool_complete s' r = pool_complete s r" by (auto simp: pool_complete_def list_all_iff)
    then show ?thesis using inv by (simp add: pool_inv_def indexed_def same)
  qed
  then show ?thesis using ok same by (auto simp: okX_def elim!: dict_all_imp)
qed

lemma okX_UNIV_cong:
  assumes "s_pools s' = s_pools s" "s_acc_deps s' = s_acc_deps s" "parts_ok s \<Longrightarrow> parts_ok s'" "s_auth s' = s_auth s"
  shows "okX K UNIV s \<Longrightarrow> okX K UNIV s'"
  using assms by (simp add: okX_def pool_inv_def [abs_def] indexed_def)

lemma for_deps_ok:
  assumes f: "\<And>X row. leads (okX K X) (okX K (X - {dr_pool_idx row})) (f row (dr_pool_idx row))"
  shows "leads (\<lambda>s. okX K (dep_pools s pk) s) (okX K {}) (for_deps pk f)"
  unfolding for_deps_def
proof (rule leads_sget)
  fix rows :: "acc_dep list"
  have one: "leads (okX K X) (okX K (X - {dr_pool_idx row})) (sbind (sget (\<lambda>s. dget (s_pools s) (dr_pool_idx row) \<noteq> None))
      (\<lambda>known. swhen known (f row (dr_pool_idx row))))" for X row
  proof (rule leadsI)
    fix s x s' assume ok: "okX K X s" and run: "sbind (sget (\<lambda>s. dget (s_pools s) (dr_pool_idx row) \<noteq> None))
      (\<lambda>known. swhen known (f row (dr_pool_idx row))) s = (Inr x, s')"
    show "okX K (X - {dr_pool_idx row}) s'"
      using f [of X row] ok run okX_release [OF ok, of "dr_pool_idx row"]
      by (cases "dget (s_pools s) (dr_pool_idx row)") (auto simp: swhen_def leads_def)
  qed
  have "leads (okX K (dr_pool_idx ` set rows)) (okX K (dr_pool_idx ` set rows - dr_pool_idx ` set rows))
      (sfor rows (\<lambda>row. sbind (sget (\<lambda>s. dget (s_pools s) (dr_pool_idx row) \<noteq> None)) (\<lambda>known. swhen known (f row (dr_pool_idx row)))))"
    by (rule leads_sfor) (rule one)
  then show "leads (\<lambda>s. okX K (dep_pools s pk) s \<and> dflt (s_acc_deps s) pk [] = rows) (okX K {})
      (sfor rows (\<lambda>row. sbind (sget (\<lambda>s. dget (s_pools s) (dr_pool_idx row) \<noteq> None)) (\<lambda>known. swhen known (f row (dr_pool_idx row)))))"
    unfolding Diff_cancel by (rule leads_pre) (auto simp: dep_pools_def)
qed

lemma keeps_for_deps: "(\<And>row i. keeps P (f row i)) \<Longrightarrow> keeps P (for_deps pk f)"
  unfolding for_deps_def by (intro keeps_intros)

lemma restage_releases: "leads (okX K X) (okX K (X - {i})) (invalidate i rx slot)"
proof -
  have "leads (okX K X) (okX K (X - {i})) (smod (upd_pool i (restage rx slot)))"
    by (rule leads_smod, rule okX_release_upd) (simp_all add: restage_def)
  then show ?thesis unfolding invalidate_def
    by (intro leads_skip_get leads_sseq [of "okX K X" "okX K X"] keeps_intros) simp_all
qed

lemma keeps_note_write: "keeps (okX K X) (smod (\<lambda>s. case h of None \<Rightarrow> s
    | Some hx \<Rightarrow> s \<lparr> s_barrier := note_write (s_barrier s) hx slot i pk v \<rparr>))"
proof (cases h)
  case None
  then show ?thesis by (simp add: leads_smod)
next
  case (Some hx)
  have "keeps (okX K X) (smod (\<lambda>s. s \<lparr> s_barrier := note_write (s_barrier s) hx slot i pk v \<rparr>))"
    by (rule keeps_barrier) (rule note_write_ok)
  with Some show ?thesis by simp
qed

lemma stage_write_releases: "leads (okX K X) (okX K (X - {i})) (stage_write ev row i)"
  unfolding stage_write_def
  by (rule leads_sseq [OF restage_releases], intro keeps_sseq keeps_upd_mild keeps_note_write) simp_all

lemma keeps_stage_write: "keeps (okX K X) (stage_write ev row i)"
  unfolding stage_write_def by (intro keeps_sseq keeps_upd_mild keeps_note_write keeps_invalidate) simp_all

lemma note_bytes_sel [simp]:
  "s_pools (note_bytes ev s) = s_pools s" "s_acc_deps (note_bytes ev s) = s_acc_deps s" "parts_ok (note_bytes ev s) = parts_ok s" "s_auth (note_bytes ev s) = s_auth s"
  "s_bytes (note_bytes ev s) = dput (av_pubkey ev) (row_of_ev ev) (s_bytes s)"
  by (simp_all add: note_bytes_def Let_def parts_ok_def)

lemma note_bytes_ok: "leads (okX K {}) (\<lambda>s. okX K (dep_pools s (av_pubkey ev)) s) (smod (note_bytes ev))"
proof (rule leads_smod)
  fix s assume ok: "okX K {} s"
  show "okX K (dep_pools (note_bytes ev s) (av_pubkey ev)) (note_bytes ev s)"
    by (rule okX_touch [OF ok]) (use ok in \<open>simp_all add: okX_def row_of_def\<close>)
qed

lemma keeps_note_bytes_UNIV: "keeps (okX K UNIV) (smod (note_bytes ev))"
  by (rule leads_smod, erule okX_UNIV_cong [rotated -1]) simp_all

lemma ambiguous_ok: "keeps (okX K {}) (ambiguous_update ev)"
  unfolding ambiguous_update_def
proof (rule leads_sseq)
  let ?f = "\<lambda>s. s \<lparr> s_bytes := dpop (av_pubkey ev) (s_bytes s) \<rparr>"
  show "leads (okX K {}) (\<lambda>s. okX K (dep_pools s (av_pubkey ev)) s) (smod ?f)"
  proof (rule leads_smod)
    fix s assume ok: "okX K {} s"
    show "okX K (dep_pools (?f s) (av_pubkey ev)) (?f s)"
      by (rule okX_touch [OF ok]) (use ok in \<open>simp_all add: okX_def row_of_def parts_ok_def\<close>)
  qed
  show "leads (\<lambda>s. okX K (dep_pools s (av_pubkey ev)) s) (okX K {}) (sseq (for_deps (av_pubkey ev) (\<lambda>row i.
      sseq (invalidate i (av_t_rx ev) (av_slot ev)) (smod (upd_pool i wipe_stage)))) (smod (bump ''rpc_same_slot_ambiguous'' 1)))"
    by (rule leads_sseq [OF for_deps_ok keeps_bump], rule leads_sseq [OF restage_releases], rule keeps_upd_mild) simp
qed

lemma ambiguous_UNIV: "keeps (okX K UNIV) (ambiguous_update ev)"
proof -
  have "keeps (okX K UNIV) (smod (\<lambda>s. s \<lparr> s_bytes := dpop (av_pubkey ev) (s_bytes s) \<rparr>))"
    by (rule leads_smod, erule okX_UNIV_cong [rotated -1]) (simp_all add: parts_ok_def)
  then show ?thesis unfolding ambiguous_update_def
    by (intro keeps_sseq keeps_for_deps keeps_invalidate keeps_upd_mild keeps_bump) simp_all
qed

lemma apply_update_UNIV: "keeps (okX K UNIV) (apply_update ev from_buf)"
proof -
  have "keeps (okX K UNIV) (case cls of
        Upd_stale \<Rightarrow> smod (bump ''stale_generation_events'' 1) | Upd_below_floor \<Rightarrow> sret () | Upd_ambiguous \<Rightarrow> ambiguous_update ev
      | Upd_dup \<Rightarrow> smod (bump ''dup'' 1) | Upd_old \<Rightarrow> sret ()
      | Upd_new \<Rightarrow> sseq (smod (note_bytes ev)) (swhen c (for_deps (av_pubkey ev) (stage_write ev))))" for cls c
    by (cases cls) (simp_all add: keeps_bump keeps_sret ambiguous_UNIV keeps_sseq keeps_note_bytes_UNIV keeps_swhen keeps_for_deps keeps_stage_write)
  then show ?thesis unfolding apply_update_def by (intro leads_skip_get keeps_prod)
qed

lemma apply_update_ok: "leads (\<lambda>s. okX K {} s \<and> \<not> s_bootstrapping s) (okX K {}) (apply_update ev from_buf)"
proof -
  let ?body = "\<lambda>cls booting. case cls of
        Upd_stale \<Rightarrow> smod (bump ''stale_generation_events'' 1) | Upd_below_floor \<Rightarrow> sret () | Upd_ambiguous \<Rightarrow> ambiguous_update ev
      | Upd_dup \<Rightarrow> smod (bump ''dup'' 1) | Upd_old \<Rightarrow> sret ()
      | Upd_new \<Rightarrow> sseq (smod (note_bytes ev)) (swhen (\<not> (booting \<and> \<not> from_buf)) (for_deps (av_pubkey ev) (stage_write ev)))"
  have "leads (okX K {}) (okX K {}) (sseq (smod (note_bytes ev)) (for_deps (av_pubkey ev) (stage_write ev)))"
    by (rule leads_sseq [OF note_bytes_ok for_deps_ok]) (rule stage_write_releases)
  then have "keeps (okX K {}) (?body cls False)" for cls
    by (cases cls) (simp_all add: keeps_bump keeps_sret ambiguous_ok swhen_def)
  then have "leads (\<lambda>s. (okX K {} s \<and> \<not> s_bootstrapping s) \<and> (classify_update s ev, s_bootstrapping s) = v) (okX K {}) (case_prod ?body v)" for v
    by (cases v; cases "snd v") (auto simp: leads_def)
  then show ?thesis unfolding apply_update_def by (rule leads_sget)
qed

section \<open>Transactions\<close>

lemma keeps_shadow:
  assumes "\<And>g. gate_ok g \<Longrightarrow> gate_ok (h g)"
  shows "keeps (okX K X) (smod (\<lambda>s. s \<lparr> s_shadow := h (s_shadow s) \<rparr>))"
  by (rule keeps_cong_smod) (simp_all add: parts_ok_def assms)

lemma keeps_require_expected [keeps_intros]: "keeps (okX K X) (require_expected i pk)"
proof -
  have "keeps (okX K X) (smod (\<lambda>s. let (new, t) = add_required i pk ROLE_DLMM_BIN s in if new then subscribe_all t else t))"
  proof (rule leads_smod)
    fix s assume "okX K X s"
    then have "okX K X (snd (add_required i pk ROLE_DLMM_BIN s))" by (rule add_required_ok)
    then show "okX K X (let (new, t) = add_required i pk ROLE_DLMM_BIN s in if new then subscribe_all t else t)"
      using okX_cong [of "subscribe_all (snd (add_required i pk ROLE_DLMM_BIN s))" "snd (add_required i pk ROLE_DLMM_BIN s)" K X]
      by (simp add: case_prod_unfold Let_def)
  qed
  then show ?thesis unfolding require_expected_def by (intro keeps_intros)
qed

lemma keeps_predict [keeps_intros]: "keeps (okX K X) (smod (predict e sig r last_s sp direction amount))"
  by (rule keeps_cong_smod) (simp_all add: predict_def bump_def parts_ok_def ingest_direct_ok)

lemma keeps_predict_pump [keeps_intros]: "keeps (okX K X) (predict_pump e sig r u ixs)"
  unfolding predict_pump_def Let_def by (intro keeps_intros)

lemma keeps_predict_dlmm [keeps_intros]: "keeps (okX K X) (predict_dlmm e sig r last_s blob pubkey ixs)"
  unfolding predict_dlmm_def by (intro keeps_intros)

lemma keeps_published [keeps_intros]:
  "(\<And>u. keeps P (f u)) \<Longrightarrow> (\<And>u. keeps P (g u)) \<Longrightarrow> keeps P (case p of PubDlmm u \<Rightarrow> f u | PubPump u \<Rightarrow> g u)"
  by (cases p) simp_all

lemma keeps_fastsoak [keeps_intros]: "keeps (okX K X) (fastsoak_predict e sig expect ixs)"
  unfolding fastsoak_predict_def by (intro keeps_intros)

lemma keeps_count_tx [keeps_intros]: "keeps (okX K X) (smod (count_tx k))"
  by (rule keeps_cong_smod) (simp_all add: count_tx_def Let_def)

lemma keeps_apply_tx [keeps_intros]: "keeps (okX K X) (apply_tx e ev)"
proof -
  have "keeps (okX K X) (smod (\<lambda>s. s \<lparr> s_barrier := note_tx (s_barrier s) sig slot expect \<rparr>))" for sig slot expect
    by (rule keeps_barrier) (rule note_tx_ok)
  then show ?thesis unfolding apply_tx_def Let_def by (intro keeps_intros)
qed

section \<open>Bootstrap\<close>

lemma keeps_UNIV_smod:
  assumes "\<And>s. s_pools (f s) = s_pools s" "\<And>s. s_acc_deps (f s) = s_acc_deps s" "\<And>s. parts_ok s \<Longrightarrow> parts_ok (f s)"
    "\<And>s. s_auth (f s) = s_auth s"
  shows "keeps (okX K UNIV) (smod f)"
  by (rule leads_smod, erule okX_UNIV_cong [rotated -1]) (simp_all add: assms)

lemma keeps_boot_pool: "keeps (okX K X) (boot_pool e i)"
  unfolding boot_pool_def by (intro keeps_intros) simp_all

lemma keeps_replay_one: "keeps (okX K UNIV) (replay_one e b)"
  unfolding replay_one_def by (cases b) (simp_all add: apply_update_UNIV keeps_apply_tx)

lemma keeps_ready_if [keeps_intros]: "keeps (okX K X) ready_if_caught_up"
  unfolding ready_if_caught_up_def by (intro keeps_intros)

lemma keeps_finish_bootstrap [keeps_intros]: "keeps (okX K {}) (finish_bootstrap e generation token accounts)"
proof -
  have load: "leads (okX K {}) (okX K UNIV) (smod (load_boot accounts))"
    by (rule leads_pre [OF keeps_UNIV_smod]) (auto simp: load_boot_def parts_ok_def elim: okX_weaken)
  have boot_done: "keeps (okX K UNIV) (smod (\<lambda>s. s \<lparr> s_bootstrap_done := True, s_bootstrapping := False \<rparr>))"
    by (rule keeps_UNIV_smod) (auto simp: parts_ok_def)
  have pools: "keeps (okX K UNIV) (sbind (sget s_pools) (\<lambda>pools. sfor pools (\<lambda>(i, _). boot_pool e i)))"
    by (intro keeps_intros keeps_boot_pool)
  have tail: "leads (okX K UNIV) (okX K {}) (sseq (smod recount) ready_if_caught_up)"
    by (rule leads_sseq [OF leads_smod keeps_ready_if]) (rule recount_ok)
  have "keeps (okX K UNIV) (sfor buffered (replay_one e))" for buffered by (intro keeps_sfor keeps_replay_one)
  then have "leads (okX K {}) (okX K {}) (sseq (smod (load_boot accounts)) (sseq (sfor buffered (replay_one e))
      (sseq (smod (\<lambda>s. s \<lparr> s_bootstrap_done := True, s_bootstrapping := False \<rparr>))
      (sseq (sbind (sget s_pools) (\<lambda>pools. sfor pools (\<lambda>(i, _). boot_pool e i))) (sseq (smod recount) ready_if_caught_up)))))" for buffered
    by (intro leads_sseq [OF load] leads_sseq [OF _ leads_sseq [OF boot_done leads_sseq [OF pools tail]]])
  then show ?thesis unfolding finish_bootstrap_def by (intro leads_skip_get keeps_prod keeps_if keeps_sret)
qed

section \<open>The event handler\<close>

lemma keeps_reset [keeps_intros]: "keeps (okX K {}) (reset_connection e g)"
  by (rule reset_connection_ok)

lemma keeps_stream_slot [keeps_intros]: "keeps (okX K X) (smod (\<lambda>s. s \<lparr> s_stream_slot := n \<rparr>))"
  by (rule keeps_cong_smod) (simp_all add: parts_ok_def)

lemma keeps_start_bootstrap [keeps_intros]: "keeps (okX K X) (smod (start_bootstrap e g))"
  by (rule keeps_cong_smod) (auto simp: start_bootstrap_def parts_ok_def)

lemma keeps_on_slot [keeps_intros]: "keeps (okX K {}) (on_slot e generation slot)"
  unfolding on_slot_def advance_slot_def expire_writes_def by (intro keeps_intros)

lemma keeps_buffer [keeps_intros]: "keeps (okX K {}) (buffer e generation b)"
proof -
  have "keeps (okX K {}) (smod (\<lambda>s. s \<lparr> s_buf := s_buf s @ [b] \<rparr>))"
    by (rule keeps_cong_smod) (simp_all add: parts_ok_def)
  then show ?thesis unfolding buffer_def by (intro keeps_intros)
qed

lemma okX_s_ok: "okX K {} s \<Longrightarrow> s_ok s"
  by (simp add: s_ok_def okX_def)

lemma s_ok_keeps: "(\<And>K. keeps (okX K {}) m) \<Longrightarrow> keeps s_ok m"
  unfolding leads_def s_ok_def using okX_s_ok [unfolded s_ok_def] by blast

lemma s_ok_leads: "(\<And>K. leads (\<lambda>s. okX K {} s \<and> R s) (okX K {}) m) \<Longrightarrow> leads (\<lambda>s. s_ok s \<and> R s) s_ok m"
  unfolding leads_def s_ok_def using okX_s_ok [unfolded s_ok_def] by blast

lemma s_ok_cong:
  assumes "s_pools s' = s_pools s" "s_acc_deps s' = s_acc_deps s" "s_bytes s' = s_bytes s" "parts_ok s \<Longrightarrow> parts_ok s'"
    "mirrored (s_auth s') = mirrored (s_auth s)"
  shows "s_ok s \<Longrightarrow> s_ok s'"
  using okX_cong [OF assms] assms(1) by (simp add: s_ok_def)

lemma add_missing_shape: "owner_shape s \<Longrightarrow> owner_shape (add_missing s accounts)"
  unfolding add_missing_def by (erule foldl_keeps [of owner_shape]) (rule add_fetched_shape)

lemma shape_mtime: "s_ok s \<Longrightarrow> owner_shape (s \<lparr> s_univ_mtime := t \<rparr>)"
  by (rule s_ok_shape, erule s_ok_cong [rotated -1]) (simp_all add: parts_ok_def)

lemma handle_bank: "keeps s_ok (smod (\<lambda>s. s \<lparr> s_bank_journal := fst (journal_apply sha (s_bank_journal s) b) \<rparr>))"
  by (rule leads_smod, erule s_ok_cong [rotated -1]) (auto simp: parts_ok_def journal.inv_step)

lemma handle_plan: "keeps s_ok (smod (\<lambda>s. let t = subscribe_all (install_generation plan [] s)
     in fetch_async k (map fst (s_acc_deps t)) (s_bootstrap_token t) t))"
proof (rule leads_smod)
  fix s assume "s_ok s"
  then have "s_ok (install_generation plan [] s)" by (intro install_generation_ok s_ok_shape)
  then show "s_ok (let t = subscribe_all (install_generation plan [] s) in fetch_async k (map fst (s_acc_deps t)) (s_bootstrap_token t) t)"
    by (rule s_ok_cong [rotated -1]) (simp_all add: Let_def)
qed

lemma handle_univ: "keeps s_ok (smod (\<lambda>s. recount (subscribe_all (install_generation plan accounts (s \<lparr> s_univ_mtime := t \<rparr>)))))"
proof (rule leads_smod)
  fix s assume "s_ok s"
  then have "s_ok (install_generation plan accounts (s \<lparr> s_univ_mtime := t \<rparr>))" by (intro install_generation_ok shape_mtime)
  then have "s_ok (subscribe_all (install_generation plan accounts (s \<lparr> s_univ_mtime := t \<rparr>)))"
    by (rule s_ok_cong [rotated -1]) simp_all
  then show "s_ok (recount (subscribe_all (install_generation plan accounts (s \<lparr> s_univ_mtime := t \<rparr>))))"
    by (intro recount_s_ok s_ok_shape)
qed

lemma handle_deps: "keeps s_ok (smod (\<lambda>s. recount (add_missing s accounts)))"
  by (rule leads_smod) (intro recount_s_ok add_missing_shape s_ok_shape)

lemma handle_error: "keeps s_ok (smod (\<lambda>s. bump k n (if c s then s \<lparr> s_bootstrap_token := None \<rparr> else s)))"
  by (rule leads_smod, erule s_ok_cong [rotated -1]) (auto simp: parts_ok_def bump_def)

lemmas s_ok_ops = s_ok_keeps [OF keeps_bump] s_ok_keeps [OF keeps_on_slot] s_ok_keeps [OF keeps_finish_bootstrap]
  s_ok_keeps [OF keeps_maybe_publish] s_ok_keeps [OF keeps_buffer] s_ok_keeps [OF keeps_apply_tx] s_ok_keeps [OF keeps_reset]

lemma handle_account:
  "leads (\<lambda>s. s_ok s \<and> \<not> s_bootstrapping s) s_ok
    (sseq (apply_update a False) (sseq (sbind (sget s_stream_slot) (maybe_publish e)) (sret ''account'')))"
  by (rule leads_sseq [OF s_ok_leads [OF apply_update_ok]]) (intro keeps_intros s_ok_ops)

lemma handle_live_ok: "leads (\<lambda>s. s_ok s \<and> s = s0) s_ok (handle_live e ev s0)"
proof (cases "\<exists>a. ev = EAccount a \<and> \<not> s_bootstrapping s0")
  case True
  then obtain a where ev: "ev = EAccount a" "\<not> s_bootstrapping s0" by blast
  have "leads (\<lambda>s. s_ok s \<and> s = s0) s_ok
      (sseq (apply_update a False) (sseq (sbind (sget s_stream_slot) (maybe_publish e)) (sret ''account'')))"
    by (rule leads_pre [OF handle_account]) (use ev(2) in auto)
  then show ?thesis using ev by (simp add: handle_live_def)
next
  case False
  then have "keeps s_ok (handle_live e ev s0)"
    unfolding handle_live_def
    by (cases ev; simp only: s_event.case;
        (intro keeps_intros s_ok_ops handle_bank handle_plan handle_univ handle_deps handle_error)?; simp)
  then show ?thesis by (rule leads_pre) simp
qed

lemma handle_event_ok: "keeps s_ok (handle_event e ev)"
  unfolding handle_event_def
proof (rule leads_sget)
  fix s0
  have "leads (\<lambda>s. s_ok s \<and> s = s0) s_ok (sseq (smod (bump ''stale_generation_events'' 1)) (sret ''stale_generation''))"
    by (rule leads_pre [of s_ok]) (intro keeps_intros s_ok_ops, simp)
  then show "leads (\<lambda>s. s_ok s \<and> s = s0) s_ok (if ev_generation ev = None \<or> ev_generation ev \<noteq> s_provider_generation s0
     then sseq (smod (bump ''stale_generation_events'' 1)) (sret ''stale_generation'') else handle_live e ev s0)"
    using handle_live_ok by (rule leads_if)
qed

lemma do_metrics: "keeps s_ok (smod (\<lambda>s. let t = recount s in t \<lparr> s_shadow := expire_stale now max_age (s_shadow t) \<rparr>))"
proof (rule leads_smod)
  fix s assume "s_ok s"
  then have "s_ok (recount s)" by (intro recount_s_ok s_ok_shape)
  then show "s_ok (let t = recount s in t \<lparr> s_shadow := expire_stale now max_age (s_shadow t) \<rparr>)"
    by (rule s_ok_cong [rotated -1]) (auto simp: Let_def parts_ok_def expire_stale_ok)
qed

lemma do_paper: "keeps s_ok (smod (\<lambda>s. if s_ready s then s \<lparr> s_shadow := ingest_paper now (s_shadow s) rec \<rparr> else s))"
  by (rule leads_smod, erule s_ok_cong [rotated -1]) (auto simp: parts_ok_def ingest_paper_ok)

lemma s_do_ok: "keeps s_ok (s_do x)"
  unfolding s_do_def
  by (cases x; simp only: s_step.case; intro keeps_intros s_ok_ops handle_event_ok do_metrics do_paper)

section \<open>The log only grows\<close>

definition logged :: "bytes \<Rightarrow> s008 \<Rightarrow> bool" where
  "logged l s \<longleftrightarrow> prefix l (s_recon s)"

lemma logged_smod: "(\<And>s. s_recon (f s) = s_recon s) \<Longrightarrow> keeps (logged l) (smod f)"
  by (rule leads_smod) (simp add: logged_def)

lemma recon_sel [simp]:
  "s_recon (bump k n s) = s_recon s" "s_recon (set_m k n s) = s_recon s" "s_recon (upd_pool i f s) = s_recon s"
  "s_recon (recount s) = s_recon s" "s_recon (subscribe_all s) = s_recon s" "s_recon (fetch_async k ks t s) = s_recon s"
  "s_recon (note_bytes ev s) = s_recon s" "s_recon (wait_shape s) = s_recon s" "s_recon (note_wait i absent s) = s_recon s"
  "s_recon (load_boot accounts s) = s_recon s" "s_recon (start_bootstrap e g s) = s_recon s" "s_recon (count_tx k' s) = s_recon s"
  "s_recon (predict e sig r last_s sp direction amount s) = s_recon s" "s_recon (snd (add_required i pk role s)) = s_recon s"
  by (simp_all add: bump_def set_m_def upd_pool_def recount_def Let_def subscribe_all_def subscribe_keys_def fetch_async_def
      note_bytes_def wait_shape_def note_wait_def load_boot_def start_bootstrap_def count_tx_def predict_def add_required_def
      split: option.split)

lemma recon_add_bins [simp]: "s_recon (snd (add_bins i need s)) = s_recon s"
  by (induction need arbitrary: s) (simp_all add: add_bins_Cons, simp add: add_bins_def)

lemma recon_install [simp]: "s_recon (install_generation gen extra s) = s_recon s"
proof -
  have "s_recon (install_pool t row) = s_recon t" "s_recon (add_fetched t x) = s_recon t" for t row x
    by (simp_all add: install_pool_def add_fetched_def Let_def case_prod_unfold split: option.split)
  then have "s_recon (foldl install_pool t rows) = s_recon t" "s_recon (foldl add_fetched t xs) = s_recon t" for t rows xs
    by (induction rows arbitrary: t, simp_all) (induction xs arbitrary: t, simp_all)
  then show ?thesis by (simp add: install_generation_def Let_def)
qed

lemma recon_missing [simp]: "s_recon (add_missing s accounts) = s_recon s"
  unfolding add_missing_def
  by (induction accounts arbitrary: s) (simp_all add: add_fetched_def Let_def case_prod_unfold)

lemma logged_append [keeps_intros]: "keeps (logged l) (log_append w)"
  unfolding log_append_def by (intro keeps_intros leads_smod) (simp add: logged_def)

lemma logged_log_invalidate [keeps_intros]: "keeps (logged l) (log_invalidate i rx slot)"
  unfolding log_invalidate_def by (intro keeps_intros)

lemma logged_small [keeps_intros]:
  "keeps (logged l) (invalidate i rx slot)" "keeps (logged l) (set_status_op i st)" "keeps (logged l) (mark_uncertain e)"
  "keeps (logged l) mark_ready" "keeps (logged l) (fail_tx_incomplete e i hx)"
  unfolding invalidate_def set_status_op_def mark_uncertain_def mark_ready_def fail_tx_incomplete_def
  by (intro keeps_intros logged_smod; simp)+

lemma logged_reset [keeps_intros]: "keeps (logged l) (reset_connection e g)"
  unfolding reset_connection_def by (intro keeps_intros logged_smod; simp)

lemma logged_auth [keeps_intros]: "keeps (logged l) (auth_publish i pa)"
  by (auto simp: leads_def auth_publish_def Let_def case_prod_unfold logged_def)

lemma logged_install [keeps_intros]: "keeps (logged l) (install_published i pub blob proto)"
  unfolding install_published_def finish_publish_def by (intro keeps_intros logged_smod; simp)

lemma logged_bins [keeps_intros]: "keeps (logged l) (\<lambda>s. (Inr (fst (add_bins i need s)), snd (add_bins i need s)))"
  by (auto simp: leads_def logged_def)

lemma logged_publish [keeps_intros]: "keeps (logged l) (publish_kind e i slot accounts)"
  unfolding publish_kind_def publish_dlmm_def dlmm_bins_def dlmm_encode_def publish_pump_def pump_encode_def Let_def prod.case
  by (intro keeps_intros logged_smod; simp)

lemma keeps_gate_out:
  "(\<And>sig re. keeps P (f sig re)) \<Longrightarrow> keeps P a \<Longrightarrow> keeps P b \<Longrightarrow> (\<And>x. keeps P (g x)) \<Longrightarrow> keeps P d
    \<Longrightarrow> keeps P (case v of Go sig re \<Rightarrow> f sig re | Wait_slot \<Rightarrow> a | Wait_shape \<Rightarrow> b | Wait_writes x \<Rightarrow> g x | Incomplete \<Rightarrow> d)"
  by (cases v) simp_all

lemma logged_try [keeps_intros]: "keeps (logged l) (try_publish e stream_slot i)"
  unfolding try_publish_def publish_tx_def publish_boot_def Let_def
  by (intro keeps_intros logged_smod keeps_gate_out; simp)

lemma logged_maybe [keeps_intros]: "keeps (logged l) (maybe_publish e stream_slot)"
  unfolding maybe_publish_def by (intro keeps_intros)

lemma keeps_upd_class:
  "keeps P a \<Longrightarrow> keeps P b \<Longrightarrow> keeps P c \<Longrightarrow> keeps P d \<Longrightarrow> keeps P f \<Longrightarrow> keeps P g
    \<Longrightarrow> keeps P (case v of Upd_stale \<Rightarrow> a | Upd_below_floor \<Rightarrow> b | Upd_ambiguous \<Rightarrow> c | Upd_dup \<Rightarrow> d | Upd_old \<Rightarrow> f | Upd_new \<Rightarrow> g)"
  by (cases v) simp_all

lemma logged_update [keeps_intros]: "keeps (logged l) (apply_update ev from_buf)"
  unfolding apply_update_def ambiguous_update_def stage_write_def
  by (intro keeps_intros logged_smod keeps_upd_class keeps_for_deps; simp split: option.split)

lemma logged_tx [keeps_intros]: "keeps (logged l) (apply_tx e ev)"
  unfolding apply_tx_def require_expected_def fastsoak_predict_def predict_pump_def predict_dlmm_def Let_def
  by (intro keeps_intros logged_smod; simp add: case_prod_unfold)

lemma logged_bootstrap [keeps_intros]: "keeps (logged l) (finish_bootstrap e g token accounts)"
proof -
  have "keeps (logged l) (replay_one e b)" for b unfolding replay_one_def by (cases b) (simp_all add: logged_update logged_tx)
  then show ?thesis unfolding finish_bootstrap_def boot_pool_def ready_if_caught_up_def
    by (intro keeps_intros logged_smod; simp)
qed

lemma logged_on_slot [keeps_intros]: "keeps (logged l) (on_slot e g slot)"
  unfolding on_slot_def advance_slot_def expire_writes_def ready_if_caught_up_def by (intro keeps_intros logged_smod; simp)

lemma logged_event [keeps_intros]: "keeps (logged l) (handle_event e ev)"
proof -
  have "keeps (logged l) (handle_live e ev s0)" for s0
    unfolding handle_live_def buffer_def
    by (cases ev; simp only: s_event.case; intro keeps_intros logged_smod; simp add: Let_def)
  then show ?thesis unfolding handle_event_def by (intro keeps_intros logged_smod; simp)
qed

lemma logged_do: "keeps (logged l) (s_do x)"
  unfolding s_do_def by (cases x; simp only: s_step.case; intro keeps_intros logged_smod; simp add: Let_def)

section \<open>Runs of the owner\<close>

text \<open>A step that raises ends the thread it runs on; a run is a sequence of steps that return.\<close>

definition s_next :: "s008 \<Rightarrow> s_step \<Rightarrow> s008 option" where
  "s_next s x = (case s_do x s of (Inl _, _) \<Rightarrow> None | (Inr _, s') \<Rightarrow> Some s')"

fun s_run :: "s008 \<Rightarrow> s_step list \<Rightarrow> s008 option" where
  "s_run s [] = Some s"
| "s_run s (x # xs) = (case s_next s x of None \<Rightarrow> None | Some s' \<Rightarrow> s_run s' xs)"

lemma s_next_Some: "s_next s x = Some s' \<longleftrightarrow> (\<exists>y. s_do x s = (Inr y, s'))"
  by (auto simp: s_next_def split: prod.split sum.split)

interpretation owner: guarded_steps s_next s_ok "\<lambda>s s'. prefix (s_recon s) (s_recon s')"
proof
  show "s_ok s'" if "s_ok s" "s_next s x = Some s'" for s x s'
    using that s_do_ok [of x] by (auto simp: s_next_Some leads_def)
  show "prefix (s_recon s) (s_recon s')" if "s_ok s" "s_next s x = Some s'" for s x s'
    using that logged_do [of "s_recon s" x] by (auto simp: s_next_Some leads_def logged_def)
qed auto

lemma s_run_steps: "s_run s xs = owner.run_steps s xs"
  by (induction xs arbitrary: s) (simp_all split: option.split)

definition s_start :: "nat \<Rightarrow> bytes \<Rightarrow> s008" where
  "s_start cap recon = new_s008 (auth_start cap) recon"

lemma s_start_ok: "s_ok (s_start cap recon)"
proof -
  have "auth_ok (auth_start cap)" by (rule auth.inv_start)
  moreover have "seqs_even (auth_start cap)"
    by (simp add: seqs_even_def auth_start_def auth_create_def fresh_map_def list_all_length zero_pool_def)
  moreover have "gate_ok new_gate" by (rule shadow.inv_start)
  ultimately show ?thesis
    by (simp add: s_start_def s_ok_def okX_def new_s008_def parts_ok_def new_barrier_ok fresh_journal_ok)
qed

lemma s_run_ok: "s_run (s_start cap recon) xs = Some s \<Longrightarrow> s_ok s \<and> prefix recon (s_recon s)"
  using owner.run_keeps [OF s_start_ok [of cap recon], of xs s] by (simp add: s_run_steps s_start_def new_s008_def)

end
