(* ===== verification/State_Sample.thy ===== *)
theory State_Sample
  imports State_Reach
begin

text \<open>
  A run of the state owner on concrete input: the connection comes up, a processed slot starts
  the bootstrap, the plan names one pump pool with three accounts, and their contents arrive.
  At its end the owner is ready and the pool coherent. The properties of the owner are
  instantiated at this run.
\<close>

section \<open>Running operations at a state\<close>

lemma sbind_run: "sbind m f s = (case m s of (r, t) \<Rightarrow> (case r of Inl e \<Rightarrow> (Inl e, t) | Inr x \<Rightarrow> f x t))"
  by (simp add: sbind_def split: prod.split sum.split)

lemma sseq_run: "sseq m n s = (case m s of (r, t) \<Rightarrow> (case r of Inl e \<Rightarrow> (Inl e, t) | Inr x \<Rightarrow> n t))"
  by (simp add: sseq_def sbind_def split: prod.split sum.split)

lemma swhen_run: "swhen True m s = m s" "swhen False m s = (Inr (), s)"
  by (simp_all add: swhen_def)

lemmas run_rules = sbind_run sseq_run swhen_run
  fun_cong [OF log_append_def] fun_cong [OF mark_uncertain_def] fun_cong [OF mark_ready_def] fun_cong [OF reset_connection_def]
  fun_cong [OF with_pool_def] fun_cong [OF handle_event_def] fun_cong [OF handle_live_def] fun_cong [OF on_slot_def]
  fun_cong [OF advance_slot_def] fun_cong [OF ready_if_caught_up_def] fun_cong [OF finish_bootstrap_def]
  fun_cong [OF boot_pool_def] fun_cong [OF try_publish_def] fun_cong [OF publish_boot_def] fun_cong [OF publish_kind_def]
  fun_cong [OF publish_pump_def] fun_cong [OF pump_encode_def] fun_cong [OF install_published_def] fun_cong [OF finish_publish_def] fun_cong [OF s_do_def]

section \<open>The input\<close>

definition w_env :: env where
  "w_env = \<lparr> e_sha = (\<lambda>_. []), e_mono = 5, e_now = 6, e_token = ''t'', e_apply = (\<lambda>_ _ _ _. Inr None) \<rparr>"

definition w_acc :: "bytes \<Rightarrow> rpc_acc" where
  "w_acc d = \<lparr> ra_slot = 9, ra_owner = ''o'', ra_data = d, ra_lamports = 1 \<rparr>"

definition w_vault :: "8 word \<Rightarrow> bytes" where
  "w_vault n = zeros 64 @ [n, 0, 0, 0, 0, 0, 0, 0]"

definition w_pool :: gen_pool where
  "w_pool = \<lparr> gp_idx = 0, gp_kind = ''pump'', gp_pubkey = Some ''P'',
     gp_required = [(''P'', ROLE_PUMP_POOL), (''B'', ROLE_PUMP_VAULT_BASE), (''Q'', ROLE_PUMP_VAULT_QUOTE)], gp_optional = [],
     gp_n_required = 3, gp_active_id = None, gp_vault_base = Some ''B'', gp_vault_quote = Some ''Q'' \<rparr>"

definition w_plan :: generation where
  "w_plan = \<lparr> gn_accounts = [], gn_pools = [w_pool], gn_n_account = 3, gn_n_required = 3, gn_n_pool = 1, gn_univ_n = 1 \<rparr>"

definition w_accounts :: "(string, rpc_acc) dict" where
  "w_accounts = [(''P'', w_acc (zeros 211)), (''B'', w_acc (w_vault 3)), (''Q'', w_acc (w_vault 4))]"

definition w_steps :: "s_step list" where
  "w_steps = [Connect w_env ''g'',
     Handle w_env (EBank (BankEvidence (Some ''g'') 10 (Some 7) 1 (BankSlot None 0))),
     Handle w_env (EBootPlan (Some ''g'') (Some ''t'') w_plan),
     Handle w_env (EBootResult (Some ''g'') (Some ''t'') w_accounts)]"

section \<open>Connection and plan\<close>

definition w_log :: "bytes res \<Rightarrow> bytes" where
  "w_log r = (case r of Inr b \<Rightarrow> b | Inl _ \<Rightarrow> [])"

definition w_log1 :: bytes where "w_log1 = w_log (recon_plane False 0)"
definition w_log3 :: bytes where "w_log3 = w_log (recon_plane True 10)"

lemma w_logs: "recon_plane False 0 = Inr w_log1" "recon_plane True 10 = Inr w_log3"
  by code_simp+

lemmas w_base = s_next_def s_start_def new_s008_def w_env_def bump_def dflt_def new_gate_def

definition w2 :: "nat \<Rightarrow> s008" where
  "w2 cap = (s_start cap []) \<lparr> s_stream_slot := 10,
     s_bank_journal := fst (journal_apply (e_sha w_env) (fst (journal_apply (e_sha w_env) (new_journal JOURNAL_CAP) (BankGeneration (Some ''g''))))
        (BankEvidence (Some ''g'') 10 (Some 7) 1 (BankSlot None 0))),
     s_provider_generation := Some ''g'', s_bootstrap_token := Some ''t'', s_fetches := [FetchBootstrap (or_empty (Some ''g'')) ''t''],
     s_auth := reset_history (set_ready (auth_start cap) False 0 0), s_recon := w_log1, s_m := [(''gaps'', 1)] \<rparr>"

lemma w_run2: "s_run (s_start cap []) (take 2 w_steps) = Some (w2 cap)"
  by (simp add: w_steps_def w2_def run_rules w_base w_logs(1) ev_generation_def bank_generation_def processed_slot_def start_bootstrap_def)

definition w_dep :: "string \<Rightarrow> acc_dep" where
  "w_dep role = \<lparr> dr_pool_idx = 0, dr_role = role, dr_kind = ''pump'', ad_required = True \<rparr>"

definition w_deps :: "(string, acc_dep list) dict" where
  "w_deps = [(''P'', [w_dep ROLE_PUMP_POOL]), (''B'', [w_dep ROLE_PUMP_VAULT_BASE]), (''Q'', [w_dep ROLE_PUMP_VAULT_QUOTE])]"

definition w3 :: "nat \<Rightarrow> s008" where
  "w3 cap = (w2 cap) \<lparr> s_acc_deps := w_deps, s_pools := [(0, new_pool_rec w_pool)], s_proto_of := [(0, PROTO_PUMP)], s_univ_n := 1,
     s_sub_keys := [''P'', ''B'', ''Q''], s_req_q := [(Some ''g'', [''P'', ''B'', ''Q''])],
     s_fetches := [FetchBootstrap (or_empty (Some ''g'')) ''t'', FetchAccounts ''bootstrap_result'' [''P'', ''B'', ''Q''] (Some ''t'') (Some ''g'') 10],
     s_m := [(''gaps'', 1), (''dependencies_expected'', 3), (''dependencies_received'', 0), (''dependencies_subscribed'', 3), (''pool_complete'', 0)] \<rparr>"

lemma w_install: "s_pools s = [] \<Longrightarrow> s_proto_of s = [] \<Longrightarrow> s_acc_deps s = [] \<Longrightarrow>
    install_pool s w_pool = s \<lparr> s_pools := [(0, new_pool_rec w_pool)], s_proto_of := [(0, PROTO_PUMP)], s_acc_deps := w_deps \<rparr>"
  by (simp add: install_pool_def Let_def w_pool_def add_dep_def dflt_def has_dep_def w_dep_def w_deps_def)

lemma w_recount: "s_bytes s = [] \<Longrightarrow> s_pools s = [(0, new_pool_rec w_pool)] \<Longrightarrow>
    recount s = s \<lparr> s_m := dput ''pool_complete'' 0 (dput ''dependencies_subscribed'' (int (length (s_sub_keys s)))
      (dput ''dependencies_received'' 0 (s_m s))) \<rparr>"
  by (simp add: recount_def Let_def set_m_def has_data_def row_of_def no_data_def empty_row_def or_bytes_def recount_pool_def
      n_coherent_def new_pool_rec_def)

lemma w_planned:
  "fetch_async ''bootstrap_result'' [''P'', ''B'', ''Q''] (Some ''t'') (subscribe_all (install_generation w_plan [] (w2 cap))) = w3 cap"
  "s_acc_deps (install_generation w_plan [] (w2 cap)) = w_deps"
  "s_bootstrap_token (subscribe_all (install_generation w_plan [] (w2 cap))) = Some ''t''"
  by (simp_all add: install_generation_def w_plan_def Let_def set_m_def w_install w_recount w2_def w3_def w_base subscribe_all_def
      subscribe_keys_def fetch_async_def w_deps_def)

lemma w_next3: "s_next (w2 cap) (w_steps ! 2) = Some (w3 cap)"
proof -
  have sel: "s_bootstrap_token (w2 cap) = Some ''t''" "\<not> s_bootstrap_done (w2 cap)" "s_provider_generation (w2 cap) = Some ''g''"
    by (simp_all add: w2_def w_base)
  have keys: "map fst w_deps = [''P'', ''B'', ''Q'']" by (simp add: w_deps_def)
  show ?thesis by (simp add: w_steps_def s_next_def run_rules ev_generation_def sel w_planned keys Let_def)
qed

section \<open>The accounts\<close>

definition w_row :: "bytes \<Rightarrow> acc_row" where
  "w_row d = rpc_row (Some ''g'') (w_acc d)"

definition w_bytes :: "(string, acc_row) dict" where
  "w_bytes = [(''P'', w_row (zeros 211)), (''B'', w_row (w_vault 3)), (''Q'', w_row (w_vault 4))]"

definition w4 :: "nat \<Rightarrow> s008" where
  "w4 cap = (w3 cap) \<lparr> s_bytes := w_bytes, s_rpc_floors := [(''P'', 9), (''B'', 9), (''Q'', 9)], s_bootstrap_slot := 9 \<rparr>"

lemma w_not_Nil: "zeros 211 \<noteq> []" "w_vault n \<noteq> []"
  by (simp_all add: zeros_def w_vault_def)

lemma w_load: "load_boot w_accounts (w3 cap) = w4 cap"
  by (simp add: load_boot_def w3_def w4_def w2_def w_base w_accounts_def boot_bytes_def boot_floors_def w_acc_def w_not_Nil
      w_bytes_def w_row_def)

lemma w_has: "\<not> no_data (row_of w_bytes ''P'')" "\<not> no_data (row_of w_bytes ''B'')" "\<not> no_data (row_of w_bytes ''Q'')"
  by (simp_all add: w_bytes_def row_of_def no_data_def or_bytes_def w_row_def rpc_row_def w_acc_def w_not_Nil)

lemma w_full: "s_bytes s = w_bytes \<Longrightarrow> p_required r = [''P'', ''B'', ''Q''] \<Longrightarrow> pool_complete s r"
  by (simp add: pool_complete_def has_data_def w_has)

lemma w_slot: "s_bytes s = w_bytes \<Longrightarrow> p_required r = [''P'', ''B'', ''Q''] \<Longrightarrow> boot_slot_of s r = 9"
  by (simp add: boot_slot_of_def w_bytes_def row_of_def slot_or0_def w_row_def rpc_row_def w_acc_def)

lemma w_freeze: "s_bytes s = w_bytes \<Longrightarrow> freeze s [''P'', ''B'', ''Q''] = w_bytes"
  by (simp add: freeze_def w_bytes_def row_of_def)

definition w_at :: "string \<Rightarrow> bytes option" where
  "w_at = role_data (w4 0) 0 w_bytes [''P'', ''B'', ''Q'']"

lemma w_role: "s_acc_deps s = w_deps \<Longrightarrow> role_data s 0 w_bytes [''P'', ''B'', ''Q''] = w_at"
  by (simp add: fun_eq_iff role_data_def used_role_def roles_of_def w_at_def w4_def w3_def)

lemma w_at_simps:
  "w_at ROLE_PUMP_POOL = Some (zeros 211)" "w_at ROLE_PUMP_VAULT_BASE = Some (w_vault 3)" "w_at ROLE_PUMP_VAULT_QUOTE = Some (w_vault 4)"
  "w_at ROLE_PUMP_GLOBAL = None" "w_at ROLE_PUMP_FEE_CONFIG = None" "w_at ROLE_MINT = None"
  by (simp_all add: w_at_def role_data_def last_with_def used_role_def roles_of_def w4_def w3_def w_deps_def dflt_def w_dep_def PUMP_ROLES_def
    ROLE_PUMP_POOL_def ROLE_PUMP_VAULT_BASE_def ROLE_PUMP_VAULT_QUOTE_def ROLE_PUMP_GLOBAL_def ROLE_PUMP_FEE_CONFIG_def ROLE_MINT_def
    data_of_def row_of_def w_bytes_def w_row_def rpc_row_def w_acc_def or_bytes_def)

section \<open>The publication\<close>

definition w_pump :: pump_pool where
  "w_pump = the (parse_pump_pool (zeros 211))"

definition w_pub :: pub_pump where
  "w_pub = pump_published w_env None None None (20, 5, 0, 0) w_pump 3 4 9"

definition w_blob :: bytes where
  "w_blob = w_log (write_pump (pump_state_of w_pub w_pump))"

definition w_log2 :: bytes where "w_log2 = w_log (recon_auth PROTO_PUMP 0 9 w_blob)"

lemma w_parsed: "parse_pump_pool (zeros 211) = Some w_pump" "token_amount (w_vault 3) = 3" "token_amount (w_vault 4) = 4"
  by code_simp+

lemma w_written: "write_pump (pump_state_of w_pub w_pump) = Inr w_blob" "length w_blob = 50" "us_slot w_pub = 9"
  "recon_auth PROTO_PUMP 0 9 w_blob = Inr w_log2"
  by code_simp+

definition w_rec :: pool_rec where
  "w_rec = (new_pool_rec w_pool) \<lparr> p_stage := no_stage \<lparr> st_slot := Some 9, st_rx := Some 5, st_sig := Some BOOT_SIG \<rparr> \<rparr>"

definition w_done :: pool_rec where
  "w_done = w_rec \<lparr> p_status := ST_COHERENT, p_gen := 1, p_last_s := Some (PubPump w_pub), p_last_blob := Some w_blob \<rparr>"

definition w_args :: publish_args where
  "w_args = finish_args w_done 9 w_blob PROTO_PUMP"

lemma w_args: "pa_txn_index w_args = None" "pa_write_version w_args = None" "entry_packs w_args"
  by code_simp+

lemma w_publish: "auth_publish i w_args s = (Inr (), s \<lparr> s_auth := fst (publish (s_auth s) i w_args) \<rparr>)"
proof -
  have "snd (publish (s_auth s) i w_args) = None" by (simp add: publish_def w_args Let_def split: option.split)
  then show ?thesis by (simp add: auth_publish_def Let_def case_prod_unfold)
qed

lemma w_rec_sel: "p_required w_rec = [''P'', ''B'', ''Q'']" "p_kind w_rec = ''pump''" "p_stage w_rec \<noteq> no_stage" "p_gen w_rec = 0"
   "st_sig (p_stage w_rec) = Some BOOT_SIG" "st_slot (p_stage w_rec) = Some 9" "\<not> st_reconcile (p_stage w_rec)"
  by (simp_all add: w_rec_def new_pool_rec_def w_pool_def no_stage_def)

lemma w_publish_pump:
  assumes "s_bytes s = w_bytes" "s_acc_deps s = w_deps" "s_pools s = [(0, w_rec \<lparr> p_stage := st \<rparr>)]" "s_fees s = (20, 5, 0, 0)"
    "st_sig st = Some BOOT_SIG"
  shows "\<exists>t. publish_pump w_env 0 9 w_bytes s = (Inr True, t) \<and> s_bytes t = w_bytes
    \<and> s_pools t = [(0, w_done \<lparr> p_stage := no_stage, p_staged := [] \<rparr>)] \<and> s_stream_slot t = s_stream_slot s
    \<and> s_bootstrap_slot t = s_bootstrap_slot s \<and> s_provider_generation t = s_provider_generation s \<and> s_bootstrap_done t = s_bootstrap_done s
    \<and> s_auth t = fst (publish (s_auth s) 0 w_args) \<and> s_proto_of t = s_proto_of s"
proof -
  have slot: "pub_slot (PubPump w_pub) = 9" by (simp add: pub_slot_def w_written)
  have *: "w_rec \<lparr> p_stage := st, p_status := ST_COHERENT, p_gen := Suc 0, p_last_s := Some (PubPump w_pub), p_last_blob := Some w_blob \<rparr> = w_done \<lparr> p_stage := st \<rparr>"
    by (simp add: w_done_def)
  moreover have "finish_args (w_done \<lparr> p_stage := st \<rparr>) 9 w_blob PROTO_PUMP = w_args"
    using assms(5) by (simp add: finish_args_def w_args_def w_done_def w_rec_sel)
  moreover have "pump_published w_env None None None (20, 5, 0, 0) w_pump 3 4 9 = w_pub" by (simp add: w_pub_def)
  ultimately show ?thesis using assms
    by (simp add: run_rules w_rec_sel w_has w_role w_at_simps w_parsed w_written slot upd_pool_def bump_def Let_def
        w_publish)
qed

lemma w_try:
  assumes "s_bytes s = w_bytes" "s_acc_deps s = w_deps" "s_pools s = [(0, w_rec)]" "s_fees s = (20, 5, 0, 0)"
  shows "\<exists>t. try_publish w_env 10 0 s = (Inr (), t) \<and> s_bytes t = w_bytes
    \<and> s_pools t = [(0, w_done \<lparr> p_stage := no_stage, p_staged := [] \<rparr>)] \<and> s_stream_slot t = s_stream_slot s
    \<and> s_bootstrap_slot t = s_bootstrap_slot s \<and> s_provider_generation t = s_provider_generation s \<and> s_bootstrap_done t = s_bootstrap_done s
    \<and> s_auth t = fst (publish (s_auth s) 0 w_args) \<and> s_proto_of t = s_proto_of s"
proof -
  have go: "publish_gate s w_rec 10 = Go (Some BOOT_SIG) False" by (simp add: publish_gate_def Let_def w_rec_sel BOOT_SIG_def)
  obtain t where t: "publish_pump w_env 0 9 w_bytes s = (Inr True, t)" "s_bytes t = w_bytes"
      "s_pools t = [(0, w_done \<lparr> p_stage := no_stage, p_staged := [] \<rparr>)]" "s_stream_slot t = s_stream_slot s"
      "s_bootstrap_slot t = s_bootstrap_slot s" "s_provider_generation t = s_provider_generation s" "s_bootstrap_done t = s_bootstrap_done s"
      "s_auth t = fst (publish (s_auth s) 0 w_args)" "s_proto_of t = s_proto_of s"
    using w_publish_pump [of s "p_stage w_rec"] assms by (auto simp: w_rec_sel)
  have "publish_boot w_env 0 9 False s = (Inr (), t)"
    using t(1) w_freeze [of s] assms(1,3)
    by (simp add: fun_cong [OF publish_boot_def] fun_cong [OF with_pool_def] fun_cong [OF publish_kind_def] sbind_run swhen_run w_rec_sel)
  then have "try_publish w_env 10 0 s = (Inr (), t)"
    using go w_full [of s w_rec] assms(1,3)
    by (simp add: fun_cong [OF try_publish_def] fun_cong [OF with_pool_def] sbind_run sseq_run swhen_run w_rec_sel is_tx_sig_def)
  with t show ?thesis by blast
qed

lemma w_boot:
  assumes "s_bytes s = w_bytes" "s_acc_deps s = w_deps" "s_pools s = [(0, new_pool_rec w_pool)]" "s_fees s = (20, 5, 0, 0)"
    "s_stream_slot s = 10"
  shows "\<exists>t. boot_pool w_env 0 s = (Inr (), t) \<and> s_bytes t = w_bytes
    \<and> s_pools t = [(0, w_done \<lparr> p_stage := no_stage, p_staged := [] \<rparr>)] \<and> s_stream_slot t = s_stream_slot s
    \<and> s_bootstrap_slot t = s_bootstrap_slot s \<and> s_provider_generation t = s_provider_generation s \<and> s_bootstrap_done t = s_bootstrap_done s
    \<and> s_auth t = fst (publish (s_auth s) 0 w_args) \<and> s_proto_of t = s_proto_of s"
proof -
  let ?s = "s \<lparr> s_pools := [(0, w_rec)] \<rparr>"
  have req: "p_required (new_pool_rec w_pool) = [''P'', ''B'', ''Q'']" by (simp add: new_pool_rec_def w_pool_def)
  have staged: "upd_pool 0 (\<lambda>q. q \<lparr> p_stage := no_stage \<lparr> st_slot := Some 9, st_rx := Some 5, st_sig := Some BOOT_SIG \<rparr> \<rparr>) s = ?s"
    using assms(3) by (simp add: upd_pool_def w_rec_def)
  obtain t where t: "try_publish w_env 10 0 ?s = (Inr (), t)" "s_bytes t = w_bytes"
      "s_pools t = [(0, w_done \<lparr> p_stage := no_stage, p_staged := [] \<rparr>)]" "s_stream_slot t = s_stream_slot s"
      "s_bootstrap_slot t = s_bootstrap_slot s" "s_provider_generation t = s_provider_generation s" "s_bootstrap_done t = s_bootstrap_done s"
      "s_auth t = fst (publish (s_auth s) 0 w_args)" "s_proto_of t = s_proto_of s"
    using w_try [of ?s] assms by auto
  show ?thesis using t staged w_full [OF assms(1) req] w_slot [OF assms(1) req] assms(3,5)
    by (simp add: fun_cong [OF boot_pool_def] fun_cong [OF with_pool_def] sbind_run sseq_run w_env_def)
qed

definition w5 :: "nat \<Rightarrow> s008" where
  "w5 cap = (w4 cap) \<lparr> s_bootstrap_done := True, s_bootstrapping := False \<rparr>"

lemma w5_sel:
  "s_bytes (w5 cap) = w_bytes" "s_acc_deps (w5 cap) = w_deps" "s_pools (w5 cap) = [(0, new_pool_rec w_pool)]"
  "s_fees (w5 cap) = (20, 5, 0, 0)" "s_stream_slot (w5 cap) = 10" "s_bootstrap_slot (w5 cap) = 9"
  "s_provider_generation (w5 cap) = Some ''g''" "s_bootstrap_done (w5 cap)"
  "s_auth (w5 cap) = reset_history (set_ready (auth_start cap) False 0 0)" "s_proto_of (w5 cap) = [(0, PROTO_PUMP)]"
  by (simp_all add: w5_def w4_def w3_def w2_def w_base)

definition w_final :: pool_rec where
  "w_final = w_done \<lparr> p_stage := no_stage, p_staged := [] \<rparr>"

lemma recount_more [simp]:
  "s_stream_slot (recount s) = s_stream_slot s" "s_bootstrap_slot (recount s) = s_bootstrap_slot s"
  "s_provider_generation (recount s) = s_provider_generation s" "s_bootstrap_done (recount s) = s_bootstrap_done s"
  "s_proto_of (recount s) = s_proto_of s"
  by (simp_all add: recount_def Let_def set_m_def)

definition w_auth :: "nat \<Rightarrow> auth_pub" where
  "w_auth cap = set_ready (fst (publish (reset_history (set_ready (auth_start cap) False 0 0)) 0 w_args)) True 1 10"

lemma w_next4: "\<exists>s. s_next (w3 cap) (w_steps ! 3) = Some s \<and> s_ready s \<and> s_pools s = [(0, w_final)] \<and> s_auth s = w_auth cap
    \<and> s_proto_of s = [(0, PROTO_PUMP)] \<and> s_stream_slot s = 10"
proof -
  obtain t where t: "boot_pool w_env 0 (w5 cap) = (Inr (), t)" "s_bytes t = w_bytes" "s_pools t = [(0, w_final)]"
      "s_stream_slot t = 10" "s_bootstrap_slot t = 9" "s_provider_generation t = Some ''g''" "s_bootstrap_done t"
      "s_auth t = fst (publish (reset_history (set_ready (auth_start cap) False 0 0)) 0 w_args)" "s_proto_of t = [(0, PROTO_PUMP)]"
    using w_boot [of "w5 cap"] by (auto simp: w5_sel w_final_def)
  have sel: "s_provider_generation (w3 cap) = Some ''g''" "s_bootstrap_token (w3 cap) = Some ''t''" "\<not> s_bootstrap_done (w3 cap)" "s_buf (w3 cap) = []"
    by (simp_all add: w3_def w2_def w_base)
  have final: "p_required w_final = [''P'', ''B'', ''Q'']" by (simp add: w_final_def w_done_def w_rec_sel)
  have rc: "s_pools (recount t) = [(0, w_final)]" using w_full [OF t(2) final] t(3) by (simp add: recount_pools recount_pool_def)
  let ?u = "(recount t) \<lparr> s_ready := True, s_bootstrapping := False, s_ready_file := True,
      s_auth := set_ready (s_auth t) True 1 10, s_recon := s_recon t @ w_log3 \<rparr>"
  have ready: "ready_if_caught_up (recount t) = (Inr (), ?u)"
    using t(4-7) rc by (simp add: fun_cong [OF ready_if_caught_up_def] fun_cong [OF mark_ready_def] fun_cong [OF log_append_def]
        sbind_run sseq_run swhen_run w_logs)
  have p4: "s_pools (w4 cap) = [(0, new_pool_rec w_pool)]" by (simp add: w4_def w3_def)
  have w5: "w4 cap \<lparr> s_bootstrap_done := True, s_bootstrapping := False \<rparr> = w5 cap" by (simp add: w5_def)
  have "finish_bootstrap w_env (Some ''g'') (Some ''t'') w_accounts (w3 cap) = (Inr (), ?u)"
    by (simp add: fun_cong [OF finish_bootstrap_def] sbind_run sseq_run stale_def sel w_load w5 p4 t(1) ready)
  then have "s_next (w3 cap) (w_steps ! 3) = Some ?u"
    by (simp add: w_steps_def s_next_def fun_cong [OF s_do_def] fun_cong [OF handle_event_def] fun_cong [OF handle_live_def]
        sbind_run sseq_run ev_generation_def sel)
  then show ?thesis using rc t(4,8,9) by (simp add: w_auth_def)
qed

lemma w_run: "\<exists>s. s_run (s_start cap []) w_steps = Some s \<and> s_ready s \<and> s_pools s = [(0, w_final)] \<and> s_auth s = w_auth cap
    \<and> s_proto_of s = [(0, PROTO_PUMP)] \<and> s_stream_slot s = 10"
proof -
  obtain s where s: "s_next (w3 cap) (w_steps ! 3) = Some s" "s_ready s" "s_pools s = [(0, w_final)]" "s_auth s = w_auth cap"
      "s_proto_of s = [(0, PROTO_PUMP)]" "s_stream_slot s = 10"
    using w_next4 [of cap] by blast
  have "s_run (s_start cap []) w_steps = Some s"
    using w_run2 [of cap] w_next3 [of cap] s(1) by (simp add: w_steps_def split: option.split_asm)
  with s show ?thesis by blast
qed

lemma w_final_sel: "p_status w_final = ST_COHERENT" "p_required w_final = [''P'', ''B'', ''Q'']"
    "p_last_s w_final = Some (PubPump w_pub)" "p_last_blob w_final = Some w_blob"
  by (simp_all add: w_final_def w_done_def w_rec_sel)

lemma w_in_ring: "in_ring (w_auth 1) 0"
proof -
  have "pub_mm (foldl auth_handle (auth_start 1) [auth_event.EvReady False 0 0, auth_event.EvReset, auth_event.EvPublish 0 w_args, auth_event.EvReady True 1 10]) \<noteq> None
      \<and> pub_cap (foldl auth_handle (auth_start 1) [auth_event.EvReady False 0 0, auth_event.EvReset, auth_event.EvPublish 0 w_args, auth_event.EvReady True 1 10]) = pub_cap (auth_start 1)"
    by (rule auth_run_open) (simp add: auth_start_def auth_create_def)
  then show ?thesis by (simp add: in_ring_def w_auth_def auth_handle_def auth_start_def auth_create_def POOL_CAP_def)
qed

end
