(* ===== verification/State_Props.thy ===== *)
theory State_Props
  imports State_Sample
begin

text \<open>
  The properties of the state owner of \<^verbatim>\<open>arb-state/shyft/state008.py\<close>, over every run of its threads.
\<close>

section \<open>Every reachable state\<close>

lemma s_run_pool:
  assumes "s_run (s_start cap recon) xs = Some s" and "dget (s_pools s) i = Some r"
  shows "pool_inv {} s i r"
proof -
  have "okX (map fst (s_pools s)) {} s" using s_run_ok [OF assms(1)] by (simp add: s_ok_def)
  then show ?thesis using assms(2) by (rule okX_dget)
qed

text \<open>
  C2: in every state the owner reaches, by whatever events and threads in whatever order, a
  pool that is marked coherent has at least one required account, has contents for every one of
  them, and is found under each of them when that account changes, so that no later write to
  any of them can pass it by.
\<close>
theorem coherent_pool_is_complete:
  assumes "s_run (s_start cap recon) xs = Some s" and "dget (s_pools s) i = Some r" and "p_status r = ST_COHERENT"
  shows "p_required r \<noteq> [] \<and> (\<forall>pk\<in>set (p_required r). \<not> no_data (row_of (s_bytes s) pk) \<and> i \<in> dep_pools s pk)"
proof -
  have inv: "pool_inv {} s i r" by (rule s_run_pool [OF assms(1,2)])
  then have "i \<in> dep_pools s pk" if "pk \<in> set (p_required r)" for pk
    using that by (force simp: pool_inv_def indexed_def dep_pools_def)
  then show ?thesis using inv assms(3) by (auto simp: pool_inv_def pool_complete_def has_data_def list_all_iff)
qed

theorem coherent_pool_is_complete_witness:
  "\<exists>s r. s_run (s_start 1 []) w_steps = Some s \<and> dget (s_pools s) 0 = Some r \<and> p_status r = ST_COHERENT
     \<and> \<not> no_data (row_of (s_bytes s) ''Q'') \<and> 0 \<in> dep_pools s ''B''"
proof -
  obtain s where s: "s_run (s_start 1 []) w_steps = Some s" "s_pools s = [(0, w_final)]" using w_run by blast
  have r: "dget (s_pools s) 0 = Some w_final" by (simp add: s(2))
  from coherent_pool_is_complete [OF s(1) r w_final_sel(1)] r s(1) show ?thesis by (auto simp: w_final_sel)
qed





section \<open>A new connection\<close>

definition all_gapped :: "int set \<Rightarrow> s008 \<Rightarrow> bool" where
  "all_gapped Y s \<longleftrightarrow> (\<forall>i r. dget (s_pools s) i = Some r \<longrightarrow> i \<notin> Y \<longrightarrow>
     p_status r = ST_GAPPED \<and> p_stage r = no_stage \<and> p_last_s r = None \<and> p_last_blob r = None)"

definition wiped :: "string option \<Rightarrow> s008 \<Rightarrow> bool" where
  "wiped g s \<longleftrightarrow> \<not> s_ready s \<and> s_provider_generation s = g \<and> \<not> s_bootstrap_done s \<and> s_bytes s = [] \<and> s_buf s = []
     \<and> s_barrier s = new_barrier \<and> g_pending (s_shadow s) = [] \<and> (\<forall>i. in_ring (s_auth s) i \<longrightarrow> seen_by_readers (s_auth s) i = None)"

lemma reset_history_blind: "auth_ok a \<Longrightarrow> in_ring (reset_history a) i \<Longrightarrow> seen_by_readers (reset_history a) i = None"
  by (auto simp: in_ring_def seen_by_readers_def reset_history_def set_ready_def reset_pool_eq auth_ok_def latest_def Let_def
      split: option.split_asm)

lemma wiped_upd [simp]: "wiped g (upd_pool i f s) = wiped g s"
  by (simp add: wiped_def upd_pool_def split: option.split)

lemma keeps_wiped_log: "keeps (\<lambda>s. wiped g s \<and> all_gapped Y s) (log_invalidate i rx slot)"
  unfolding log_invalidate_def log_append_def
  by (intro keeps_intros leads_smod) (simp add: wiped_def all_gapped_def)

lemma reset_wipes: "leads (okX K X) (\<lambda>s. wiped g s \<and> all_gapped {} s) (reset_connection e g)"
proof -
  have gap: "leads (\<lambda>s. wiped g s \<and> all_gapped Y s) (\<lambda>s. wiped g s \<and> all_gapped (Y - {fst x}) s)
      (case x of (i, _) \<Rightarrow> sseq (smod (upd_pool i clear_pool)) (log_invalidate i (e_mono e) 0))" for Y and x :: "int \<times> pool_rec"
    by (cases x, simp only: prod.case fst_conv, rule leads_sseq [OF _ keeps_wiped_log], rule leads_smod)
       (auto simp: all_gapped_def upd_pool_dget clear_pool_def split: if_split_asm)
  have loop: "leads (wiped g) (\<lambda>s. wiped g s \<and> all_gapped {} s) (sbind (sget s_pools) (\<lambda>pools. sfor pools (\<lambda>(i, _).
      sseq (smod (upd_pool i clear_pool)) (log_invalidate i (e_mono e) 0))))" (is "leads _ _ (sbind _ (\<lambda>pools. sfor pools ?f))")
  proof (rule leads_sget)
    fix pools
    have "leads (\<lambda>s. wiped g s \<and> all_gapped (fst ` set pools) s) (\<lambda>s. wiped g s \<and> all_gapped (fst ` set pools - fst ` set pools) s) (sfor pools ?f)"
      by (rule leads_sfor [where P = "\<lambda>Y s. wiped g s \<and> all_gapped Y s"]) (rule gap)
    then show "leads (\<lambda>s. wiped g s \<and> s_pools s = pools) (\<lambda>s. wiped g s \<and> all_gapped {} s) (sfor pools ?f)"
      unfolding Diff_cancel by (rule leads_pre) (force simp: all_gapped_def dest!: map_of_SomeD)
  qed
  have first: "leads (okX K X) (\<lambda>s. okX K X s \<and> down s) (mark_uncertain e)"
    using keeps_mark_uncertain [of K X e] mark_uncertain_down [of "okX K X" e] unfolding leads_def by blast
  show ?thesis unfolding reset_connection_def
    by (rule leads_sseq [OF first], rule leads_sseq [OF _ loop], rule leads_smod)
       (auto simp: wiped_def down_def okX_def parts_ok_def reset_history_blind)
qed


lemma w_invalidate: "recon_invalidate PROTO_PUMP 0 5 0 = Inr (w_log (recon_invalidate PROTO_PUMP 0 5 0))"
    "recon_invalidate PROTO_PUMP 0 5 10 = Inr (w_log (recon_invalidate PROTO_PUMP 0 5 10))" "recon_plane False 10 = Inr (w_log (recon_plane False 10))"
  by code_simp+


section \<open>When a pool is published\<close>

definition gen_at :: "int \<Rightarrow> nat \<Rightarrow> s008 \<Rightarrow> bool" where
  "gen_at i n s \<longleftrightarrow> (\<forall>r. dget (s_pools s) i = Some r \<longrightarrow> p_gen r = n)"

lemma gen_smod: "(\<And>s. s_pools (f s) = s_pools s) \<Longrightarrow> keeps (gen_at i n) (smod f)"
  by (rule leads_smod) (simp add: gen_at_def)

lemma gen_upd: "(\<And>r. p_gen (f r) = p_gen r) \<Longrightarrow> keeps (gen_at i n) (smod (upd_pool j f))"
  by (rule leads_smod) (auto simp: gen_at_def upd_pool_dget)

lemma gen_log: "keeps (gen_at i n) (log_invalidate j rx slot)"
  unfolding log_invalidate_def log_append_def by (intro keeps_intros gen_smod) simp

lemma gen_fail: "keeps (gen_at i n) (fail_tx_incomplete e j hx)"
  unfolding fail_tx_incomplete_def by (intro keeps_intros gen_smod gen_upd gen_log) simp_all

lemma snapshot_available: "snd (snapshot b sig i required rows) = Some accounts \<Longrightarrow> snapshot b sig i required rows = (''available'', Some accounts)"
  by (auto simp: snapshot_def Let_def split: option.split_asm if_split_asm)

lemma publish_tx_only_available:
  assumes "publish_tx e i slot sig s = (Inr (), s')" and "dget (s_pools s) i = Some r" and "dget (s_pools s') i = Some r'"
    and "p_gen r' \<noteq> p_gen r"
  shows "\<exists>accounts. snapshot (s_barrier s) (sig_text sig) i (p_required r) (s_bytes s) = (''available'', Some accounts)"
proof (cases "snd (snapshot (s_barrier s) (sig_text sig) i (p_required r) (s_bytes s))")
  case None
  let ?why = "fst (snapshot (s_barrier s) (sig_text sig) i (p_required r) (s_bytes s))"
  let ?m = "sseq (smod (\<lambda>s. s \<lparr> s_rejections := dput ?why (dflt (s_rejections s) ?why 0 + 1) (s_rejections s) \<rparr>))
     (fail_tx_incomplete e i (sig_text sig))"
  have "keeps (gen_at i (p_gen r)) ?m" by (intro keeps_intros gen_smod gen_fail) simp
  moreover have "?m s = (Inr (), s')"
    using assms(1,2) None by (simp add: publish_tx_def with_pool_def case_prod_unfold)
  moreover have "gen_at i (p_gen r) s" using assms(2) by (simp add: gen_at_def)
  ultimately have "gen_at i (p_gen r) s'" unfolding leads_def by blast
  then show ?thesis using assms(3,4) by (simp add: gen_at_def)
next
  case (Some accounts)
  then show ?thesis using snapshot_available by blast
qed

lemma publish_gate_tx: "publish_gate s r n = Go sig re \<Longrightarrow> is_tx_sig sig \<Longrightarrow> sig = st_sig (p_stage r) \<and> \<not> re
    \<and> has_shape (s_barrier s) (sig_text (the sig)) (p_idx r)"
  by (auto simp: publish_gate_def Let_def is_tx_sig_def split: if_split_asm option.split_asm)

lemma publish_gate_Go: "publish_gate s r n = Go sig re \<Longrightarrow> \<not> is_tx_sig sig \<Longrightarrow> is_tx_sig (st_sig (p_stage r))
    \<Longrightarrow> \<not> has_shape (s_barrier s) (sig_text (the (st_sig (p_stage r)))) (p_idx r) \<and> n > or0 (st_slot (p_stage r)) + 8"
  by (auto simp: publish_gate_def Let_def is_tx_sig_def split: if_split_asm option.split_asm)

text \<open>
  C7: a pool's state is published for a transaction only on proof. If an attempt to publish
  advances the generation of a pool whose staged writes carry a transaction signature, all its
  accounts are present and either the transaction's expected writes are known and the barrier
  froze a read set that contains exactly them, or no swap of a known shape has claimed the
  signature and the stream is more than eight slots past it.
\<close>
theorem publication_needs_proof:
  assumes "try_publish e n i s = (Inr (), s')" and "dget (s_pools s) i = Some r" and "dget (s_pools s') i = Some r'"
    and "p_gen r' \<noteq> p_gen r" and "p_idx r = i" and "st_sig (p_stage r) = Some sig" and "is_tx_sig (Some sig)"
  shows "pool_complete s r \<and>
    (has_shape (s_barrier s) (sig_text sig) i
       \<and> (\<exists>accounts. snapshot (s_barrier s) (sig_text sig) i (p_required r) (s_bytes s) = (''available'', Some accounts))
     \<or> \<not> has_shape (s_barrier s) (sig_text sig) i \<and> n > or0 (st_slot (p_stage r)) + 8)"
proof -
  have g0: "gen_at i (p_gen r) s" using assms(2) by (simp add: gen_at_def)
  have moved: "\<not> gen_at i (p_gen r) s'" using assms(3,4) by (auto simp: gen_at_def)
  have no: False if "keeps (gen_at i (p_gen r)) m" "m s = (Inr (), s')" for m :: "unit op"
    using that g0 moved unfolding leads_def by blast
  have full: "pool_complete s r"
  proof (rule ccontr)
    assume "\<not> pool_complete s r"
    then have "set_status_op i ST_INCOMPLETE s = (Inr (), s')" using assms(1,2) by (simp add: try_publish_def with_pool_def)
    moreover have "keeps (gen_at i (p_gen r)) (set_status_op i ST_INCOMPLETE)"
      unfolding set_status_op_def by (rule gen_upd) (simp add: set_pool_status_def)
    ultimately show False using no by blast
  qed
  have staged: "p_stage r \<noteq> no_stage" using assms(6) by (auto simp: no_stage_def)
  show ?thesis
  proof (cases "publish_gate s r n")
    case (Go sg re)
    show ?thesis
    proof (cases "is_tx_sig sg")
      case True
      then have sg: "sg = Some sig" "\<not> re" "has_shape (s_barrier s) (sig_text sig) i"
        using publish_gate_tx [OF Go True] assms(5,6) by auto
      then have "\<exists>slot. publish_tx e i slot sig s = (Inr (), s')"
        using assms(1,2) full staged Go True by (auto simp: try_publish_def with_pool_def sseq_def sbind_def swhen_def Let_def)
      then show ?thesis using publish_tx_only_available [OF _ assms(2-4)] full sg(3) by blast
    next
      case False
      then show ?thesis using publish_gate_Go [OF Go False] assms(5-7) full by simp
    qed
  next
    case Wait_slot
    then show ?thesis using no [of "sret ()"] assms(1,2) full staged by (simp add: try_publish_def with_pool_def keeps_sret)
  next
    case Wait_shape
    have "keeps (gen_at i (p_gen r)) (smod wait_shape)" by (rule gen_smod) (simp add: wait_shape_def)
    then show ?thesis using no [of "smod wait_shape"] Wait_shape assms(1,2) full staged by (simp add: try_publish_def with_pool_def)
  next
    case (Wait_writes absent)
    have "keeps (gen_at i (p_gen r)) (smod (note_wait i absent))" by (rule gen_smod) (simp add: note_wait_def Let_def)
    then show ?thesis using no [of "smod (note_wait i absent)"] Wait_writes assms(1,2) full staged by (simp add: try_publish_def with_pool_def)
  next
    case Incomplete
    then show ?thesis using no [OF gen_fail, of e i "sig_text (the (st_sig (p_stage r)))"] assms(1,2) full staged by (simp add: try_publish_def with_pool_def)
  qed
qed

definition w_tx :: "pool_rec" where
  "w_tx = w_rec \<lparr> p_stage := no_stage \<lparr> st_slot := Some 9, st_rx := Some 5, st_sig := Some [1, 2] \<rparr> \<rparr>"

definition w_unclaimed :: s008 where
  "w_unclaimed = (w5 1) \<lparr> s_pools := [(0, w_tx)] \<rparr>"

lemma w_unclaimed_publishes: "\<exists>t. try_publish w_env 18 0 w_unclaimed = (Inr (), t) \<and> s_pools t = [(0, w_final)]"
proof -
  let ?st = "no_stage \<lparr> st_slot := Some 9, st_rx := Some 5, st_sig := Some BOOT_SIG, st_reconcile := True \<rparr>"
  let ?s = "bump ''non_exact_reauth'' 1 (upd_pool 0 reauth w_unclaimed)"
  have sel: "s_bytes ?s = w_bytes" "s_acc_deps ?s = w_deps" "s_fees ?s = (20, 5, 0, 0)"
    by (simp_all add: w_unclaimed_def bump_def upd_pool_def reauth_def w5_sel)
  have pools: "s_pools ?s = [(0, w_rec \<lparr> p_stage := ?st \<rparr>)]"
    by (simp add: w_unclaimed_def upd_pool_def reauth_def w_tx_def no_stage_def)
  have tx: "p_required w_tx = [''P'', ''B'', ''Q'']" "p_stage w_tx \<noteq> no_stage" "st_slot (p_stage w_tx) = Some 9" "\<not> st_reconcile (p_stage w_tx)"
    by (simp_all add: w_tx_def w_rec_sel no_stage_def)
  have "s_barrier w_unclaimed = new_barrier" by (simp add: w_unclaimed_def w5_def w4_def w3_def w2_def w_base)
  then have gate: "publish_gate w_unclaimed w_tx 18 = Go (Some BOOT_SIG) True"
    by (simp add: publish_gate_def Let_def w_tx_def has_shape_def spec_def new_barrier_def dflt_def BOOT_SIG_def no_stage_def or0_def)
  obtain t where t: "publish_pump w_env 0 9 w_bytes ?s = (Inr True, t)" "s_pools t = [(0, w_final)]"
    using w_publish_pump [of ?s ?st] sel pools by (auto simp: w_final_def)
  have "publish_boot w_env 0 9 True ?s = (Inr (), bump ''auth_reconciled_unknown'' 1 t)"
    using t(1) w_freeze [OF sel(1)] pools
    by (simp add: fun_cong [OF publish_boot_def] fun_cong [OF with_pool_def] fun_cong [OF publish_kind_def] sbind_run swhen_run w_rec_sel)
  then have "try_publish w_env 18 0 w_unclaimed = (Inr (), bump ''auth_reconciled_unknown'' 1 t)"
    using gate w_full [of w_unclaimed w_tx] tx
    by (simp add: fun_cong [OF try_publish_def] fun_cong [OF with_pool_def] sbind_run sseq_run swhen_run is_tx_sig_def
        w_unclaimed_def w5_sel)
  then show ?thesis using t(2) by simp
qed

theorem publication_needs_proof_witness:
  "\<exists>s'. try_publish w_env 18 0 w_unclaimed = (Inr (), s') \<and> pool_complete w_unclaimed w_tx"
proof -
  obtain t where t: "try_publish w_env 18 0 w_unclaimed = (Inr (), t)" "s_pools t = [(0, w_final)]"
    using w_unclaimed_publishes by blast
  have r: "dget (s_pools w_unclaimed) 0 = Some w_tx" "dget (s_pools t) 0 = Some w_final" by (simp_all add: w_unclaimed_def t(2))
  have "p_gen w_final \<noteq> p_gen w_tx" "p_idx w_tx = 0" "st_sig (p_stage w_tx) = Some [1, 2]" "is_tx_sig (Some [1, 2])"
    by (simp_all add: w_final_def w_done_def w_tx_def w_rec_def new_pool_rec_def w_pool_def is_tx_sig_def BOOT_SIG_def)
  from publication_needs_proof [OF t(1) r this] t(1) show ?thesis by blast
qed

end
