(* ===== verification/Exec_Template.thy ===== *)
theory Exec_Template
  imports Frame_Parse Dep_Map
begin

text \<open>
  \<^verbatim>\<open>arb-exec/scripts/exec_live002b.py\<close>: the v0 transaction template of the two-venue route. The
  index tables of the executor instruction, the two template compilers, the patcher that fills the
  block hash, the price, the direction and the two amounts at fixed offsets, and the signer. The
  signature scheme is the parameter \<open>sign\<close>. Results: the offsets are those of the layout, so the
  framer of \<^verbatim>\<open>arb-cap/frame_v1/parse.py\<close> (\<open>Frame_Parse\<close>) reads back every patched field from the
  signed bytes, and a patched template differs from its template nowhere else.
\<close>

definition xl_DLMM :: string where "xl_DLMM = ''LBUZKhRxPF3XUpBCjp4YzTKgLccjZhTSDM9YuVaPwxo''"
definition xl_PUMP :: string where "xl_PUMP = ''pAMMBay6oceH9fJKBRHGP5D4bD4sWpmSwMn52FMfXEA''"
definition PAIR_DLMM :: string where "PAIR_DLMM = ''DAErPzgiYQDhDwpMRgdvikXaZmnmznc3du3jy9i1AABk''"
definition PAIR_PUMP :: string where "PAIR_PUMP = ''BRjMA8UALNp3diTKHfdeAn5riQrYPoaYez7KhYWD4oEs''"
definition xl_SOL :: string where "xl_SOL = ''So11111111111111111111111111111111111111112''"
definition TOKENKEG :: string where "TOKENKEG = ''TokenkegQfeZyiNwAJbNbGKPFXCWuBvf9Ss623VQ5DA''"
definition TOKEN2022 :: string where "TOKEN2022 = ''TokenzQdBNbLqP5VEhdkAS6EPFLC1PHnBqCXEpPxuEb''"
definition SYSTEM :: string where "SYSTEM = ''11111111111111111111111111111111''"
definition ATA_PROG :: string where "ATA_PROG = ''ATokenGPvbdGVxr1b2hvZbsiqW5xWH25efTNsLJA8knL''"
definition MEMO :: string where "MEMO = ''MemoSq4gqABAXKb96qnH8TysNcWxMyWCqXgDLGmfcHr''"
definition FEE_PROG :: string where "FEE_PROG = ''pfeeUxB6jkeY1Hxd7CsFCAjcbHA9rWtchMGdZ6VojVZ''"
definition CU_PROG :: string where "CU_PROG = ''ComputeBudget111111111111111111111111111111''"
definition ALT_PROG :: string where "ALT_PROG = ''AddressLookupTab1e1111111111111111111111111''"
definition FEE_CFG_LIVE :: string where "FEE_CFG_LIVE = ''5PHirr8joyTMp9JMm6nW7hNDVyEYdkzDqazxPD7RaTjx''"

definition FEE_RECIPIENTS :: "string list" where
  "FEE_RECIPIENTS =
    [''5YxQFdt3Tr9zJLvkFccqXVUwhdTWJQc1fFg2YPbxvxeD'', ''9M4giFFMxmFGXtc3feFzRai56WbBqehoSeRE5GK7gf7'',
     ''GXPFM2caqTtQYC2cJ5yJRi9VDkpsYZXzYdwYpGnLmtDL'', ''3BpXnfJaUTiwXnJNe7Ej1rcbzqTTQUvLShZaWazebsVR'',
     ''5cjcW9wExnJJiqgLjq7DEG75Pm6JBgE1hNv4B2vHXUW6'', ''EHAAiTxcdDwQ3U4bU6YcMsQGaekdzLS3B5SmYo46kJtL'',
     ''5eHhjP8JaYkz83CWwvGU2uMUXefd3AazWGx4gpcuEEYD'', ''A7hAgCzFw14fejgCp387JUJRMNyz4j89JKnhtKU8piqW'']"

definition FEE_RECIPIENT :: string where "FEE_RECIPIENT = ''5cjcW9wExnJJiqgLjq7DEG75Pm6JBgE1hNv4B2vHXUW6''"

definition V0_TX_LEN :: nat where "V0_TX_LEN = 623"
definition V0_OFF_SIG :: nat where "V0_OFF_SIG = 1"
definition V0_OFF_MSG :: nat where "V0_OFF_MSG = 65"
definition V0_MSG_LEN :: nat where "V0_MSG_LEN = 558"
definition V0_OFF_BH :: nat where "V0_OFF_BH = 422"
definition V0_OFF_PRICE :: nat where "V0_OFF_PRICE = 467"
definition V0_OFF_DIR :: nat where "V0_OFF_DIR = 546"
definition V0_OFF_AMT :: nat where "V0_OFF_AMT = 547"
definition V0_OFF_MIN :: nat where "V0_OFF_MIN = 555"
definition V0_CU_LIMIT :: int where "V0_CU_LIMIT = 400000"
definition TINY_IN :: int where "TINY_IN = 10000"
definition MIN_GUARD :: int where "MIN_GUARD = 1000000000"
definition DISC :: bytes where "DISC = ascii ''ARBEXEC0''"
definition V0_TX_LEN_BUY :: nat where "V0_TX_LEN_BUY = 626"
definition V0_MSG_LEN_BUY :: nat where "V0_MSG_LEN_BUY = 561"
definition V0_OFF_DIR_BUY :: nat where "V0_OFF_DIR_BUY = 548"
definition V0_OFF_AMT_BUY :: nat where "V0_OFF_AMT_BUY = 549"
definition V0_OFF_MIN_BUY :: nat where "V0_OFF_MIN_BUY = 557"

lemmas v0_consts = V0_TX_LEN_def V0_OFF_SIG_def V0_OFF_MSG_def V0_MSG_LEN_def V0_OFF_BH_def V0_OFF_PRICE_def
  V0_OFF_DIR_def V0_OFF_AMT_def V0_OFF_MIN_def V0_TX_LEN_BUY_def V0_MSG_LEN_BUY_def V0_OFF_DIR_BUY_def
  V0_OFF_AMT_BUY_def V0_OFF_MIN_BUY_def

text \<open>Positions in the loaded account list, as one-byte numbers.\<close>

definition IX_IDX :: bytes where
  "IX_IDX =
    [0, 11, 12, 3, 4, 5, 6, 7, 26, 13,
     7, 14, 15, 16, 7, 27, 28, 17, 18, 8,
     29, 19, 30, 31, 10, 27, 28, 20, 21, 32,
     22, 23, 33, 34, 24,
     9,
     19, 0, 30, 27, 28, 12, 11, 20, 21, 32,
     22, 9, 3, 4, 5, 29, 8, 23, 33, 31,
     10, 34, 35, 25]"

definition ALT_WR_IX :: bytes where "ALT_WR_IX = map word_of_nat ([0..<14] @ [23])"
definition ALT_RO_IX :: bytes where "ALT_RO_IX = map word_of_nat ([14..<23] @ [24])"

definition IX_IDX_BUY :: bytes where
  "IX_IDX_BUY =
    [0, 11, 12, 3, 4, 5, 6, 7, 27, 13,
     7, 14, 15, 16, 7, 28, 29, 17, 18, 8,
     30, 19, 31, 32, 10, 28, 29, 20, 21, 33,
     22, 23, 34, 35, 24,
     9,
     19, 0, 31, 28, 29, 12, 11, 20, 21, 33,
     22, 9, 3, 4, 5, 30, 8, 23, 34, 26, 24, 32,
     10, 35, 36, 25]"

definition ALT_WR_IX_BUY :: bytes where "ALT_WR_IX_BUY = map word_of_nat ([0..<14] @ [23, 25])"
definition ALT_RO_IX_BUY :: bytes where "ALT_RO_IX_BUY = map word_of_nat ([14..<23] @ [24])"

section \<open>Compiling\<close>

text \<open>\<^verbatim>\<open>wr_ix or ALT_WR_IX\<close>: absent and empty both take the default.\<close>

definition or_ix :: "bytes option \<Rightarrow> bytes \<Rightarrow> bytes" where
  "or_ix x deflt = (case x of None \<Rightarrow> deflt | Some bs \<Rightarrow> if bs = [] then deflt else bs)"

text \<open>The bytes both compilers write, up to the index table and the two address-table lists.\<close>

definition v0_bytes :: "bytes list \<Rightarrow> bytes \<Rightarrow> bytes \<Rightarrow> bytes \<Rightarrow> bytes \<Rightarrow> bytes \<Rightarrow> bytes" where
  "v0_bytes keys cul ix alt wr_ix ro_ix =
    [1] @ zeros 64 @ [0x80, 1, 0, 10, 11]
    @ concat keys
    @ zeros 32
    @ [3]
    @ [2, 0, 5, 2] @ cul
    @ [2, 0, 9, 3] @ zeros 8
    @ [1, word_of_nat (length ix)] @ ix @ [25] @ DISC @ zeros 17
    @ [1] @ alt
    @ [word_of_nat (length wr_ix)] @ wr_ix
    @ [10] @ ro_ix"

definition compile_v0 :: "string list \<Rightarrow> string \<Rightarrow> bytes option \<Rightarrow> bytes option \<Rightarrow> bytes res" where
  "compile_v0 static alt wr ro =
    (let wr_ix = or_ix wr ALT_WR_IX; ro_ix = or_ix ro ALT_RO_IX
     in if length wr_ix \<noteq> 15 \<or> length ro_ix \<noteq> 10 then Inl (SystemExit ''v0 alt ix'')
        else rbind (rmap b58decode static) (\<lambda>keys.
             rbind (pack_u 4 V0_CU_LIMIT) (\<lambda>cul.
             rbind (b58decode alt) (\<lambda>a.
               let out = v0_bytes keys cul IX_IDX a wr_ix ro_ix
               in if length out \<noteq> V0_TX_LEN then Inl (SystemExit ''v0 len'')
                  else if out ! V0_OFF_DIR \<noteq> 0 \<or> slice 538 546 out \<noteq> DISC then Inl (SystemExit ''v0 offset lock failed'')
                  else Inr out))))"

definition compile_v0_buy :: "string list \<Rightarrow> string \<Rightarrow> bytes option \<Rightarrow> bytes option \<Rightarrow> bytes res" where
  "compile_v0_buy static alt wr ro =
    (if length IX_IDX_BUY \<noteq> 62 then Inl (SystemExit ''IX_IDX_BUY'')
     else let wr_ix = or_ix wr ALT_WR_IX_BUY; ro_ix = or_ix ro ALT_RO_IX_BUY
     in if length wr_ix \<noteq> 16 \<or> length ro_ix \<noteq> 10 then Inl (SystemExit ''v0 buy alt ix'')
        else rbind (rmap b58decode static) (\<lambda>keys.
             rbind (pack_u 4 V0_CU_LIMIT) (\<lambda>cul.
             rbind (b58decode alt) (\<lambda>a.
               let out = v0_bytes keys cul IX_IDX_BUY a wr_ix ro_ix
               in if length out \<noteq> V0_TX_LEN_BUY then Inl (SystemExit ''v0 buy len'')
                  else if out ! V0_OFF_DIR_BUY \<noteq> 0 \<or> slice 540 548 out \<noteq> DISC
                  then Inl (SystemExit ''v0 buy offset lock failed'')
                  else Inr out))))"

section \<open>Patching and signing\<close>

text \<open>\<^verbatim>\<open>out[a:b] = v\<close> on a bytearray: the range is clamped, and a value of another length resizes.\<close>

definition set_range :: "bytes \<Rightarrow> nat \<Rightarrow> nat \<Rightarrow> bytes \<Rightarrow> bytes" where
  "set_range buf a b v = take a buf @ v @ drop b buf"

text \<open>\<^verbatim>\<open>out[i] = n\<close>\<close>

definition set_byte :: "bytes \<Rightarrow> nat \<Rightarrow> int \<Rightarrow> bytes res" where
  "set_byte buf i n =
    (if n < 0 \<or> 256 \<le> n then Inl (ValueError ''byte must be in range(0, 256)'')
     else if length buf \<le> i then Inl IndexError
     else Inr (buf[i := word_of_int n]))"

definition patch :: "bytes \<Rightarrow> int \<Rightarrow> int \<Rightarrow> int \<Rightarrow> bytes \<Rightarrow> int \<Rightarrow> bool \<Rightarrow> bytes res" where
  "patch tmpl direction amount min_profit bh price buy =
    (let off_dir = (if buy then V0_OFF_DIR_BUY else V0_OFF_DIR);
         off_amt = (if buy then V0_OFF_AMT_BUY else V0_OFF_AMT);
         off_min = (if buy then V0_OFF_MIN_BUY else V0_OFF_MIN);
         out = set_range tmpl V0_OFF_BH (V0_OFF_BH + 32) bh
     in rbind (pack_u 8 price) (\<lambda>p.
        let out1 = set_range out V0_OFF_PRICE (V0_OFF_PRICE + 8) p in
        rbind (set_byte out1 off_dir direction) (\<lambda>out2.
        rbind (pack_u 8 amount) (\<lambda>a.
        let out3 = set_range out2 off_amt (off_amt + 8) a in
        rbind (pack_u 8 min_profit) (\<lambda>m. Inr (set_range out3 off_min (off_min + 8) m))))))"

definition sign_v0 :: "(bytes \<Rightarrow> bytes) \<Rightarrow> bytes \<Rightarrow> bool \<Rightarrow> bytes" where
  "sign_v0 sign tx buy =
    (let msg_len = (if buy then V0_MSG_LEN_BUY else V0_MSG_LEN);
         sig = sign (slice V0_OFF_MSG (V0_OFF_MSG + msg_len) tx)
     in set_range tx V0_OFF_SIG (V0_OFF_SIG + 64) sig)"

section \<open>What goes on the wire\<close>

text \<open>
  The layout of a v0 message as the protocol defines it, field by field: the specification the
  compiler and the patcher are compared with.
\<close>

record v0_fields =
  w_keys :: "bytes list"
  w_bh :: bytes
  w_price :: int
  w_ix :: bytes
  w_dir :: int
  w_amount :: int
  w_min :: int
  w_alt :: bytes
  w_wr :: bytes
  w_ro :: bytes

definition wire_msg :: "v0_fields \<Rightarrow> bytes" where
  "wire_msg w =
    [0x80, 1, 0, 10, 11] @ concat (w_keys w) @ w_bh w @ [3]
    @ [2, 0, 5, 2] @ le_bytes 4 400000
    @ [2, 0, 9, 3] @ le_bytes 8 (nat (w_price w))
    @ [1, word_of_nat (length (w_ix w))] @ w_ix w
    @ [25] @ DISC @ [word_of_int (w_dir w)] @ le_bytes 8 (nat (w_amount w)) @ le_bytes 8 (nat (w_min w))
    @ [1] @ w_alt w @ [word_of_nat (length (w_wr w))] @ w_wr w @ [10] @ w_ro w"

definition fields_ok :: "v0_fields \<Rightarrow> bool \<Rightarrow> bool" where
  "fields_ok w buy \<longleftrightarrow>
    length (w_keys w) = 11 \<and> (\<forall>k\<in>set (w_keys w). length k = 32) \<and> length (w_bh w) = 32 \<and> length (w_alt w) = 32
    \<and> 0 \<le> w_price w \<and> w_price w < 2 ^ 64 \<and> 0 \<le> w_dir w \<and> w_dir w < 256
    \<and> 0 \<le> w_amount w \<and> w_amount w < 2 ^ 64 \<and> 0 \<le> w_min w \<and> w_min w < 2 ^ 64
    \<and> w_ix w = (if buy then IX_IDX_BUY else IX_IDX) \<and> length (w_wr w) = (if buy then 16 else 15) \<and> length (w_ro w) = 10"

lemma length_concat_keys:
  "(\<forall>k\<in>set ks. length k = n) \<Longrightarrow> length (concat ks) = length ks * n"
  by (induction ks) auto

lemma table_lengths [simp]:
  "length IX_IDX = 60" "length IX_IDX_BUY = 62" "length DISC = 8" "length ALT_WR_IX = 15" "length ALT_RO_IX = 10"
  "length ALT_WR_IX_BUY = 16" "length ALT_RO_IX_BUY = 10"
  by (simp_all add: IX_IDX_def IX_IDX_BUY_def DISC_def ascii_def ALT_WR_IX_def ALT_RO_IX_def ALT_WR_IX_BUY_def ALT_RO_IX_BUY_def)

text \<open>Replacing one piece of a concatenation.\<close>

lemma set_range_app:
  "length pre = a \<Longrightarrow> length old = b - a \<Longrightarrow> a \<le> b \<Longrightarrow> set_range (pre @ old @ post) a b v = pre @ v @ post"
  by (simp add: set_range_def)

lemma set_byte_app:
  "length pre = i \<Longrightarrow> 0 \<le> n \<Longrightarrow> n < 256 \<Longrightarrow> set_byte (pre @ [b] @ post) i n = Inr (pre @ [word_of_int n] @ post)"
  by (simp add: set_byte_def list_update_append)

lemma pack_u_fits: "0 \<le> v \<Longrightarrow> v < 2 ^ 64 \<Longrightarrow> pack_u 8 v = Inr (le_bytes 8 (nat v))"
  by (simp add: pack_u_def)

lemma zeros_split: "zeros (m + n) = zeros m @ zeros n"
  by (simp add: zeros_def replicate_add)

lemma zeros17: "zeros 17 = [0] @ zeros 8 @ zeros 8"
  using zeros_split [of 1 16] zeros_split [of 8 8] by (simp add: zeros_def)

definition blank_wire :: "bytes list \<Rightarrow> bytes \<Rightarrow> bytes \<Rightarrow> bytes \<Rightarrow> bytes \<Rightarrow> bytes" where
  "blank_wire keys ix alt wr_ix ro_ix =
    [1] @ zeros 64 @ wire_msg
      \<lparr> w_keys = keys, w_bh = zeros 32, w_price = 0, w_ix = ix, w_dir = 0, w_amount = 0, w_min = 0,
        w_alt = alt, w_wr = wr_ix, w_ro = ro_ix \<rparr>"

lemma le_bytes_0: "le_bytes k 0 = zeros k"
  by (induction k) (simp_all add: zeros_def)

lemma v0_bytes_blank: "v0_bytes keys (le_bytes 4 400000) ix alt wr_ix ro_ix = blank_wire keys ix alt wr_ix ro_ix"
  by (simp add: v0_bytes_def blank_wire_def wire_msg_def le_bytes_0 zeros17 del: le_bytes.simps)

lemma rmap_b58_keys:
  assumes "rmap b58decode static = Inr keys"
  shows "length keys = length static" "\<forall>k\<in>set keys. length k = 32"
  using assms by (induction static arbitrary: keys) (force simp: rbind_Inr_iff dest: b58decode_length)+

lemma pack_cu: "pack_u 4 V0_CU_LIMIT = Inr (le_bytes 4 400000)"
  by (simp add: pack_u_def V0_CU_LIMIT_def del: le_bytes.simps)


text \<open>The pieces of the layout, for a table of either length.\<close>

definition layout_pre :: "bytes list \<Rightarrow> bytes" where
  "layout_pre keys = [1] @ zeros 64 @ [0x80, 1, 0, 10, 11] @ concat keys"

definition layout_mid :: "bytes \<Rightarrow> bytes" where
  "layout_mid ix = [1, word_of_nat (length ix)] @ ix @ [25] @ DISC"

definition layout_post :: "bytes \<Rightarrow> bytes \<Rightarrow> bytes \<Rightarrow> bytes" where
  "layout_post alt wr_ix ro_ix = [1] @ alt @ [word_of_nat (length wr_ix)] @ wr_ix @ [10] @ ro_ix"

definition layout_cu :: bytes where
  "layout_cu = [3, 2, 0, 5, 2] @ le_bytes 4 400000 @ [2, 0, 9, 3]"

lemma v0_bytes_pieces:
  "v0_bytes keys (le_bytes 4 400000) ix alt wr_ix ro_ix =
     layout_pre keys @ zeros 32 @ layout_cu @ zeros 8 @ layout_mid ix @ [0] @ zeros 8 @ zeros 8 @ layout_post alt wr_ix ro_ix"
  by (simp add: v0_bytes_def layout_pre_def layout_mid_def layout_post_def layout_cu_def zeros17 del: le_bytes.simps)

lemma wire_pieces:
  "[1] @ zeros 64 @ wire_msg w =
     layout_pre (w_keys w) @ w_bh w @ layout_cu @ le_bytes 8 (nat (w_price w)) @ layout_mid (w_ix w)
       @ [word_of_int (w_dir w)] @ le_bytes 8 (nat (w_amount w)) @ le_bytes 8 (nat (w_min w))
       @ layout_post (w_alt w) (w_wr w) (w_ro w)"
  by (simp add: wire_msg_def layout_pre_def layout_mid_def layout_post_def layout_cu_def del: le_bytes.simps)

lemma layout_lengths:
  "length keys = 11 \<Longrightarrow> \<forall>k\<in>set keys. length k = 32 \<Longrightarrow> length (layout_pre keys) = 422"
  "length layout_cu = 13"
  "length (layout_mid ix) = length ix + 11"
  "length (layout_post alt wr_ix ro_ix) = length alt + length wr_ix + length ro_ix + 3"
  by (simp_all add: layout_pre_def layout_mid_def layout_post_def layout_cu_def length_concat_keys [where n = 32] del: le_bytes.simps)

lemma template_locks:
  assumes "length keys = 11" "\<forall>k\<in>set keys. length k = 32"
    and out_def: "out = v0_bytes keys (le_bytes 4 400000) ix alt wr_ix ro_ix"
  shows "length out = 506 + length ix + length alt + length wr_ix + length ro_ix"
    "out ! (486 + length ix) = 0" "slice (478 + length ix) (486 + length ix) out = DISC"
proof -
  define pre where "pre = layout_pre keys @ zeros 32 @ layout_cu @ zeros 8 @ [1, word_of_nat (length ix)] @ ix @ [25]"
  define post where "post = zeros 8 @ zeros 8 @ layout_post alt wr_ix ro_ix"
  have out: "out = pre @ DISC @ ([0] @ post)"
    by (simp add: out_def v0_bytes_pieces pre_def post_def layout_mid_def)
  have pre: "length pre = 478 + length ix" using assms by (simp add: pre_def layout_lengths)
  show "length out = 506 + length ix + length alt + length wr_ix + length ro_ix"
    using assms by (simp add: v0_bytes_pieces layout_lengths)
  show "out ! (486 + length ix) = 0"
    by (simp add: out pre nth_append)
  show "slice (478 + length ix) (486 + length ix) out = DISC"
    unfolding out using pre by (intro slice_middle) simp_all
qed

text \<open>Both compilers succeed on eleven decodable keys, and their length and offset locks never fire.\<close>

lemma compile_v0_bytes:
  assumes "rmap b58decode static = Inr keys" "length static = 11" "b58decode alt = Inr a"
    and "length (or_ix wr ALT_WR_IX) = 15" "length (or_ix ro ALT_RO_IX) = 10"
  shows "compile_v0 static alt wr ro = Inr (v0_bytes keys (le_bytes 4 400000) IX_IDX a (or_ix wr ALT_WR_IX) (or_ix ro ALT_RO_IX))"
  using assms rmap_b58_keys [OF assms(1)] b58decode_length [OF assms(3)]
    template_locks [OF _ _ refl, of keys IX_IDX a "or_ix wr ALT_WR_IX" "or_ix ro ALT_RO_IX"]
  by (simp add: compile_v0_def pack_cu v0_consts)

lemma compile_v0_buy_bytes:
  assumes "rmap b58decode static = Inr keys" "length static = 11" "b58decode alt = Inr a"
    and "length (or_ix wr ALT_WR_IX_BUY) = 16" "length (or_ix ro ALT_RO_IX_BUY) = 10"
  shows "compile_v0_buy static alt wr ro =
    Inr (v0_bytes keys (le_bytes 4 400000) IX_IDX_BUY a (or_ix wr ALT_WR_IX_BUY) (or_ix ro ALT_RO_IX_BUY))"
  using assms rmap_b58_keys [OF assms(1)] b58decode_length [OF assms(3)]
    template_locks [OF _ _ refl, of keys IX_IDX_BUY a "or_ix wr ALT_WR_IX_BUY" "or_ix ro ALT_RO_IX_BUY"]
  by (simp add: compile_v0_buy_def pack_cu v0_consts)

lemma patch_wire:
  assumes "fields_ok w buy"
  shows "patch (v0_bytes (w_keys w) (le_bytes 4 400000) (w_ix w) (w_alt w) (w_wr w) (w_ro w))
           (w_dir w) (w_amount w) (w_min w) (w_bh w) (w_price w) buy = Inr ([1] @ zeros 64 @ wire_msg w)"
proof -
  define pre cul mid post where "pre = layout_pre (w_keys w)" and "cul = layout_cu" and "mid = layout_mid (w_ix w)"
    and "post = layout_post (w_alt w) (w_wr w) (w_ro w)"
  define n where "n = length (w_ix w)"
  have n: "n = (if buy then 62 else 60)" using assms by (simp add: fields_ok_def n_def)
  have len: "length pre = 422" "length cul = 13" "length mid = n + 11"
    using assms by (simp_all add: fields_ok_def pre_def cul_def mid_def n_def layout_lengths)
  have bh: "length (w_bh w) = 32" using assms by (simp add: fields_ok_def)
  let ?p = "le_bytes 8 (nat (w_price w))" let ?a = "le_bytes 8 (nat (w_amount w))" let ?m = "le_bytes 8 (nat (w_min w))"
  have packs: "pack_u 8 (w_price w) = Inr ?p" "pack_u 8 (w_amount w) = Inr ?a" "pack_u 8 (w_min w) = Inr ?m"
    using assms pack_u_fits by (simp_all add: fields_ok_def)
  have offs: "(if buy then V0_OFF_DIR_BUY else V0_OFF_DIR) = 486 + n" "(if buy then V0_OFF_AMT_BUY else V0_OFF_AMT) = 487 + n"
    "(if buy then V0_OFF_MIN_BUY else V0_OFF_MIN) = 495 + n"
    by (simp_all add: v0_consts n)
  have s1: "set_range (pre @ zeros 32 @ cul @ zeros 8 @ mid @ [0] @ zeros 8 @ zeros 8 @ post) V0_OFF_BH (V0_OFF_BH + 32) (w_bh w)
      = (pre @ w_bh w @ cul) @ zeros 8 @ mid @ [0] @ zeros 8 @ zeros 8 @ post"
    by (subst set_range_app) (simp_all add: len v0_consts)
  have s2: "set_range ((pre @ w_bh w @ cul) @ zeros 8 @ mid @ [0] @ zeros 8 @ zeros 8 @ post) V0_OFF_PRICE (V0_OFF_PRICE + 8) ?p
      = (pre @ w_bh w @ cul @ ?p @ mid) @ [0] @ zeros 8 @ zeros 8 @ post"
    by (subst set_range_app) (simp_all add: len bh v0_consts del: le_bytes.simps)
  have s3: "set_byte ((pre @ w_bh w @ cul @ ?p @ mid) @ [0] @ zeros 8 @ zeros 8 @ post) (486 + n) (w_dir w)
      = Inr ((pre @ w_bh w @ cul @ ?p @ mid @ [word_of_int (w_dir w)]) @ zeros 8 @ zeros 8 @ post)"
    using assms by (subst set_byte_app) (simp_all add: len bh fields_ok_def del: le_bytes.simps)
  have s4: "set_range ((pre @ w_bh w @ cul @ ?p @ mid @ [word_of_int (w_dir w)]) @ zeros 8 @ zeros 8 @ post) (487 + n) (487 + n + 8) ?a
      = (pre @ w_bh w @ cul @ ?p @ mid @ [word_of_int (w_dir w)] @ ?a) @ zeros 8 @ post"
    by (subst set_range_app) (simp_all add: len bh del: le_bytes.simps)
  have s5: "set_range ((pre @ w_bh w @ cul @ ?p @ mid @ [word_of_int (w_dir w)] @ ?a) @ zeros 8 @ post) (495 + n) (495 + n + 8) ?m
      = pre @ w_bh w @ cul @ ?p @ mid @ [word_of_int (w_dir w)] @ ?a @ ?m @ post"
    by (subst set_range_app) (simp_all add: len bh del: le_bytes.simps)
  show ?thesis
    unfolding patch_def v0_bytes_pieces wire_pieces Let_def offs packs rbind_simps
    by (fold pre_def cul_def mid_def post_def) (simp only: s1 s2 s3 s4 s5 rbind_simps)
qed

lemma sign_wire:
  assumes "fields_ok w buy" and sig: "length (sign (wire_msg w)) = 64"
  shows "sign_v0 sign ([1] @ zeros 64 @ wire_msg w) buy = [1] @ sign (wire_msg w) @ wire_msg w"
proof -
  have len: "length (wire_msg w) = (if buy then 561 else 558)"
    using assms(1) by (auto simp: fields_ok_def wire_msg_def length_concat_keys [where n = 32] simp del: le_bytes.simps)
  have "slice V0_OFF_MSG (V0_OFF_MSG + (if buy then V0_MSG_LEN_BUY else V0_MSG_LEN)) (([1] @ zeros 64) @ wire_msg w @ []) = wire_msg w"
    by (rule slice_middle) (simp_all add: v0_consts len)
  moreover have "set_range ([1] @ zeros 64 @ wire_msg w) V0_OFF_SIG (V0_OFF_SIG + 64) (sign (wire_msg w)) = [1] @ sign (wire_msg w) @ wire_msg w"
    by (rule set_range_app) (simp_all add: v0_consts)
  ultimately show ?thesis by (simp add: sign_v0_def)
qed

section \<open>The framer reads the template\<close>

lemma split_keys_concat:
  assumes "\<forall>k\<in>set ks. length k = 32" and "length pre = off"
  shows "split_keys (pre @ concat ks @ post) off (length ks) = ks"
proof (rule nth_equalityI)
  show "length (split_keys (pre @ concat ks @ post) off (length ks)) = length ks" by (simp add: split_keys_def)
next
  fix i assume "i < length (split_keys (pre @ concat ks @ post) off (length ks))"
  then have i: "i < length ks" by (simp add: split_keys_def)
  have ks: "concat ks = concat (take i ks) @ ks ! i @ concat (drop (Suc i) ks)"
    using arg_cong [OF id_take_nth_drop [OF i], of concat] by simp
  have "length (concat (take i ks)) = i * 32"
    using assms i length_concat_keys [of "take i ks" 32] by (auto dest: in_set_takeD simp: min_def)
  moreover have "length (ks ! i) = 32" using assms i by simp
  ultimately have "slice (off + i * 32) (off + (i + 1) * 32) ((pre @ concat (take i ks)) @ ks ! i @ concat (drop (Suc i) ks) @ post) = ks ! i"
    using assms by (intro slice_middle) simp_all
  then show "split_keys (pre @ concat ks @ post) off (length ks) ! i = ks ! i"
    using i unfolding split_keys_def ks by simp
qed

lemma cu_small:
  "off < length p \<Longrightarrow> p ! off = b \<Longrightarrow> unat b < 128 \<Longrightarrow> cu need bad p off = FOk (unat b, off + 1)"
  by (simp add: cu_def cu16_def)

definition framed_template :: "v0_fields \<Rightarrow> nat \<Rightarrow> framed" where
  "framed_template w n =
    \<lparr> fr_ver = ''v0'', fr_nsig = 1, fr_nkeys = 11, fr_ninstr = 3, fr_keys = w_keys w,
      fr_ixs =
        [\<lparr> fx_prog = 2, fx_acc = [], fx_data = [2] @ le_bytes 4 400000 \<rparr>,
         \<lparr> fx_prog = 2, fx_acc = [], fx_data = [3] @ le_bytes 8 (nat (w_price w)) \<rparr>,
         \<lparr> fx_prog = 1, fx_acc = map unat (w_ix w),
           fx_data = DISC @ [word_of_int (w_dir w)] @ le_bytes 8 (nat (w_amount w)) @ le_bytes 8 (nat (w_min w)) \<rparr>],
      fr_tx_end = n, fr_luts = True, fr_mask = None \<rparr>"

lemma legacy_ix_step:
  assumes "p = pre @ [prog, na] @ acc @ [dl] @ dat @ post" "length pre = off"
    and "unat na = length acc" "unat na < 128" "unat dl = length dat" "unat dl < 128"
  shows "legacy_ixs (Suc n) p True nkeys off =
    fbind (legacy_ixs n p True nkeys (off + 3 + length acc + length dat)) (\<lambda>(ixs, off3).
      FOk (\<lparr> fx_prog = unat prog, fx_acc = map unat acc, fx_data = dat \<rparr> # ixs, off3))"
proof -
  have len: "length p = off + 3 + length acc + length dat + length post" using assms by simp
  have "cu need bad p (off + 1) = FOk (length acc, off + 2)" for need bad
    using assms len cu_small [of "off + 1" p na] by (simp add: nth_append)
  moreover have "cu need bad p (off + 2 + length acc) = FOk (length dat, off + 3 + length acc)" for need bad
    using assms len cu_small [of "off + 2 + length acc" p dl] by (simp add: nth_append)
  moreover have "slice (off + 2) (off + 2 + length acc) ((pre @ [prog, na]) @ acc @ [dl] @ dat @ post) = acc"
    using assms by (intro slice_middle) simp_all
  moreover have "slice (off + 3 + length acc) (off + 3 + length acc + length dat) ((pre @ [prog, na] @ acc @ [dl]) @ dat @ post) = dat"
    using assms by (intro slice_middle) simp_all
  moreover have "p ! off = prog" using assms by (simp add: nth_append)
  ultimately show ?thesis using assms(1) len by (simp add: frame_acc_def)
qed

lemma skip_alt_idx_step:
  assumes "p = pre @ [k] @ idx @ post" "length pre = off" "unat k = length idx" "unat k < 128"
  shows "skip_alt_idx p off = FOk (off + 1 + length idx)"
proof -
  have "cu need bad p off = FOk (length idx, off + 1)" for need bad
    using assms cu_small [of off p k] by (simp add: nth_append)
  then show ?thesis using assms by (simp add: skip_alt_idx_def)
qed

lemma parse_luts_one:
  assumes p: "p = pre @ [1] @ alt @ [a] @ wr @ [b] @ ro" and "length pre = off" and alt: "length alt = 32"
    and "unat a = length wr" "unat a < 128" "unat b = length ro" "unat b < 128"
  shows "parse_luts True p off = FOk (length p)"
proof -
  have "cu need bad p off = FOk (1, off + 1)" for need bad
    using assms cu_small [of off p 1] by (simp add: nth_append)
  moreover have "skip_alt_idx p (off + 33) = FOk (off + 33 + 1 + length wr)"
    by (rule skip_alt_idx_step [where pre = "pre @ [1] @ alt" and k = a and post = "[b] @ ro"]) (use assms in simp_all)
  moreover have "skip_alt_idx p (off + 33 + 1 + length wr) = FOk (off + 33 + 1 + length wr + 1 + length ro)"
    by (rule skip_alt_idx_step [where pre = "pre @ [1] @ alt @ [a] @ wr" and k = b and post = "[]"]) (use assms in simp_all)
  moreover have "length p = off + 35 + length wr + length ro" using assms by simp
  ultimately show ?thesis by (simp add: parse_luts_def numeral_eq_Suc)
qed

lemma frame_wire:
  assumes ok: "fields_ok w buy" and sig: "length sig = 64"
  defines "p \<equiv> [1] @ sig @ wire_msg w"
  shows "parse_legacy_v0 p 0 = FOk (framed_template w (length p))"
proof -
  define n where "n = length (w_ix w)"
  have n: "n = (if buy then 62 else 60)" using ok by (simp add: fields_ok_def n_def)
  have K: "length (concat (w_keys w)) = 352" "length (w_keys w) = 11" and bh: "length (w_bh w) = 32"
    and alt: "length (w_alt w) = 32" and wr: "length (w_wr w) = (if buy then 16 else 15)" and ro: "length (w_ro w) = 10"
    using ok length_concat_keys [of "w_keys w" 32] by (simp_all add: fields_ok_def)
  define head where "head = [1] @ sig @ [0x80, 1, 0, 10, 11]"
  define d1 where "d1 = [2] @ le_bytes 4 400000"
  define d2 where "d2 = [3] @ le_bytes 8 (nat (w_price w))"
  define d3 where "d3 = DISC @ [word_of_int (w_dir w)] @ le_bytes 8 (nat (w_amount w)) @ le_bytes 8 (nat (w_min w))"
  define lut where "lut = [1] @ w_alt w @ [word_of_nat (length (w_wr w))] @ w_wr w @ [10] @ w_ro w"
  define body where "body = [2, 0] @ [] @ [5] @ d1 @ [2, 0] @ [] @ [9] @ d2 @ [1, word_of_nat n] @ w_ix w @ [25] @ d3"
  have len: "length head = 70" "length d1 = 5" "length d2 = 9" "length d3 = 25" "length body = 48 + n"
    using sig by (simp_all add: head_def d1_def d2_def d3_def body_def n_def del: le_bytes.simps)
  have p: "p = head @ concat (w_keys w) @ w_bh w @ [3] @ body @ lut"
    by (simp add: p_def wire_msg_def head_def body_def d1_def d2_def d3_def lut_def n_def)
  have lenp: "length p = 503 + n + length lut" using K bh len by (simp add: p)
  have hd: "p ! 0 = 1" "p ! 65 = 128" "p ! 66 = 1" "p ! 67 = 0" "p ! 68 = 10" "p ! 69 = 11"
    using sig by (simp_all add: p head_def nth_append nth_Cons')
  have i3: "legacy_ixs (Suc 0) p True 11 475 = FOk ([\<lparr> fx_prog = 1, fx_acc = map unat (w_ix w), fx_data = d3 \<rparr>], 475 + 28 + n)"
    by (subst legacy_ix_step [where prog = 1 and na = "word_of_nat n" and acc = "w_ix w" and dl = 25 and dat = d3
        and pre = "head @ concat (w_keys w) @ w_bh w @ [3] @ [2, 0, 5] @ d1 @ [2, 0, 9] @ d2" and post = lut])
      (use K bh len n in \<open>auto simp: p body_def n_def unat_of_nat\<close>)
  have i2: "legacy_ixs (Suc (Suc 0)) p True 11 463 = fbind (legacy_ixs (Suc 0) p True 11 475) (\<lambda>(ixs, off3). FOk (\<lparr> fx_prog = 2, fx_acc = [], fx_data = d2 \<rparr> # ixs, off3))"
    by (subst legacy_ix_step [where prog = 2 and na = 0 and acc = "[]" and dl = 9 and dat = d2
        and pre = "head @ concat (w_keys w) @ w_bh w @ [3] @ [2, 0, 5] @ d1" and post = "[1, word_of_nat n] @ w_ix w @ [25] @ d3 @ lut"])
      (use K bh len in \<open>simp_all add: p body_def del: legacy_ixs.simps\<close>)
  have i1: "legacy_ixs (Suc (Suc (Suc 0))) p True 11 455 = fbind (legacy_ixs (Suc (Suc 0)) p True 11 463) (\<lambda>(ixs, off3). FOk (\<lparr> fx_prog = 2, fx_acc = [], fx_data = d1 \<rparr> # ixs, off3))"
    by (subst legacy_ix_step [where prog = 2 and na = 0 and acc = "[]" and dl = 5 and dat = d1
        and pre = "head @ concat (w_keys w) @ w_bh w @ [3]" and post = "[2, 0, 9] @ d2 @ [1, word_of_nat n] @ w_ix w @ [25] @ d3 @ lut"])
      (use K bh len in \<open>simp_all add: p body_def del: legacy_ixs.simps\<close>)
  have luts: "parse_luts True p (503 + n) = FOk (length p)"
    by (rule parse_luts_one [where pre = "head @ concat (w_keys w) @ w_bh w @ [3] @ body" and alt = "w_alt w"
        and a = "word_of_nat (length (w_wr w))" and wr = "w_wr w" and b = 10 and ro = "w_ro w"])
      (use K bh alt wr ro len in \<open>auto simp: p lut_def unat_of_nat\<close>)
  have keys: "split_keys p 70 11 = w_keys w"
    using ok split_keys_concat [of "w_keys w" head 70 "w_bh w @ [3] @ body @ lut"] len K by (simp add: p fields_ok_def)
  have n3: "p ! 454 = 3" using K bh len by (simp add: p nth_append)
  have ver: "parse_version p 1 65 = FOk (True, 67)" using lenp hd by (simp add: parse_version_def)
  show ?thesis
    using lenp hd n3 cu_small [of 0 p 1] cu_small [of 69 p 11] cu_small [of 454 p 3] ver keys i1 [folded numeral_3_eq_3] i2 i3 luts
    by (simp add: parse_legacy_v0_def header_ok_def frame_consts framed_template_def d1_def d2_def d3_def del: le_bytes.simps legacy_ixs.simps)
qed

definition compile_dir :: "bool \<Rightarrow> string list \<Rightarrow> string \<Rightarrow> bytes option \<Rightarrow> bytes option \<Rightarrow> bytes res" where
  "compile_dir buy = (if buy then compile_v0_buy else compile_v0)"

lemma compile_dir_bytes:
  assumes "rmap b58decode static = Inr keys" "length static = 11" "b58decode alt = Inr a"
    and "length wr_ix = (if buy then 16 else 15)" "length ro_ix = 10"
  shows "compile_dir buy static alt (Some wr_ix) (Some ro_ix) =
    Inr (v0_bytes keys (le_bytes 4 400000) (if buy then IX_IDX_BUY else IX_IDX) a wr_ix ro_ix)"
proof -
  have "wr_ix \<noteq> []" "ro_ix \<noteq> []" using assms(4,5) by (auto split: if_splits)
  then have "or_ix (Some wr_ix) x = wr_ix" "or_ix (Some ro_ix) x = ro_ix" for x by (simp_all add: or_ix_def)
  then show ?thesis
    using assms compile_v0_bytes [OF assms(1-3), of "Some wr_ix" "Some ro_ix"] compile_v0_buy_bytes [OF assms(1-3), of "Some wr_ix" "Some ro_ix"]
    by (simp add: compile_dir_def)
qed

text \<open>
  C10: The transaction the executor sends is the one it means. For either direction, take eleven static
  keys and a lookup table that decode, index lists of the right length, a 32-byte block hash, a price and
  two amounts of 64 bits and a direction byte. Then the template compiles (its length and offset locks do
  not fire), the patcher succeeds, and the signed bytes are framed by the program's own reader as one
  complete v0 transaction with the static keys in order and three instructions: the compute limit, the
  compute price \<open>price\<close>, and a call of static key 1 on the accounts of the index table whose data is the
  discriminator, the direction, the amount and the minimum. The signature field holds the signature of
  exactly the message bytes that follow it, and the block hash sits behind the keys.
\<close>

theorem signed_template_frames:
  assumes "rmap b58decode static = Inr keys" "length static = 11" "b58decode alt = Inr a"
    and "length wr_ix = (if buy then 16 else 15)" "length ro_ix = 10" "length bh = 32"
    and "0 \<le> price" "price < 2 ^ 64" "0 \<le> direction" "direction < 256"
    and "0 \<le> amount" "amount < 2 ^ 64" "0 \<le> min_profit" "min_profit < 2 ^ 64"
    and sign: "\<And>msg. length (sign msg) = 64"
  shows "\<exists>tmpl tx fr. compile_dir buy static alt (Some wr_ix) (Some ro_ix) = Inr tmpl
    \<and> patch tmpl direction amount min_profit bh price buy = Inr tx
    \<and> (let s = sign_v0 sign tx buy in
        parse_any s 0 = FOk fr \<and> fr_tx_end fr = length s \<and> length s = (if buy then V0_TX_LEN_BUY else V0_TX_LEN)
        \<and> fr_ver fr = ''v0'' \<and> fr_keys fr = keys
        \<and> fr_ixs fr =
            [\<lparr> fx_prog = 2, fx_acc = [], fx_data = [2] @ le_bytes 4 400000 \<rparr>,
             \<lparr> fx_prog = 2, fx_acc = [], fx_data = [3] @ le_bytes 8 (nat price) \<rparr>,
             \<lparr> fx_prog = 1, fx_acc = map unat (if buy then IX_IDX_BUY else IX_IDX),
               fx_data = DISC @ [word_of_int direction] @ le_bytes 8 (nat amount) @ le_bytes 8 (nat min_profit) \<rparr>]
        \<and> slice 1 65 s = sign (drop 65 s) \<and> slice V0_OFF_BH (V0_OFF_BH + 32) s = bh)"
proof -
  define w where "w = \<lparr> w_keys = keys, w_bh = bh, w_price = price, w_ix = (if buy then IX_IDX_BUY else IX_IDX),
    w_dir = direction, w_amount = amount, w_min = min_profit, w_alt = a, w_wr = wr_ix, w_ro = ro_ix \<rparr>"
  have ok: "fields_ok w buy"
    using assms rmap_b58_keys [OF assms(1)] b58decode_length [OF assms(3)] by (simp add: w_def fields_ok_def)
  define s where "s = [1] @ sign (wire_msg w) @ wire_msg w"
  have s: "sign_v0 sign ([1] @ zeros 64 @ wire_msg w) buy = s"
    using sign_wire [OF ok sign] by (simp add: s_def)
  have tmpl: "compile_dir buy static alt (Some wr_ix) (Some ro_ix) =
      Inr (v0_bytes (w_keys w) (le_bytes 4 400000) (w_ix w) (w_alt w) (w_wr w) (w_ro w))"
    using compile_dir_bytes [OF assms(1-5)] by (simp add: w_def)
  have tx: "patch (v0_bytes (w_keys w) (le_bytes 4 400000) (w_ix w) (w_alt w) (w_wr w) (w_ro w))
      direction amount min_profit bh price buy = Inr ([1] @ zeros 64 @ wire_msg w)"
    using patch_wire [OF ok] by (simp add: w_def)
  have fr: "parse_any s 0 = FOk (framed_template w (length s))"
    using frame_wire [OF ok sign [of "wire_msg w"]] by (simp add: parse_any_def s_def frame_consts)
  have K: "length (concat keys) = 352" "length keys = 11"
    using ok length_concat_keys [of keys 32] by (simp_all add: fields_ok_def w_def)
  have "length (wire_msg w) = (if buy then 561 else 558)"
    using assms K b58decode_length [OF assms(3)] by (simp add: w_def wire_msg_def del: le_bytes.simps)
  then have len: "length s = (if buy then V0_TX_LEN_BUY else V0_TX_LEN)"
    by (simp add: s_def sign v0_consts)
  have sig: "slice 1 65 s = sign (drop 65 s)"
    using slice_middle [of "[1]" 1 "sign (wire_msg w)" 65 "wire_msg w"] by (simp add: s_def sign)
  have "slice V0_OFF_BH (V0_OFF_BH + 32) (([1] @ sign (wire_msg w) @ [0x80, 1, 0, 10, 11] @ concat keys) @ bh @
      drop 389 (wire_msg w)) = bh"
    using assms K by (intro slice_middle) (simp_all add: sign v0_consts)
  moreover have "wire_msg w = [0x80, 1, 0, 10, 11] @ concat keys @ bh @ drop 389 (wire_msg w)"
    using assms K by (simp add: wire_msg_def w_def)
  ultimately have "slice V0_OFF_BH (V0_OFF_BH + 32) s = bh" by (simp add: s_def)
  then have bhs: "slice V0_OFF_BH (V0_OFF_BH + 32) s = bh" .
  show ?thesis
    by (rule exI, rule exI, rule exI [of _ "framed_template w (length s)"], rule conjI [OF tmpl], rule conjI [OF tx], unfold Let_def s,
        intro conjI fr len sig bhs) (simp_all add: framed_template_def, simp_all add: w_def)
qed

definition sample_static :: "string list" where
  "sample_static = [PAIR_DLMM, PAIR_PUMP, CU_PROG, TOKENKEG, SYSTEM, ATA_PROG, MEMO, xl_DLMM, xl_PUMP, TOKEN2022, FEE_PROG]"

lemma b58_consts:
  assumes "s \<in> set (FEE_CFG_LIVE # ALT_PROG # xl_SOL # sample_static)"
  shows "\<exists>raw. b58decode s = Inr raw"
  using assms
  by (intro b58decode_total)
    (auto simp: sample_static_def PAIR_DLMM_def PAIR_PUMP_def CU_PROG_def TOKENKEG_def SYSTEM_def ATA_PROG_def MEMO_def xl_DLMM_def
      xl_PUMP_def TOKEN2022_def FEE_PROG_def FEE_CFG_LIVE_def ALT_PROG_def xl_SOL_def B58_def)

lemma rmap_decodes: "(\<And>x. x \<in> set xs \<Longrightarrow> \<exists>y. f x = Inr y) \<Longrightarrow> \<exists>ys. rmap f xs = Inr ys"
  by (induction xs) (fastforce simp: rbind_Inr_iff)+


theorem signed_template_frames_witness:
  "\<exists>keys a tmpl tx fr. rmap b58decode sample_static = Inr keys \<and> b58decode ALT_PROG = Inr a
    \<and> compile_dir True sample_static ALT_PROG (Some ALT_WR_IX_BUY) (Some ALT_RO_IX_BUY) = Inr tmpl
    \<and> patch tmpl 1 50000000 MIN_GUARD (zeros 32) 1 True = Inr tx
    \<and> parse_any (sign_v0 (\<lambda>msg. zeros 64) tx True) 0 = FOk fr \<and> fr_keys fr = keys"
proof -
  obtain keys where keys: "rmap b58decode sample_static = Inr keys"
    using rmap_decodes [of sample_static b58decode] b58_consts by auto
  obtain a where a: "b58decode ALT_PROG = Inr a" using b58_consts [of ALT_PROG] by auto
  have "length sample_static = 11" by (simp add: sample_static_def)
  from signed_template_frames [OF keys this a, where wr_ix = ALT_WR_IX_BUY and ro_ix = ALT_RO_IX_BUY and buy = True
      and bh = "zeros 32" and price = 1 and direction = 1 and amount = 50000000 and min_profit = MIN_GUARD
      and sign = "\<lambda>msg. zeros 64"]
  show ?thesis using keys a by (auto simp: MIN_GUARD_def Let_def)
qed

end
