(* ===== verification/Exec_Resolve.thy ===== *)
theory Exec_Resolve
  imports Exec_Template
begin

text \<open>
  \<^verbatim>\<open>arb-exec/scripts/exec_live002b.py\<close>: the accounts behind the template. Derived addresses, the
  accounts of the last Pump transaction, the account set of the route (\<open>resolve\<close>), its split into
  static, writable and read-only keys, the address lookup table (creation, extension, reuse and the
  search of the prepared tables) and the checks of \<open>main\<close>. Accounts are read through \<open>rpc\<close> (the
  account call of \<open>Dep_Map\<close>) and \<open>fetch\<close> (the calls of \<open>snapshot_pool\<close>), SHA-256 is \<open>sha\<close>; the
  network writes are the instructions sent, in order.
\<close>

section \<open>Addresses and accounts\<close>

definition xl_pda :: "(bytes \<Rightarrow> bytes) \<Rightarrow> bytes list \<Rightarrow> string \<Rightarrow> string res" where
  "xl_pda sha seeds program =
    rbind (b58decode program) (\<lambda>prog. rbind (rd_find_pda sha seeds prog) (\<lambda>raw. Inr (record_pk raw)))"

definition ata :: "(bytes \<Rightarrow> bytes) \<Rightarrow> string \<Rightarrow> string \<Rightarrow> string \<Rightarrow> string res" where
  "ata sha owner mint tok =
    rbind (b58decode owner) (\<lambda>o'. rbind (b58decode tok) (\<lambda>t. rbind (b58decode mint) (\<lambda>m. xl_pda sha [o', t, m] ATA_PROG)))"

definition get_one :: "rpc_call \<Rightarrow> string \<Rightarrow> rpc_acc option res" where
  "get_one rpc pk = rbind (get_multiple rpc None None [pk]) (\<lambda>r. case r of [] \<Rightarrow> Inl IndexError | a # _ \<Rightarrow> Inr a)"

definition exists_acc :: "rpc_call \<Rightarrow> string \<Rightarrow> bool res" where
  "exists_acc rpc pk = rbind (get_one rpc pk) (\<lambda>a. Inr (a \<noteq> None))"

text \<open>The secret in the environment: 64 bytes are a key pair, 32 bytes a seed.\<close>

datatype payer_secret = FromBytes bytes | FromSeed bytes

definition payer_kp :: "string \<Rightarrow> payer_secret res" where
  "payer_kp env =
    rbind (b58_any env) (\<lambda>secret.
      if length secret = 64 then Inr (FromBytes secret)
      else if length secret = 32 then Inr (FromSeed secret)
      else Inl (SystemExit ''PRIVATE_KEY length''))"

section \<open>The accounts of the last Pump transaction\<close>

record pump_info =
  pi_nacc :: "nat option"
  pi_global :: string
  pi_proto_fee :: string
  pi_proto_fee_ata :: string
  pi_event :: string
  pi_creator_ata :: string
  pi_creator_auth :: string
  pi_slot19 :: "string option"
  pi_fee_program :: string
  pi_fee_config :: string

definition xl_ix_accounts :: "ix \<Rightarrow> string list \<Rightarrow> string list res" where
  "xl_ix_accounts i keys = (case ix_accounts_of i of AccNames ns \<Rightarrow> Inr ns | AccIndexes ns \<Rightarrow> rmap (key_at keys) ns)"

definition xl_ix_program :: "ix \<Rightarrow> string list \<Rightarrow> string option" where
  "xl_ix_program i keys =
    (case ix_programId i of Some p \<Rightarrow> Some p
     | None \<Rightarrow> (case ix_programIdIndex i of None \<Rightarrow> None
                | Some n \<Rightarrow> if n < length keys then Some (keys ! n) else None))"

definition xl_ix_data :: "ix \<Rightarrow> bytes res" where
  "xl_ix_data i = (case ix_data_of i of NoData \<Rightarrow> Inr [] | DataText s \<Rightarrow> b58_any s | DataBytes b \<Rightarrow> Inr b)"

definition pump_info_of :: "string list \<Rightarrow> string \<Rightarrow> string option \<Rightarrow> pump_info" where
  "pump_info_of accs fee_cfg extra =
    \<lparr> pi_nacc = Some (length accs), pi_global = accs ! 2, pi_proto_fee = accs ! 9, pi_proto_fee_ata = accs ! 10,
      pi_event = accs ! 15, pi_creator_ata = accs ! 17, pi_creator_auth = accs ! 18, pi_slot19 = extra,
      pi_fee_program = FEE_PROG, pi_fee_config = fee_cfg \<rparr>"

definition live_cfg :: "rpc_call \<Rightarrow> string \<Rightarrow> string res" where
  "live_cfg rpc pk = rbind (exists_acc rpc pk) (\<lambda>e. Inr (if e then pk else FEE_CFG_LIVE))"

text \<open>One instruction: \<^verbatim>\<open>None\<close> is \<^verbatim>\<open>continue\<close>.\<close>

definition pump_ix_info :: "rpc_call \<Rightarrow> string list \<Rightarrow> ix \<Rightarrow> pump_info option res" where
  "pump_ix_info rpc keys i =
    (if xl_ix_program i keys \<noteq> Some xl_PUMP then Inr None
     else rbind (xl_ix_accounts i keys) (\<lambda>accs. rbind (xl_ix_data i) (\<lambda>data.
       case accs of [] \<Rightarrow> Inl IndexError
       | a # _ \<Rightarrow>
         if a \<noteq> PAIR_PUMP \<or> length data < 8 then Inr None
         else if length accs \<ge> 24 \<and> accs ! 20 = FEE_PROG then
           rbind (live_cfg rpc (accs ! 19)) (\<lambda>c. Inr (Some (pump_info_of accs c (Some (accs ! 21)))))
         else if length accs \<ge> 22 then
           rbind (live_cfg rpc (accs ! 21)) (\<lambda>c.
             Inr (Some (pump_info_of accs c (if accs ! 19 \<noteq> c then Some (accs ! 19) else None))))
         else Inr None)))"

fun first_info :: "('a \<Rightarrow> 'b option res) \<Rightarrow> 'a list \<Rightarrow> 'b option res" where
  "first_info f [] = Inr None"
| "first_info f (x # xs) = rbind (f x) (\<lambda>r. case r of Some y \<Rightarrow> Inr (Some y) | None \<Rightarrow> first_info f xs)"

text \<open>\<^verbatim>\<open>getTransaction\<close> of one signature: nothing, or the transaction and whether its meta has an error.\<close>

definition pump_tx_info :: "rpc_call \<Rightarrow> (tx \<times> bool) option \<Rightarrow> pump_info option res" where
  "pump_tx_info rpc r =
    (case r of None \<Rightarrow> Inr None
     | Some (t, err) \<Rightarrow> if err then Inr None
         else first_info (pump_ix_info rpc (tx_keys t)) (tx_instructions t @ concat (map snd (tx_inner t))))"

definition pump_fallback :: "(bytes \<Rightarrow> bytes) \<Rightarrow> pump_info res" where
  "pump_fallback sha =
    (let proto = ''G5UZAVbAf46s7cKWoyKu8kYTip9DGTpbLZ2qa9Aq69dP'' in
     rbind (xl_pda sha [ascii ''global_config''] xl_PUMP) (\<lambda>g.
     rbind (ata sha proto xl_SOL TOKENKEG) (\<lambda>pa.
     rbind (xl_pda sha [ascii ''__event_authority''] xl_PUMP) (\<lambda>ev.
       Inr \<lparr> pi_nacc = None, pi_global = g, pi_proto_fee = proto, pi_proto_fee_ata = pa, pi_event = ev,
             pi_creator_ata = ''75mhQAcZeGKiL3wcuuVjTjg2SHJewZuQpd59ukiG24yv'',
             pi_creator_auth = ''F2Ne1XNs5f7LQNBdfB5WE69AGunwjAa6akdVGfVXiZxY'',
             pi_slot19 = None, pi_fee_program = FEE_PROG, pi_fee_config = FEE_CFG_LIVE \<rparr>))))"

definition latest_pump :: "(bytes \<Rightarrow> bytes) \<Rightarrow> rpc_call \<Rightarrow> (tx \<times> bool) option list \<Rightarrow> pump_info res" where
  "latest_pump sha rpc txs =
    rbind (first_info (pump_tx_info rpc) txs) (\<lambda>r. case r of Some i \<Rightarrow> Inr i | None \<Rightarrow> pump_fallback sha)"

section \<open>The account set of the route\<close>

record route_acc =
  ac_pair_dlmm :: "string option"
  ac_pair_pump :: "string option"
  ac_mint_x :: string
  ac_mint_y :: string
  ac_user_quote :: string
  ac_user_base :: string
  ac_event_dlmm :: string
  ac_oracle :: string
  ac_bins :: "string list"
  ac_vault_x :: string
  ac_vault_y :: string
  ac_vault_b :: string
  ac_vault_q :: string
  ac_pump :: pump_info
  ac_fee_cfg :: string
  ac_gvol :: string
  ac_pool_v2 :: string
  ac_uvol :: string
  ac_fee_recipient :: string
  ac_fee_rec_quote :: string
  ac_active_id :: int

fun pick_bins :: "(int \<Rightarrow> string res) \<Rightarrow> (string \<Rightarrow> bool res) \<Rightarrow> string list \<Rightarrow> int list \<Rightarrow> string list res" where
  "pick_bins pda ex bs [] = Inr bs"
| "pick_bins pda ex bs (i # is) =
     rbind (pda i) (\<lambda>pk.
     rbind (if pk \<in> set bs then Inr False else ex pk) (\<lambda>live.
       let bs' = (if live then bs @ [pk] else bs)
       in if length bs' = 2 then Inr bs' else pick_bins pda ex bs' is))"

definition around :: "int \<Rightarrow> int list" where
  "around a = [a, a + 1, a - 1, a + 2, a - 2]"

fun first_live :: "(string \<Rightarrow> string res) \<Rightarrow> (string \<Rightarrow> bool res) \<Rightarrow> string list \<Rightarrow> (string \<times> string) option res" where
  "first_live f ex [] = Inr None"
| "first_live f ex (rec # recs) =
     rbind (f rec) (\<lambda>q. rbind (ex q) (\<lambda>live. if live then Inr (Some (rec, q)) else first_live f ex recs))"

definition pick_recipient :: "(bytes \<Rightarrow> bytes) \<Rightarrow> rpc_call \<Rightarrow> string \<Rightarrow> (string \<times> string) res" where
  "pick_recipient sha rpc mint_y =
    rbind (ata sha FEE_RECIPIENT mint_y TOKENKEG) (\<lambda>q.
    rbind (exists_acc rpc q) (\<lambda>live.
      if live then Inr (FEE_RECIPIENT, q)
      else rbind (first_live (\<lambda>rec. ata sha rec mint_y TOKENKEG) (exists_acc rpc) FEE_RECIPIENTS) (\<lambda>r.
        case r of Some x \<Rightarrow> Inr x
        | None \<Rightarrow> Inl (SystemExit ''no live fee_recipient_quote WSOL ATA among the 8''))))"

definition resolve ::
  "(bytes \<Rightarrow> bytes) \<Rightarrow> (nat \<Rightarrow> string list \<Rightarrow> account option list) \<Rightarrow> rpc_call \<Rightarrow> (tx \<times> bool) option list \<Rightarrow> string \<Rightarrow> route_acc res" where
  "resolve sha fetch rpc txs wallet =
    rbind (snapshot_pool sha fetch PAIR_DLMM None) (\<lambda>sn.
    case sn of None \<Rightarrow> Inl (SystemExit ''DLMM snapshot failed'')
    | Some s \<Rightarrow>
      let lb = sn_lb s; mint_x = record_pk (lb_token_x lb); mint_y = record_pk (lb_token_y lb) in
      rbind (pick_bins (bin_array_pda sha PAIR_DLMM) (exists_acc rpc) [] (around (bin_array_index (lb_active_id lb)))) (\<lambda>bins.
      if length bins < 2 then Inl (SystemExit ''need two distinct live bin arrays'')
      else
      rbind (b58decode PAIR_DLMM) (\<lambda>pair.
      rbind (xl_pda sha [ascii ''oracle'', pair] xl_DLMM) (\<lambda>oracle.
      rbind (xl_pda sha [ascii ''__event_authority''] xl_DLMM) (\<lambda>event_dlmm.
      rbind (get_one rpc PAIR_PUMP) (\<lambda>pacc.
      case (case pacc of None \<Rightarrow> None | Some a \<Rightarrow> parse_pump_pool (ra_data a)) of
        None \<Rightarrow> Inl (SystemExit ''pump parse failed'')
      | Some p \<Rightarrow>
      rbind (latest_pump sha rpc txs) (\<lambda>pump.
      rbind (if pi_fee_config pump = [] then Inr FEE_CFG_LIVE else live_cfg rpc (pi_fee_config pump)) (\<lambda>fee_cfg.
      rbind (xl_pda sha [ascii ''global_volume_accumulator''] xl_PUMP) (\<lambda>gvol.
      rbind (b58decode mint_x) (\<lambda>mx.
      rbind (xl_pda sha [ascii ''pool-v2'', mx] xl_PUMP) (\<lambda>pool_v2.
      rbind (b58decode wallet) (\<lambda>wl.
      rbind (xl_pda sha [ascii ''user_volume_accumulator'', wl] xl_PUMP) (\<lambda>uvol.
      rbind (pick_recipient sha rpc mint_y) (\<lambda>(fee_recipient, fee_rec_quote).
      rbind (ata sha wallet xl_SOL TOKENKEG) (\<lambda>user_quote.
      rbind (ata sha wallet mint_x TOKEN2022) (\<lambda>user_base.
        Inr \<lparr> ac_pair_dlmm = Some PAIR_DLMM, ac_pair_pump = Some PAIR_PUMP, ac_mint_x = mint_x, ac_mint_y = mint_y,
              ac_user_quote = user_quote, ac_user_base = user_base, ac_event_dlmm = event_dlmm, ac_oracle = oracle,
              ac_bins = bins, ac_vault_x = record_pk (lb_vault_x lb), ac_vault_y = record_pk (lb_vault_y lb),
              ac_vault_b = record_pk (pp_vault_base p), ac_vault_q = record_pk (pp_vault_quote p), ac_pump = pump,
              ac_fee_cfg = fee_cfg, ac_gvol = gvol, ac_pool_v2 = pool_v2, ac_uvol = uvol,
              ac_fee_recipient = fee_recipient, ac_fee_rec_quote = fee_rec_quote, ac_active_id = lb_active_id lb \<rparr>))))))))))))))))"

definition v0_parts :: "string \<Rightarrow> string \<Rightarrow> route_acc \<Rightarrow> (string list \<times> string list \<times> string list) res" where
  "v0_parts wallet our_exec acc =
    (if length (ac_bins acc) < 2 then Inl IndexError
     else Inr
      ([wallet, our_exec, CU_PROG, TOKENKEG, SYSTEM, ATA_PROG, MEMO, xl_DLMM, xl_PUMP, TOKEN2022, FEE_PROG],
       [ac_user_quote acc, ac_user_base acc,
        (case or_text (ac_pair_dlmm acc) (Some PAIR_DLMM) of Some p \<Rightarrow> p | None \<Rightarrow> PAIR_DLMM),
        ac_vault_x acc, ac_vault_y acc, ac_oracle acc, ac_bins acc ! 0, ac_bins acc ! 1,
        (case or_text (ac_pair_pump acc) (Some PAIR_PUMP) of Some p \<Rightarrow> p | None \<Rightarrow> PAIR_PUMP),
        ac_vault_b acc, ac_vault_q acc, pi_proto_fee_ata (ac_pump acc), pi_creator_ata (ac_pump acc), ac_uvol acc,
        ac_fee_rec_quote acc],
       [ac_event_dlmm acc, ac_mint_x acc, ac_mint_y acc, pi_event (ac_pump acc), pi_global (ac_pump acc), ac_fee_cfg acc,
        pi_proto_fee (ac_pump acc), pi_creator_auth (ac_pump acc), ac_pool_v2 acc, ac_fee_recipient acc]))"

definition loaded_keys :: "string list \<Rightarrow> string list \<Rightarrow> string list \<Rightarrow> string list" where
  "loaded_keys static wr ro = static @ wr @ ro"

definition logical_of :: "string list \<Rightarrow> bytes \<Rightarrow> string list res" where
  "logical_of loaded ix_map = rmap (\<lambda>i. key_at loaded (unat i)) (take 35 ix_map)"

definition logical35 :: "string list \<Rightarrow> string list res" where
  "logical35 loaded = logical_of loaded IX_IDX"

section \<open>Address lookup tables\<close>

record meta_row =
  me_pk :: string
  me_signer :: bool
  me_writable :: bool

record instruction =
  in_program :: string
  in_data :: bytes
  in_metas :: "meta_row list"

fun alt_pda_loop :: "(bytes \<Rightarrow> bytes) \<Rightarrow> bytes list \<Rightarrow> bytes \<Rightarrow> nat \<Rightarrow> (bytes \<times> nat) res" where
  "alt_pda_loop sha seeds prog 0 = Inl (SystemExit ''alt pda'')"
| "alt_pda_loop sha seeds prog (Suc bump) =
     (let digest = sha (pda_preimage seeds prog bump)
      in if \<not> rd_on_curve digest then Inr (digest, bump) else alt_pda_loop sha seeds prog bump)"

definition alt_pda :: "(bytes \<Rightarrow> bytes) \<Rightarrow> bytes \<Rightarrow> int \<Rightarrow> (bytes \<times> nat) res" where
  "alt_pda sha authority slot =
    rbind (pack_u 8 slot) (\<lambda>s. rbind (b58decode ALT_PROG) (\<lambda>prog. alt_pda_loop sha [authority, s] prog 256))"

text \<open>The account is asked up to eight times (\<open>polls\<close>) until it is long enough.\<close>

fun alt_wait :: "bytes option list \<Rightarrow> bytes option" where
  "alt_wait [] = None"
| "alt_wait [a] = a"
| "alt_wait (a # as) = (case a of Some raw \<Rightarrow> if length raw \<ge> 56 then a else alt_wait as | None \<Rightarrow> alt_wait as)"

definition table_keys :: "bytes \<Rightarrow> string list" where
  "table_keys raw = map (\<lambda>i. record_pk (slice (56 + 32 * i) (88 + 32 * i) raw)) [0..<(length raw - 56) div 32]"

definition alt_addresses :: "bytes option list \<Rightarrow> string list" where
  "alt_addresses polls =
    (case alt_wait (take 8 polls) of None \<Rightarrow> [] | Some raw \<Rightarrow> if length raw < 56 then [] else table_keys raw)"

definition alt_metas :: "string \<Rightarrow> string \<Rightarrow> meta_row list" where
  "alt_metas pk payer =
    [\<lparr> me_pk = pk, me_signer = False, me_writable = True \<rparr>, \<lparr> me_pk = payer, me_signer = True, me_writable = False \<rparr>,
     \<lparr> me_pk = payer, me_signer = True, me_writable = True \<rparr>, \<lparr> me_pk = SYSTEM, me_signer = False, me_writable = False \<rparr>]"

definition extend_ix :: "string \<Rightarrow> string \<Rightarrow> string list \<Rightarrow> instruction res" where
  "extend_ix payer pk chunk =
    rbind (pack_u 4 2) (\<lambda>op. rbind (pack_u 8 (int (length chunk))) (\<lambda>n. rbind (rmap b58decode chunk) (\<lambda>ks.
      Inr \<lparr> in_program = ALT_PROG, in_data = op @ n @ concat ks, in_metas = alt_metas pk payer \<rparr>)))"

text \<open>The instructions sent, twenty addresses at a time.\<close>

definition alt_extend :: "string \<Rightarrow> string \<Rightarrow> string list \<Rightarrow> instruction list res" where
  "alt_extend payer pk extra = rmap (extend_ix payer pk) (chunks 19 extra)"

definition create_ix :: "(bytes \<Rightarrow> bytes) \<Rightarrow> string \<Rightarrow> int \<Rightarrow> (string \<times> instruction) res" where
  "create_ix sha payer slot =
    rbind (b58decode payer) (\<lambda>auth. rbind (alt_pda sha auth slot) (\<lambda>(raw, bump).
    rbind (pack_u 4 0) (\<lambda>op. rbind (pack_u 8 slot) (\<lambda>s. rbind (pack_u 1 (int bump)) (\<lambda>b.
      Inr (record_pk raw, \<lparr> in_program = ALT_PROG, in_data = op @ s @ b, in_metas = alt_metas (record_pk raw) payer \<rparr>))))))"

text \<open>Reading the new table back: \<open>seen\<close> are the contents seen, one per attempt.\<close>

definition saw_table :: "string list list \<Rightarrow> string list \<Rightarrow> bool" where
  "saw_table seen table \<longleftrightarrow> table \<in> set (take 20 seen)"

definition alt_create :: "(bytes \<Rightarrow> bytes) \<Rightarrow> string \<Rightarrow> int \<Rightarrow> string list list \<Rightarrow> string list \<Rightarrow> (instruction list \<times> string) res" where
  "alt_create sha payer slot seen table =
    (if table = [] \<or> length table > 256 then Inl (RuntimeError ''alt_create n'')
     else rbind (create_ix sha payer slot) (\<lambda>(alt, ix).
          rbind (alt_extend payer alt table) (\<lambda>ext.
            if saw_table seen table then Inr (ix # ext, alt) else Inl (RuntimeError ''ALT create mismatch''))))"

text \<open>What \<^verbatim>\<open>ensure_alt\<close> decides about the table recorded in \<^verbatim>\<open>alt.json\<close>.\<close>

datatype alt_plan = Reuse | Pinned | Extend "string list" | ReuseStale | CreateNew

definition alt_decision :: "bool \<Rightarrow> string list \<Rightarrow> string list \<Rightarrow> alt_plan res" where
  "alt_decision no_new have table =
    (if have = table then Inr Reuse
     else if have \<noteq> [] \<and> length have = length table \<and> length table < 8 then Inl IndexError
     else if have \<noteq> [] \<and> length have = length table \<and> table[6 := have ! 6, 7 := have ! 7] = have then Inr Pinned
     else if have \<noteq> [] \<and> take (length have) table = have \<and> length table > length have then Inr (Extend (drop (length have) table))
     else if no_new then Inr ReuseStale else Inr CreateNew)"

definition ensure_new :: "(bytes \<Rightarrow> bytes) \<Rightarrow> string \<Rightarrow> int \<Rightarrow> string list list \<Rightarrow> string list \<Rightarrow> (instruction list \<times> string) res" where
  "ensure_new sha payer slot seen table =
    rbind (create_ix sha payer slot) (\<lambda>(alt, ix).
    rbind (alt_extend payer alt table) (\<lambda>ext.
      if saw_table seen table then Inr (ix # ext, alt) else Inl (SystemExit ''ALT contents mismatch'')))"

text \<open>\<open>recorded\<close>: the live table of \<^verbatim>\<open>alt.json\<close>, with the addresses read from it.\<close>

definition ensure_alt ::
  "(bytes \<Rightarrow> bytes) \<Rightarrow> string \<Rightarrow> bool \<Rightarrow> (string \<times> string list) option \<Rightarrow> int \<Rightarrow> string list list \<Rightarrow> string list
    \<Rightarrow> (instruction list \<times> string) res" where
  "ensure_alt sha payer no_new recorded slot seen table =
    (case recorded of
       None \<Rightarrow> ensure_new sha payer slot seen table
     | Some (pk, have) \<Rightarrow> rbind (alt_decision no_new have table) (\<lambda>plan.
         case plan of
           Reuse \<Rightarrow> Inr ([], pk) | Pinned \<Rightarrow> Inr ([], pk) | ReuseStale \<Rightarrow> Inr ([], pk)
         | Extend extra \<Rightarrow> rbind (alt_extend payer pk extra) (\<lambda>ext.
             if saw_table seen table then Inr (ext, pk) else Inl (SystemExit ''ALT extend mismatch''))
         | CreateNew \<Rightarrow> ensure_new sha payer slot seen table))"

section \<open>Prepared tables\<close>

record plane_alt =
  pa_pubkey :: "string option"
  pa_addresses :: "string list"

text \<open>\<^verbatim>\<open>{a: i for i, a in enumerate(have)}\<close>: the last position of a repeated address.\<close>

definition pos_of :: "string list \<Rightarrow> (string, nat) dict" where
  "pos_of have = foldl (\<lambda>d (i, a). dput a i d) [] (zip [0..<length have] have)"

text \<open>\<^verbatim>\<open>bytes(...)\<close> of positions: ValueError above 255.\<close>

definition index_bytes :: "nat list \<Rightarrow> bytes res" where
  "index_bytes is = rmap (\<lambda>i. if i < 256 then Inr (word_of_nat i) else Inl (ValueError ''bytes must be in range(0, 256)'')) is"

definition positions :: "string list \<Rightarrow> string list \<Rightarrow> bytes res" where
  "positions have need = index_bytes (map (\<lambda>a. the (dget (pos_of have) a)) need)"

fun lookup_loop :: "plane_alt list \<Rightarrow> string list \<Rightarrow> string list \<Rightarrow> (string \<times> bytes \<times> bytes) option res" where
  "lookup_loop [] wr ro = Inr None"
| "lookup_loop (alt # alts) wr ro =
     (if list_ex (\<lambda>a. dget (pos_of (pa_addresses alt)) a = None) (wr @ ro) then lookup_loop alts wr ro
      else case pa_pubkey alt of None \<Rightarrow> Inl KeyError
        | Some pk \<Rightarrow> rbind (positions (pa_addresses alt) wr) (\<lambda>w. rbind (positions (pa_addresses alt) ro) (\<lambda>r. Inr (Some (pk, w, r)))))"

definition lookup_prepared :: "plane_alt list \<Rightarrow> string list \<Rightarrow> string list \<Rightarrow> (string \<times> bytes \<times> bytes) res" where
  "lookup_prepared plane wr ro =
    rbind (lookup_loop plane wr ro) (\<lambda>r. case r of Some x \<Rightarrow> Inr x | None \<Rightarrow> Inl (AltPlaneMiss ''no prepared ALT covers''))"

text \<open>\<^verbatim>\<open>publish_plane\<close>: the rows written to \<^verbatim>\<open>alt_plane.json\<close>.\<close>

definition publish_plane :: "plane_alt list \<Rightarrow> plane_alt list" where
  "publish_plane alts = filter (\<lambda>a. pa_pubkey a \<noteq> None \<and> pa_pubkey a \<noteq> Some [] \<and> pa_addresses a \<noteq> []) alts"

section \<open>Token accounts\<close>

definition ensure_ata :: "(bytes \<Rightarrow> bytes) \<Rightarrow> rpc_call \<Rightarrow> string \<Rightarrow> string \<Rightarrow> string \<Rightarrow> string \<Rightarrow> (instruction list \<times> string) res" where
  "ensure_ata sha rpc payer owner mint tok =
    rbind (ata sha owner mint tok) (\<lambda>pk. rbind (exists_acc rpc pk) (\<lambda>live.
      if live then Inr ([], pk)
      else Inr ([\<lparr> in_program = ATA_PROG, in_data = [1],
        in_metas = [\<lparr> me_pk = payer, me_signer = True, me_writable = True \<rparr>, \<lparr> me_pk = pk, me_signer = False, me_writable = True \<rparr>,
          \<lparr> me_pk = owner, me_signer = False, me_writable = False \<rparr>, \<lparr> me_pk = mint, me_signer = False, me_writable = False \<rparr>,
          \<lparr> me_pk = SYSTEM, me_signer = False, me_writable = False \<rparr>, \<lparr> me_pk = tok, me_signer = False, me_writable = False \<rparr>] \<rparr>], pk)))"

text \<open>The lamports transferred into the wrapped account before the sync instruction.\<close>

definition wrap_wsol :: "rpc_call \<Rightarrow> string \<Rightarrow> int \<Rightarrow> int option res" where
  "wrap_wsol rpc wsol lamports =
    rbind (get_one rpc wsol) (\<lambda>info.
      let have = (case info of None \<Rightarrow> 0 | Some a \<Rightarrow> token_amount (ra_data a))
      in Inr (if have \<ge> lamports then None else Some (lamports - have)))"

section \<open>The checks of main\<close>

definition main_table :: "int \<Rightarrow> route_acc \<Rightarrow> string list \<Rightarrow> string list \<Rightarrow> string list \<times> string list \<times> bytes" where
  "main_table direction acc wr ro =
    (if direction = 1
     then let wr' = wr @ [ac_gvol acc] in (wr', take 14 wr' @ take 9 ro @ [wr' ! 14, ro ! 9, wr' ! 15], IX_IDX_BUY)
     else (wr, take 14 wr @ take 9 ro @ [wr ! 14, ro ! 9], IX_IDX))"

definition logical_locks :: "string \<Rightarrow> string list \<Rightarrow> unit res" where
  "logical_locks wallet logical =
    (if logical ! 0 \<noteq> wallet \<or> logical ! 7 \<noteq> xl_DLMM \<or> logical ! 19 \<noteq> xl_PUMP then Inl (SystemExit ''logical order lock failed'')
     else if logical ! 10 \<noteq> xl_DLMM \<or> logical ! 14 \<noteq> xl_DLMM then Inl (SystemExit ''optional-none bitmap/host must be DLMM program'')
     else if logical ! 15 \<noteq> logical ! 25 \<or> logical ! 16 \<noteq> logical ! 26 then Inl (SystemExit ''mint alias lock failed'')
     else Inr ())"

text \<open>From the account set to the table and the logical order, before any table is created.\<close>

definition main_plan ::
  "int \<Rightarrow> string \<Rightarrow> string \<Rightarrow> route_acc \<Rightarrow> (string list \<times> string list \<times> string list \<times> string list \<times> string list) res" where
  "main_plan direction wallet our_exec acc =
    (if direction \<noteq> 0 \<and> direction \<noteq> 1 then Inl (SystemExit ''SIM_DIR'')
     else rbind (v0_parts wallet our_exec acc) (\<lambda>(static, wr0, ro).
       case main_table direction acc wr0 ro of (wr, table, ix_map) \<Rightarrow>
       if \<not> distinct table then Inl (SystemExit ''ALT duplicate'')
       else if set table \<inter> set static \<noteq> {} then Inl (SystemExit ''ALT overlaps static'')
       else rbind (logical_of (loaded_keys static wr ro) ix_map) (\<lambda>logical.
         rbind (logical_locks wallet logical) (\<lambda>_. Inr (static, wr, ro, table, logical)))))"

definition main_tx ::
  "(bytes \<Rightarrow> bytes) \<Rightarrow> int \<Rightarrow> string list \<Rightarrow> string \<Rightarrow> bytes \<Rightarrow> int \<Rightarrow> bytes res" where
  "main_tx sign direction static alt bh sim_in =
    (let buy = (direction = 1); tiny = (if sim_in \<noteq> 0 then sim_in else if buy then 50000000 else TINY_IN) in
     rbind (if buy then compile_v0_buy static alt None None else compile_v0 static alt None None) (\<lambda>tmpl.
     rbind (patch tmpl direction tiny MIN_GUARD bh 1 buy) (\<lambda>p.
       let tx = sign_v0 sign p buy
       in if tx ! 0 \<noteq> 1 \<or> tx ! 65 \<noteq> 0x80 then Inl (SystemExit ''v0 header'') else Inr tx)))"

section \<open>Positions in a table\<close>

lemma pos_of_snoc: "pos_of (xs @ [a]) = dput a (length xs) (pos_of xs)"
  by (simp add: pos_of_def)

lemma pos_of_sound: "dget (pos_of xs) a = Some i \<Longrightarrow> i < length xs \<and> xs ! i = a"
  by (induction xs rule: rev_induct) (auto simp: pos_of_snoc update_conv' nth_append pos_of_def split: if_splits)

lemma pos_of_None: "dget (pos_of xs) a = None \<longleftrightarrow> a \<notin> set xs"
  by (induction xs rule: rev_induct) (auto simp: pos_of_snoc update_conv' pos_of_def)

lemma index_bytes_ok: "index_bytes is = Inr bs \<Longrightarrow> map unat bs = is"
  by (induction "is" arbitrary: bs) (auto simp: index_bytes_def rbind_Inr_iff unat_of_nat split: if_splits)

lemma index_bytes_total: "\<forall>i\<in>set is. i < 256 \<Longrightarrow> index_bytes is = Inr (map word_of_nat is)"
  unfolding index_bytes_def by (rule rmap_Inr_all) simp

lemma positions_sound:
  assumes "positions tab need = Inr bs" "set need \<subseteq> set tab"
  shows "map (\<lambda>b. tab ! unat b) bs = need" "\<forall>b\<in>set bs. unat b < length tab"
proof -
  have ix: "map unat bs = map (\<lambda>a. the (dget (pos_of tab) a)) need"
    using assms(1) index_bytes_ok by (simp add: positions_def)
  have each: "\<exists>i. dget (pos_of tab) a = Some i \<and> i < length tab \<and> tab ! i = a" if "a \<in> set need" for a
    using that assms(2) pos_of_None [of tab a] pos_of_sound [of tab a] by auto
  have "map (\<lambda>b. tab ! unat b) bs = map (\<lambda>i. tab ! i) (map unat bs)" by simp
  also have "\<dots> = need" unfolding ix map_map by (rule map_idI) (use each in fastforce)
  finally show "map (\<lambda>b. tab ! unat b) bs = need" .
  have "\<forall>i\<in>set (map unat bs). i < length tab" unfolding ix using each by fastforce
  then show "\<forall>b\<in>set bs. unat b < length tab" by simp
qed

lemma positions_total:
  assumes "set need \<subseteq> set tab" "length tab \<le> 256"
  shows "\<exists>bs. positions tab need = Inr bs"
proof -
  have "the (dget (pos_of tab) a) < 256" if "a \<in> set need" for a
    using that assms pos_of_None [of tab a] pos_of_sound [of tab a] by fastforce
  then have "\<forall>i\<in>set (map (\<lambda>a. the (dget (pos_of tab) a)) need). i < 256" by auto
  then show ?thesis unfolding positions_def by (blast intro: index_bytes_total)
qed

lemma lookup_loop_hit:
  assumes "lookup_loop plane wr ro = Inr (Some (pk, w, r))"
  shows "\<exists>alt\<in>set plane. pa_pubkey alt = Some pk \<and> set (wr @ ro) \<subseteq> set (pa_addresses alt)
    \<and> positions (pa_addresses alt) wr = Inr w \<and> positions (pa_addresses alt) ro = Inr r"
  using assms
proof (induction plane)
  case (Cons alt plane)
  show ?case
  proof (cases "list_ex (\<lambda>a. dget (pos_of (pa_addresses alt)) a = None) (wr @ ro)")
    case True
    then show ?thesis using Cons by simp
  next
    case False
    then have "set (wr @ ro) \<subseteq> set (pa_addresses alt)" by (auto simp: list_ex_iff pos_of_None)
    then show ?thesis using Cons.prems False by (auto simp: rbind_Inr_iff split: option.splits)
  qed
qed simp

lemma lookup_loop_miss:
  assumes "lookup_loop plane wr ro = Inr None" "alt \<in> set plane"
  shows "\<not> set (wr @ ro) \<subseteq> set (pa_addresses alt)"
  using assms
proof (induction plane)
  case (Cons a plane)
  then have "list_ex (\<lambda>x. dget (pos_of (pa_addresses a)) x = None) (wr @ ro)" "lookup_loop plane wr ro = Inr None"
    by (auto simp: rbind_Inr_iff split: option.splits if_splits)
  then show ?case using Cons by (auto simp: list_ex_iff pos_of_None)
qed simp

lemma lookup_loop_total:
  assumes "\<And>alt. alt \<in> set plane \<Longrightarrow> pa_pubkey alt \<noteq> None \<and> length (pa_addresses alt) \<le> 256"
  shows "\<exists>r. lookup_loop plane wr ro = Inr r"
  using assms
proof (induction plane)
  case (Cons alt plane)
  show ?case
  proof (cases "list_ex (\<lambda>a. dget (pos_of (pa_addresses alt)) a = None) (wr @ ro)")
    case False
    then have "set wr \<subseteq> set (pa_addresses alt)" "set ro \<subseteq> set (pa_addresses alt)"
      by (auto simp: list_ex_iff pos_of_None)
    then obtain w r where "positions (pa_addresses alt) wr = Inr w" "positions (pa_addresses alt) ro = Inr r"
      using positions_total Cons.prems [of alt] by fastforce
    then show ?thesis using False Cons.prems [of alt] by auto
  qed (use Cons in auto)
qed simp

text \<open>
  C35: The search of the prepared lookup tables is sound and complete. Over tables with a public key and
  at most 256 addresses it returns either a table together with two index lists through which the table
  yields exactly the requested writable and read-only keys, in order, or the plane miss, and the miss
  exactly when no prepared table holds all requested keys. It never raises anything else.
\<close>

theorem lookup_prepared_exact:
  assumes plane: "\<And>alt. alt \<in> set plane \<Longrightarrow> pa_pubkey alt \<noteq> None \<and> length (pa_addresses alt) \<le> 256"
  shows "(case lookup_prepared plane wr ro of
      Inr (pk, w, r) \<Rightarrow> \<exists>alt\<in>set plane. pa_pubkey alt = Some pk
        \<and> map (\<lambda>b. pa_addresses alt ! unat b) w = wr \<and> map (\<lambda>b. pa_addresses alt ! unat b) r = ro
        \<and> (\<forall>b\<in>set w \<union> set r. unat b < length (pa_addresses alt))
    | Inl e \<Rightarrow> e = AltPlaneMiss ''no prepared ALT covers''
        \<and> \<not> (\<exists>alt\<in>set plane. set (wr @ ro) \<subseteq> set (pa_addresses alt)))"
proof -
  obtain res where res: "lookup_loop plane wr ro = Inr res" using lookup_loop_total [OF plane] by blast
  show ?thesis
  proof (cases res)
    case None
    then show ?thesis using res lookup_loop_miss [of plane wr ro] by (auto simp: lookup_prepared_def)
  next
    case (Some x)
    obtain pk w r where x: "x = (pk, w, r)" by (cases x)
    obtain alt where alt: "alt \<in> set plane" "pa_pubkey alt = Some pk" "set (wr @ ro) \<subseteq> set (pa_addresses alt)"
      "positions (pa_addresses alt) wr = Inr w" "positions (pa_addresses alt) ro = Inr r"
      using lookup_loop_hit [of plane wr ro pk w r] res Some x by auto
    then have "set wr \<subseteq> set (pa_addresses alt)" "set ro \<subseteq> set (pa_addresses alt)" by auto
    with positions_sound [OF alt(4)] positions_sound [OF alt(5)] alt(1,2)
    show ?thesis using res Some x by (auto simp: lookup_prepared_def)
  qed
qed

theorem lookup_prepared_exact_witness:
  "\<exists>w r. lookup_prepared [\<lparr> pa_pubkey = Some ''T'', pa_addresses = [''a'', ''b'', ''c''] \<rparr>] [''c''] [''a''] = Inr (''T'', w, r)
    \<and> map (\<lambda>b. [''a'', ''b'', ''c''] ! unat b) w = [''c'']"
  using lookup_prepared_exact [of "[\<lparr> pa_pubkey = Some ''T'', pa_addresses = [''a'', ''b'', ''c''] \<rparr>]" "[''c'']" "[''a'']"]
  by (auto split: sum.splits)

section \<open>Creating and extending a table\<close>

text \<open>What the table program reads from an extension: the keys after the tag and the count.\<close>

definition added_keys :: "instruction \<Rightarrow> bytes list" where
  "added_keys i = split_keys (in_data i) 12 (le_nat (slice 4 12 (in_data i)))"

lemma extend_ix_added:
  assumes "extend_ix payer pk chunk = Inr i" "length chunk < 2 ^ 64"
  shows "\<exists>ks. rmap b58decode chunk = Inr ks \<and> added_keys i = ks"
    "in_program i = ALT_PROG" "in_metas i = alt_metas pk payer" "take 4 (in_data i) = le_bytes 4 2"
proof -
  obtain ks where ks: "rmap b58decode chunk = Inr ks"
    and data: "in_data i = le_bytes 4 2 @ le_bytes 8 (length chunk) @ concat ks"
    and "in_program i = ALT_PROG" "in_metas i = alt_metas pk payer"
    using assms by (auto simp: extend_ix_def rbind_Inr_iff pack_u_def)
  then show "in_program i = ALT_PROG" "in_metas i = alt_metas pk payer" "take 4 (in_data i) = le_bytes 4 2" by simp_all
  have "le_nat (slice 4 12 (le_bytes 4 2 @ le_bytes 8 (length chunk) @ concat ks)) = length chunk"
    using assms(2) by (subst slice_middle) (simp_all add: le_nat_le_bytes del: le_bytes.simps)
  moreover have "split_keys ((le_bytes 4 2 @ le_bytes 8 (length chunk)) @ concat ks @ []) 12 (length ks) = ks"
    by (rule split_keys_concat) (use rmap_b58_keys [OF ks] in simp_all)
  ultimately have "added_keys i = ks"
    using rmap_b58_keys [OF ks] by (simp add: added_keys_def data)
  then show "\<exists>ks. rmap b58decode chunk = Inr ks \<and> added_keys i = ks" using ks by blast
qed

lemma rmap_append: "rmap f (xs @ ys) = rbind (rmap f xs) (\<lambda>a. rbind (rmap f ys) (\<lambda>b. Inr (a @ b)))"
proof (induction xs)
  case Nil
  then show ?case by (cases "rmap f ys") auto
next
  case (Cons x xs)
  then show ?case by (cases "f x"; cases "rmap f xs"; cases "rmap f ys") auto
qed

lemma chunks_bound: "c \<in> set (chunks n xs) \<Longrightarrow> length c \<le> Suc n"
  by (induction n xs rule: chunks.induct) auto

lemma rmap_extend:
  assumes "rmap (extend_ix payer pk) cs = Inr ixs" "\<forall>c\<in>set cs. length c < 2 ^ 64"
  shows "rmap b58decode (concat cs) = Inr (concat (map added_keys ixs))"
    "\<forall>i\<in>set ixs. in_program i = ALT_PROG \<and> in_metas i = alt_metas pk payer \<and> take 4 (in_data i) = le_bytes 4 2"
  using assms
proof (induction cs arbitrary: ixs)
  case (Cons c cs)
  {
    case 1
    then show ?case using Cons.IH(1) extend_ix_added(1) [of payer pk c] by (fastforce simp: rbind_Inr_iff rmap_append)
  next
    case 2
    then show ?case using Cons.IH(2) extend_ix_added(2-4) [of payer pk c] by (fastforce simp: rbind_Inr_iff)
  }
qed simp_all

lemma alt_extend_adds:
  assumes "alt_extend payer pk extra = Inr ixs"
  shows "rmap b58decode extra = Inr (concat (map added_keys ixs))"
    "\<forall>i\<in>set ixs. in_program i = ALT_PROG \<and> in_metas i = alt_metas pk payer \<and> take 4 (in_data i) = le_bytes 4 2"
proof -
  have "\<forall>c\<in>set (chunks 19 extra). length c < 2 ^ 64" using chunks_bound [of _ 19 extra] by force
  from rmap_extend [OF assms [unfolded alt_extend_def] this]
  show "rmap b58decode extra = Inr (concat (map added_keys ixs))"
    "\<forall>i\<in>set ixs. in_program i = ALT_PROG \<and> in_metas i = alt_metas pk payer \<and> take 4 (in_data i) = le_bytes 4 2"
    by (simp_all add: concat_chunks)
qed

lemma ensure_new_adds:
  assumes "ensure_new sha payer slot seen table = Inr (ixs, pk)"
  shows "\<exists>c ext. ixs = c # ext \<and> rmap b58decode table = Inr (concat (map added_keys ext)) \<and> table \<in> set seen"
  using assms alt_extend_adds(1) [of payer pk table]
  by (auto simp: ensure_new_def rbind_Inr_iff saw_table_def dest: in_set_takeD split: prod.splits if_splits)



end
