(* ===== verification/Hops_Vector.thy ===== *)
theory Hops_Vector
  imports Exec_Resolve
begin

text \<open>
  \<^verbatim>\<open>arb-exec/scripts/hops_vector.py\<close>: the account vector of one hop. Every address is derived from the
  pool's own bytes, the vector is flattened to instruction order second, and a vector can be compared
  role by role with a derived one. The module's mint cache is part of the state \<open>hops_st\<close>; accounts are
  read through \<open>rpc\<close> and \<open>fetch\<close>, SHA-256 is \<open>sha\<close>. A failure row is a dictionary.
\<close>

section \<open>Roles\<close>

definition SEQ_SHORT :: "(string, string) dict" where
  "SEQ_SHORT =
    [(''dlmm-dlmm'', ''dd''), (''dlmm-pump'', ''dp''), (''pump-dlmm'', ''pd''), (''pump-pump'', ''pp''),
     (''dlmm-dlmm-dlmm'', ''ddd''), (''dlmm-dlmm-pump'', ''ddp''), (''pump-dlmm-dlmm'', ''pdd'')]"

definition PUMP_HEAD_ROLES :: "string list" where
  "PUMP_HEAD_ROLES =
    [''pool'', ''user'', ''global_config'', ''base_mint'', ''quote_mint'',
     ''user_base_ata'', ''user_quote_ata'', ''pool_base_vault'', ''pool_quote_vault'',
     ''protocol_fee_recipient'', ''protocol_fee_recipient_quote_ata'',
     ''token_program_base'', ''token_program_quote'',
     ''system_program'', ''associated_token_program'',
     ''event_authority'', ''program'',
     ''creator_vault_ata'', ''creator_vault'']"

definition PUMP_BUY_TAIL :: "string list" where
  "PUMP_BUY_TAIL =
    [''global_volume_accumulator'', ''user_volume_accumulator'', ''fee_config'', ''fee_program'', ''pool_v2'',
     ''fee_recipient'', ''fee_recipient_quote_ata'']"

definition PUMP_SELL_TAIL :: "string list" where
  "PUMP_SELL_TAIL = [''fee_config'', ''fee_program'', ''pool_v2'', ''fee_recipient'', ''fee_recipient_quote_ata'']"

definition DLMM_ROLES :: "string list" where
  "DLMM_ROLES =
    [''lb_pair'', ''bitmap'', ''vault_x'', ''vault_y'', ''oracle'', ''host'', ''mint_x'', ''mint_y'', ''bin0'', ''bin1'']"

definition PUMP_PDA_ROLES :: "string list" where
  "PUMP_PDA_ROLES =
    [''global_config'', ''event_authority'', ''creator_vault'', ''creator_vault_ata'', ''global_volume_accumulator'',
     ''user_volume_accumulator'', ''pool_v2'', ''protocol_fee_recipient_quote_ata'', ''fee_recipient_quote_ata'']"

definition DLMM_PDA_ROLES :: "string list" where
  "DLMM_PDA_ROLES = [''oracle'', ''bin0'', ''bin1'']"

definition ANCHOR_ROLE :: "(string, string) dict" where
  "ANCHOR_ROLE =
    [(''pool'', ''pool''), (''user'', ''user''), (''global_config'', ''global_config''), (''global'', ''global_config''),
     (''base_mint'', ''base_mint''), (''quote_mint'', ''quote_mint''),
     (''user_base_token_account'', ''user_base_ata''), (''user_quote_token_account'', ''user_quote_ata''),
     (''pool_base_token_account'', ''pool_base_vault''), (''pool_quote_token_account'', ''pool_quote_vault''),
     (''protocol_fee_recipient'', ''protocol_fee_recipient''),
     (''protocol_fee_recipient_token_account'', ''protocol_fee_recipient_quote_ata''),
     (''coin_creator_vault_authority'', ''creator_vault''), (''coin_creator_vault_ata'', ''creator_vault_ata''),
     (''coin_creator_vault'', ''creator_vault''), (''creator_vault'', ''creator_vault''),
     (''global_volume_accumulator'', ''global_volume_accumulator''),
     (''user_volume_accumulator'', ''user_volume_accumulator''), (''fee_config'', ''fee_config''),
     (''coin_creator'', ''coin_creator''), (''pool_v2'', ''pool_v2''), (''fee_recipient'', ''fee_recipient''),
     (''protocol_fee_recipient_quote_ata'', ''protocol_fee_recipient_quote_ata'')]"

definition pump_roles :: "bool \<Rightarrow> string list" where
  "pump_roles buy = PUMP_HEAD_ROLES @ (if buy then PUMP_BUY_TAIL else PUMP_SELL_TAIL)"

section \<open>Caches\<close>

record pump_fields =
  pf_base :: string
  pf_quote :: string
  pf_vault_base :: string
  pf_vault_quote :: string
  pf_coin_creator :: string
  pf_pool_creator :: "string option"
  pf_coin_source :: string

text \<open>The mint caches of the two modules and the pool metadata cached on disk.\<close>

record hops_st =
  hs_hv_tok :: "(string, string) dict"
  hs_hl_tok :: "(string, string) dict"
  hs_pump_meta :: "(string, pump_fields) dict"

definition hops_start :: hops_st where
  "hops_start = \<lparr> hs_hv_tok = [(xl_SOL, TOKENKEG)], hs_hl_tok = [(xl_SOL, TOKENKEG)], hs_pump_meta = [] \<rparr>"

definition fetch_owner :: "rpc_call \<Rightarrow> string \<Rightarrow> string res" where
  "fetch_owner rpc mint =
    rbind (get_one rpc mint) (\<lambda>info. case info of
      None \<Rightarrow> Inl (RuntimeError ''mint missing'')
    | Some a \<Rightarrow> if ra_owner a = TOKENKEG \<or> ra_owner a = TOKEN2022 then Inr (ra_owner a) else Inl (RuntimeError ''mint owner''))"

definition hv_mint_tok :: "rpc_call \<Rightarrow> string \<Rightarrow> (hops_st, string) sx" where
  "hv_mint_tok rpc mint =
    sbind (sget (\<lambda>s. dget (hs_hv_tok s) mint)) (\<lambda>c. case c of
      Some tok \<Rightarrow> sret tok
    | None \<Rightarrow> sbind (slift (fetch_owner rpc mint)) (\<lambda>own.
        sseq (smod (\<lambda>s. s \<lparr> hs_hv_tok := dput mint own (hs_hv_tok s) \<rparr>)) (sret own)))"

section \<open>Derived addresses with their bump\<close>

fun bump_of :: "(bytes \<Rightarrow> bytes) \<Rightarrow> bytes list \<Rightarrow> bytes \<Rightarrow> bytes \<Rightarrow> nat \<Rightarrow> int" where
  "bump_of sha seeds prog digest 0 = - 1"
| "bump_of sha seeds prog digest (Suc bump) =
     (if sha (pda_preimage seeds prog bump) = digest then int bump else bump_of sha seeds prog digest bump)"

definition pda_ex :: "(bytes \<Rightarrow> bytes) \<Rightarrow> bytes list \<Rightarrow> string \<Rightarrow> (string \<times> int) res" where
  "pda_ex sha seeds program =
    rbind (b58decode program) (\<lambda>prog. rbind (rd_find_pda sha seeds prog) (\<lambda>digest.
      Inr (record_pk digest, bump_of sha seeds prog digest 256)))"

definition parse_pump_fields :: "bytes \<Rightarrow> pump_fields res" where
  "parse_pump_fields raw =
    (case parse_pump_pool raw of
       None \<Rightarrow> Inl (RuntimeError ''pump parse'')
     | Some p \<Rightarrow>
         let blob = (if length raw \<ge> 243 then slice 211 243 raw else zeros 32)
         in Inr \<lparr> pf_base = record_pk (pp_base p), pf_quote = record_pk (pp_quote p),
                  pf_vault_base = record_pk (pp_vault_base p), pf_vault_quote = record_pk (pp_vault_quote p),
                  pf_coin_creator = record_pk blob,
                  pf_pool_creator = (if length raw \<ge> 43 then Some (record_pk (slice 11 43 raw)) else None),
                  pf_coin_source = (if blob \<noteq> zeros 32 then ''coin_creator'' else ''default'') \<rparr>)"

definition pick_fee_recipient :: "(bytes \<Rightarrow> bytes) \<Rightarrow> rpc_call \<Rightarrow> string \<Rightarrow> (hops_st, string \<times> string) sx" where
  "pick_fee_recipient sha rpc quote =
    sbind (if quote = xl_SOL then sret TOKENKEG else hv_mint_tok rpc quote) (\<lambda>tok.
      slift (rbind (first_live (\<lambda>rec. ata sha rec quote tok) (exists_acc rpc) FEE_RECIPIENTS) (\<lambda>r. case r of
        Some x \<Rightarrow> Inr x
      | None \<Rightarrow> rbind (ata sha FEE_RECIPIENT quote tok) (\<lambda>a. Inr (FEE_RECIPIENT, a)))))"

section \<open>One hop\<close>

datatype seed = SeedStr string | SeedInt int

record pump_hop =
  ph_pool :: string
  ph_global_config :: string
  ph_base_mint :: string
  ph_quote_mint :: string
  ph_user_base_ata :: string
  ph_user_quote_ata :: string
  ph_pool_base_vault :: string
  ph_pool_quote_vault :: string
  ph_protocol_fee_recipient :: string
  ph_protocol_fee_recipient_quote_ata :: string
  ph_coin_creator :: string
  ph_creator_vault :: string
  ph_creator_vault_ata :: string
  ph_gvol :: string
  ph_uvol :: string
  ph_pool_v2 :: string
  ph_token_program_base :: string
  ph_token_program_quote :: string
  ph_associated_token_program :: string
  ph_system_program :: string
  ph_event_authority :: string
  ph_program :: string
  ph_fee_config :: string
  ph_fee_program :: string
  ph_fee_recipient :: string
  ph_fee_recipient_quote_ata :: string
  ph_buy :: bool
  ph_bumps :: "(string, int) dict"
  ph_seeds :: "(string, seed list) dict"

definition flatten_pump :: "pump_hop \<Rightarrow> string \<Rightarrow> string list" where
  "flatten_pump h wallet =
    [ph_pool h, wallet, ph_global_config h, ph_base_mint h, ph_quote_mint h, ph_user_base_ata h, ph_user_quote_ata h,
     ph_pool_base_vault h, ph_pool_quote_vault h, ph_protocol_fee_recipient h, ph_protocol_fee_recipient_quote_ata h,
     ph_token_program_base h, ph_token_program_quote h, ph_system_program h, ph_associated_token_program h,
     ph_event_authority h, ph_program h, ph_creator_vault_ata h, ph_creator_vault h]
    @ (if ph_buy h
       then [ph_gvol h, ph_uvol h, ph_fee_config h, ph_fee_program h, ph_pool_v2 h, ph_fee_recipient h, ph_fee_recipient_quote_ata h]
       else [ph_fee_config h, ph_fee_program h, ph_pool_v2 h, ph_fee_recipient h, ph_fee_recipient_quote_ata h])"

definition role_map_pump :: "pump_hop \<Rightarrow> string \<Rightarrow> (string, string) dict" where
  "role_map_pump h wallet = dupdate [] (zip (pump_roles (ph_buy h)) (flatten_pump h wallet))"

record dlmm_hop =
  dh_pool :: string
  dh_bitmap :: string
  dh_vault_x :: string
  dh_vault_y :: string
  dh_oracle :: string
  dh_host :: string
  dh_mint_x :: string
  dh_mint_y :: string
  dh_bin0 :: string
  dh_bin1 :: string
  dh_bin0_index :: int
  dh_bin1_index :: int
  dh_active_id :: int
  dh_bumps :: "(string, int) dict"
  dh_seeds :: "(string, seed list) dict"

definition flatten_dlmm :: "dlmm_hop \<Rightarrow> string list" where
  "flatten_dlmm h =
    [dh_pool h, dh_bitmap h, dh_vault_x h, dh_vault_y h, dh_oracle h, dh_host h, dh_mint_x h, dh_mint_y h, dh_bin0 h, dh_bin1 h]"

definition role_map_dlmm :: "dlmm_hop \<Rightarrow> (string, string) dict" where
  "role_map_dlmm h = dupdate [] (zip DLMM_ROLES (flatten_dlmm h))"

datatype hop = PumpHop pump_hop | DlmmHop dlmm_hop

definition fetch_pump_meta :: "rpc_call \<Rightarrow> string \<Rightarrow> pump_fields res" where
  "fetch_pump_meta rpc pair =
    rbind (get_one rpc pair) (\<lambda>a. case a of None \<Rightarrow> Inl (RuntimeError ''VECTOR_FAIL role=pool reason=MISSING'')
      | Some acc \<Rightarrow> parse_pump_fields (ra_data acc))"

text \<open>The addresses that depend on the pool's mints, its coin creator and the wallet only.\<close>

record pump_addrs =
  pa_creator_vault :: "string \<times> int"
  pa_creator_ata :: string
  pa_global :: "string \<times> int"
  pa_event :: "string \<times> int"
  pa_gvol :: "string \<times> int"
  pa_uvol :: "string \<times> int"
  pa_pool_v2 :: "string \<times> int"
  pa_proto :: string
  pa_proto_ata :: string

definition derive_pump_addrs :: "(bytes \<Rightarrow> bytes) \<Rightarrow> pump_fields \<Rightarrow> string \<Rightarrow> string \<Rightarrow> pump_addrs res" where
  "derive_pump_addrs sha m wallet tok_q =
    rbind (b58decode (pf_coin_creator m)) (\<lambda>coin.
    rbind (pda_ex sha [ascii ''creator_vault'', coin] xl_PUMP) (\<lambda>cv.
    rbind (ata sha (fst cv) (pf_quote m) tok_q) (\<lambda>ca.
    rbind (pda_ex sha [ascii ''global_config''] xl_PUMP) (\<lambda>g.
    rbind (pda_ex sha [ascii ''__event_authority''] xl_PUMP) (\<lambda>ev.
    rbind (pda_ex sha [ascii ''global_volume_accumulator''] xl_PUMP) (\<lambda>gv.
    rbind (b58decode wallet) (\<lambda>wl.
    rbind (pda_ex sha [ascii ''user_volume_accumulator'', wl] xl_PUMP) (\<lambda>uv.
    rbind (b58decode (pf_base m)) (\<lambda>mx.
    rbind (pda_ex sha [ascii ''pool-v2'', mx] xl_PUMP) (\<lambda>v2.
    rbind (pump_fallback sha) (\<lambda>fb.
    rbind (ata sha (pi_proto_fee fb) (pf_quote m) tok_q) (\<lambda>pa.
      Inr \<lparr> pa_creator_vault = cv, pa_creator_ata = ca, pa_global = g, pa_event = ev, pa_gvol = gv, pa_uvol = uv,
            pa_pool_v2 = v2, pa_proto = pi_proto_fee fb, pa_proto_ata = pa \<rparr>))))))))))))"

definition pump_hop_of ::
  "string \<Rightarrow> bool \<Rightarrow> string \<Rightarrow> string \<Rightarrow> string \<Rightarrow> pump_fields \<Rightarrow> string \<Rightarrow> string \<Rightarrow> pump_addrs \<Rightarrow> string \<times> string \<Rightarrow> pump_hop" where
  "pump_hop_of pair buy wallet user_base user_quote m tok_b tok_q a fee =
    \<lparr> ph_pool = pair, ph_global_config = fst (pa_global a), ph_base_mint = pf_base m, ph_quote_mint = pf_quote m,
      ph_user_base_ata = user_base, ph_user_quote_ata = user_quote,
      ph_pool_base_vault = pf_vault_base m, ph_pool_quote_vault = pf_vault_quote m,
      ph_protocol_fee_recipient = pa_proto a, ph_protocol_fee_recipient_quote_ata = pa_proto_ata a,
      ph_coin_creator = pf_coin_creator m, ph_creator_vault = fst (pa_creator_vault a), ph_creator_vault_ata = pa_creator_ata a,
      ph_gvol = fst (pa_gvol a), ph_uvol = fst (pa_uvol a), ph_pool_v2 = fst (pa_pool_v2 a),
      ph_token_program_base = tok_b, ph_token_program_quote = tok_q,
      ph_associated_token_program = ATA_PROG, ph_system_program = SYSTEM, ph_event_authority = fst (pa_event a),
      ph_program = xl_PUMP, ph_fee_config = FEE_CFG_LIVE, ph_fee_program = FEE_PROG,
      ph_fee_recipient = fst fee, ph_fee_recipient_quote_ata = snd fee, ph_buy = buy,
      ph_bumps = [(''global_config'', snd (pa_global a)), (''event_authority'', snd (pa_event a)),
        (''creator_vault'', snd (pa_creator_vault a)), (''global_volume_accumulator'', snd (pa_gvol a)),
        (''user_volume_accumulator'', snd (pa_uvol a)), (''pool_v2'', snd (pa_pool_v2 a))],
      ph_seeds = [(''global_config'', [SeedStr ''global_config'']), (''event_authority'', [SeedStr ''__event_authority'']),
        (''creator_vault'', [SeedStr ''creator_vault'', SeedStr (pf_coin_creator m)]),
        (''global_volume_accumulator'', [SeedStr ''global_volume_accumulator'']),
        (''user_volume_accumulator'', [SeedStr ''user_volume_accumulator'', SeedStr wallet]),
        (''pool_v2'', [SeedStr ''pool-v2'', SeedStr (pf_base m)]),
        (''creator_vault_ata'', [SeedStr ''ata'', SeedStr (fst (pa_creator_vault a)), SeedStr (pf_quote m), SeedStr tok_q]),
        (''protocol_fee_recipient_quote_ata'', [SeedStr ''ata'', SeedStr (pa_proto a), SeedStr (pf_quote m), SeedStr tok_q]),
        (''fee_recipient_quote_ata'', [SeedStr ''ata'', SeedStr (fst fee), SeedStr (pf_quote m), SeedStr tok_q])] \<rparr>"

definition derive_pump_hop ::
  "(bytes \<Rightarrow> bytes) \<Rightarrow> rpc_call \<Rightarrow> string \<Rightarrow> bool \<Rightarrow> string \<Rightarrow> string \<Rightarrow> string \<Rightarrow> pump_fields option \<Rightarrow> (hops_st, pump_hop) sx" where
  "derive_pump_hop sha rpc pair buy wallet user_base user_quote meta =
    sbind (case meta of Some m \<Rightarrow> sret m | None \<Rightarrow> slift (fetch_pump_meta rpc pair)) (\<lambda>m.
    if pf_coin_creator m = [] then slift (Inl (RuntimeError ''VECTOR_FAIL role=coin_creator reason=MISSING''))
    else
    sbind (hv_mint_tok rpc (pf_base m)) (\<lambda>tok_b.
    sbind (hv_mint_tok rpc (pf_quote m)) (\<lambda>tok_q.
    sbind (slift (derive_pump_addrs sha m wallet tok_q)) (\<lambda>a.
    sbind (pick_fee_recipient sha rpc (pf_quote m)) (\<lambda>fee.
      sret (pump_hop_of pair buy wallet user_base user_quote m tok_b tok_q a fee))))))"

record dlmm_meta =
  dm_mint_x :: string
  dm_mint_y :: string
  dm_vault_x :: string
  dm_vault_y :: string
  dm_active_id :: int

definition dlmm_meta_of :: "(bytes \<Rightarrow> bytes) \<Rightarrow> (nat \<Rightarrow> string list \<Rightarrow> account option list) \<Rightarrow> string \<Rightarrow> dlmm_meta res" where
  "dlmm_meta_of sha fetch pair =
    rbind (snapshot_pool sha fetch pair None) (\<lambda>sn. case sn of
      None \<Rightarrow> Inl (RuntimeError ''VECTOR_FAIL role=lb_pair reason=SNAPSHOT'')
    | Some s \<Rightarrow> let lb = sn_lb s in
        Inr \<lparr> dm_mint_x = record_pk (lb_token_x lb), dm_mint_y = record_pk (lb_token_y lb),
              dm_vault_x = record_pk (lb_vault_x lb), dm_vault_y = record_pk (lb_vault_y lb), dm_active_id = lb_active_id lb \<rparr>)"

definition bin_pda_ex :: "(bytes \<Rightarrow> bytes) \<Rightarrow> string \<Rightarrow> int \<Rightarrow> (string \<times> int) res" where
  "bin_pda_ex sha pair i =
    rbind (b58decode pair) (\<lambda>p. rbind (pack_i 8 i) (\<lambda>ib. pda_ex sha [ascii ''bin_array'', p, ib] xl_DLMM))"

fun pick_bins_ex ::
  "(int \<Rightarrow> (string \<times> int) res) \<Rightarrow> (string \<Rightarrow> bool res) \<Rightarrow> (int \<times> string \<times> int) list \<Rightarrow> int list \<Rightarrow> (int \<times> string \<times> int) list res" where
  "pick_bins_ex pda ex bs [] = Inr bs"
| "pick_bins_ex pda ex bs (i # is) =
     rbind (pda i) (\<lambda>(pk, bump).
     rbind (if pk \<in> set (map (\<lambda>b. fst (snd b)) bs) then Inr False else ex pk) (\<lambda>live.
       let bs' = (if live then bs @ [(i, pk, bump)] else bs)
       in if length bs' = 2 then Inr bs' else pick_bins_ex pda ex bs' is))"

definition derive_dlmm_hop ::
  "(bytes \<Rightarrow> bytes) \<Rightarrow> rpc_call \<Rightarrow> (nat \<Rightarrow> string list \<Rightarrow> account option list) \<Rightarrow> string \<Rightarrow> dlmm_meta option \<Rightarrow> dlmm_hop res" where
  "derive_dlmm_hop sha rpc fetch pair meta =
    rbind (case meta of Some m \<Rightarrow> Inr m | None \<Rightarrow> dlmm_meta_of sha fetch pair) (\<lambda>m.
    let active = dm_active_id m in
    rbind (pick_bins_ex (bin_pda_ex sha pair) (exists_acc rpc) [] (around (bin_array_index active))) (\<lambda>found.
    if found = [] then Inl (RuntimeError ''VECTOR_FAIL role=bin0 reason=MISSING'')
    else
    let b0 = found ! 0; b1 = (if length found = 1 then b0 else found ! 1) in
    rbind (b58decode pair) (\<lambda>p.
    rbind (pda_ex sha [ascii ''oracle'', p] xl_DLMM) (\<lambda>(oracle, o_bump).
      Inr \<lparr> dh_pool = pair, dh_bitmap = xl_DLMM, dh_vault_x = dm_vault_x m, dh_vault_y = dm_vault_y m, dh_oracle = oracle,
            dh_host = xl_DLMM, dh_mint_x = dm_mint_x m, dh_mint_y = dm_mint_y m,
            dh_bin0 = fst (snd b0), dh_bin1 = fst (snd b1), dh_bin0_index = fst b0, dh_bin1_index = fst b1, dh_active_id = active,
            dh_bumps = [(''oracle'', o_bump), (''bin0'', snd (snd b0)), (''bin1'', snd (snd b1))],
            dh_seeds = [(''oracle'', [SeedStr ''oracle'', SeedStr pair]),
              (''bin0'', [SeedStr ''bin_array'', SeedStr pair, SeedInt (fst b0)]),
              (''bin1'', [SeedStr ''bin_array'', SeedStr pair, SeedInt (fst b1)])] \<rparr>))))"

section \<open>Comparing a vector with a derived one\<close>

datatype fval = FNone | FStr string | FInt int | FErr py_error

type_synonym fail = "(string, fval) dict"

definition opt_fval :: "('a \<Rightarrow> fval) \<Rightarrow> 'a option \<Rightarrow> fval" where
  "opt_fval f v = (case v of None \<Rightarrow> FNone | Some x \<Rightarrow> f x)"

definition vector_fail :: "fval \<Rightarrow> fval \<Rightarrow> fval \<Rightarrow> fail \<Rightarrow> fail" where
  "vector_fail route hop_i role kw = dupdate [(''route'', route), (''hop'', hop_i), (''role'', role)] kw"

definition ends_with :: "string \<Rightarrow> string \<Rightarrow> bool" where
  "ends_with suf s \<longleftrightarrow> length suf \<le> length s \<and> drop (length s - length suf) s = suf"

definition pump_fail :: "pump_hop \<Rightarrow> string \<Rightarrow> fval \<Rightarrow> int \<Rightarrow> string \<Rightarrow> string \<Rightarrow> string \<Rightarrow> string \<Rightarrow> fail" where
  "pump_fail ex wallet rid hi seqn role got want =
    vector_fail rid (FInt hi) (FStr role)
      [(''seq'', FStr seqn), (''reason'', FStr (if role \<in> set PUMP_PDA_ROLES then ''PDA_SEEDS'' else ''MISMATCH'')),
       (''actual'', FStr got), (''expected'', FStr want), (''direction'', FStr (if ph_buy ex then ''buy'' else ''sell'')),
       (''pool'', FStr (ph_pool ex)), (''mint'', FStr (ph_base_mint ex)), (''coin_creator'', FStr (ph_coin_creator ex)),
       (''fee_recipient'', FStr (ph_fee_recipient ex)), (''creator_vault'', FStr (ph_creator_vault ex)),
       (''volume_accumulator'', FStr (ph_gvol ex)), (''user_volume_accumulator'', FStr (ph_uvol ex)),
       (''pool_v2'', FStr (ph_pool_v2 ex)), (''bump'', opt_fval FInt (dget (ph_bumps ex) role)),
       (''seed_creator'', if role \<in> {''creator_vault'', ''creator_vault_ata''} then FStr (ph_coin_creator ex) else FNone),
       (''seed_mint'', if role = ''pool_v2'' then FStr (ph_base_mint ex)
          else if ends_with ''_ata'' role then FStr (ph_quote_mint ex) else FNone),
       (''seed_wallet'', if role = ''user_volume_accumulator'' then FStr wallet else FNone)]"

text \<open>The rows whose keys differ, in order; \<^verbatim>\<open>zip\<close> stops at the shorter side.\<close>

definition diff_rows :: "string list \<Rightarrow> string list \<Rightarrow> string list \<Rightarrow> (string \<times> string \<times> string) list" where
  "diff_rows roles got want = filter (\<lambda>(role, g, w). g \<noteq> w) (zip roles (zip got want))"

definition validate_pump_keys :: "string list \<Rightarrow> pump_hop \<Rightarrow> string \<Rightarrow> fval \<Rightarrow> int \<Rightarrow> string \<Rightarrow> fail list" where
  "validate_pump_keys hop_keys ex wallet rid hi seqn =
    map (\<lambda>(role, g, w). pump_fail ex wallet rid hi seqn role g w)
      (diff_rows (pump_roles (ph_buy ex)) hop_keys (flatten_pump ex wallet))"

definition dlmm_fail :: "dlmm_hop \<Rightarrow> fval \<Rightarrow> int \<Rightarrow> string \<Rightarrow> string \<Rightarrow> string \<Rightarrow> string \<Rightarrow> fail" where
  "dlmm_fail ex rid hi seqn role got want =
    vector_fail rid (FInt hi) (FStr role)
      [(''seq'', FStr seqn),
       (''reason'', FStr (if role = ''bin0'' \<or> role = ''bin1'' then ''BIN_ARRAY''
          else if role \<in> set DLMM_PDA_ROLES then ''PDA_SEEDS'' else ''MISMATCH'')),
       (''actual'', FStr got), (''expected'', FStr want), (''pool'', FStr (dh_pool ex)), (''seed_pool'', FStr (dh_pool ex)),
       (''seed_bin_index'', if role = ''bin0'' then FInt (dh_bin0_index ex)
          else if role = ''bin1'' then FInt (dh_bin1_index ex) else FNone),
       (''bump'', opt_fval FInt (dget (dh_bumps ex) role))]"

definition validate_dlmm_keys :: "string list \<Rightarrow> dlmm_hop \<Rightarrow> fval \<Rightarrow> int \<Rightarrow> string \<Rightarrow> fail list" where
  "validate_dlmm_keys hop_keys ex rid hi seqn =
    map (\<lambda>(role, g, w). dlmm_fail ex rid hi seqn role g w) (diff_rows DLMM_ROLES hop_keys (flatten_dlmm ex))"

end
