(* ===== verification/Hops_Golden.thy ===== *)
theory Hops_Golden
  imports Hops_Vector
begin

text \<open>
  \<^verbatim>\<open>arb-exec/scripts/hops_vector.py\<close>: explaining a failed simulation from its logs, and the golden
  fixtures (the account vector of a proven route, stored role by role). Strings are sequences of
  Latin-1 characters. Results: a fixture flattens back to the vector it was built from exactly when it
  is marked as matching, and a stored proven fixture is never overwritten.
\<close>

section \<open>Text\<close>

definition text_space :: "char \<Rightarrow> bool" where
  "text_space c = (let n = of_char c :: nat in
     n = 32 \<or> (9 \<le> n \<and> n \<le> 13) \<or> (28 \<le> n \<and> n \<le> 31) \<or> n = 133 \<or> n = 160)"

fun starts_with :: "string \<Rightarrow> string \<Rightarrow> bool" where
  "starts_with [] s = True"
| "starts_with (p # ps) [] = False"
| "starts_with (p # ps) (c # cs) = (p = c \<and> starts_with ps cs)"

text \<open>\<^verbatim>\<open>sub in s\<close>\<close>

fun contains :: "string \<Rightarrow> string \<Rightarrow> bool" where
  "contains sub [] = (sub = [])"
| "contains sub (c # cs) = (starts_with sub (c # cs) \<or> contains sub cs)"

text \<open>\<^verbatim>\<open>re.search(lit + r"\s*(" + cls + "+)", s).group(1)\<close> for a class without white space\<close>

fun re_after :: "string \<Rightarrow> (char \<Rightarrow> bool) \<Rightarrow> string \<Rightarrow> string option" where
  "re_after lit cls [] = None"
| "re_after lit cls (c # cs) =
     (let w = takeWhile cls (dropWhile text_space (drop (length lit) (c # cs)))
      in if starts_with lit (c # cs) \<and> w \<noteq> [] then Some w else re_after lit cls cs)"

definition is_digit :: "char \<Rightarrow> bool" where
  "is_digit c = (let n = of_char c :: nat in 48 \<le> n \<and> n \<le> 57)"

definition is_word :: "char \<Rightarrow> bool" where
  "is_word c = (let n = of_char c :: nat in is_digit c \<or> (65 \<le> n \<and> n \<le> 90) \<or> (97 \<le> n \<and> n \<le> 122) \<or> n = 95)"

definition int_of_digits :: "string \<Rightarrow> int" where
  "int_of_digits s = foldl (\<lambda>n c. n * 10 + (int (of_char c) - 48)) 0 s"

definition lower_char :: "char \<Rightarrow> char" where
  "lower_char c = (let n = of_char c :: nat in if 65 \<le> n \<and> n \<le> 90 then char_of (n + 32) else c)"

definition rstrip :: "string \<Rightarrow> string" where
  "rstrip s = rev (dropWhile text_space (rev s))"

text \<open>\<^verbatim>\<open>s.split()[-1] if s.split() else s\<close>\<close>

definition last_word :: "string \<Rightarrow> string" where
  "last_word s = (let t = rstrip s in if t = [] then s else rev (takeWhile (\<lambda>c. \<not> text_space c) (rev t)))"

section \<open>Reading the logs of a failed simulation\<close>

record anchor =
  an_caused_by :: "string option"
  an_actual :: "string option"
  an_expected :: "string option"
  an_number :: "int option"
  an_take_left :: bool
  an_take_right :: bool
  an_invokes :: "string list"

text \<open>\<^verbatim>\<open>number or n\<close>\<close>

definition or_num :: "int option \<Rightarrow> int \<Rightarrow> int option" where
  "or_num v n = (case v of Some k \<Rightarrow> if k = 0 then Some n else v | None \<Rightarrow> Some n)"

definition anchor_invoke :: "string \<Rightarrow> anchor \<Rightarrow> anchor" where
  "anchor_invoke s a =
    (if contains '' invoke ['' s then
       (if contains (take 8 xl_PUMP) s \<or> contains ''pAMM'' s then a \<lparr> an_invokes := an_invokes a @ [''pump''] \<rparr>
        else if contains (take 8 xl_DLMM) s \<or> contains ''LBUZ'' s then a \<lparr> an_invokes := an_invokes a @ [''dlmm''] \<rparr>
        else a)
     else a)"

definition anchor_named :: "string \<Rightarrow> anchor \<Rightarrow> anchor" where
  "anchor_named s a =
    (let a1 = (case re_after ''caused by account:'' is_word s of Some c \<Rightarrow> a \<lparr> an_caused_by := Some c \<rparr> | None \<Rightarrow> a)
     in case re_after ''Error Number:'' is_digit s of Some n \<Rightarrow> a1 \<lparr> an_number := Some (int_of_digits n) \<rparr> | None \<Rightarrow> a1)"

definition anchor_values :: "string \<Rightarrow> anchor \<Rightarrow> anchor" where
  "anchor_values s a =
    (let a1 = (if an_take_left a then a \<lparr> an_actual := Some (last_word s), an_take_left := False \<rparr> else a);
         a2 = (if an_take_right a1 then a1 \<lparr> an_expected := Some (last_word s), an_take_right := False \<rparr> else a1);
         low = map lower_char s;
         a3 = (if contains ''0x7d6'' s \<or> contains ''custom program error: 2006'' low
               then a2 \<lparr> an_number := or_num (an_number a2) 2006 \<rparr> else a2)
     in if contains ''0xbbd'' s \<or> contains ''custom program error: 3005'' low
        then a3 \<lparr> an_number := or_num (an_number a3) 3005 \<rparr> else a3)"

definition anchor_line :: "anchor \<Rightarrow> string \<Rightarrow> anchor" where
  "anchor_line a0 s =
    (let a = anchor_named s (anchor_invoke s a0)
     in if ends_with ''Left:'' (rstrip s) then a \<lparr> an_take_left := True \<rparr>
        else if ends_with ''Right:'' (rstrip s) then a \<lparr> an_take_right := True \<rparr>
        else anchor_values s a)"

definition anchor_start :: anchor where
  "anchor_start = \<lparr> an_caused_by = None, an_actual = None, an_expected = None, an_number = None,
     an_take_left = False, an_take_right = False, an_invokes = [] \<rparr>"

definition parse_anchor_constraint :: "string list \<Rightarrow> anchor" where
  "parse_anchor_constraint logs = foldl anchor_line anchor_start logs"

definition truthy_text :: "string option \<Rightarrow> bool" where
  "truthy_text v \<longleftrightarrow> v \<noteq> None \<and> v \<noteq> Some []"

text \<open>The last hop of the venue the error number belongs to, counted from \<open>i\<close>.\<close>

fun venue_hop :: "int \<Rightarrow> nat \<Rightarrow> nat option \<Rightarrow> hop list \<Rightarrow> nat option" where
  "venue_hop num i acc [] = acc"
| "venue_hop num i acc (PumpHop h # hs) = venue_hop num (Suc i) (if num = 2006 then Some i else acc) hs"
| "venue_hop num i acc (DlmmHop h # hs) = venue_hop num (Suc i) (if num = 3005 then Some i else acc) hs"

definition set_default_actual :: "fail \<Rightarrow> string \<Rightarrow> string option \<Rightarrow> fail" where
  "set_default_actual rec k v = (if dget rec k = Some FNone \<or> dget rec k = None then dput k (opt_fval FStr v) rec else rec)"

definition explain_pump :: "pump_hop \<Rightarrow> string \<Rightarrow> string \<Rightarrow> fail \<Rightarrow> fail" where
  "explain_pump h wallet role rec =
    (let rec1 = dupdate rec
       [(''pool'', FStr (ph_pool h)), (''mint'', FStr (ph_base_mint h)), (''coin_creator'', FStr (ph_coin_creator h)),
        (''fee_recipient'', FStr (ph_fee_recipient h)), (''creator_vault'', FStr (ph_creator_vault h)),
        (''volume_accumulator'', FStr (ph_gvol h)), (''user_volume_accumulator'', FStr (ph_uvol h)),
        (''pool_v2'', FStr (ph_pool_v2 h)), (''bump'', opt_fval FInt (dget (ph_bumps h) role)),
        (''seed_creator'', FStr (ph_coin_creator h)), (''seed_mint'', FStr (ph_base_mint h))];
       exp_pda = (if role = ''creator_vault'' then Some (ph_creator_vault h)
          else if role = ''pool_v2'' then Some (ph_pool_v2 h)
          else if role = ''creator_vault_ata'' then Some (ph_creator_vault_ata h) else None)
     in set_default_actual (set_default_actual rec1 ''actual'' (dget (role_map_pump h wallet) role)) ''expected'' exp_pda)"

definition explain_dlmm :: "dlmm_hop \<Rightarrow> string \<Rightarrow> fail \<Rightarrow> fail" where
  "explain_dlmm h role rec = dupdate rec
     [(''pool'', FStr (dh_pool h)), (''seed_pool'', FStr (dh_pool h)),
      (''seed_bin_index'', FInt (if role = ''bin0'' then dh_bin0_index h else dh_bin1_index h)),
      (''bump'', opt_fval FInt (dget (dh_bumps h) role))]"

text \<open>\<^verbatim>\<open>hops_sem[hop_i] if hop_i < len(hops_sem) else None\<close> with Python's negative index\<close>

definition hop_at :: "hop list \<Rightarrow> int \<Rightarrow> hop option res" where
  "hop_at hs i =
    (if int (length hs) \<le> i then Inr None
     else if 0 \<le> i then Inr (Some (hs ! nat i))
     else if - int (length hs) \<le> i then Inr (Some (hs ! nat (i + int (length hs)))) else Inl IndexError)"

definition explain_row :: "string \<Rightarrow> fval \<Rightarrow> hop list \<Rightarrow> string \<Rightarrow> anchor \<Rightarrow> int \<Rightarrow> fail list res" where
  "explain_row seqn rid hs wallet p num =
    (let reason = (if num = 2006 then ''ANCHOR_2006'' else if num = 3005 then ''ANCHOR_3005'' else ''ANCHOR'');
         caused = (case an_caused_by p of Some c \<Rightarrow> c | None \<Rightarrow> []);
         role = (case dget ANCHOR_ROLE caused of Some r \<Rightarrow> r | None \<Rightarrow> if caused = [] then ''unknown'' else caused);
         hop_i = (if an_invokes p \<noteq> [] then int (min (length (an_invokes p)) (length hs)) - 1
                  else case venue_hop num 0 None hs of Some i \<Rightarrow> int i | None \<Rightarrow> 0)
     in rbind (hop_at hs hop_i) (\<lambda>h.
        let rec = vector_fail rid (FInt hop_i) (FStr role)
              [(''seq'', FStr seqn), (''reason'', FStr reason), (''caused_by'', opt_fval FStr (an_caused_by p)),
               (''actual'', opt_fval FStr (an_actual p)), (''expected'', opt_fval FStr (an_expected p)),
               (''direction'', FStr (case h of Some (PumpHop q) \<Rightarrow> if ph_buy q then ''buy'' else ''sell'' | _ \<Rightarrow> ''dlmm''))]
        in Inr [case h of Some (PumpHop q) \<Rightarrow> explain_pump q wallet role rec | Some (DlmmHop q) \<Rightarrow> explain_dlmm q role rec | None \<Rightarrow> rec]))"

definition explain_sim_fail :: "string \<Rightarrow> fval \<Rightarrow> hop list \<Rightarrow> string \<Rightarrow> string list \<Rightarrow> fail list res" where
  "explain_sim_fail seqn rid hs wallet logs =
    (let p = parse_anchor_constraint logs; num = an_number p
     in if num \<noteq> Some 2006 \<and> num \<noteq> Some 3005 \<and> \<not> truthy_text (an_caused_by p) then Inr []
        else explain_row seqn rid hs wallet p (case num of Some n \<Rightarrow> n | None \<Rightarrow> 2006))"

section \<open>Golden fixtures\<close>

definition pump_writable :: "bool \<Rightarrow> nat \<Rightarrow> bool" where
  "pump_writable buy i =
    (if buy then i \<in> set [0, 1, 5, 6, 7, 8, 10, 17, 19, 20, 25] else i \<in> set [0, 1, 5, 6, 7, 8, 10, 17, 23])"

definition dlmm_writable :: "nat \<Rightarrow> bool" where
  "dlmm_writable i \<longleftrightarrow> i \<in> set [0, 2, 3, 4, 8, 9]"

definition static_set :: "string \<Rightarrow> string option \<Rightarrow> string list" where
  "static_set wallet hops_pid =
    [wallet, TOKENKEG, TOKEN2022, SYSTEM, ATA_PROG, MEMO, xl_DLMM, xl_PUMP, FEE_PROG]
    @ (case hops_pid of None \<Rightarrow> [] | Some p \<Rightarrow> if p = [] then [] else [p])"

record golden_row =
  gr_role :: string
  gr_pubkey :: string
  gr_writable :: bool
  gr_signer :: bool
  gr_token_program :: "string option"
  gr_alt_or_static :: string

definition account_row :: "string \<Rightarrow> string \<Rightarrow> bool \<Rightarrow> bool \<Rightarrow> string list \<Rightarrow> string option \<Rightarrow> golden_row" where
  "account_row role pk writable signer statics token_program =
    \<lparr> gr_role = role, gr_pubkey = pk, gr_writable = writable, gr_signer = signer, gr_token_program = token_program,
      gr_alt_or_static = (if pk \<in> set statics then ''static'' else ''alt'') \<rparr>"

record golden_hop =
  gh_venue :: string
  gh_direction :: string
  gh_pool :: string
  gh_coin_creator :: "string option"
  gh_active :: "(int \<times> int \<times> int) option"
  gh_bumps :: "(string, int) dict"
  gh_seeds :: "(string, seed list) dict"
  gh_accounts :: "golden_row list"

record golden =
  go_seq :: string
  go_id :: "int option"
  go_custom6 :: bool
  go_cu :: "int option"
  go_alt :: bool
  go_n_acc :: nat
  go_keys :: "string list"
  go_shared :: "golden_row list"
  go_hops :: "golden_hop list"
  go_semantic_match :: bool

definition shared_roles :: "string list" where
  "shared_roles = [''authority'', ''user0'', ''user1'', ''user2'', ''tokenkeg'', ''token2022'', ''memo'', ''dlmm_prog'', ''dlmm_event'']"

definition shared_row :: "string list \<Rightarrow> string list \<Rightarrow> nat \<times> string \<Rightarrow> golden_row res" where
  "shared_row statics keys e =
    rbind (key_at keys (fst e)) (\<lambda>pk.
      Inr (account_row (snd e) pk (fst e < 4) (fst e = 0) statics
             (if starts_with ''user'' (snd e) \<and> fst e = 1 then Some TOKENKEG else None)))"

definition golden_pump_row :: "pump_hop \<Rightarrow> string \<Rightarrow> string list \<Rightarrow> nat \<times> string \<times> string \<Rightarrow> golden_row" where
  "golden_pump_row h wallet statics e =
    (case e of (i, role, pk) \<Rightarrow>
      let tok = (if role \<in> {''user_base_ata'', ''pool_base_vault''} then Some (ph_token_program_base h)
                 else if role \<in> {''user_quote_ata'', ''pool_quote_vault'', ''protocol_fee_recipient_quote_ata'',
                                 ''creator_vault_ata'', ''fee_recipient_quote_ata''} then Some (ph_token_program_quote h)
                 else if role = ''token_program_base'' then Some (ph_token_program_base h)
                 else if role = ''token_program_quote'' then Some (ph_token_program_quote h) else None)
      in account_row role pk (pump_writable (ph_buy h) i) (pk = wallet \<and> role = ''user'') statics tok)"

text \<open>\<^verbatim>\<open>enumerate(zip(roles, keys))\<close>\<close>

definition enum_roles :: "string list \<Rightarrow> string list \<Rightarrow> (nat \<times> string \<times> string) list" where
  "enum_roles roles keys = zip [0..<length (zip roles keys)] (zip roles keys)"

definition pump_doc :: "string \<Rightarrow> string list \<Rightarrow> pump_hop \<Rightarrow> golden_hop" where
  "pump_doc wallet statics h =
    \<lparr> gh_venue = ''pump'', gh_direction = (if ph_buy h then ''buy'' else ''sell''), gh_pool = ph_pool h,
      gh_coin_creator = Some (ph_coin_creator h), gh_active = None, gh_bumps = ph_bumps h, gh_seeds = ph_seeds h,
      gh_accounts = map (golden_pump_row h wallet statics) (enum_roles (pump_roles (ph_buy h)) (flatten_pump h wallet)) \<rparr>"

fun smap :: "('a \<Rightarrow> ('s, 'b) sx) \<Rightarrow> 'a list \<Rightarrow> ('s, 'b list) sx" where
  "smap f [] = sret []"
| "smap f (x # xs) = sbind (f x) (\<lambda>y. sbind (smap f xs) (\<lambda>ys. sret (y # ys)))"

definition dlmm_row :: "rpc_call \<Rightarrow> dlmm_hop \<Rightarrow> string list \<Rightarrow> nat \<times> string \<times> string \<Rightarrow> (hops_st, golden_row) sx" where
  "dlmm_row rpc h statics e =
    (case e of (i, role, pk) \<Rightarrow>
      sbind (if role = ''vault_x'' then sbind (hv_mint_tok rpc (dh_mint_x h)) (\<lambda>t. sret (Some t))
             else if role = ''vault_y'' then sbind (hv_mint_tok rpc (dh_mint_y h)) (\<lambda>t. sret (Some t))
             else sret None) (\<lambda>tok.
        sret (account_row role pk (dlmm_writable i) False statics tok)))"

definition dlmm_doc :: "rpc_call \<Rightarrow> string list \<Rightarrow> dlmm_hop \<Rightarrow> (hops_st, golden_hop) sx" where
  "dlmm_doc rpc statics h =
    sbind (smap (dlmm_row rpc h statics) (enum_roles DLMM_ROLES (flatten_dlmm h))) (\<lambda>rows.
      sret \<lparr> gh_venue = ''dlmm'', gh_direction = ''swap2'', gh_pool = dh_pool h, gh_coin_creator = None,
             gh_active = Some (dh_active_id h, dh_bin0_index h, dh_bin1_index h), gh_bumps = dh_bumps h, gh_seeds = dh_seeds h,
             gh_accounts = rows \<rparr>)"

definition hop_doc :: "rpc_call \<Rightarrow> string \<Rightarrow> string list \<Rightarrow> hop \<Rightarrow> (hops_st, golden_hop) sx" where
  "hop_doc rpc wallet statics h =
    (case h of PumpHop q \<Rightarrow> sret (pump_doc wallet statics q) | DlmmHop q \<Rightarrow> dlmm_doc rpc statics q)"

definition doc_keys :: "golden_row list \<Rightarrow> golden_hop list \<Rightarrow> string list" where
  "doc_keys shared hops = map gr_pubkey shared @ concat (map (\<lambda>hd. map gr_pubkey (gh_accounts hd)) hops)"

definition build_golden_doc ::
  "rpc_call \<Rightarrow> string \<Rightarrow> int option \<Rightarrow> string \<Rightarrow> string list \<Rightarrow> hop list \<Rightarrow> int option \<Rightarrow> bool \<Rightarrow> string option \<Rightarrow> (hops_st, golden) sx" where
  "build_golden_doc rpc seqn rid wallet keys hops_sem cul used_alt hops_pid =
    (let statics = static_set wallet hops_pid in
     sbind (slift (rmap (shared_row statics keys) (zip [0..<length shared_roles] shared_roles))) (\<lambda>shared.
     sbind (smap (hop_doc rpc wallet statics) hops_sem) (\<lambda>hop_docs.
       sret \<lparr> go_seq = seqn, go_id = rid, go_custom6 = True, go_cu = cul, go_alt = used_alt, go_n_acc = length keys,
              go_keys = keys, go_shared = shared, go_hops = hop_docs,
              go_semantic_match = (doc_keys shared hop_docs = keys) \<rparr>)))"

definition flatten_fixture :: "golden \<Rightarrow> string list" where
  "flatten_fixture doc = map gr_pubkey (go_shared doc) @ concat (map (\<lambda>h. map gr_pubkey (gh_accounts h)) (go_hops doc))"

text \<open>One fixture file per golden directory: \<open>None\<close> where there is no file.\<close>

definition persist_root :: "golden \<Rightarrow> golden option \<Rightarrow> golden" where
  "persist_root doc old = (case old of Some g \<Rightarrow> if go_custom6 g then g else doc | None \<Rightarrow> doc)"

definition persist_golden ::
  "rpc_call \<Rightarrow> string \<Rightarrow> int option \<Rightarrow> string \<Rightarrow> string list \<Rightarrow> hop list \<Rightarrow> int option \<Rightarrow> bool \<Rightarrow> string option
    \<Rightarrow> golden option list \<Rightarrow> (hops_st, golden option list) sx" where
  "persist_golden rpc seqn rid wallet keys hops_sem cul used_alt hops_pid files =
    (case dget SEQ_SHORT seqn of
       None \<Rightarrow> sret files
     | Some short \<Rightarrow> sbind (build_golden_doc rpc seqn rid wallet keys hops_sem cul used_alt hops_pid) (\<lambda>doc.
         sret (map (\<lambda>f. Some (persist_root doc f)) files)))"

text \<open>The stored fixture of a sequence (none when the file is absent); the row quotes the two lengths.\<close>

definition check_golden :: "golden option \<Rightarrow> string \<Rightarrow> int option \<Rightarrow> string list \<Rightarrow> fail list res" where
  "check_golden file seqn rid keys =
    (if dget SEQ_SHORT seqn = None then Inl KeyError
     else case file of
       None \<Rightarrow> Inr []
     | Some g \<Rightarrow> if go_id g \<noteq> rid then Inr []
         else if go_keys g \<noteq> keys then
           Inr [vector_fail (opt_fval FInt rid) (FInt 0) (FStr ''golden'')
             [(''seq'', FStr seqn), (''reason'', FStr ''GOLDEN_REGRESS''), (''actual'', FInt (int (length keys))),
              (''expected'', FInt (int (length (go_keys g))))]]
         else Inr [])"

end
