(* ===== verification/Hops_Route.thy ===== *)
theory Hops_Route
  imports Hops_Golden
begin

text \<open>
  \<^verbatim>\<open>arb-exec/scripts/hops_live.py\<close>: the accounts and the payload of a multi-hop route. The mints along
  the route, the wallet's token accounts, the account vector of every hop, the 40-byte \<open>ARBHOPS0\<close>
  payload with its per-hop slots, and the local validation of a vector against the chain. The mint
  cache and the pool cache are in the state \<open>hops_st\<close>.
\<close>

section \<open>Routes and pools\<close>

record hpool =
  hp_mx :: "string option"
  hp_mint_x :: "string option"
  hp_my :: "string option"
  hp_mint_y :: "string option"
  hp_pubkey :: "string option"
  hp_pk :: "string option"

record hroute =
  hr_id :: "int option"
  hr_seq :: string
  hr_n_hop :: int
  hr_p0 :: "int option"
  hr_p1 :: "int option"
  hr_p2 :: "int option"
  hr_exec :: bool

text \<open>\<^verbatim>\<open>s.split("-")\<close>\<close>

fun split_dash :: "string \<Rightarrow> string list" where
  "split_dash [] = [[]]"
| "split_dash (c # cs) =
     (if c = CHR ''-'' then [] # split_dash cs else case split_dash cs of [] \<Rightarrow> [[c]] | w # ws \<Rightarrow> (c # w) # ws)"

text \<open>\<^verbatim>\<open>[r.get("p0"), r.get("p1"), r.get("p2")][:n]\<close>\<close>

definition route_idxs :: "hroute \<Rightarrow> int option list" where
  "route_idxs r =
    (let ps = [hr_p0 r, hr_p1 r, hr_p2 r]; n = hr_n_hop r
     in if 0 \<le> n then take (nat n) ps else take (nat (3 + n)) ps)"

text \<open>\<^verbatim>\<open>pools[int(idxs[hi])]\<close>\<close>

definition pool_at :: "hpool list \<Rightarrow> hroute \<Rightarrow> nat \<Rightarrow> hpool res" where
  "pool_at pools r hi =
    (if length (route_idxs r) \<le> hi then Inl IndexError
     else case route_idxs r ! hi of
       None \<Rightarrow> Inl TypeError
     | Some k \<Rightarrow> if 0 \<le> k \<and> k < int (length pools) then Inr (pools ! nat k)
         else if k < 0 \<and> - int (length pools) \<le> k then Inr (pools ! nat (k + int (length pools)))
         else Inl IndexError)"

definition text_or :: "string option \<Rightarrow> string option \<Rightarrow> string" where
  "text_or a b = (case or_text a b of Some s \<Rightarrow> s | None \<Rightarrow> [])"

definition pool_mx :: "hpool \<Rightarrow> string" where "pool_mx p = text_or (hp_mx p) (hp_mint_x p)"
definition pool_my :: "hpool \<Rightarrow> string" where "pool_my p = text_or (hp_my p) (hp_mint_y p)"

fun mints_loop :: "hpool list \<Rightarrow> hroute \<Rightarrow> nat \<Rightarrow> string \<Rightarrow> string list \<Rightarrow> string list res" where
  "mints_loop pools r hi incoming [] = Inr []"
| "mints_loop pools r hi incoming (proto # protos) =
     rbind (pool_at pools r hi) (\<lambda>p.
       let mx = pool_mx p; my = pool_my p in
       if length mx < 32 \<or> length my < 32 then Inl (RuntimeError ''VECTOR_FAIL role=pool_mints'')
       else let outgoing = (if incoming = mx then my else mx)
            in rbind (mints_loop pools r (Suc hi) outgoing protos) (\<lambda>ms. Inr (outgoing # ms)))"

definition route_mints :: "hpool list \<Rightarrow> hroute \<Rightarrow> string list res" where
  "route_mints pools r = rbind (mints_loop pools r 0 xl_SOL (split_dash (hr_seq r))) (\<lambda>ms. Inr (xl_SOL # ms))"

section \<open>Token programs and pool metadata\<close>

definition hl_mint_tok :: "rpc_call \<Rightarrow> string \<Rightarrow> (hops_st, string) sx" where
  "hl_mint_tok rpc mint =
    sbind (sget (\<lambda>s. dget (hs_hl_tok s) mint)) (\<lambda>c. case c of
      Some tok \<Rightarrow> sret tok
    | None \<Rightarrow> sbind (slift (fetch_owner rpc mint)) (\<lambda>own.
        sseq (smod (\<lambda>s. s \<lparr> hs_hl_tok := dput mint own (hs_hl_tok s) \<rparr>)) (sret own)))"

definition ata_of :: "(bytes \<Rightarrow> bytes) \<Rightarrow> rpc_call \<Rightarrow> string \<Rightarrow> string \<Rightarrow> (hops_st, string) sx" where
  "ata_of sha rpc wallet mint = sbind (hl_mint_tok rpc mint) (\<lambda>tok. slift (ata sha wallet mint tok))"

definition hl_pump_meta :: "rpc_call \<Rightarrow> string \<Rightarrow> (hops_st, pump_fields) sx" where
  "hl_pump_meta rpc pair =
    sbind (sget (\<lambda>s. dget (hs_pump_meta s) pair)) (\<lambda>hit.
      if (case hit of Some m \<Rightarrow> pf_coin_creator m \<noteq> [] \<and> pf_base m \<noteq> [] | None \<Rightarrow> False) then sret (the hit)
      else sbind (slift (fetch_pump_meta rpc pair)) (\<lambda>m.
        sseq (smod (\<lambda>s. s \<lparr> hs_pump_meta := dput pair m (hs_pump_meta s) \<rparr>)) (sret m)))"

definition resolve_dlmm :: "(bytes \<Rightarrow> bytes) \<Rightarrow> rpc_call \<Rightarrow> (nat \<Rightarrow> string list \<Rightarrow> account option list) \<Rightarrow> string \<Rightarrow> string list res" where
  "resolve_dlmm sha rpc fetch pair =
    rbind (dlmm_meta_of sha fetch pair) (\<lambda>m. rbind (derive_dlmm_hop sha rpc fetch pair (Some m)) (\<lambda>h. Inr (flatten_dlmm h)))"

definition resolve_pump :: "(bytes \<Rightarrow> bytes) \<Rightarrow> rpc_call \<Rightarrow> string \<Rightarrow> bool \<Rightarrow> string \<Rightarrow> string \<Rightarrow> string \<Rightarrow> (hops_st, string list) sx" where
  "resolve_pump sha rpc pair buy wallet user_base user_quote =
    sbind (hl_pump_meta rpc pair) (\<lambda>m.
    sbind (derive_pump_hop sha rpc pair buy wallet user_base user_quote (Some m)) (\<lambda>h. sret (flatten_pump h wallet)))"

section \<open>The vector and the payload\<close>

definition HOPS_MAGIC :: bytes where "HOPS_MAGIC = ascii ''ARBHOPS0''"
definition HOPS_TINY_IN :: int where "HOPS_TINY_IN = 10000"
definition MIN_PROFIT :: int where "MIN_PROFIT = 1000000000"

text \<open>\<^verbatim>\<open>for m in mints[1:]: pk = ata_of(...); if pk not in users: users.append(pk)\<close>, padded to three\<close>

definition pad_users :: "string list \<Rightarrow> string list" where
  "pad_users users = users @ replicate (3 - length users) (hd users)"

definition route_users :: "(bytes \<Rightarrow> bytes) \<Rightarrow> rpc_call \<Rightarrow> string \<Rightarrow> string list \<Rightarrow> (hops_st, string list) sx" where
  "route_users sha rpc wallet mints = sbind (smap (ata_of sha rpc wallet) mints) (\<lambda>pks. sret (pad_users (uniq pks)))"

record ix_hop =
  ih_proto :: int
  ih_in :: nat
  ih_out :: nat
  ih_nacc :: nat

definition user_slot :: "string list \<Rightarrow> string \<Rightarrow> nat" where
  "user_slot mints m = (if m = xl_SOL then 0 else if m = mints ! 1 then 1 else 2)"

definition hop_nacc :: "string \<Rightarrow> bool \<Rightarrow> nat" where
  "hop_nacc proto buy = (if proto = ''dlmm'' then 10 else if buy then 26 else 24)"

definition pool_pair :: "hpool \<Rightarrow> string res" where
  "pool_pair p = (case or_text (hp_pubkey p) (hp_pk p) of Some s \<Rightarrow> Inr s | None \<Rightarrow> Inl TypeError)"

definition hop_keys_of :: "string \<Rightarrow> hop \<Rightarrow> string list" where
  "hop_keys_of wallet h = (case h of PumpHop q \<Rightarrow> flatten_pump q wallet | DlmmHop q \<Rightarrow> flatten_dlmm q)"

definition build_hop ::
  "(bytes \<Rightarrow> bytes) \<Rightarrow> rpc_call \<Rightarrow> (nat \<Rightarrow> string list \<Rightarrow> account option list) \<Rightarrow> string \<Rightarrow> hpool list \<Rightarrow> hroute
    \<Rightarrow> string list \<Rightarrow> string list \<Rightarrow> nat \<times> string \<Rightarrow> (hops_st, hop \<times> ix_hop) sx" where
  "build_hop sha rpc fetch wallet pools r mints users e =
    (let hi = fst e; proto = snd e in
     sbind (slift (pool_at pools r hi)) (\<lambda>p.
     sbind (slift (pool_pair p)) (\<lambda>pair.
     let incoming = mints ! hi; outgoing = mints ! (hi + 1);
         buy = (proto = ''pump'' \<and> incoming = xl_SOL); nacc = hop_nacc proto buy
     in sbind (if proto = ''dlmm''
          then slift (rbind (dlmm_meta_of sha fetch pair) (\<lambda>m. rbind (derive_dlmm_hop sha rpc fetch pair (Some m)) (\<lambda>h. Inr (DlmmHop h))))
          else sbind (ata_of sha rpc wallet (if incoming \<noteq> xl_SOL then incoming else outgoing)) (\<lambda>user_base.
               sbind (hl_pump_meta rpc pair) (\<lambda>m.
               sbind (derive_pump_hop sha rpc pair buy wallet user_base (users ! 0) (Some m)) (\<lambda>h. sret (PumpHop h))))) (\<lambda>sem.
        if length (hop_keys_of wallet sem) \<noteq> nacc then slift (Inl (RuntimeError ''hop want nacc''))
        else sret (sem, \<lparr> ih_proto = (if proto = ''dlmm'' then 1 else 2), ih_in = user_slot mints incoming,
                          ih_out = user_slot mints outgoing, ih_nacc = nacc \<rparr>)))))"

definition shared_keys :: "string \<Rightarrow> string list \<Rightarrow> string \<Rightarrow> string list" where
  "shared_keys wallet users event_dlmm =
    [wallet, users ! 0, users ! 1, users ! 2, TOKENKEG, TOKEN2022, MEMO, xl_DLMM, event_dlmm]"

fun put_hops :: "bytes \<Rightarrow> nat \<Rightarrow> ix_hop list \<Rightarrow> bytes" where
  "put_hops buf i [] = buf"
| "put_hops buf i (h # hs) =
     put_hops (buf[25 + i * 3 := word_of_int (ih_proto h), 26 + i * 3 := word_of_nat (ih_in h),
                   27 + i * 3 := word_of_nat (ih_out h), 34 + i := word_of_nat (ih_nacc h)]) (Suc i) hs"

text \<open>At most three hops reach this point, so every index is inside the forty bytes.\<close>

definition hops_payload :: "int \<Rightarrow> ix_hop list \<Rightarrow> bytes res" where
  "hops_payload n hs =
    rbind (set_byte (set_range (zeros 40) 0 8 HOPS_MAGIC) 8 n) (\<lambda>buf.
    rbind (pack_u 8 HOPS_TINY_IN) (\<lambda>a. rbind (pack_u 8 MIN_PROFIT) (\<lambda>m.
      Inr (put_hops (splice (splice buf 9 a) 17 m) 0 hs))))"

definition build_route_accounts ::
  "(bytes \<Rightarrow> bytes) \<Rightarrow> rpc_call \<Rightarrow> (nat \<Rightarrow> string list \<Rightarrow> account option list) \<Rightarrow> string \<Rightarrow> hpool list \<Rightarrow> hroute
    \<Rightarrow> (hops_st, string list \<times> bytes \<times> hop list) sx" where
  "build_route_accounts sha rpc fetch wallet pools r =
    (let protos = split_dash (hr_seq r) in
     sbind (slift (route_mints pools r)) (\<lambda>mints.
     sbind (route_users sha rpc wallet mints) (\<lambda>users.
     sbind (slift (xl_pda sha [ascii ''__event_authority''] xl_DLMM)) (\<lambda>event_dlmm.
     sbind (smap (build_hop sha rpc fetch wallet pools r mints users) (zip [0..<length protos] protos)) (\<lambda>hs.
     sbind (slift (hops_payload (hr_n_hop r) (map snd hs))) (\<lambda>buf.
       sret (shared_keys wallet users event_dlmm @ concat (map (hop_keys_of wallet) (map fst hs)), buf, map fst hs)))))))"

text \<open>Signer and writable flags of the vector, as the message is compiled.\<close>

definition metas_for :: "string list \<Rightarrow> string \<Rightarrow> meta_row list" where
  "metas_for keys wallet =
    map (\<lambda>(i, k). let signer = (k = wallet \<and> i = 0)
                  in \<lparr> me_pk = k, me_signer = signer, me_writable = (signer \<or> i \<in> set [1, 2, 3] \<or> i \<ge> 9) \<rparr>)
      (zip [0..<length keys] keys)"

definition compile_checks :: "string \<Rightarrow> string list \<Rightarrow> bytes \<Rightarrow> meta_row list res" where
  "compile_checks payer keys data =
    (if keys = [] \<or> hd keys \<noteq> payer then Inl (ValueError ''First route account must be the payer'')
     else if length data \<noteq> 40 \<or> take 8 data \<noteq> HOPS_MAGIC then Inl (ValueError ''Invalid ARBHOPS0 payload'')
     else Inr (map (\<lambda>(i, k). \<lparr> me_pk = k, me_signer = (i = 0), me_writable = (i \<in> set [0, 1, 2, 3] \<or> i \<ge> 9) \<rparr>)
                (zip [0..<length keys] keys)))"

section \<open>Running the builder\<close>

lemma smap_Inr:
  assumes "smap f xs s = (Inr ys, s')"
  shows "length ys = length xs" "i < length xs \<Longrightarrow> \<exists>t t'. f (xs ! i) t = (Inr (ys ! i), t')"
  using assms
proof (induction xs arbitrary: s ys i)
  case (Cons x xs)
  {
    case 1
    then show ?case using Cons.IH(1) by (fastforce simp: sbind_Inr)
  next
    case 2
    then show ?case using Cons.IH(2) by (cases i) (fastforce simp: sbind_Inr)+
  }
qed simp_all

definition tok_le :: "hops_st \<Rightarrow> hops_st \<Rightarrow> bool" where
  "tok_le s s' \<longleftrightarrow> (\<forall>m t. dget (hs_hl_tok s) m = Some t \<longrightarrow> dget (hs_hl_tok s') m = Some t)"

lemma tok_le_refl: "tok_le s s"
  by (simp add: tok_le_def)

lemma tok_le_trans: "tok_le s t \<Longrightarrow> tok_le t u \<Longrightarrow> tok_le s u"
  by (simp add: tok_le_def)

lemma hl_mint_tok_Inr:
  "hl_mint_tok rpc m s = (Inr t, s') \<Longrightarrow> dget (hs_hl_tok s') m = Some t \<and> tok_le s s'"
  by (auto simp: hl_mint_tok_def sbind_Inr tok_le_def update_conv' split: option.splits)

lemma ata_of_Inr:
  "ata_of sha rpc wallet m s = (Inr pk, s') \<Longrightarrow>
     tok_le s s' \<and> (\<exists>t. dget (hs_hl_tok s') m = Some t \<and> ata sha wallet m t = Inr pk)"
  by (auto simp: ata_of_def sbind_Inr dest: hl_mint_tok_Inr)

lemma smap_ata:
  assumes "smap (ata_of sha rpc wallet) ms s = (Inr pks, s')"
  shows "tok_le s s' \<and> (\<forall>i<length ms. \<exists>t. dget (hs_hl_tok s') (ms ! i) = Some t \<and> ata sha wallet (ms ! i) t = Inr (pks ! i))"
  using assms
proof (induction ms arbitrary: s pks)
  case Nil
  then show ?case by (simp add: tok_le_refl)
next
  case (Cons m ms)
  then obtain pk s1 pks' where m: "ata_of sha rpc wallet m s = (Inr pk, s1)"
    and ms: "smap (ata_of sha rpc wallet) ms s1 = (Inr pks', s')" and pks: "pks = pk # pks'"
    by (auto simp: sbind_Inr)
  from ata_of_Inr [OF m] obtain t where t: "tok_le s s1" "dget (hs_hl_tok s1) m = Some t" "ata sha wallet m t = Inr pk" by blast
  note IH = Cons.IH [OF ms]
  have "\<exists>t. dget (hs_hl_tok s') ((m # ms) ! i) = Some t \<and> ata sha wallet ((m # ms) ! i) t = Inr (pks ! i)" if "i < length (m # ms)" for i
    using that t IH by (cases i) (auto simp: pks tok_le_def)
  then show ?case using t IH tok_le_trans by blast
qed

lemma uniq_map_inj:
  "inj_on f (set xs) \<Longrightarrow> uniq (map f xs) = map f (uniq xs)"
proof (induction xs)
  case (Cons x xs)
  have "filter (\<lambda>y. y \<noteq> f x) (map f (uniq xs)) = map f (filter (\<lambda>y. y \<noteq> x) (uniq xs))"
    unfolding filter_map comp_def using Cons.prems by (intro arg_cong [where f = "map f"] filter_cong) (auto simp: inj_on_def)
  then show ?case using Cons by simp
qed simp

lemma user_slot_pk:
  assumes "length mints \<le> 4" "mints ! 0 = xl_SOL" "2 \<le> length mints" "mints ! 1 \<noteq> xl_SOL" "last mints = xl_SOL"
    and inj: "inj_on pk (set mints)" and m: "m \<in> set mints"
  shows "pad_users (uniq (map pk mints)) ! user_slot mints m = pk m"
proof -
  have "length mints = 2 \<or> length mints = 3 \<or> length mints = 4" using assms by linarith
  then consider a where "mints = [xl_SOL, a]" | a b where "mints = [xl_SOL, a, b]" | a b c where "mints = [xl_SOL, a, b, c]"
    using assms(2) by (auto simp: length_Suc_conv numeral_eq_Suc)
  then show ?thesis
  proof cases
    case 1
    then show ?thesis using assms by simp
  next
    case 2
    then show ?thesis using assms uniq_map_inj [OF inj] by (auto simp: pad_users_def user_slot_def numeral_eq_Suc)
  next
    case 3
    then show ?thesis using assms uniq_map_inj [OF inj] by (auto simp: pad_users_def user_slot_def numeral_eq_Suc)
  qed
qed

text \<open>How the on-chain program reads one hop of the payload.\<close>

definition read_hop :: "bytes \<Rightarrow> nat \<Rightarrow> ix_hop" where
  "read_hop data i =
    \<lparr> ih_proto = uint (data ! (25 + i * 3)), ih_in = unat (data ! (26 + i * 3)), ih_out = unat (data ! (27 + i * 3)),
      ih_nacc = unat (data ! (34 + i)) \<rparr>"

definition hop_fits :: "ix_hop \<Rightarrow> bool" where
  "hop_fits h \<longleftrightarrow> 0 \<le> ih_proto h \<and> ih_proto h < 256 \<and> ih_in h < 256 \<and> ih_out h < 256 \<and> ih_nacc h < 256"

lemma put_hops_frame:
  "length (put_hops buf i hs) = length buf" "j < 25 \<Longrightarrow> put_hops buf i hs ! j = buf ! j"
  by (induction hs arbitrary: buf i) auto

lemma take_put_hops: "take 25 (put_hops buf i hs) = take 25 buf"
  by (rule nth_equalityI) (simp_all add: put_hops_frame)

lemma put_hops_read:
  assumes "length hs \<le> 3" "list_all hop_fits hs" "length buf = 40"
  shows "map (read_hop (put_hops buf 0 hs)) [0..<length hs] = hs"
proof -
  have "length hs = 0 \<or> length hs = 1 \<or> length hs = 2 \<or> length hs = 3" using assms(1) by linarith
  then consider "hs = []" | a where "hs = [a]" | a b where "hs = [a, b]" | a b c where "hs = [a, b, c]"
    by (auto simp: length_Suc_conv numeral_eq_Suc)
  then show ?thesis
    using assms(2,3) by cases (auto simp: read_hop_def hop_fits_def nth_list_update unat_of_nat unsigned_of_int take_bit_int_eq_self)
qed

lemma hops_payload_read:
  assumes "hops_payload n hs = Inr data" "length hs \<le> 3" "list_all hop_fits hs"
  shows "length data = 40" "take 8 data = HOPS_MAGIC" "uint (data ! 8) = n"
    "u_at 8 data 9 = HOPS_TINY_IN" "u_at 8 data 17 = MIN_PROFIT" "map (read_hop data) [0..<length hs] = hs"
proof -
  obtain b a m where b: "set_byte (set_range (zeros 40) 0 8 HOPS_MAGIC) 8 n = Inr b" and a: "pack_u 8 HOPS_TINY_IN = Inr a"
    and m: "pack_u 8 MIN_PROFIT = Inr m" and data: "data = put_hops (splice (splice b 9 a) 17 m) 0 hs"
    using assms(1) by (auto simp: hops_payload_def rbind_Inr_iff)
  have magic: "length HOPS_MAGIC = 8" by (simp add: HOPS_MAGIC_def ascii_def)
  have la: "length a = 8" "length m = 8" using a m pack_u_length by blast+
  have n: "0 \<le> n" "n < 256" and b': "b = (HOPS_MAGIC @ zeros 32)[8 := word_of_int n]"
    using b magic zeros_split [of 8 32] by (auto simp: set_byte_def set_range_def split: if_splits)
  then have lb: "length b = 40" "take 8 b = HOPS_MAGIC" "b ! 8 = word_of_int n" using magic by simp_all
  define q where "q = splice (splice b 9 a) 17 m"
  have q: "length q = 40" using lb la by (simp add: q_def)
  have t25: "take 25 data = take 25 q" by (simp add: data q_def take_put_hops)
  show "length data = 40" using q by (simp add: data put_hops_frame flip: q_def)
  have sl: "slice x y data = slice x y q" if "x \<le> y" "y \<le> 25" for x y
    using arg_cong [OF t25, of "slice x y"] that by (simp add: slice_def take_drop min_def)
  have "slice 0 8 q = HOPS_MAGIC" using lb la by (simp add: q_def slice_splice_before) (simp add: slice_def)
  then show "take 8 data = HOPS_MAGIC" using sl [of 0 8] by (simp add: slice_def)
  have "q ! 8 = word_of_int n" using lb la by (simp add: q_def nth_splice)
  then have "data ! 8 = word_of_int n" by (simp add: data put_hops_frame flip: q_def)
  then show "uint (data ! 8) = n" using n by (simp add: unsigned_of_int take_bit_int_eq_self)
  have "slice 9 17 q = a" using lb la by (simp add: q_def slice_splice_before slice_splice_same)
  then show "u_at 8 data 9 = HOPS_TINY_IN" using sl [of 9 17] uint_le_pack_u [OF a] by (simp add: u_at_def)
  have "slice 17 25 q = m" using lb la by (simp add: q_def slice_splice_same)
  then show "u_at 8 data 17 = MIN_PROFIT" using sl [of 17 25] uint_le_pack_u [OF m] by (simp add: u_at_def)
  show "map (read_hop data) [0..<length hs] = hs"
    unfolding data using assms(2,3) q by (intro put_hops_read) (simp_all add: q_def)
qed

lemma mints_loop_length: "mints_loop pools r hi incoming ps = Inr ms \<Longrightarrow> length ms = length ps"
  by (induction ps arbitrary: hi incoming ms) (auto simp: rbind_Inr_iff Let_def split: if_splits)

lemma mints_loop_hops: "mints_loop pools r hi incoming ps = Inr ms \<Longrightarrow> ps \<noteq> [] \<Longrightarrow> hi + length ps \<le> length (route_idxs r)"
proof (induction ps arbitrary: hi incoming ms)
  case (Cons p ps)
  then have "hi < length (route_idxs r)" by (auto simp: rbind_Inr_iff pool_at_def split: if_splits)
  with Cons show ?case by (cases "ps = []") (fastforce simp: rbind_Inr_iff Let_def split: if_splits)+
qed simp

lemma route_idxs_le: "length (route_idxs r) \<le> 3"
  by (auto simp: route_idxs_def Let_def min_def)

lemma split_dash_ne: "split_dash s \<noteq> []"
  by (cases s) (auto split: list.splits)

lemma route_mints_shape:
  assumes "route_mints pools r = Inr mints"
  shows "mints ! 0 = xl_SOL" "length mints = Suc (length (split_dash (hr_seq r)))" "length (split_dash (hr_seq r)) \<le> 3"
    "2 \<le> length mints"
proof -
  obtain ms where ms: "mints_loop pools r 0 xl_SOL (split_dash (hr_seq r)) = Inr ms" and mints: "mints = xl_SOL # ms"
    using assms by (auto simp: route_mints_def rbind_Inr_iff)
  show "mints ! 0 = xl_SOL" "length mints = Suc (length (split_dash (hr_seq r)))"
    using mints mints_loop_length [OF ms] by simp_all
  show "length (split_dash (hr_seq r)) \<le> 3"
    using mints_loop_hops [OF ms split_dash_ne] route_idxs_le [of r] by simp
  have "length (split_dash (hr_seq r)) > 0" using split_dash_ne by simp
  then show "2 \<le> length mints" using mints mints_loop_length [OF ms] by (simp add: Suc_le_eq)
qed

lemma build_hop_Inr:
  assumes "build_hop sha rpc fetch wallet pools r mints users (hi, proto) s = (Inr (sem, ix), s')"
  shows "length (hop_keys_of wallet sem) = ih_nacc ix" "ih_in ix = user_slot mints (mints ! hi)"
    "ih_out ix = user_slot mints (mints ! (hi + 1))" "ih_proto ix = (if proto = ''dlmm'' then 1 else 2)" "hop_fits ix"
proof -
  have "ix = \<lparr> ih_proto = (if proto = ''dlmm'' then 1 else 2), ih_in = user_slot mints (mints ! hi),
      ih_out = user_slot mints (mints ! (hi + 1)), ih_nacc = hop_nacc proto (proto = ''pump'' \<and> mints ! hi = xl_SOL) \<rparr>
    \<and> length (hop_keys_of wallet sem) = hop_nacc proto (proto = ''pump'' \<and> mints ! hi = xl_SOL)"
    using assms by (auto simp: build_hop_def Let_def sbind_Inr split: if_splits)
  then show "length (hop_keys_of wallet sem) = ih_nacc ix" "ih_in ix = user_slot mints (mints ! hi)"
    "ih_out ix = user_slot mints (mints ! (hi + 1))" "ih_proto ix = (if proto = ''dlmm'' then 1 else 2)" "hop_fits ix"
    by (simp_all add: hop_fits_def user_slot_def hop_nacc_def)
qed

text \<open>What a successful build consists of.\<close>

lemma build_route_Inr:
  assumes "build_route_accounts sha rpc fetch wallet pools r s = (Inr (keys, data, sems), s')" "route_mints pools r = Inr mints"
  obtains pks s1 ev hs s2 s3 where
    "smap (ata_of sha rpc wallet) mints s = (Inr pks, s1)"
    "smap (build_hop sha rpc fetch wallet pools r mints (pad_users (uniq pks)))
       (zip [0..<length (split_dash (hr_seq r))] (split_dash (hr_seq r))) s2 = (Inr hs, s3)"
    "hops_payload (hr_n_hop r) (map snd hs) = Inr data" "sems = map fst hs"
    "keys = shared_keys wallet (pad_users (uniq pks)) ev @ concat (map (hop_keys_of wallet) sems)"
  using assms unfolding build_route_accounts_def Let_def route_users_def by (auto simp: sbind_Inr)

end
