(* ===== verification/Hops_Accounts.thy ===== *)
theory Hops_Accounts
  imports Hops_Route
begin

text \<open>
  The accounts the executor instruction of the two-venue template receives, compared with the hop
  vectors of \<^verbatim>\<open>hops_vector.py\<close>: two files that list the same accounts of the same venue
  independently, one as byte positions in a loaded key list, the other as named roles.
\<close>

definition NAMES :: "string list" where
  "NAMES =
    [''authority'', ''user_quote'', ''user_base'', ''token_program'', ''system_program'',
     ''ata_program'', ''memo_program'', ''dlmm_program'', ''dlmm_event_auth'',
     ''dlmm_lb_pair'', ''dlmm_bitmap'', ''dlmm_reserve_x'', ''dlmm_reserve_y'',
     ''dlmm_oracle'', ''dlmm_host_fee'', ''dlmm_token_x_mint'', ''dlmm_token_y_mint'',
     ''dlmm_bin_0'', ''dlmm_bin_1'', ''pump_program'', ''pump_event_auth'', ''pump_pool'',
     ''pump_global'', ''pump_fee_config'', ''pump_fee_program'', ''pump_base_mint'',
     ''pump_quote_mint'', ''pump_pool_base'', ''pump_pool_quote'', ''pump_proto_fee'',
     ''pump_proto_fee_ata'', ''pump_creator_ata'', ''pump_creator_auth'',
     ''pump_global_vol'', ''pump_user_vol'']"

text \<open>\<^verbatim>\<open>inspect_logical\<close>: one report row per logical account.\<close>

record logical_row =
  lr_i :: nat
  lr_name :: string
  lr_pubkey :: string
  lr_exists :: bool
  lr_owner :: "string option"
  lr_dlen :: nat

definition inspect_logical :: "rpc_call \<Rightarrow> string list \<Rightarrow> logical_row list res" where
  "inspect_logical rpc keys =
    rbind (get_multiple rpc None None keys) (\<lambda>accs.
      if length NAMES < length keys then Inl IndexError
      else Inr (map (\<lambda>(i, k, a). \<lparr> lr_i = i, lr_name = NAMES ! i, lr_pubkey = k, lr_exists = (a \<noteq> None),
          lr_owner = map_option ra_owner a, lr_dlen = (case a of None \<Rightarrow> 0 | Some r \<Rightarrow> length (ra_data r)) \<rparr>)
        (zip [0..<length keys] (zip keys accs))))"

section \<open>How a v0 transaction loads its accounts\<close>

text \<open>Static keys, then the writable and the read-only entries of the lookup table.\<close>

definition on_chain :: "string list \<Rightarrow> string list \<Rightarrow> bytes \<Rightarrow> bytes \<Rightarrow> bytes \<Rightarrow> string list" where
  "on_chain static table wr_ix ro_ix ix =
    (let loaded = static @ map (\<lambda>b. table ! unat b) wr_ix @ map (\<lambda>b. table ! unat b) ro_ix in map (\<lambda>b. loaded ! unat b) ix)"

text \<open>With one signer and ten read-only static keys of eleven: the signer and the writable entries.\<close>

definition loads_writable :: "bytes \<Rightarrow> byte \<Rightarrow> bool" where
  "loads_writable wr_ix b \<longleftrightarrow> unat b = 0 \<or> 11 \<le> unat b \<and> unat b < 11 + length wr_ix"

text \<open>The route's accounts as a Pump hop and as a DLMM hop.\<close>

definition acc_pump_hop :: "route_acc \<Rightarrow> bool \<Rightarrow> pump_hop" where
  "acc_pump_hop acc buy =
    \<lparr> ph_pool = (case or_text (ac_pair_pump acc) (Some PAIR_PUMP) of Some p \<Rightarrow> p | None \<Rightarrow> PAIR_PUMP),
      ph_global_config = pi_global (ac_pump acc), ph_base_mint = ac_mint_x acc, ph_quote_mint = ac_mint_y acc,
      ph_user_base_ata = ac_user_base acc, ph_user_quote_ata = ac_user_quote acc,
      ph_pool_base_vault = ac_vault_b acc, ph_pool_quote_vault = ac_vault_q acc,
      ph_protocol_fee_recipient = pi_proto_fee (ac_pump acc), ph_protocol_fee_recipient_quote_ata = pi_proto_fee_ata (ac_pump acc),
      ph_coin_creator = [], ph_creator_vault = pi_creator_auth (ac_pump acc), ph_creator_vault_ata = pi_creator_ata (ac_pump acc),
      ph_gvol = ac_gvol acc, ph_uvol = ac_uvol acc, ph_pool_v2 = ac_pool_v2 acc,
      ph_token_program_base = TOKEN2022, ph_token_program_quote = TOKENKEG,
      ph_associated_token_program = ATA_PROG, ph_system_program = SYSTEM, ph_event_authority = pi_event (ac_pump acc),
      ph_program = xl_PUMP, ph_fee_config = ac_fee_cfg acc, ph_fee_program = FEE_PROG,
      ph_fee_recipient = ac_fee_recipient acc, ph_fee_recipient_quote_ata = ac_fee_rec_quote acc, ph_buy = buy,
      ph_bumps = [], ph_seeds = [] \<rparr>"

definition acc_dlmm_hop :: "route_acc \<Rightarrow> dlmm_hop" where
  "acc_dlmm_hop acc =
    \<lparr> dh_pool = (case or_text (ac_pair_dlmm acc) (Some PAIR_DLMM) of Some p \<Rightarrow> p | None \<Rightarrow> PAIR_DLMM), dh_bitmap = xl_DLMM,
      dh_vault_x = ac_vault_x acc, dh_vault_y = ac_vault_y acc, dh_oracle = ac_oracle acc, dh_host = xl_DLMM,
      dh_mint_x = ac_mint_x acc, dh_mint_y = ac_mint_y acc, dh_bin0 = ac_bins acc ! 0, dh_bin1 = ac_bins acc ! 1,
      dh_bin0_index = 0, dh_bin1_index = 0, dh_active_id = ac_active_id acc, dh_bumps = [], dh_seeds = [] \<rparr>"

definition alt_wr :: "bool \<Rightarrow> bytes" where "alt_wr buy = (if buy then ALT_WR_IX_BUY else ALT_WR_IX)"
definition alt_ro :: "bool \<Rightarrow> bytes" where "alt_ro buy = (if buy then ALT_RO_IX_BUY else ALT_RO_IX)"
definition ix_map :: "bool \<Rightarrow> bytes" where "ix_map buy = (if buy then IX_IDX_BUY else IX_IDX)"

text \<open>The split of the keys that \<open>main\<close> works with.\<close>

lemma main_plan_Inr:
  assumes "main_plan direction wallet our_exec acc = Inr (static, wr, ro, table, logical)"
  shows "direction = 0 \<or> direction = 1"
    and "\<exists>wr0. v0_parts wallet our_exec acc = Inr (static, wr0, ro) \<and> main_table direction acc wr0 ro = (wr, table, ix_map (direction = 1))"
    and "logical_of (loaded_keys static wr ro) (ix_map (direction = 1)) = Inr logical"
    and "distinct table" "set table \<inter> set static = {}"
proof -
  show d: "direction = 0 \<or> direction = 1"
    by (rule ccontr) (use assms in \<open>simp add: main_plan_def\<close>)
  then have nd: "\<not> (direction \<noteq> 0 \<and> direction \<noteq> 1)" by simp
  obtain st wr0 ro' where parts: "v0_parts wallet our_exec acc = Inr (st, wr0, ro')"
    using assms d by (cases "v0_parts wallet our_exec acc") (auto simp: main_plan_def)
  obtain w tb im where mt: "main_table direction acc wr0 ro' = (w, tb, im)" by (cases "main_table direction acc wr0 ro'") auto
  have im: "im = ix_map (direction = 1)" using mt d by (auto simp: main_table_def ix_map_def Let_def)
  have body: "(if \<not> distinct tb then Inl (SystemExit ''ALT duplicate'')
       else if set tb \<inter> set st \<noteq> {} then Inl (SystemExit ''ALT overlaps static'')
       else rbind (logical_of (loaded_keys st w ro') im) (\<lambda>logical.
         rbind (logical_locks wallet logical) (\<lambda>_. Inr (st, w, ro', tb, logical)))) = Inr (static, wr, ro, table, logical)"
    using assms unfolding main_plan_def if_not_P [OF nd] parts rbind_simps prod.case mt .
  then have "distinct tb" "set tb \<inter> set st = {}" by (meson Inl_Inr_False)+
  with body have eq: "logical_of (loaded_keys st w ro') im = Inr logical" "st = static" "w = wr" "ro' = ro" "tb = table"
    by (auto simp: rbind_Inr_iff)
  show "\<exists>wr0. v0_parts wallet our_exec acc = Inr (static, wr0, ro) \<and> main_table direction acc wr0 ro = (wr, table, ix_map (direction = 1))"
    "logical_of (loaded_keys static wr ro) (ix_map (direction = 1)) = Inr logical" "distinct table" "set table \<inter> set static = {}"
    using parts mt im eq \<open>distinct tb\<close> \<open>set tb \<inter> set st = {}\<close> by auto
qed

text \<open>Through the table the index lists give back the two key lists.\<close>

lemma map_nth_bytes: "\<forall>i\<in>set is. i < 256 \<Longrightarrow> map (\<lambda>b. t ! unat b) (map (word_of_nat :: nat \<Rightarrow> byte) is) = map (nth t) is"
  by (simp add: unat_of_nat)

lemma map_nth_prefix: "length xs = n \<Longrightarrow> map (nth (xs @ ys)) [0..<n] = xs"
  by (rule nth_equalityI) (auto simp: nth_append)

lemma map_nth_middle: "length xs = a \<Longrightarrow> length ys = b - a \<Longrightarrow> map (nth (xs @ ys @ zs)) [a..<b] = ys"
  by (rule nth_equalityI) (auto simp: nth_append)

lemma table_gives_parts:
  assumes "v0_parts wallet our_exec acc = Inr (static, wr0, ro)" "main_table direction acc wr0 ro = (wr, table, im)"
  shows "map (\<lambda>b. table ! unat b) (alt_wr (direction = 1)) = wr" "map (\<lambda>b. table ! unat b) (alt_ro (direction = 1)) = ro"
proof -
  have l: "length wr0 = 15" "length ro = 10" using assms(1) by (auto simp: v0_parts_def split: if_splits)
  have w: "wr0 = take 14 wr0 @ [wr0 ! 14]" using l take_Suc_conv_app_nth [of 14 wr0] by simp
  have r: "ro = take 9 ro @ [ro ! 9]" using l take_Suc_conv_app_nth [of 9 ro] by simp
  define xs ys a b where "xs = take 14 wr0" and "ys = take 9 ro" and "a = wr0 ! 14" and "b = ro ! 9"
  have len: "length xs = 14" "length ys = 9" using l by (simp_all add: xs_def ys_def)
  have wr0: "wr0 = xs @ [a]" and ro: "ro = ys @ [b]" using w r by (simp_all add: xs_def ys_def a_def b_def)
  obtain zs where tab: "table = xs @ ys @ a # b # zs" and wr: "wr = xs @ a # (if direction = 1 then [ac_gvol acc] else [])"
    and z: "zs = (if direction = 1 then [ac_gvol acc] else [])"
    using assms(2) len by (cases "direction = 1") (auto simp: main_table_def wr0 ro Let_def nth_append)
  have pre: "map (nth table) [0..<14] = xs" unfolding tab by (rule map_nth_prefix) (rule len)
  have mid: "map (nth table) [14..<23] = ys" unfolding tab by (rule map_nth_middle) (simp_all add: len)
  have last: "table ! 23 = a" "table ! 24 = b" using len by (simp_all add: tab nth_append)
  have gv: "direction = 1 \<Longrightarrow> table ! 25 = ac_gvol acc" using len by (simp add: tab z nth_append)
  show "map (\<lambda>b. table ! unat b) (alt_wr (direction = 1)) = wr"
    unfolding alt_wr_def ALT_WR_IX_def ALT_WR_IX_BUY_def if_distrib [of "map (\<lambda>b. table ! unat b)"]
    by (subst map_nth_bytes, simp, subst map_nth_bytes, simp) (simp add: pre last gv wr del: upt_rec_numeral)
  show "map (\<lambda>b. table ! unat b) (alt_ro (direction = 1)) = ro"
    unfolding alt_ro_def ALT_RO_IX_def ALT_RO_IX_BUY_def if_cancel
    by (subst map_nth_bytes, simp) (simp add: mid last ro del: upt_rec_numeral)
qed

lemma logical_of_Inr: "logical_of loaded im = Inr ls \<Longrightarrow> ls = map (\<lambda>b. loaded ! unat b) (take 35 im)"
proof -
  have *: "rmap (\<lambda>i. key_at loaded (unat i)) xs = Inr ls \<Longrightarrow> ls = map (\<lambda>b. loaded ! unat b) xs" for xs :: bytes
    by (induction xs arbitrary: ls) (auto simp: rbind_Inr_iff key_at_def split: if_splits)
  show "logical_of loaded im = Inr ls \<Longrightarrow> ls = map (\<lambda>b. loaded ! unat b) (take 35 im)"
    unfolding logical_of_def by (rule *)
qed

text \<open>The three parts of the index table: the 35 logical accounts, the second token program, the venue call.\<close>

lemma loaded_accounts:
  assumes parts: "v0_parts wallet our_exec acc = Inr (static, wr0, ro)"
  defines "loaded \<equiv> \<lambda>buy. static @ (if buy then wr0 @ [ac_gvol acc] else wr0) @ ro"
  shows "map (\<lambda>b. loaded buy ! unat b) (drop 35 (ix_map buy)) = TOKEN2022 # flatten_pump (acc_pump_hop acc buy) wallet"
    "map (\<lambda>b. loaded buy ! unat b) (take 10 (drop 9 (ix_map buy))) = flatten_dlmm (acc_dlmm_hop acc)"
    "loaded buy ! unat (ix_map buy ! 33) = ac_pool_v2 acc"
    "loaded buy ! unat (ix_map buy ! 0) = wallet"
  using parts unfolding loaded_def v0_parts_def
  by (cases buy; simp add: ix_map_def IX_IDX_def IX_IDX_BUY_def flatten_pump_def acc_pump_hop_def flatten_dlmm_def acc_dlmm_hop_def
      split: if_splits; clarsimp)+

lemma tail_writable:
  "i < length (drop 36 (ix_map buy)) \<Longrightarrow> loads_writable (alt_wr buy) (drop 36 (ix_map buy) ! i) \<longleftrightarrow> pump_writable buy i"
proof -
  have "list_all (\<lambda>i. loads_writable (alt_wr b) (drop 36 (ix_map b) ! i) \<longleftrightarrow> pump_writable b i) [0..<length (drop 36 (ix_map b))]" for b
    by (cases b) (simp_all add: ix_map_def IX_IDX_def IX_IDX_BUY_def loads_writable_def alt_wr_def pump_writable_def upt_conv_Cons)
  then show "i < length (drop 36 (ix_map buy)) \<Longrightarrow> ?thesis" by (simp add: list_all_iff del: upt_rec_numeral)
qed

text \<open>
  C12: The two-venue template calls the venues with the accounts it resolved, in the order and with the
  privileges the hop vectors prescribe. When the plan of \<open>main\<close> is accepted (for either direction),
  loading the transaction's keys from the static list and through the lookup table by the compiled index
  lists gives: the 35 logical accounts, the second token program, and then exactly the flattened Pump hop
  of \<^verbatim>\<open>hops_vector.py\<close> (26 accounts for a buy, 24 for a sell) for the resolved accounts; the DLMM part
  of the logical accounts is the flattened DLMM hop; and an account of the Pump call is loaded writable
  exactly when \<open>pump_writable\<close> says so. Slot 33 of the logical order, which \<open>NAMES\<close> calls
  \<open>pump_global_vol\<close>, holds the pool-v2 account.
\<close>

theorem template_calls_match_hops:
  assumes "main_plan direction wallet our_exec acc = Inr (static, wr, ro, table, logical)"
  defines "buy \<equiv> direction = 1"
  shows "on_chain static table (alt_wr buy) (alt_ro buy) (ix_map buy)
      = logical @ [TOKEN2022] @ flatten_pump (acc_pump_hop acc buy) wallet
    \<and> length logical = 35 \<and> take 10 (drop 9 logical) = flatten_dlmm (acc_dlmm_hop acc)
    \<and> (\<forall>i<length (flatten_pump (acc_pump_hop acc buy) wallet).
         loads_writable (alt_wr buy) (ix_map buy ! (36 + i)) \<longleftrightarrow> pump_writable buy i)
    \<and> logical ! 33 = ac_pool_v2 acc"
proof -
  note plan = main_plan_Inr [OF assms(1)]
  obtain wr0 where parts: "v0_parts wallet our_exec acc = Inr (static, wr0, ro)"
    and mt: "main_table direction acc wr0 ro = (wr, table, ix_map (direction = 1))" using plan(2) by blast
  have wr: "wr = (if buy then wr0 @ [ac_gvol acc] else wr0)" using mt by (auto simp: main_table_def Let_def buy_def split: if_splits)
  define loaded where "loaded = static @ (if buy then wr0 @ [ac_gvol acc] else wr0) @ ro"
  note la = loaded_accounts [OF parts, of buy, folded loaded_def]
  have lk: "loaded_keys static wr ro = loaded" by (simp add: loaded_keys_def loaded_def wr)
  have lg: "logical = map (\<lambda>b. loaded ! unat b) (take 35 (ix_map buy))"
    using logical_of_Inr [OF plan(3)] by (simp add: lk buy_def)
  have n: "length (ix_map buy) = (if buy then 62 else 60)" by (simp add: ix_map_def)
  have oc: "on_chain static table (alt_wr buy) (alt_ro buy) (ix_map buy) = map (\<lambda>b. loaded ! unat b) (ix_map buy)"
    using table_gives_parts [OF parts mt] by (simp add: on_chain_def buy_def loaded_def wr Let_def)
  also have "\<dots> = map (\<lambda>b. loaded ! unat b) (take 35 (ix_map buy)) @ map (\<lambda>b. loaded ! unat b) (drop 35 (ix_map buy))"
    by (simp flip: map_append)
  finally have "on_chain static table (alt_wr buy) (alt_ro buy) (ix_map buy) = logical @ [TOKEN2022] @ flatten_pump (acc_pump_hop acc buy) wallet"
    using la(1) lg by simp
  moreover have "length logical = 35" using lg n by simp
  moreover have "take 10 (drop 9 logical) = flatten_dlmm (acc_dlmm_hop acc)"
    using la(2) by (simp add: lg take_map drop_map drop_take)
  moreover have "loads_writable (alt_wr buy) (ix_map buy ! (36 + i)) \<longleftrightarrow> pump_writable buy i"
    if "i < length (flatten_pump (acc_pump_hop acc buy) wallet)" for i
  proof -
    have "i < length (drop 36 (ix_map buy))" using that n by (auto simp: flatten_pump_def acc_pump_hop_def split: if_splits)
    from tail_writable [OF this] show ?thesis using n by (simp add: nth_drop split: if_splits)
  qed
  moreover have "logical ! 33 = ac_pool_v2 acc" using la(3) n by (simp add: lg)
  ultimately show ?thesis by blast
qed

definition sample_info :: pump_info where
  "sample_info = \<lparr> pi_nacc = None, pi_global = ''gl'', pi_proto_fee = ''pf'', pi_proto_fee_ata = ''pfa'', pi_event = ''ev'',
     pi_creator_ata = ''ca'', pi_creator_auth = ''cv'', pi_slot19 = None, pi_fee_program = FEE_PROG, pi_fee_config = ''fc'' \<rparr>"

definition sample_acc :: route_acc where
  "sample_acc = \<lparr> ac_pair_dlmm = Some ''D'', ac_pair_pump = Some ''P'', ac_mint_x = ''mx'', ac_mint_y = ''my'',
     ac_user_quote = ''uq'', ac_user_base = ''ub'', ac_event_dlmm = ''ed'', ac_oracle = ''or'', ac_bins = [''b0'', ''b1''],
     ac_vault_x = ''vx'', ac_vault_y = ''vy'', ac_vault_b = ''vb'', ac_vault_q = ''vq'', ac_pump = sample_info, ac_fee_cfg = ''fc'',
     ac_gvol = ''gv'', ac_pool_v2 = ''v2'', ac_uvol = ''uv'', ac_fee_recipient = ''fr'', ac_fee_rec_quote = ''fq'', ac_active_id = 0 \<rparr>"

theorem template_calls_match_hops_witness:
  "\<exists>static wr ro table logical. main_plan 1 ''W'' ''X'' sample_acc = Inr (static, wr, ro, table, logical)
    \<and> on_chain static table (alt_wr True) (alt_ro True) (ix_map True)
      = logical @ [TOKEN2022] @ flatten_pump (acc_pump_hop sample_acc True) ''W''"
proof -
  have "\<exists>p. main_plan 1 ''W'' ''X'' sample_acc = Inr p"
    by (simp add: main_plan_def v0_parts_def sample_acc_def sample_info_def main_table_def or_text_def logical_of_def loaded_keys_def
        IX_IDX_BUY_def key_at_def logical_locks_def CU_PROG_def TOKENKEG_def SYSTEM_def ATA_PROG_def MEMO_def xl_DLMM_def xl_PUMP_def
        TOKEN2022_def FEE_PROG_def Let_def)
  then obtain static wr ro table logical where plan: "main_plan 1 ''W'' ''X'' sample_acc = Inr (static, wr, ro, table, logical)"
    by (metis prod_cases5)
  have one: "((1 :: int) = 1) = True" by simp
  from template_calls_match_hops [OF plan, unfolded one] plan show ?thesis by blast
qed

end
