(* ===== verification/Hops_Sample.thy ===== *)
theory Hops_Sample
  imports Hops_Route
begin

text \<open>
  A sample chain on which the route builder of \<^verbatim>\<open>hops_live.py\<close> runs: every account of it is a
  token-program account holding one pool of the sample mint and wrapped SOL. The theorems about built
  vectors are applied to it, so their hypotheses can hold.
\<close>

section \<open>Total runs\<close>

definition runs :: "('s \<Rightarrow> bool) \<Rightarrow> ('s, 'a) sx \<Rightarrow> ('a \<Rightarrow> bool) \<Rightarrow> bool" where
  "runs P m Q \<longleftrightarrow> (\<forall>s. P s \<longrightarrow> (\<exists>x s'. m s = (Inr x, s') \<and> P s' \<and> Q x))"

lemma runs_sbind: "runs P m Q \<Longrightarrow> (\<And>x. Q x \<Longrightarrow> runs P (f x) R) \<Longrightarrow> runs P (sbind m f) R"
  unfolding runs_def by (fastforce simp: sbind_def)

lemma runs_sret: "Q x \<Longrightarrow> runs P (sret x) Q"
  by (simp add: runs_def)

lemma runs_slift: "\<exists>x. r = Inr x \<and> Q x \<Longrightarrow> runs P (slift r) Q"
  by (auto simp: runs_def)

lemma runs_smap: "(\<And>x. x \<in> set xs \<Longrightarrow> runs P (f x) (Q x)) \<Longrightarrow> runs P (smap f xs) (list_all2 Q xs)"
proof (induction xs)
  case (Cons x xs)
  then have "runs P (f x) (Q x)" "runs P (smap f xs) (list_all2 Q xs)" by simp_all
  then show ?case by (auto intro!: runs_sbind [where Q = "Q x"] runs_sbind [where Q = "list_all2 Q xs"] runs_sret)
qed (simp add: runs_sret)

lemma runs_mono: "runs P m Q \<Longrightarrow> (\<And>x. Q x \<Longrightarrow> R x) \<Longrightarrow> runs P m R"
  unfolding runs_def by blast

section \<open>A sample chain\<close>

text \<open>Two digests above the field prime, which no curve point encodes.\<close>

definition off_digest :: "byte \<Rightarrow> bytes" where
  "off_digest k = [k] @ replicate 30 255 @ [127]"

definition smp_sha :: "bytes \<Rightarrow> bytes" where
  "smp_sha pre = (if slice 64 96 pre = zeros 32 then off_digest 237 else off_digest 238)"

lemma le_nat_ff: "le_nat (replicate k 255) = 256 ^ k - 1"
proof (induction k)
  case (Suc k)
  have "(1 :: nat) \<le> 256 ^ k" by simp
  then show ?case using Suc by (simp add: diff_mult_distrib2)
qed simp

lemma off_digest_off: "\<not> rd_on_curve (off_digest 237)" "\<not> rd_on_curve (off_digest 238)"
  by (simp_all add: rd_on_curve_def off_digest_def le_nat_append le_nat_ff Let_def curve_P_def del: replicate.simps)

lemma smp_sha_off [simp]: "\<not> rd_on_curve (smp_sha x)" "length (smp_sha x) = 32"
  by (simp_all add: smp_sha_def off_digest_off) (simp_all add: off_digest_def)

lemma find_pda_off: "rd_find_pda smp_sha seeds prog = Inr (smp_sha (pda_preimage seeds prog 255))"
proof -
  have n: "(256 :: nat) = Suc 255" by simp
  show ?thesis unfolding rd_find_pda_def n by (simp only: rd_pda_loop.simps Let_def smp_sha_off not_False_eq_True if_True)
qed

text \<open>The bytes of a key whose base-58 text has a first digit other than 1.\<close>

definition num_key :: "nat \<Rightarrow> bytes" where
  "num_key n = rev (le_bytes 32 n)"

lemma num_key_pk:
  assumes "256 ^ 31 \<le> n" "n < 256 ^ 32"
  shows "record_pk (num_key n) = b58_loop n []"
proof -
  have be: "be_nat (num_key n) = n" using assms(2) by (simp add: num_key_def be_nat_def le_nat_le_bytes del: le_bytes.simps)
  have len: "length (num_key n) = 32" by (simp add: num_key_def del: le_bytes.simps)
  then obtain b bs where k: "num_key n = b # bs" by (cases "num_key n") auto
  have "b \<noteq> 0"
  proof
    assume "b = 0"
    then have "n = be_nat bs" using be_nat_zeros [of 1 bs] be k by (simp add: zeros_def)
    then show False using be_nat_upper [of bs] len k assms(1) by simp
  qed
  moreover have "n \<noteq> 0" using assms(1) by (metis not_one_le_zero one_le_power one_le_numeral le_trans)
  ultimately show ?thesis using b58_loop_hd [of n] be by (simp add: record_pk_def Let_def leading_def k)
qed

lemma index_of_nth_eq: "index_of c xs = Some i \<Longrightarrow> i < length xs \<and> xs ! i = c"
  by (induction xs arbitrary: i) (auto split: if_splits)

lemma b58_loop_value: "b58_value 0 s = Inr n \<Longrightarrow> s = [] \<or> hd s \<noteq> CHR ''1'' \<Longrightarrow> b58_loop n [] = s"
proof (induction s arbitrary: n rule: rev_induct)
  case Nil
  then show ?case by (simp add: b58_loop.simps)
next
  case (snoc c xs)
  then obtain m i where m: "b58_value 0 xs = Inr m" and i: "index_of c B58 = Some i" "n = m * 58 + i"
    by (auto simp: b58_value_append rbind_Inr_iff split: option.splits)
  have xs: "b58_loop m [] = xs" by (rule snoc.IH [OF m]) (use snoc.prems(2) in \<open>cases xs; auto\<close>)
  have c: "i < 58" "B58 ! i = c" using index_of_nth_eq [OF i(1)] by simp_all
  have "n \<noteq> 0"
  proof
    assume "n = 0"
    then have "xs = []" "i = 0" using xs i(2) by (simp_all add: b58_loop.simps)
    then show False using c snoc.prems(2) by (simp add: B58_def)
  qed
  then show ?case using b58_loop_step [of n] c i(2) xs by simp
qed

definition sol_raw :: bytes where
  "sol_raw = num_key 2988679396378646993494765771507681406623014513651778753134412041978399162369"

definition wallet_raw :: bytes where
  "wallet_raw = num_key 81716910894347223860321933028822081616150520278797168926373250977555302606523"

definition pool_raw :: bytes where
  "pool_raw = num_key 70070842137671614673553241805147298458237467045961791171902484603825311993268"

definition dlmm_raw :: bytes where
  "dlmm_raw = num_key 2222480940325335872388304432163824986101655287136298596997600281027040817340"

lemmas raw_defs = sol_raw_def wallet_raw_def pool_raw_def dlmm_raw_def

lemma raw_pk:
  "record_pk sol_raw = xl_SOL" "record_pk wallet_raw = PAIR_DLMM" "record_pk pool_raw = PAIR_PUMP" "record_pk dlmm_raw = xl_DLMM"
  unfolding raw_defs
  by (subst num_key_pk; simp add: b58_loop_value B58_def xl_SOL_def PAIR_DLMM_def PAIR_PUMP_def xl_DLMM_def)+

lemma raw_length [simp]: "length (num_key n) = 32" "length sol_raw = 32" "length wallet_raw = 32"
  by (simp_all add: raw_defs num_key_def del: le_bytes.simps)

lemma raw_decode: "b58decode xl_SOL = Inr sol_raw" "b58decode PAIR_DLMM = Inr wallet_raw" "b58decode PAIR_PUMP = Inr pool_raw"
  "b58decode xl_DLMM = Inr dlmm_raw"
  using b58decode_record_pk [of sol_raw] b58decode_record_pk [of wallet_raw] b58decode_record_pk [of pool_raw] b58decode_record_pk [of dlmm_raw]
  by (simp_all add: raw_pk) (simp_all add: raw_defs)

definition smp_mint :: string where "smp_mint = record_pk (zeros 32)"

definition smp_data :: bytes where
  "smp_data = zeros 75 @ sol_raw @ zeros 104"

definition smp_rpc :: rpc_call where
  "smp_rpc c m keys = Inr (7, map (\<lambda>k. Some \<lparr> rv_owner = TOKENKEG, rv_data = smp_data, rv_lamports = 1 \<rparr>) keys)"

definition smp_pools :: "hpool list" where
  "smp_pools = [\<lparr> hp_mx = Some smp_mint, hp_mint_x = None, hp_my = Some xl_SOL, hp_mint_y = None, hp_pubkey = Some PAIR_PUMP, hp_pk = None \<rparr>]"

definition smp_route :: hroute where
  "smp_route = \<lparr> hr_id = Some 5, hr_seq = ''pump-pump'', hr_n_hop = 2, hr_p0 = Some 0, hr_p1 = Some 0, hr_p2 = None, hr_exec = True \<rparr>"

lemma smp_sol: "b58decode xl_SOL \<noteq> Inr (zeros 32)"
proof
  assume "b58decode xl_SOL = Inr (zeros 32)"
  then have "sol_raw = zeros 32" by (simp add: raw_decode)
  then have "be_nat sol_raw = 0" using be_nat_zeros [of 32 "[]"] by (simp add: be_nat_def)
  then show False by (simp add: sol_raw_def num_key_def be_nat_def le_nat_le_bytes del: le_bytes.simps)
qed

lemma decodes:
  "\<exists>r. b58decode xl_SOL = Inr r" "\<exists>r. b58decode TOKENKEG = Inr r" "\<exists>r. b58decode ATA_PROG = Inr r"
  "\<exists>r. b58decode xl_PUMP = Inr r" "\<exists>r. b58decode xl_DLMM = Inr r" "\<exists>r. b58decode PAIR_DLMM = Inr r"
  using b58_consts by (auto simp: sample_static_def)

lemma proto_decodes: "\<exists>r. b58decode ''G5UZAVbAf46s7cKWoyKu8kYTip9DGTpbLZ2qa9Aq69dP'' = Inr r"
  by (rule b58decode_total) (auto simp: B58_def)

lemma recipients_decode: "rec \<in> set (FEE_RECIPIENT # FEE_RECIPIENTS) \<Longrightarrow> \<exists>r. b58decode rec = Inr r"
  by (rule b58decode_total) (auto simp: FEE_RECIPIENT_def FEE_RECIPIENTS_def B58_def)

lemma xl_pda_off: "b58decode prog = Inr p \<Longrightarrow> xl_pda smp_sha seeds prog = Inr (record_pk (smp_sha (pda_preimage seeds p 255)))"
  by (simp add: xl_pda_def find_pda_off)

lemma ata_off:
  assumes "b58decode w = Inr wr" "b58decode t = Inr tr" "b58decode m = Inr mr"
  shows "\<exists>pre. ata smp_sha w m t = Inr (record_pk (smp_sha pre)) \<and> slice 64 96 pre = mr"
proof -
  obtain p where p: "b58decode ATA_PROG = Inr p" using decodes by blast
  have "slice 64 96 ((wr @ tr) @ mr @ [255] @ p @ ascii ''ProgramDerivedAddress'') = mr"
    using b58decode_length [OF assms(1)] b58decode_length [OF assms(2)] b58decode_length [OF assms(3)] by (intro slice_middle) simp_all
  moreover have "ata smp_sha w m t = Inr (record_pk (smp_sha ((wr @ tr) @ mr @ [255] @ p @ ascii ''ProgramDerivedAddress'')))"
    using assms by (simp add: ata_def xl_pda_off [OF p] pda_preimage_def)
  ultimately show ?thesis by blast
qed

lemma pda_ex_off: "b58decode prog = Inr p \<Longrightarrow> \<exists>x b. pda_ex smp_sha seeds prog = Inr (record_pk (smp_sha x), b)"
  by (simp add: pda_ex_def find_pda_off) blast

lemma smp_mint_decode: "b58decode smp_mint = Inr (zeros 32)"
  using b58decode_record_pk [of "zeros 32"] by (simp add: smp_mint_def)

lemma smp_get_one: "get_one smp_rpc k = Inr (Some \<lparr> ra_slot = 7, ra_owner = TOKENKEG, ra_data = smp_data, ra_lamports = 1 \<rparr>)"
  by (simp add: get_one_def get_multiple_def get_chunk_def smp_rpc_def acc_of_value_def)

lemma smp_ata_inj:
  assumes "m \<in> {xl_SOL, smp_mint}" "m' \<in> {xl_SOL, smp_mint}"
    and "ata smp_sha PAIR_DLMM m t = Inr pk" "ata smp_sha PAIR_DLMM m' t' = Inr pk"
  shows "m = m'"
proof -
  have *: "b58decode (record_pk (smp_sha x)) = Inr (smp_sha x)" for x using b58decode_record_pk by simp
  have val: "b58decode pk = Inr (if m = smp_mint then off_digest 237 else off_digest 238)"
    if pr: "m \<in> {xl_SOL, smp_mint}" "ata smp_sha PAIR_DLMM m t = Inr pk" for m t
  proof -
    obtain tr where tr: "b58decode t = Inr tr" using pr(2) by (auto simp: ata_def rbind_Inr_iff)
    obtain wr mr where wr: "b58decode PAIR_DLMM = Inr wr" and mr: "b58decode m = Inr mr" using pr(1) decodes smp_mint_decode by fastforce
    obtain pre where "pk = record_pk (smp_sha pre)" "slice 64 96 pre = mr"
      using ata_off [OF wr tr mr] pr(2) by auto
    moreover have "mr = zeros 32 \<longleftrightarrow> m = smp_mint" using mr pr(1) smp_sol smp_mint_decode by auto
    moreover have "b58decode (record_pk (smp_sha pre)) = Inr (smp_sha pre)" by (rule *)
    ultimately show ?thesis by (simp add: smp_sha_def split: if_splits)
  qed
  have "xl_SOL \<noteq> smp_mint" using smp_sol smp_mint_decode by auto
  moreover have "off_digest 237 \<noteq> off_digest 238" by (simp add: off_digest_def)
  ultimately show ?thesis using val [OF assms(1,3)] val [OF assms(2,4)] assms(1,2) by (auto split: if_splits)
qed

definition smp_meta :: pump_fields where
  "smp_meta = \<lparr> pf_base = smp_mint, pf_quote = xl_SOL, pf_vault_base = smp_mint, pf_vault_quote = smp_mint,
     pf_coin_creator = smp_mint, pf_pool_creator = Some smp_mint, pf_coin_source = ''default'' \<rparr>"

definition smp_ok :: "hops_st \<Rightarrow> bool" where
  "smp_ok s \<longleftrightarrow> (\<forall>m t. dget (hs_hv_tok s) m = Some t \<or> dget (hs_hl_tok s) m = Some t \<longrightarrow> t = TOKENKEG)
     \<and> (\<forall>k m. dget (hs_pump_meta s) k = Some m \<longrightarrow> m = smp_meta)"

lemma smp_start: "smp_ok hops_start"
  by (auto simp: smp_ok_def hops_start_def)

lemma smp_fetch_owner: "fetch_owner smp_rpc m = Inr TOKENKEG"
  by (simp add: fetch_owner_def smp_get_one)

lemma runs_hv_tok: "runs smp_ok (hv_mint_tok smp_rpc m) (\<lambda>t. t = TOKENKEG)"
  by (auto simp: runs_def hv_mint_tok_def sbind_def smp_fetch_owner smp_ok_def update_conv' split: option.splits)

lemma runs_hl_tok: "runs smp_ok (hl_mint_tok smp_rpc m) (\<lambda>t. t = TOKENKEG)"
  by (auto simp: runs_def hl_mint_tok_def sbind_def smp_fetch_owner smp_ok_def update_conv' split: option.splits)

lemma smp_ata: "b58decode w = Inr wr \<Longrightarrow> b58decode m = Inr mr \<Longrightarrow> \<exists>x. ata smp_sha w m TOKENKEG = Inr (record_pk (smp_sha x))"
  using ata_off [of w wr TOKENKEG _ m mr] decodes(2) by blast

lemma smp_key: "b58decode (record_pk (smp_sha x)) = Inr (smp_sha x)"
  by (rule b58decode_record_pk) simp

definition smp_pk :: "string \<Rightarrow> string" where
  "smp_pk m = record_pk (off_digest (if m = smp_mint then 237 else 238))"

lemma smp_pk_ata: "m \<in> {xl_SOL, smp_mint} \<Longrightarrow> ata smp_sha PAIR_DLMM m TOKENKEG = Inr (smp_pk m)"
proof -
  assume m: "m \<in> {xl_SOL, smp_mint}"
  obtain tr where tr: "b58decode TOKENKEG = Inr tr" using decodes by blast
  obtain mr where mr: "b58decode m = Inr mr" "mr = zeros 32 \<longleftrightarrow> m = smp_mint" using m smp_sol smp_mint_decode raw_decode(1) by fastforce
  show ?thesis using ata_off [OF raw_decode(2) tr mr(1)] mr(2) by (auto simp: smp_pk_def smp_sha_def)
qed

lemma runs_ata_of: "m \<in> {xl_SOL, smp_mint} \<Longrightarrow> runs smp_ok (ata_of smp_sha smp_rpc PAIR_DLMM m) (\<lambda>k. k = smp_pk m)"
  using smp_pk_ata [of m] by (auto simp: ata_of_def intro!: runs_sbind [OF runs_hl_tok] runs_slift)

lemma smp_parse: "parse_pump_fields smp_data = Inr smp_meta"
proof -
  have pre: "slice a (a + 32) smp_data = zeros 32" if "a + 32 \<le> 75" for a
    using that by (simp add: slice_def zeros_def smp_data_def)
  have post: "slice a (a + 32) smp_data = zeros 32" if "107 \<le> a" "a + 32 \<le> 211" for a
    using that by (simp add: slice_def zeros_def smp_data_def)
  have mid: "slice 75 107 smp_data = sol_raw" by (simp add: slice_def smp_data_def)
  show ?thesis
    using pre [of 11] pre [of 43] post [of 139] post [of 171] mid
    by (simp add: parse_pump_fields_def parse_pump_pool_def smp_meta_def smp_mint_def Let_def raw_pk) (simp add: smp_data_def)
qed

lemma runs_pump_meta: "runs smp_ok (hl_pump_meta smp_rpc pair) (\<lambda>m. m = smp_meta)"
  by (auto simp: runs_def hl_pump_meta_def sbind_def fetch_pump_meta_def smp_get_one smp_parse smp_ok_def update_conv' split: option.splits)

lemma smp_fallback: "\<exists>fb. pump_fallback smp_sha = Inr fb \<and> pi_proto_fee fb = ''G5UZAVbAf46s7cKWoyKu8kYTip9DGTpbLZ2qa9Aq69dP''"
proof -
  let ?proto = "''G5UZAVbAf46s7cKWoyKu8kYTip9DGTpbLZ2qa9Aq69dP''"
  obtain pr sr pu where "b58decode ?proto = Inr pr" "b58decode xl_SOL = Inr sr" and pu: "b58decode xl_PUMP = Inr pu"
    using proto_decodes decodes by blast
  then obtain x where "ata smp_sha ?proto xl_SOL TOKENKEG = Inr (record_pk (smp_sha x))" using smp_ata by blast
  then show ?thesis by (simp add: pump_fallback_def xl_pda_off [OF pu])
qed

lemma smp_addrs: "\<exists>a. derive_pump_addrs smp_sha smp_meta PAIR_DLMM TOKENKEG = Inr a"
proof -
  obtain pu where pu: "b58decode xl_PUMP = Inr pu" using decodes by blast
  obtain wl where wl: "b58decode PAIR_DLMM = Inr wl" using decodes by blast
  obtain fb where fb: "pump_fallback smp_sha = Inr fb" "pi_proto_fee fb = ''G5UZAVbAf46s7cKWoyKu8kYTip9DGTpbLZ2qa9Aq69dP''"
    using smp_fallback by blast
  obtain x where x: "ata smp_sha (pi_proto_fee fb) xl_SOL TOKENKEG = Inr (record_pk (smp_sha x))"
    using smp_ata raw_decode(1) proto_decodes fb by metis
  obtain y b where cv: "pda_ex smp_sha [ascii ''creator_vault'', zeros 32] xl_PUMP = Inr (record_pk (smp_sha y), b)"
    using pda_ex_off [OF pu] by blast
  obtain z where ca: "ata smp_sha (record_pk (smp_sha y)) xl_SOL TOKENKEG = Inr (record_pk (smp_sha z))"
    using smp_ata [OF smp_key raw_decode(1)] by blast
  have ex: "\<exists>v. pda_ex smp_sha seeds xl_PUMP = Inr v" for seeds using pda_ex_off [OF pu, of seeds] by blast
  then obtain f where f: "\<And>seeds. pda_ex smp_sha seeds xl_PUMP = Inr (f seeds)" by metis
  have "f [ascii ''creator_vault'', zeros 32] = (record_pk (smp_sha y), b)" using cv f by simp
  then show ?thesis by (simp add: derive_pump_addrs_def smp_meta_def smp_mint_decode f ca wl fb(1) x)
qed

lemma first_live_head: "f r = Inr q \<Longrightarrow> ex q = Inr True \<Longrightarrow> first_live f ex (r # rs) = Inr (Some (r, q))"
  by simp

lemma runs_fee: "runs smp_ok (pick_fee_recipient smp_sha smp_rpc xl_SOL) (\<lambda>_. True)"
proof -
  let ?r = "hd FEE_RECIPIENTS"
  have "?r \<in> set (FEE_RECIPIENT # FEE_RECIPIENTS)" by (simp add: FEE_RECIPIENTS_def)
  then obtain rr where "b58decode ?r = Inr rr" using recipients_decode by blast
  then obtain x where x: "ata smp_sha ?r xl_SOL TOKENKEG = Inr (record_pk (smp_sha x))" using smp_ata raw_decode(1) by blast
  have "first_live (\<lambda>rec. ata smp_sha rec xl_SOL TOKENKEG) (exists_acc smp_rpc) (?r # tl FEE_RECIPIENTS) = Inr (Some (?r, record_pk (smp_sha x)))"
    by (rule first_live_head) (simp_all add: x exists_acc_def smp_get_one)
  then have fl: "first_live (\<lambda>rec. ata smp_sha rec xl_SOL TOKENKEG) (exists_acc smp_rpc) FEE_RECIPIENTS = Inr (Some (?r, record_pk (smp_sha x)))"
    by (simp add: FEE_RECIPIENTS_def)
  then show ?thesis by (auto simp: pick_fee_recipient_def intro!: runs_sbind [where Q = "\<lambda>t. t = TOKENKEG"] runs_sret runs_slift)
qed

definition smp_hop :: "string \<Rightarrow> bool \<Rightarrow> string \<Rightarrow> string \<Rightarrow> pump_hop \<Rightarrow> bool" where
  "smp_hop pair buy ub uq h \<longleftrightarrow> (\<exists>a fee. h = pump_hop_of pair buy PAIR_DLMM ub uq smp_meta TOKENKEG TOKENKEG a fee)"

lemma runs_derive:
  "runs smp_ok (derive_pump_hop smp_sha smp_rpc pair buy PAIR_DLMM ub uq (Some smp_meta)) (smp_hop pair buy ub uq)"
proof -
  obtain a where a: "derive_pump_addrs smp_sha smp_meta PAIR_DLMM TOKENKEG = Inr a" using smp_addrs by blast
  have f: "pf_coin_creator smp_meta \<noteq> []" "pf_quote smp_meta = xl_SOL"
    by (simp_all add: smp_meta_def smp_mint_def record_pk_def Let_def)
  have "runs smp_ok (sbind (pick_fee_recipient smp_sha smp_rpc xl_SOL) (\<lambda>fee. sret (pump_hop_of pair buy PAIR_DLMM ub uq smp_meta TOKENKEG TOKENKEG a fee)))
      (smp_hop pair buy ub uq)"
    by (intro runs_sbind [OF runs_fee] runs_sret) (auto simp: smp_hop_def)
  then show ?thesis
    unfolding derive_pump_hop_def option.case f
    by (intro runs_sbind [where Q = "\<lambda>m. m = smp_meta"] runs_sret refl)
      (use f a in \<open>auto intro!: runs_sbind [OF runs_hv_tok] runs_sbind [where Q = "\<lambda>x. x = a"] runs_slift\<close>)
qed

lemma smp_split: "split_dash (hr_seq smp_route) = [''pump'', ''pump'']"
  by (simp add: smp_route_def)

lemma smp_pool_at: "hi < 2 \<Longrightarrow> pool_at smp_pools smp_route hi = Inr (hd smp_pools)"
  by (auto simp: pool_at_def smp_pools_def smp_route_def route_idxs_def less_2_cases_iff)

lemma smp_mints: "route_mints smp_pools smp_route = Inr [xl_SOL, smp_mint, xl_SOL]"
proof -
  have "be_nat (zeros 32) = 0" using le_nat_zeros [of 32] by (simp add: be_nat_def zeros_def del: le_nat_zeros)
  moreover have "leading 0 (zeros 32) = 32" by (simp add: leading_def zeros_def takeWhile_replicate)
  ultimately have "length smp_mint = 33" by (simp add: smp_mint_def record_pk_def b58_loop.simps [of 0 "[]"])
  moreover have "length xl_SOL = 43" by (simp add: xl_SOL_def)
  ultimately have len: "\<not> length smp_mint < 32" "\<not> length xl_SOL < 32" "smp_mint \<noteq> []" "xl_SOL \<noteq> []" by auto
  have mx: "pool_mx (hd smp_pools) = smp_mint" "pool_my (hd smp_pools) = xl_SOL"
    using len(3,4) by (simp_all add: smp_pools_def pool_mx_def pool_my_def text_or_def or_text_def)
  have ne: "xl_SOL \<noteq> smp_mint" using smp_sol smp_mint_decode by auto
  show ?thesis
    unfolding route_mints_def smp_split by (simp add: smp_pool_at mx len ne)
qed

lemma runs_pump_sem:
  assumes "m \<in> {xl_SOL, smp_mint}"
  shows "runs smp_ok (sbind (ata_of smp_sha smp_rpc PAIR_DLMM m) (\<lambda>ub. sbind (hl_pump_meta smp_rpc pair) (\<lambda>mm.
      sbind (derive_pump_hop smp_sha smp_rpc pair buy PAIR_DLMM ub uq (Some mm)) (\<lambda>h. sret (PumpHop h)))))
    (\<lambda>x. \<exists>h. x = PumpHop h \<and> smp_hop pair buy (smp_pk m) uq h)"
  by (intro runs_sbind [OF runs_ata_of [OF assms]] runs_sbind [OF runs_pump_meta])
    (auto intro!: runs_sbind [OF runs_derive] runs_sret)

text \<open>The derived hops of the sample route, the first a buy and the second a sell.\<close>

definition smp_sem :: "nat \<times> string \<Rightarrow> hop \<Rightarrow> bool" where
  "smp_sem e x \<longleftrightarrow> (\<exists>h. x = PumpHop h \<and> smp_hop PAIR_PUMP (fst e = 0) (smp_pk smp_mint) (smp_pk xl_SOL) h)"

lemma smp_ne: "xl_SOL \<noteq> smp_mint"
  using smp_sol smp_mint_decode by auto

lemma runs_smp_hop:
  assumes "hi < 2" and users: "users ! 0 = smp_pk xl_SOL"
  shows "runs smp_ok (build_hop smp_sha smp_rpc fetch PAIR_DLMM smp_pools smp_route [xl_SOL, smp_mint, xl_SOL] users (hi, ''pump''))
    (\<lambda>x. smp_sem (hi, ''pump'') (fst x))"
proof -
  let ?ms = "[xl_SOL, smp_mint, xl_SOL]"
  have pair: "pool_pair (hd smp_pools) = Inr PAIR_PUMP"
    by (simp add: smp_pools_def pool_pair_def or_text_def PAIR_PUMP_def)
  have hi: "?ms ! hi = xl_SOL \<longleftrightarrow> hi = 0" and tok: "(if hi \<noteq> 0 then ?ms ! hi else ?ms ! (hi + 1)) = smp_mint"
    using assms(1) smp_ne by (auto simp: less_2_cases_iff)
  have buy: "(''pump'' = ''pump'' \<and> c) = c" "(''pump'' = ''dlmm'') = False" for c by simp_all
  have mem: "smp_mint \<in> {xl_SOL, smp_mint}" by simp
  show ?thesis
    unfolding build_hop_def Let_def fst_conv snd_conv smp_pool_at [OF assms(1)] pair buy if_False hi tok users
    by (rule runs_sbind [where Q = "\<lambda>x. x = hd smp_pools"], rule runs_slift, simp,
        rule runs_sbind [where Q = "\<lambda>x. x = PAIR_PUMP"], rule runs_slift, simp add: pair,
        rule runs_sbind [OF runs_pump_sem [OF mem]])
      (auto intro!: runs_sret simp: smp_sem_def smp_hop_def hop_keys_of_def flatten_pump_def pump_hop_of_def hop_nacc_def)
qed

lemma payload_total: "0 \<le> n \<Longrightarrow> n < 256 \<Longrightarrow> \<exists>data. hops_payload n hs = Inr data"
  by (simp add: hops_payload_def set_byte_def set_range_def pack_u_def HOPS_TINY_IN_def MIN_PROFIT_def)

lemma smp_pk_ne: "smp_pk smp_mint \<noteq> smp_pk xl_SOL"
proof
  assume "smp_pk smp_mint = smp_pk xl_SOL"
  then have "b58decode (smp_pk smp_mint) = b58decode (smp_pk xl_SOL)" by simp
  then show False using smp_ne by (simp add: smp_pk_def b58decode_record_pk off_digest_def)
qed

definition smp_users :: "string list" where
  "smp_users = [smp_pk xl_SOL, smp_pk smp_mint, smp_pk xl_SOL]"

lemma runs_smp_users: "runs smp_ok (route_users smp_sha smp_rpc PAIR_DLMM [xl_SOL, smp_mint, xl_SOL]) (\<lambda>us. us = smp_users)"
  unfolding route_users_def
  by (rule runs_sbind [OF runs_smap [where Q = "\<lambda>m k. k = smp_pk m"]], rule runs_ata_of)
    (use smp_pk_ne in \<open>auto intro!: runs_sret simp: pad_users_def smp_users_def list_all2_Cons1\<close>)

definition smp_built :: "string list \<times> bytes \<times> hop list \<Rightarrow> bool" where
  "smp_built b \<longleftrightarrow> (case b of (keys, data, sems) \<Rightarrow>
    (\<exists>ev. keys = shared_keys PAIR_DLMM smp_users ev @ concat (map (hop_keys_of PAIR_DLMM) sems))
    \<and> list_all2 smp_sem [(0, ''pump''), (1, ''pump'')] sems)"

lemma runs_smp_build:
  "runs smp_ok (build_route_accounts smp_sha smp_rpc fetch PAIR_DLMM smp_pools smp_route) smp_built"
proof -
  have n: "hr_n_hop smp_route = 2" by (simp add: smp_route_def)
  have hops: "runs smp_ok (smap (build_hop smp_sha smp_rpc fetch PAIR_DLMM smp_pools smp_route [xl_SOL, smp_mint, xl_SOL] smp_users)
      (zip [0..<length [''pump'', ''pump'']] [''pump'', ''pump''])) (list_all2 (\<lambda>e x. smp_sem e (fst x)) [(0, ''pump''), (1, ''pump'')])"
    using runs_smap [of "[(0, ''pump''), (1, ''pump'')]" smp_ok
        "build_hop smp_sha smp_rpc fetch PAIR_DLMM smp_pools smp_route [xl_SOL, smp_mint, xl_SOL] smp_users" "\<lambda>e x. smp_sem e (fst x)"]
      runs_smp_hop [of 0 smp_users] runs_smp_hop [of 1 smp_users] by (auto simp: smp_users_def upt_rec)
  show ?thesis
    unfolding build_route_accounts_def Let_def smp_split smp_mints n
    by (rule runs_sbind [where Q = "\<lambda>x. x = [xl_SOL, smp_mint, xl_SOL]"], rule runs_slift, simp, simp only:,
        rule runs_sbind [OF runs_smp_users], rule runs_sbind [where Q = "\<lambda>_. True"], rule runs_slift, simp add: xl_pda_off [OF raw_decode(4)],
        simp only:, rule runs_sbind [OF hops], rule runs_sbind [where Q = "\<lambda>_. True"], rule runs_slift)
      (auto intro!: runs_sret payload_total simp: smp_built_def list_all2_Cons1)
qed

section \<open>Fetching from a ledger\<close>

lemma dget_foldl_dput: "dget (foldl (\<lambda>m (k, v). dput k v m) d (map (\<lambda>k. (k, f k)) ks)) x = (if x \<in> set ks then Some (f x) else dget d x)"
  by (induction ks arbitrary: d) auto

text \<open>Where every request is answered from one ledger, the chunked fetch is a lookup in it.\<close>

lemma chunked_get:
  assumes "answers rpc None None slot led"
  shows "\<exists>accs. rbind (rmap (\<lambda>c. rbind (get_multiple rpc None None c) (\<lambda>rows. Inr (zip c rows))) (chunks n (filter (\<lambda>p. p \<noteq> []) (uniq ks))))
      (\<lambda>parts. Inr (dupdate [] (concat parts))) = Inr accs
    \<and> (\<forall>k\<in>set ks. k \<noteq> [] \<longrightarrow> dget accs k = Some (map_option (acc_of_value slot) (led k)))"
proof -
  let ?f = "\<lambda>k. map_option (acc_of_value slot) (led k)" and ?ks = "filter (\<lambda>p. p \<noteq> []) (uniq ks)"
  have "rmap (\<lambda>c. rbind (get_multiple rpc None None c) (\<lambda>rows. Inr (zip c rows))) (chunks n ?ks)
      = Inr (map (map (\<lambda>k. (k, ?f k))) (chunks n ?ks))"
    by (rule rmap_Inr_all) (simp add: get_multiple_answers [OF assms] zip_map2 zip_same_conv_map)
  then have "rbind (rmap (\<lambda>c. rbind (get_multiple rpc None None c) (\<lambda>rows. Inr (zip c rows))) (chunks n ?ks))
      (\<lambda>parts. Inr (dupdate [] (concat parts))) = Inr (foldl (\<lambda>m (k, v). dput k v m) [] (map (\<lambda>k. (k, ?f k)) ?ks))"
    by (simp add: dupdate_def concat_chunks flip: map_concat)
  then show ?thesis by (simp add: dget_foldl_dput)
qed

end
