(* ===== verification/Hops_Props.thy ===== *)
theory Hops_Props
  imports Hops_Accounts Hops_Sample
begin

text \<open>
  Theorems over the whole execution path of \<^verbatim>\<open>exec_live002b.py\<close>, \<^verbatim>\<open>hops_vector.py\<close> and
  \<^verbatim>\<open>hops_live.py\<close>: a sample run of the route builder, the accounts the executor instruction of the
  two-venue template resolves to, and the golden fixtures of built routes.
\<close>

section \<open>The vector and the payload of a route\<close>



section \<open>Golden fixtures of built routes\<close>

lemma enum_roles_keys: "length roles = length keys \<Longrightarrow> map (\<lambda>e. snd (snd e)) (enum_roles roles keys) = keys"
  by (rule nth_equalityI) (simp_all add: enum_roles_def)

lemma pump_doc_keys: "map gr_pubkey (gh_accounts (pump_doc wallet statics h)) = flatten_pump h wallet"
proof -
  have "gr_pubkey (golden_pump_row h wallet statics e) = snd (snd e)" for e
    by (cases e) (simp add: golden_pump_row_def account_row_def Let_def)
  then have "map gr_pubkey (gh_accounts (pump_doc wallet statics h)) = map (\<lambda>e. snd (snd e)) (enum_roles (pump_roles (ph_buy h)) (flatten_pump h wallet))"
    by (simp add: pump_doc_def)
  then show ?thesis
    by (simp add: enum_roles_keys pump_roles_def flatten_pump_def PUMP_HEAD_ROLES_def PUMP_BUY_TAIL_def PUMP_SELL_TAIL_def)
qed

lemma dlmm_row_key: "dlmm_row rpc h statics e s = (Inr row, s') \<Longrightarrow> gr_pubkey row = snd (snd e)"
  by (cases e) (auto simp: dlmm_row_def sbind_Inr account_row_def)

lemma smap_map:
  assumes "smap f xs s = (Inr ys, s')" and "\<And>x y t t'. f x t = (Inr y, t') \<Longrightarrow> g y = h x"
  shows "map g ys = map h xs"
  using assms(1)
proof (induction xs arbitrary: s ys)
  case (Cons x xs)
  then show ?case using assms(2) by (fastforce simp: sbind_Inr)
qed simp

lemma hop_doc_keys:
  assumes "hop_doc rpc wallet statics h s = (Inr d, s')"
  shows "map gr_pubkey (gh_accounts d) = hop_keys_of wallet h"
proof (cases h)
  case (PumpHop q)
  then show ?thesis using assms by (auto simp: hop_doc_def hop_keys_of_def pump_doc_keys)
next
  case (DlmmHop q)
  then obtain rows where rows: "smap (dlmm_row rpc q statics) (enum_roles DLMM_ROLES (flatten_dlmm q)) s = (Inr rows, s')" "gh_accounts d = rows"
    using assms by (auto simp: hop_doc_def dlmm_doc_def sbind_Inr)
  have "map gr_pubkey (gh_accounts d) = map (\<lambda>e. snd (snd e)) (enum_roles DLMM_ROLES (flatten_dlmm q))"
    unfolding rows(2) by (rule smap_map [OF rows(1)]) (rule dlmm_row_key)
  then show ?thesis using DlmmHop by (simp add: enum_roles_keys hop_keys_of_def DLMM_ROLES_def flatten_dlmm_def)
qed

lemma shared_rows_keys:
  assumes "rmap (shared_row statics keys) (zip [0..<length shared_roles] shared_roles) = Inr rows"
  shows "map gr_pubkey rows = take 9 keys"
proof -
  have *: "rmap (shared_row statics keys) (zip [a..<a + length rs] rs) = Inr rows \<Longrightarrow> map gr_pubkey rows = take (length rs) (drop a keys)
      \<and> (rs \<noteq> [] \<longrightarrow> a + length rs \<le> length keys)" for a rs rows
  proof (induction rs arbitrary: a rows)
    case (Cons x rs)
    have "zip [a..<a + length (x # rs)] (x # rs) = (a, x) # zip [Suc a..<Suc a + length rs] rs"
      by (subst upt_conv_Cons) (simp_all del: upt_Suc)
    with Cons.prems obtain row rows' where r: "shared_row statics keys (a, x) = Inr row" "rows = row # rows'"
      "rmap (shared_row statics keys) (zip [Suc a..<Suc a + length rs] rs) = Inr rows'"
      by (auto simp: rbind_Inr_iff)
    have "a < length keys" "gr_pubkey row = keys ! a" using r(1) by (auto simp: shared_row_def key_at_def account_row_def split: if_splits)
    then show ?case using Cons.IH [OF r(3)] r(2) by (auto simp: Cons_nth_drop_Suc [symmetric])
  qed simp
  have n: "length shared_roles = 9" by (simp add: shared_roles_def)
  show ?thesis using * [of 0 shared_roles rows] assms unfolding n by simp
qed

lemma golden_keys:
  assumes "build_golden_doc rpc seqn rid wallet keys sems cul used pid s = (Inr doc, s')"
  shows "flatten_fixture doc = take 9 keys @ concat (map (hop_keys_of wallet) sems)" "go_keys doc = keys" "go_id doc = rid"
    "go_custom6 doc" "go_semantic_match doc \<longleftrightarrow> flatten_fixture doc = keys"
proof -
  obtain shared docs where sh: "rmap (shared_row (static_set wallet pid) keys) (zip [0..<length shared_roles] shared_roles) = Inr shared"
    and docs: "smap (hop_doc rpc wallet (static_set wallet pid)) sems s = (Inr docs, s')"
    and doc: "doc = \<lparr> go_seq = seqn, go_id = rid, go_custom6 = True, go_cu = cul, go_alt = used, go_n_acc = length keys,
              go_keys = keys, go_shared = shared, go_hops = docs, go_semantic_match = (doc_keys shared docs = keys) \<rparr>"
    using assms by (auto simp: build_golden_doc_def Let_def sbind_Inr)
  have "map (\<lambda>d. map gr_pubkey (gh_accounts d)) docs = map (hop_keys_of wallet) sems"
    by (rule smap_map [OF docs]) (rule hop_doc_keys)
  then show "flatten_fixture doc = take 9 keys @ concat (map (hop_keys_of wallet) sems)"
    using shared_rows_keys [OF sh] by (simp add: doc flatten_fixture_def)
  show "go_keys doc = keys" "go_id doc = rid" "go_custom6 doc" "go_semantic_match doc \<longleftrightarrow> flatten_fixture doc = keys"
    by (simp_all add: doc doc_keys_def flatten_fixture_def)
qed

lemma persist_keeps:
  assumes "persist_golden rpc seqn rid wallet keys sems cul used pid (Some g # files) u = (Inr files', u')" "go_custom6 g"
  shows "hd files' = Some g"
proof (cases "dget SEQ_SHORT seqn")
  case None
  then show ?thesis using assms(1) by (auto simp: persist_golden_def)
next
  case (Some sh)
  then obtain doc where "files' = map (\<lambda>f. Some (persist_root doc f)) (Some g # files)"
    using assms(1) by (auto simp only: persist_golden_def option.case sbind_Inr sx_simps prod.inject sum.inject)
  then show ?thesis using assms(2) by (simp add: persist_root_def)
qed


lemma runs_hop_doc: "runs smp_ok (hop_doc smp_rpc wallet statics h) (\<lambda>_. True)"
proof -
  have row: "runs smp_ok (dlmm_row smp_rpc q statics e) (\<lambda>_. True)" for q e
    by (cases e) (auto simp: dlmm_row_def intro!: runs_sbind [where Q = "\<lambda>_. True"] runs_sbind [OF runs_hv_tok] runs_sret)
  have "runs smp_ok (dlmm_doc smp_rpc statics q) (\<lambda>_. True)" for q
    unfolding dlmm_doc_def by (rule runs_sbind [OF runs_smap]) (auto intro: row runs_sret)
  then show ?thesis by (cases h) (auto simp: hop_doc_def intro: runs_sret)
qed

lemma runs_golden:
  assumes "9 \<le> length keys"
  shows "runs smp_ok (build_golden_doc smp_rpc seqn rid wallet keys sems cul used pid) (\<lambda>_. True)"
proof -
  have "\<exists>row. shared_row statics keys e = Inr row" if "e \<in> set (zip [0..<length shared_roles] shared_roles)" for e statics
  proof -
    have "fst e < 9" using that by (auto simp: in_set_zip shared_roles_def)
    then show ?thesis using assms by (simp add: shared_row_def key_at_def)
  qed
  then have "\<exists>rows. rmap (shared_row statics keys) (zip [0..<length shared_roles] shared_roles) = Inr rows" for statics
    by (rule rmap_decodes)
  then show ?thesis
    unfolding build_golden_doc_def Let_def
    by (intro runs_sbind [OF runs_slift [where Q = "\<lambda>_. True"]] runs_sbind [OF runs_smap [OF runs_hop_doc]] runs_sret) auto
qed

lemma build_keys_len:
  assumes "build_route_accounts sha rpc fetch wallet pools r s = (Inr (keys, data, sems), s1)"
  shows "9 \<le> length keys"
proof -
  obtain mints where "route_mints pools r = Inr mints"
    using assms by (auto simp: build_route_accounts_def Let_def sbind_Inr)
  then show ?thesis by (rule build_route_Inr [OF assms]) (simp add: shared_keys_def)
qed


end
