(* ===== verification/Hops_Validate.thy ===== *)
theory Hops_Validate
  imports Hops_Sample
begin

text \<open>
  \<^verbatim>\<open>arb-exec/scripts/hops_live.py\<close>: checking an account vector against the chain before it is
  simulated. A vector with no failure row has the wallet first, token accounts of the right mint, owner
  and token program in the user slots, and for every hop exactly the derived accounts.
\<close>

section \<open>Fetching\<close>

type_synonym infos = "(string, rpc_acc option) dict"

definition fetch_accs :: "rpc_call \<Rightarrow> string list \<Rightarrow> infos res" where
  "fetch_accs rpc pks =
    rbind (rmap (\<lambda>c. rbind (get_multiple rpc None None c) (\<lambda>rows. Inr (zip c rows))) (chunks 79 (filter (\<lambda>p. p \<noteq> []) (uniq pks)))) (\<lambda>parts.
      Inr (dupdate [] (concat parts)))"

definition info_of :: "infos \<Rightarrow> string \<Rightarrow> rpc_acc option" where
  "info_of infos k = (case dget infos k of Some a \<Rightarrow> a | None \<Rightarrow> None)"

definition owner_of :: "infos \<Rightarrow> string \<Rightarrow> string option" where
  "owner_of infos k = map_option ra_owner (info_of infos k)"

definition tok_mint_owner :: "rpc_acc option \<Rightarrow> string option \<times> string option" where
  "tok_mint_owner info =
    (case info of None \<Rightarrow> (None, None)
     | Some a \<Rightarrow> if length (ra_data a) < 64 then (None, None)
         else (Some (record_pk (slice 0 32 (ra_data a))), Some (record_pk (slice 32 64 (ra_data a)))))"

definition BPF_LOADERS :: "string list" where
  "BPF_LOADERS = [''BPFLoaderUpgradeab1e11111111111111111111111'', ''BPFLoader21111111111111111111111111111111111'']"

definition SHARED_ROLES :: "string list" where
  "SHARED_ROLES = [''authority'', ''user0'', ''user1'', ''user2'', ''tokenkeg'', ''token2022'', ''memo'', ''dlmm_prog'', ''dlmm_event'']"

section \<open>Rows\<close>

definition fstr :: "string option \<Rightarrow> fval" where
  "fstr v = opt_fval FStr v"

text \<open>\<^verbatim>\<open>if bad: fails.append(row)\<close>\<close>

definition fail_if :: "bool \<Rightarrow> fail \<Rightarrow> fail list" where
  "fail_if bad row = (if bad then [row] else [])"

definition shared_checks :: "fval \<Rightarrow> string \<Rightarrow> string list \<Rightarrow> infos \<Rightarrow> fail list" where
  "shared_checks rid wallet keys infos =
    fail_if (keys ! 0 \<noteq> wallet) (vector_fail rid (FInt 0) (FStr ''authority'') [(''expected'', FStr wallet), (''got'', FStr (keys ! 0))])
    @ fail_if (keys ! 4 \<noteq> TOKENKEG) (vector_fail rid (FInt 0) (FStr ''tokenkeg'') [(''expected'', FStr TOKENKEG), (''got'', FStr (keys ! 4))])
    @ fail_if (keys ! 5 \<noteq> TOKEN2022) (vector_fail rid (FInt 0) (FStr ''token2022'') [(''expected'', FStr TOKEN2022), (''got'', FStr (keys ! 5))])
    @ fail_if (keys ! 7 \<noteq> xl_DLMM) (vector_fail rid (FInt 0) (FStr ''dlmm_prog'') [(''expected'', FStr xl_DLMM), (''got'', FStr (keys ! 7))])
    @ fail_if (owner_of infos (keys ! 7) \<notin> Some ` set BPF_LOADERS)
        (vector_fail rid (FInt 0) (FStr ''dlmm_prog'')
          [(''expected_program'', FStr ''BPFLoader''), (''got_program'', fstr (owner_of infos (keys ! 7))), (''got'', FStr (keys ! 7))])"

definition user_role :: "nat \<Rightarrow> string" where
  "user_role ui = ''user'' @ [char_of (48 + ui)]"

definition user_checks :: "fval \<Rightarrow> string \<Rightarrow> infos \<Rightarrow> nat \<Rightarrow> string \<Rightarrow> string \<Rightarrow> string \<Rightarrow> fail list" where
  "user_checks rid wallet infos ui mint pk want_tok =
    (let got = tok_mint_owner (info_of infos pk); role = FStr (user_role ui) in
     fail_if (owner_of infos pk \<noteq> Some want_tok)
       (vector_fail rid (FInt 0) role [(''expected_program'', FStr want_tok), (''got_program'', fstr (owner_of infos pk)),
          (''expected_mint'', FStr mint), (''got'', FStr pk)])
     @ fail_if (fst got \<noteq> Some mint)
       (vector_fail rid (FInt 0) role [(''expected_mint'', FStr mint), (''got_mint'', fstr (fst got)), (''got'', FStr pk)])
     @ fail_if (snd got \<noteq> Some wallet)
       (vector_fail rid (FInt 0) role [(''expected_owner'', FStr wallet), (''got_owner'', fstr (snd got)), (''got'', FStr pk)]))"

definition check_user :: "rpc_call \<Rightarrow> fval \<Rightarrow> string \<Rightarrow> string list \<Rightarrow> infos \<Rightarrow> nat \<times> string \<Rightarrow> (hops_st, fail list) sx" where
  "check_user rpc rid wallet keys infos e =
    (let mint = snd e; pk = keys ! (1 + fst e) in
     if mint = [] \<or> pk = [] then sret []
     else sbind (hl_mint_tok rpc mint) (\<lambda>tok. sret (user_checks rid wallet infos (fst e) mint pk tok)))"

definition slash :: "string \<Rightarrow> string \<Rightarrow> fval" where
  "slash a b = FStr (a @ ''/'' @ b)"

definition check_vault :: "rpc_call \<Rightarrow> fval \<Rightarrow> nat \<Rightarrow> infos \<Rightarrow> string list \<Rightarrow> string \<times> nat \<times> string \<Rightarrow> (hops_st, fail list) sx" where
  "check_vault rpc rid hi infos hk e =
    (case e of (role, idx, mint) \<Rightarrow>
      let gm = fst (tok_mint_owner (info_of infos (hk ! idx))) in
      sbind (hl_mint_tok rpc mint) (\<lambda>tok.
        sret (fail_if (owner_of infos (hk ! idx) \<noteq> Some tok \<or> gm \<noteq> Some mint)
          (vector_fail rid (FInt (int hi)) (FStr role) [(''expected_mint'', FStr mint), (''got_mint'', fstr gm),
             (''expected_program'', FStr tok), (''got_program'', fstr (owner_of infos (hk ! idx)))]))))"

definition check_dlmm :: "rpc_call \<Rightarrow> fval \<Rightarrow> nat \<Rightarrow> infos \<Rightarrow> string list \<Rightarrow> string \<Rightarrow> string \<Rightarrow> string \<Rightarrow> (hops_st, fail list) sx" where
  "check_dlmm rpc rid hi infos hk pair mx my =
    (let own = owner_of infos (hk ! 0) in
     sbind (smap (check_vault rpc rid hi infos hk) [(''vault_x'', 2, mx), (''vault_y'', 3, my)]) (\<lambda>vs.
       sret (fail_if (hk ! 0 \<noteq> pair \<or> own \<noteq> Some xl_DLMM)
              (vector_fail rid (FInt (int hi)) (FStr ''lb_pair'') [(''expected'', FStr pair), (''got'', FStr (hk ! 0)),
                 (''expected_program'', FStr xl_DLMM), (''got_program'', fstr own)])
            @ fail_if (hk ! 6 \<noteq> mx \<or> hk ! 7 \<noteq> my)
              (vector_fail rid (FInt (int hi)) (FStr ''dlmm_mints'') [(''expected_mint'', slash mx my), (''got_mint'', slash (hk ! 6) (hk ! 7))])
            @ concat vs)))"

definition check_pump_user ::
  "rpc_call \<Rightarrow> fval \<Rightarrow> nat \<Rightarrow> string \<Rightarrow> infos \<Rightarrow> string list \<Rightarrow> string \<times> nat \<times> string \<Rightarrow> (hops_st, fail list) sx" where
  "check_pump_user rpc rid hi wallet infos hk e =
    (case e of (role, idx, mint) \<Rightarrow>
      let got = tok_mint_owner (info_of infos (hk ! idx)) in
      sbind (hl_mint_tok rpc mint) (\<lambda>tok.
        sret (fail_if (owner_of infos (hk ! idx) \<noteq> Some tok \<or> fst got \<noteq> Some mint \<or> snd got \<noteq> Some wallet)
          (vector_fail rid (FInt (int hi)) (FStr role) [(''expected_mint'', FStr mint), (''got_mint'', fstr (fst got)),
             (''expected_program'', FStr tok), (''got_program'', fstr (owner_of infos (hk ! idx))),
             (''expected_owner'', FStr wallet), (''got_owner'', fstr (snd got))]))))"

definition check_pump ::
  "rpc_call \<Rightarrow> fval \<Rightarrow> nat \<Rightarrow> string \<Rightarrow> infos \<Rightarrow> string list \<Rightarrow> string \<Rightarrow> string \<Rightarrow> string \<Rightarrow> string \<Rightarrow> (hops_st, fail list) sx" where
  "check_pump rpc rid hi wallet infos hk pair mx my token =
    (let own = owner_of infos (hk ! 0) in
     sbind (smap (check_pump_user rpc rid hi wallet infos hk) [(''user_base'', 5, token), (''user_quote'', 6, xl_SOL)]) (\<lambda>us.
     sbind (hl_mint_tok rpc mx) (\<lambda>tx. sbind (hl_mint_tok rpc my) (\<lambda>ty.
       sret (fail_if (hk ! 0 \<noteq> pair \<or> own \<noteq> Some xl_PUMP)
              (vector_fail rid (FInt (int hi)) (FStr ''pool'') [(''expected'', FStr pair), (''got'', FStr (hk ! 0)),
                 (''expected_program'', FStr xl_PUMP), (''got_program'', fstr own)])
            @ fail_if (hk ! 16 \<noteq> xl_PUMP)
              (vector_fail rid (FInt (int hi)) (FStr ''pump_prog'') [(''expected_program'', FStr xl_PUMP), (''got_program'', FStr (hk ! 16))])
            @ fail_if (hk ! 3 \<noteq> mx \<or> hk ! 4 \<noteq> my)
              (vector_fail rid (FInt (int hi)) (FStr ''pump_mints'') [(''expected_mint'', slash mx my), (''got_mint'', slash (hk ! 3) (hk ! 4))])
            @ concat us
            @ fail_if (hk ! 11 \<noteq> tx \<or> hk ! 12 \<noteq> ty)
              (vector_fail rid (FInt (int hi)) (FStr ''pump_token_program'') [(''expected_program'', slash tx ty), (''got_program'', slash (hk ! 11) (hk ! 12))]))))))"

text \<open>The derived hop to compare with: the given one, or a fresh derivation.\<close>

definition expected_hop ::
  "(bytes \<Rightarrow> bytes) \<Rightarrow> rpc_call \<Rightarrow> (nat \<Rightarrow> string list \<Rightarrow> account option list) \<Rightarrow> string \<Rightarrow> hop list \<Rightarrow> nat
    \<Rightarrow> string \<Rightarrow> string \<Rightarrow> bool \<Rightarrow> string \<Rightarrow> (hops_st, hop) sx" where
  "expected_hop sha rpc fetch wallet sems hi proto pair buy token =
    (if sems \<noteq> [] \<and> hi < length sems then sret (sems ! hi)
     else if proto = ''dlmm''
     then slift (rbind (dlmm_meta_of sha fetch pair) (\<lambda>m. rbind (derive_dlmm_hop sha rpc fetch pair (Some m)) (\<lambda>h. Inr (DlmmHop h))))
     else sbind (ata_of sha rpc wallet token) (\<lambda>ub. sbind (ata_of sha rpc wallet xl_SOL) (\<lambda>uq. sbind (hl_pump_meta rpc pair) (\<lambda>m.
          sbind (derive_pump_hop sha rpc pair buy wallet ub uq (Some m)) (\<lambda>h. sret (PumpHop h))))))"

text \<open>A hop of the other kind has no such fields: AttributeError, as a TypeError here.\<close>

definition compare_hop :: "fval \<Rightarrow> string \<Rightarrow> string \<Rightarrow> nat \<Rightarrow> string \<Rightarrow> string list \<Rightarrow> hop \<Rightarrow> fail list res" where
  "compare_hop rid seqn wallet hi proto hk sem =
    (case sem of
       PumpHop h \<Rightarrow> if proto = ''dlmm'' then Inl TypeError else Inr (validate_pump_keys hk h wallet rid (int hi) seqn)
     | DlmmHop h \<Rightarrow> if proto = ''dlmm'' then Inr (validate_dlmm_keys hk h rid (int hi) seqn) else Inl TypeError)"

text \<open>One hop: its rows and the offset of the next, or no offset where the loop breaks.\<close>

definition check_hop ::
  "(bytes \<Rightarrow> bytes) \<Rightarrow> rpc_call \<Rightarrow> (nat \<Rightarrow> string list \<Rightarrow> account option list) \<Rightarrow> string \<Rightarrow> hpool list \<Rightarrow> hroute \<Rightarrow> hop list
    \<Rightarrow> string list \<Rightarrow> string list \<Rightarrow> infos \<Rightarrow> nat \<Rightarrow> nat \<Rightarrow> string \<Rightarrow> (hops_st, fail list \<times> nat option) sx" where
  "check_hop sha rpc fetch wallet pools r sems mints keys infos off hi proto =
     (let rid = opt_fval FInt (hr_id r) in
      sbind (slift (pool_at pools r hi)) (\<lambda>p.
      sbind (slift (pool_pair p)) (\<lambda>pair.
      let mx = pool_mx p; my = pool_my p; incoming = mints ! hi; outgoing = mints ! (hi + 1);
          buy = (proto = ''pump'' \<and> incoming = xl_SOL); nacc = hop_nacc proto buy;
          hk = slice off (off + nacc) keys; token = (if incoming \<noteq> xl_SOL then incoming else outgoing)
      in if length hk \<noteq> nacc
         then sret ([vector_fail rid (FInt (int hi)) (FStr ''hop_len'') [(''expected'', FInt (int nacc)), (''got'', FInt (int (length hk)))]], None)
         else
         sbind (if proto = ''dlmm'' then check_dlmm rpc rid hi infos hk pair mx my
                else check_pump rpc rid hi wallet infos hk pair mx my token) (\<lambda>fs.
         sbind (expected_hop sha rpc fetch wallet sems hi proto pair buy token) (\<lambda>sem.
         sbind (slift (compare_hop rid (hr_seq r) wallet hi proto hk sem)) (\<lambda>cs.
           sret (fs @ cs, Some (off + nacc))))))))"

fun hop_loop :: "(nat \<Rightarrow> nat \<Rightarrow> string \<Rightarrow> (hops_st, fail list \<times> nat option) sx) \<Rightarrow> nat \<Rightarrow> nat \<Rightarrow> string list \<Rightarrow> (hops_st, fail list) sx" where
  "hop_loop f off hi [] = sret []"
| "hop_loop f off hi (proto # protos) =
     sbind (f off hi proto) (\<lambda>(fs, next). case next of
         None \<Rightarrow> sret fs
       | Some off' \<Rightarrow> sbind (hop_loop f off' (Suc hi) protos) (\<lambda>rest. sret (fs @ rest)))"

definition validate_vector ::
  "(bytes \<Rightarrow> bytes) \<Rightarrow> rpc_call \<Rightarrow> (nat \<Rightarrow> string list \<Rightarrow> account option list) \<Rightarrow> string \<Rightarrow> hpool list \<Rightarrow> hroute
    \<Rightarrow> string list \<Rightarrow> hop list \<Rightarrow> (hops_st, fail list) sx" where
  "validate_vector sha rpc fetch wallet pools r keys sems =
    (let rid = opt_fval FInt (hr_id r) in
     case route_mints pools r of
       Inl e \<Rightarrow> sret [vector_fail rid (FInt 0) (FStr ''mints'') [(''detail'', FErr e)]]
     | Inr mints \<Rightarrow>
       if length keys < 9 then sret [vector_fail rid (FInt 0) (FStr ''shared'') [(''detail'', FInt (int (length keys)))]]
       else sbind (slift (fetch_accs rpc (keys @ mints))) (\<lambda>infos.
            sbind (smap (check_user rpc rid wallet keys infos) (zip [0..<3] (take 3 mints))) (\<lambda>us.
            sbind (hop_loop (check_hop sha rpc fetch wallet pools r sems mints keys infos) 9 0 (split_dash (hr_seq r))) (\<lambda>hs.
              sret (shared_checks rid wallet keys infos @ concat us @ hs)))))"

definition dump_row :: "string \<Rightarrow> infos \<Rightarrow> nat \<times> string \<Rightarrow> fail" where
  "dump_row wallet infos e =
    (let i = fst e; pk = snd e; mo = tok_mint_owner (info_of infos pk); flag = (\<lambda>b. FInt (if b then 1 else 0)) in
     [(''index'', FInt (int i)), (''pubkey'', FStr pk), (''role'', FStr (if i < 9 then SHARED_ROLES ! i else ''hop'')),
      (''writable'', flag (i = 0 \<or> i \<in> set [1, 2, 3] \<or> i \<ge> 9)), (''signer'', flag (pk = wallet \<and> i = 0)),
      (''owner'', fstr (owner_of infos pk)), (''mint'', fstr (fst mo)), (''token_owner'', fstr (snd mo)), (''alt_or_static'', FStr ''static'')])"

definition dump_vector_table :: "rpc_call \<Rightarrow> string \<Rightarrow> string list \<Rightarrow> fail list res" where
  "dump_vector_table rpc wallet keys =
    rbind (fetch_accs rpc keys) (\<lambda>infos. Inr (map (dump_row wallet infos) (zip [0..<length keys] keys)))"

section \<open>No failure, no difference\<close>

lemma fail_if_nil [simp]: "fail_if bad row = [] \<longleftrightarrow> \<not> bad"
  by (simp add: fail_if_def)

lemma diff_rows_nil:
  assumes "length got = length want" "length want = length roles"
  shows "diff_rows roles got want = [] \<longleftrightarrow> got = want"
  using assms by (induction got want roles rule: list_induct3) (auto simp: diff_rows_def)

lemma validate_pump_nil:
  "length hk = length (flatten_pump h wallet) \<Longrightarrow> validate_pump_keys hk h wallet rid hi seqn = [] \<longleftrightarrow> hk = flatten_pump h wallet"
  unfolding validate_pump_keys_def map_is_Nil_conv
  by (rule diff_rows_nil) (simp_all add: pump_roles_def flatten_pump_def PUMP_HEAD_ROLES_def PUMP_BUY_TAIL_def PUMP_SELL_TAIL_def)

lemma validate_dlmm_nil:
  "length hk = length (flatten_dlmm h) \<Longrightarrow> validate_dlmm_keys hk h rid hi seqn = [] \<longleftrightarrow> hk = flatten_dlmm h"
  unfolding validate_dlmm_keys_def map_is_Nil_conv by (rule diff_rows_nil) (simp_all add: DLMM_ROLES_def flatten_dlmm_def)

text \<open>A hop without a row has the accounts of its derived hop.\<close>

lemma compare_hop_nil:
  assumes "compare_hop rid seqn wallet hi proto hk sem = Inr []" "length hk = length (hop_keys_of wallet sem)"
  shows "hk = hop_keys_of wallet sem"
  using assms by (cases sem) (auto simp: compare_hop_def hop_keys_of_def validate_pump_nil validate_dlmm_nil split: if_splits)

lemma check_hop_nil:
  assumes "check_hop sha rpc fetch wallet pools r sems mints keys infos off hi proto s = (Inr ([], next), s')"
    and n: "n = hop_nacc proto (proto = ''pump'' \<and> mints ! hi = xl_SOL)"
    and sem: "hi < length sems" "length (hop_keys_of wallet (sems ! hi)) = n"
  shows "next = Some (off + n) \<and> slice off (off + n) keys = hop_keys_of wallet (sems ! hi)"
proof -
  obtain cs where "next = Some (off + n)" "length (slice off (off + n) keys) = n"
    "compare_hop (opt_fval FInt (hr_id r)) (hr_seq r) wallet hi proto (slice off (off + n) keys) (sems ! hi) = Inr cs" "cs = []"
    using assms(1) sem(1) unfolding check_hop_def Let_def n [symmetric]
    by (auto simp: sbind_Inr expected_hop_def split: if_splits)
  then show ?thesis using compare_hop_nil sem(2) by simp
qed

lemma hop_loop_nil:
  assumes "hop_loop (check_hop sha rpc fetch wallet pools r sems mints keys infos) off hi ps s = (Inr [], s')"
    and "hi + length ps \<le> length sems"
    and "\<And>j. j < length ps \<Longrightarrow> length (hop_keys_of wallet (sems ! (hi + j))) = hop_nacc (ps ! j) (ps ! j = ''pump'' \<and> mints ! (hi + j) = xl_SOL)"
  shows "take (length (concat (map (hop_keys_of wallet) (take (length ps) (drop hi sems))))) (drop off keys)
    = concat (map (hop_keys_of wallet) (take (length ps) (drop hi sems)))"
  using assms
proof (induction ps arbitrary: off hi s)
  case (Cons p ps)
  let ?n = "hop_nacc p (p = ''pump'' \<and> mints ! hi = xl_SOL)" and ?k = "hop_keys_of wallet (sems ! hi)"
  obtain "next" s1 fs rest where st: "check_hop sha rpc fetch wallet pools r sems mints keys infos off hi p s = (Inr (fs, next), s1)"
    using Cons.prems(1) by (auto simp: sbind_Inr)
  then have fs: "fs = []" using Cons.prems(1) by (cases "next") (auto simp: sbind_def split: prod.splits sum.splits)
  have hi: "hi < length sems" "length ?k = ?n" using Cons.prems(2) Cons.prems(3) [of 0] by simp_all
  from check_hop_nil [OF st [unfolded fs] refl hi] have nx: "next = Some (off + ?n)" and seg: "slice off (off + ?n) keys = ?k" by simp_all
  then have "hop_loop (check_hop sha rpc fetch wallet pools r sems mints keys infos) (off + ?n) (Suc hi) ps s1 = (Inr [], s')"
    using Cons.prems(1) st fs by (auto simp: sbind_Inr)
  then have IH: "take (length (concat (map (hop_keys_of wallet) (take (length ps) (drop (Suc hi) sems))))) (drop (off + ?n) keys)
    = concat (map (hop_keys_of wallet) (take (length ps) (drop (Suc hi) sems)))"
    by (rule Cons.IH) (use Cons.prems(2) Cons.prems(3) [of "Suc _"] in auto)
  have split: "take (length (p # ps)) (drop hi sems) = sems ! hi # take (length ps) (drop (Suc hi) sems)"
    using hi by (simp add: Cons_nth_drop_Suc [symmetric])
  define rest where "rest = concat (map (hop_keys_of wallet) (take (length ps) (drop (Suc hi) sems)))"
  have "take (?n + length rest) (drop off keys) = take ?n (drop off keys) @ take (length rest) (drop ?n (drop off keys))" by (rule take_add)
  also have "\<dots> = ?k @ rest" using seg IH by (simp add: slice_def add.commute [of ?n] flip: rest_def)
  finally show ?case unfolding split using hi(2) by (simp flip: rest_def)
qed simp

lemma mints_loop_ne:
  "mints_loop pools r hi incoming ps = Inr ms \<Longrightarrow> m \<in> set ms \<Longrightarrow> m \<noteq> []"
  by (induction ps arbitrary: hi incoming ms) (fastforce simp: rbind_Inr_iff Let_def split: if_splits)+

lemma route_mints_ne: "route_mints pools r = Inr mints \<Longrightarrow> m \<in> set mints \<Longrightarrow> m \<noteq> []"
  by (auto simp: route_mints_def rbind_Inr_iff xl_SOL_def dest: mints_loop_ne)

lemma check_user_nil:
  assumes "check_user rpc rid wallet keys infos (ui, mint) s = (Inr [], s')" "mint \<noteq> []" "keys ! (1 + ui) \<noteq> []"
  shows "tok_mint_owner (info_of infos (keys ! (1 + ui))) = (Some mint, Some wallet)"
proof -
  have "fst (tok_mint_owner (info_of infos (keys ! (1 + ui)))) = Some mint" "snd (tok_mint_owner (info_of infos (keys ! (1 + ui)))) = Some wallet"
    using assms by (auto simp: check_user_def Let_def sbind_Inr user_checks_def)
  then show ?thesis by (simp add: prod_eq_iff)
qed

lemma smap_concat_nil:
  assumes "smap f xs s = (Inr ys, s')" "concat ys = []" "x \<in> set xs"
  shows "\<exists>t t'. f x t = (Inr [], t')"
  using assms
proof (induction xs arbitrary: s ys)
  case (Cons a xs)
  then show ?case by (fastforce simp: sbind_Inr)
qed simp

text \<open>The lengths of the derived hops of a built route.\<close>

lemma build_hop_lengths:
  assumes "build_route_accounts sha rpc fetch wallet pools r s = (Inr (keys, data, sems), s')" "route_mints pools r = Inr mints"
  shows "length sems = length (split_dash (hr_seq r))"
    and "j < length sems \<Longrightarrow> length (hop_keys_of wallet (sems ! j))
      = hop_nacc (split_dash (hr_seq r) ! j) (split_dash (hr_seq r) ! j = ''pump'' \<and> mints ! j = xl_SOL)"
proof -
  let ?ps = "split_dash (hr_seq r)"
  obtain pks hs s2 s3 where hs: "smap (build_hop sha rpc fetch wallet pools r mints (pad_users (uniq pks))) (zip [0..<length ?ps] ?ps) s2 = (Inr hs, s3)"
    and sems: "sems = map fst hs" by (rule build_route_Inr [OF assms])
  show len: "length sems = length ?ps" using smap_Inr(1) [OF hs] by (simp add: sems)
  assume j: "j < length sems"
  then obtain t t' where "build_hop sha rpc fetch wallet pools r mints (pad_users (uniq pks)) (j, ?ps ! j) t = (Inr (hs ! j), t')"
    using smap_Inr(2) [OF hs, of j] len by auto
  moreover obtain sem ix where h: "hs ! j = (sem, ix)" by (cases "hs ! j")
  ultimately have "length (hop_keys_of wallet sem) = hop_nacc (?ps ! j) (?ps ! j = ''pump'' \<and> mints ! j = xl_SOL)"
    by (auto simp: build_hop_def Let_def sbind_Inr split: if_splits)
  then show "length (hop_keys_of wallet (sems ! j)) = hop_nacc (?ps ! j) (?ps ! j = ''pump'' \<and> mints ! j = xl_SOL)"
    using j h by (simp add: sems)
qed


section \<open>A vector that passes\<close>

text \<open>
  The chain the sample route is validated on: the DLMM program, the pool, and the wallet's token accounts.
\<close>

definition smp_led :: "string \<Rightarrow> rpc_value option" where
  "smp_led k = Some
    (if k = xl_DLMM then \<lparr> rv_owner = ''BPFLoader21111111111111111111111111111111111'', rv_data = [], rv_lamports = 1 \<rparr>
     else if k = PAIR_PUMP then \<lparr> rv_owner = xl_PUMP, rv_data = [], rv_lamports = 1 \<rparr>
     else \<lparr> rv_owner = TOKENKEG, rv_data = (if k = smp_pk xl_SOL then sol_raw else zeros 32) @ wallet_raw, rv_lamports = 1 \<rparr>)"

definition smp_chain :: rpc_call where
  "smp_chain c m keys = Inr (7, map smp_led keys)"

lemma smp_chain_answers: "answers smp_chain None None 7 smp_led"
  by (simp add: answers_def smp_chain_def)

lemma smp_chain_get: "get_multiple smp_chain None None ks = Inr (map (\<lambda>k. map_option (acc_of_value 7) (smp_led k)) ks)"
  by (rule get_multiple_answers [OF smp_chain_answers]) simp_all

lemma smp_infos:
  "\<exists>infos. fetch_accs smp_chain ks = Inr infos
    \<and> (\<forall>k\<in>set ks. k \<noteq> [] \<longrightarrow> info_of infos k = map_option (acc_of_value 7) (smp_led k))"
  using chunked_get [OF smp_chain_answers, of 79 ks] by (auto simp: fetch_accs_def info_of_def)

lemma smp_pk_led:
  assumes "m \<in> {xl_SOL, smp_mint}"
  shows "smp_led (smp_pk m) = Some \<lparr> rv_owner = TOKENKEG, rv_data = (if m = xl_SOL then sol_raw else zeros 32) @ wallet_raw, rv_lamports = 1 \<rparr>"
proof -
  have last: "last (num_key n) = of_nat (n mod 256)" for n
    using le_bytes.simps(2) [of 31 n] by (simp add: num_key_def last_rev del: le_bytes.simps)
  have "b58decode (smp_pk m) = Inr (off_digest (if m = smp_mint then 237 else 238))"
    by (simp add: smp_pk_def b58decode_record_pk off_digest_def)
  moreover have "last (off_digest k) = 127" for k by (simp add: off_digest_def)
  moreover have "last dlmm_raw \<noteq> 127" "last pool_raw \<noteq> 127" by (simp_all add: raw_defs last)
  ultimately have "smp_pk m \<noteq> xl_DLMM" "smp_pk m \<noteq> PAIR_PUMP" using raw_decode(3,4) by (metis sum.inject(2))+
  then show ?thesis using assms smp_pk_ne smp_ne by (auto simp: smp_led_def)
qed

lemma smp_tok_owner: "m \<in> {xl_SOL, smp_mint} \<Longrightarrow> fetch_owner smp_chain m = Inr TOKENKEG"
proof -
  assume "m \<in> {xl_SOL, smp_mint}"
  moreover have "xl_SOL \<noteq> xl_DLMM" "xl_SOL \<noteq> PAIR_PUMP" by (simp_all add: xl_SOL_def xl_DLMM_def PAIR_PUMP_def)
  moreover have "be_nat (zeros 32) = 0" by (simp add: be_nat_def)
  moreover have "be_nat dlmm_raw \<noteq> 0" "be_nat pool_raw \<noteq> 0"
    by (simp_all add: raw_defs num_key_def be_nat_def le_nat_le_bytes del: le_bytes.simps)
  ultimately have "m \<noteq> xl_DLMM" "m \<noteq> PAIR_PUMP" using smp_mint_decode raw_decode(3,4) by fastforce+
  then show ?thesis by (simp add: fetch_owner_def get_one_def smp_chain_get smp_led_def acc_of_value_def)
qed

lemma runs_chain_tok: "m \<in> {xl_SOL, smp_mint} \<Longrightarrow> runs smp_ok (hl_mint_tok smp_chain m) (\<lambda>t. t = TOKENKEG)"
  by (auto simp: runs_def hl_mint_tok_def sbind_def smp_tok_owner smp_ok_def update_conv' split: option.splits)

definition smp_known :: "infos \<Rightarrow> bool" where
  "smp_known infos \<longleftrightarrow> (\<forall>k\<in>{xl_DLMM, PAIR_PUMP, smp_pk xl_SOL, smp_pk smp_mint}. info_of infos k = map_option (acc_of_value 7) (smp_led k))"

lemma known_user:
  assumes "smp_known infos" "m \<in> {xl_SOL, smp_mint}"
  shows "owner_of infos (smp_pk m) = Some TOKENKEG" "tok_mint_owner (info_of infos (smp_pk m)) = (Some m, Some PAIR_DLMM)"
proof -
  have i: "info_of infos (smp_pk m) = map_option (acc_of_value 7) (smp_led (smp_pk m))" using assms by (auto simp: smp_known_def)
  have "slice 0 32 (r @ wallet_raw) = r \<and> slice 32 64 (r @ wallet_raw) = wallet_raw" if "length r = 32" for r
    using that by (simp add: slice_def)
  then show "tok_mint_owner (info_of infos (smp_pk m)) = (Some m, Some PAIR_DLMM)"
    using assms(2) smp_ne by (auto simp: i smp_pk_led tok_mint_owner_def acc_of_value_def raw_pk smp_mint_def)
  show "owner_of infos (smp_pk m) = Some TOKENKEG" using assms(2) by (simp add: owner_of_def i smp_pk_led acc_of_value_def)
qed

lemma known_programs:
  assumes "smp_known infos"
  shows "owner_of infos xl_DLMM \<in> Some ` set BPF_LOADERS" "owner_of infos PAIR_PUMP = Some xl_PUMP"
proof -
  have "PAIR_PUMP \<noteq> xl_DLMM" by (simp add: PAIR_PUMP_def xl_DLMM_def)
  then show "owner_of infos xl_DLMM \<in> Some ` set BPF_LOADERS" "owner_of infos PAIR_PUMP = Some xl_PUMP"
    using assms by (simp_all add: smp_known_def owner_of_def smp_led_def acc_of_value_def BPF_LOADERS_def)
qed

lemma runs_check_user:
  assumes "smp_known infos" "m \<in> {xl_SOL, smp_mint}" "keys ! (1 + ui) = smp_pk m"
  shows "runs smp_ok (check_user smp_chain rid PAIR_DLMM keys infos (ui, m)) (\<lambda>f. f = [])"
  unfolding check_user_def Let_def fst_conv snd_conv assms(3)
  using known_user [OF assms(1,2)]
  by (auto intro!: runs_sret runs_sbind [OF runs_chain_tok [OF assms(2)]] simp: user_checks_def Let_def)

lemma runs_pump_user:
  assumes "smp_known infos" "m \<in> {xl_SOL, smp_mint}" "hk ! idx = smp_pk m"
  shows "runs smp_ok (check_pump_user smp_chain rid hi PAIR_DLMM infos hk (role, idx, m)) (\<lambda>f. f = [])"
  unfolding check_pump_user_def Let_def prod.case assms(3)
  using known_user [OF assms(1,2)] by (auto intro!: runs_sret runs_sbind [OF runs_chain_tok [OF assms(2)]])

lemma list_all2_nil: "list_all2 (\<lambda>_ f. f = []) xs ys \<Longrightarrow> concat ys = []"
  by (induction xs ys rule: list_all2_induct) auto

lemma runs_check_pump:
  assumes k: "smp_known infos" and h: "smp_hop PAIR_PUMP buy (smp_pk smp_mint) (smp_pk xl_SOL) h"
  shows "runs smp_ok (check_pump smp_chain rid hi PAIR_DLMM infos (flatten_pump h PAIR_DLMM) PAIR_PUMP smp_mint xl_SOL smp_mint) (\<lambda>f. f = [])"
proof -
  let ?hk = "flatten_pump h PAIR_DLMM"
  have hk: "?hk ! 0 = PAIR_PUMP" "?hk ! 3 = smp_mint" "?hk ! 4 = xl_SOL" "?hk ! 5 = smp_pk smp_mint" "?hk ! 6 = smp_pk xl_SOL"
    "?hk ! 11 = TOKENKEG" "?hk ! 12 = TOKENKEG" "?hk ! 16 = xl_PUMP"
    using h by (auto simp: smp_hop_def flatten_pump_def pump_hop_of_def smp_meta_def)
  have us: "runs smp_ok (smap (check_pump_user smp_chain rid hi PAIR_DLMM infos ?hk) [(''user_base'', 5, smp_mint), (''user_quote'', 6, xl_SOL)])
      (list_all2 (\<lambda>_ f. f = []) [(''user_base'', 5 :: nat, smp_mint), (''user_quote'', 6, xl_SOL)])"
    by (rule runs_smap) (auto intro!: runs_pump_user [OF k] simp: hk)
  show ?thesis
    unfolding check_pump_def Let_def
    by (rule runs_sbind [OF us], rule runs_sbind [OF runs_chain_tok], simp, rule runs_sbind [OF runs_chain_tok], simp, rule runs_sret)
      (simp add: hk known_programs [OF k] list_all2_nil [unfolded concat_eq_Nil_conv])
qed

lemma smp_pool_fields: "pool_pair (hd smp_pools) = Inr PAIR_PUMP" "pool_mx (hd smp_pools) = smp_mint" "pool_my (hd smp_pools) = xl_SOL"
  by (simp_all add: smp_pools_def pool_pair_def pool_mx_def pool_my_def text_or_def or_text_def PAIR_PUMP_def smp_mint_def
      record_pk_def Let_def xl_SOL_def)

lemma runs_check_hop:
  assumes k: "smp_known infos" and hi: "hi < length sems" "hi < 2" and sem: "smp_sem (hi, ''pump'') (sems ! hi)"
    and seg: "slice off (off + length (hop_keys_of PAIR_DLMM (sems ! hi))) keys = hop_keys_of PAIR_DLMM (sems ! hi)"
  shows "runs smp_ok (check_hop smp_sha smp_chain fetch PAIR_DLMM smp_pools smp_route sems [xl_SOL, smp_mint, xl_SOL] keys infos off hi ''pump'')
    (\<lambda>x. x = ([], Some (off + length (hop_keys_of PAIR_DLMM (sems ! hi)))))"
proof -
  let ?ms = "[xl_SOL, smp_mint, xl_SOL]" and ?hk = "hop_keys_of PAIR_DLMM (sems ! hi)"
  obtain h where h: "sems ! hi = PumpHop h" "smp_hop PAIR_PUMP (hi = 0) (smp_pk smp_mint) (smp_pk xl_SOL) h"
    using sem by (auto simp: smp_sem_def)
  have hk: "?hk = flatten_pump h PAIR_DLMM" by (simp add: hop_keys_of_def h(1))
  have mint: "?ms ! hi = xl_SOL \<longleftrightarrow> hi = 0" "(if hi \<noteq> 0 then ?ms ! hi else ?ms ! (hi + 1)) = smp_mint"
    using hi(2) smp_ne by (auto simp: less_2_cases_iff)
  have n: "hop_nacc ''pump'' (hi = 0) = length ?hk"
    using h(2) by (auto simp: hk smp_hop_def flatten_pump_def pump_hop_of_def hop_nacc_def)
  have cmp: "compare_hop rid seqn PAIR_DLMM hi ''pump'' ?hk (PumpHop h) = Inr []" for rid seqn
    by (simp add: compare_hop_def validate_pump_nil hk)
  have buy: "(''pump'' = ''pump'' \<and> c) = c" "(''pump'' = ''dlmm'') = False" for c by simp_all
  have ex: "expected_hop sha rpc fetch w sems hi pr pair b tok = sret (PumpHop h)" for sha rpc w pr pair b tok
    using hi(1) h(1) by (auto simp: expected_hop_def)
  show ?thesis
    unfolding check_hop_def Let_def smp_pool_at [OF hi(2)] buy mint n seg
    by (rule runs_sbind [where Q = "\<lambda>x. x = hd smp_pools"], rule runs_slift, simp,
        rule runs_sbind [where Q = "\<lambda>x. x = PAIR_PUMP"], rule runs_slift, simp add: smp_pool_fields)
      (auto simp: smp_pool_fields hk ex cmp [unfolded hk] intro!: runs_sbind [OF runs_check_pump [OF k h(2)]]
        runs_sbind [where Q = "\<lambda>x. x = PumpHop h"] runs_sbind [where Q = "\<lambda>x. x = []"] runs_sret runs_slift)
qed

lemma runs_validate:
  assumes b: "smp_built (keys, data, sems)"
  shows "runs smp_ok (validate_vector smp_sha smp_chain fetch PAIR_DLMM smp_pools smp_route keys sems) (\<lambda>f. f = [])"
proof -
  obtain ev h0 h1 where sems: "sems = [PumpHop h0, PumpHop h1]" and keys: "keys = shared_keys PAIR_DLMM smp_users ev @ flatten_pump h0 PAIR_DLMM @ flatten_pump h1 PAIR_DLMM"
    and h: "smp_sem (0, ''pump'') (sems ! 0)" "smp_sem (1, ''pump'') (sems ! 1)"
    using b by (auto simp: smp_built_def list_all2_Cons1 smp_sem_def hop_keys_of_def)
  let ?ms = "[xl_SOL, smp_mint, xl_SOL]" and ?rid = "opt_fval FInt (hr_id smp_route)"
  obtain infos where infos: "fetch_accs smp_chain (keys @ ?ms) = Inr infos"
    and at: "\<And>k. k \<in> set (keys @ ?ms) \<Longrightarrow> k \<noteq> [] \<Longrightarrow> info_of infos k = map_option (acc_of_value 7) (smp_led k)"
    using smp_infos by blast
  have "PAIR_PUMP \<in> set (flatten_pump h0 PAIR_DLMM)" using h(1) by (auto simp: sems smp_sem_def smp_hop_def flatten_pump_def pump_hop_of_def)
  then have k: "smp_known infos"
    unfolding smp_known_def by (auto intro!: at simp: keys shared_keys_def smp_users_def)
      (auto simp: smp_pk_def record_pk_def Let_def xl_DLMM_def PAIR_PUMP_def split: if_splits)
  have len: "length (flatten_pump h0 PAIR_DLMM) = 26" using h(1) by (auto simp: sems smp_sem_def smp_hop_def flatten_pump_def pump_hop_of_def)
  let ?f = "check_hop smp_sha smp_chain fetch PAIR_DLMM smp_pools smp_route sems ?ms keys infos"
  have c0: "runs smp_ok (?f 9 0 ''pump'') (\<lambda>x. x = ([], Some (9 + 26)))"
    using runs_check_hop [OF k _ _ h(1), of 9 keys fetch] len by (auto simp: sems hop_keys_of_def keys shared_keys_def slice_def)
  have c1: "runs smp_ok (?f (9 + 26) (Suc 0) ''pump'') (\<lambda>x. \<exists>o'. x = ([], Some o'))"
    using runs_check_hop [OF k _ _ h(2), of "9 + 26" keys fetch] len
    by (auto simp: sems hop_keys_of_def keys shared_keys_def slice_def intro: runs_mono)
  have "runs smp_ok (hop_loop ?f (9 + 26) (Suc 0) [''pump'']) (\<lambda>f. f = [])"
    unfolding hop_loop.simps by (rule runs_sbind [OF c1]) (auto intro!: runs_sbind [where Q = "\<lambda>f. f = []"] runs_sret)
  then have hops: "runs smp_ok (hop_loop ?f 9 0 [''pump'', ''pump'']) (\<lambda>f. f = [])"
    by (subst hop_loop.simps(2), intro runs_sbind [OF c0])
      (simp only: prod.case option.case, rule runs_sbind [where Q = "\<lambda>f. f = []"], assumption, rule runs_sret, simp)
  have users: "runs smp_ok (smap (check_user smp_chain ?rid PAIR_DLMM keys infos) [(0, xl_SOL), (1, smp_mint), (2, xl_SOL)])
      (list_all2 (\<lambda>_ f. f = []) [(0 :: nat, xl_SOL), (1, smp_mint), (2, xl_SOL)])"
    by (rule runs_smap) (auto intro!: runs_check_user [OF k] simp: keys shared_keys_def smp_users_def)
  have shared: "shared_checks ?rid PAIR_DLMM keys infos = []"
    using known_programs(1) [OF k] by (simp add: shared_checks_def keys shared_keys_def)
  have z: "zip [0..<3] (take 3 ?ms) = [(0, xl_SOL), (1, smp_mint), (2, xl_SOL)]" by (simp add: upt_rec)
  have "\<not> length keys < 9" by (simp add: keys shared_keys_def)
  then show ?thesis
    unfolding validate_vector_def Let_def smp_mints sum.case z smp_split infos
    by (simp only: if_False) (rule runs_sbind [where Q = "\<lambda>x. x = infos"], rule runs_slift, simp, simp only:,
      rule runs_sbind [OF users], rule runs_sbind [OF hops], rule runs_sret, simp add: shared list_all2_nil [unfolded concat_eq_Nil_conv])
qed


end
