(* ===== verification/Alt_Plane.thy ===== *)
theory Alt_Plane
  imports Hops_Sample
begin

text \<open>
  \<^verbatim>\<open>arb-exec/scripts/alt_plane.py\<close>: the control plane of the two-venue executor. It pairs the pools of
  the universe, resolves the accounts of every pair, packs their addresses into lookup tables first fit,
  extends or creates the tables, and marks a pair ready when both of its templates compile from a
  published table. The chain is an argument: the accounts read, the balances and the table contents seen.
\<close>

section \<open>Known tables\<close>

definition SEED :: "string list" where
  "SEED = [''J6jmHvnetqmzmBxpWyKDYmWEnTU77Dmcd7Le2sLyAfwu'', ''A3y4efDfkbJGF4QJtScfQAwubm2BzpTauAbZ8ohAHMgn'',
           ''3iN6TXFH5nwhRhMYsY92muGfyey8aKkiSTVYXL8Bu7SG'']"

definition ALT_MAX :: nat where "ALT_MAX = 256"
definition RESERVE_LAMPORTS :: int where "RESERVE_LAMPORTS = 80000000"

text \<open>One of the two files: its own key and its tables.\<close>

record alt_file =
  af_pubkey :: "string option"
  af_alts :: "plane_alt list"

definition truthy_key :: "string option \<Rightarrow> string list" where
  "truthy_key k = (case k of None \<Rightarrow> [] | Some s \<Rightarrow> if s = [] then [] else [s])"

definition known_pubkeys :: "alt_file list \<Rightarrow> string list" where
  "known_pubkeys files =
    uniq (concat (map (\<lambda>f. truthy_key (af_pubkey f) @ concat (map (\<lambda>a. truthy_key (pa_pubkey a)) (af_alts f))) files) @ SEED)"

definition register_alts :: "(string \<Rightarrow> string list) \<Rightarrow> string list \<Rightarrow> plane_alt list" where
  "register_alts addrs pks =
    map (\<lambda>pk. \<lparr> pa_pubkey = Some pk, pa_addresses = addrs pk \<rparr>) (filter (\<lambda>pk. addrs pk \<noteq> []) pks)"

section \<open>Pairs of pools\<close>

record alt_pool =
  al_token :: "string option"
  al_proto :: "string option"
  al_kind :: "string option"
  al_sol_side :: bool
  al_pubkey :: "string option"

definition al_venue :: "alt_pool \<Rightarrow> string" where
  "al_venue m = or_empty (or_text (al_proto m) (al_kind m))"

text \<open>Per token, in order of first appearance: its DLMM and its Pump pools.\<close>

type_synonym by_tok = "(string, alt_pool list \<times> alt_pool list) dict"

definition add_pool :: "by_tok \<Rightarrow> alt_pool \<Rightarrow> by_tok" where
  "add_pool g m =
    (case al_token m of None \<Rightarrow> g
     | Some tok \<Rightarrow>
       let old = (case dget g tok of Some x \<Rightarrow> x | None \<Rightarrow> ([], [])) in
       if tok = [] then g
       else if al_venue m = ''dlmm'' then dput tok (fst old @ [m], snd old) g
       else if al_venue m = ''pump'' then dput tok (fst old, snd old @ [m]) g
       else g)"

definition pair_of :: "string \<times> alt_pool \<times> alt_pool \<Rightarrow> (string \<times> string \<times> string) res" where
  "pair_of e =
    (case e of (tok, dl, pu) \<Rightarrow>
      (case al_pubkey dl of None \<Rightarrow> Inl KeyError
       | Some a \<Rightarrow> (case al_pubkey pu of None \<Rightarrow> Inl KeyError | Some b \<Rightarrow> Inr (a, b, tok))))"

definition route0_pairs :: "alt_pool list \<Rightarrow> (string \<times> string \<times> string) list res" where
  "route0_pairs pools =
    rmap pair_of (concat (map (\<lambda>(tok, dls, pus).
      concat (map (\<lambda>dl. if al_sol_side dl then map (\<lambda>pu. (tok, dl, pu)) pus else []) dls)) (foldl add_pool [] pools)))"

section \<open>Resolving a pair\<close>

definition get_many :: "rpc_call \<Rightarrow> string list \<Rightarrow> (string, rpc_acc option) dict res" where
  "get_many rpc pks =
    rbind (rmap (\<lambda>c. rbind (get_multiple rpc None None c) (\<lambda>rows. Inr (zip c rows))) (chunks 79 (filter (\<lambda>p. p \<noteq> []) (uniq pks)))) (\<lambda>parts.
      Inr (dupdate [] (concat parts)))"

definition got :: "(string, rpc_acc option) dict \<Rightarrow> string \<Rightarrow> rpc_acc option" where
  "got accs k = (case dget accs k of Some a \<Rightarrow> a | None \<Rightarrow> None)"

record pair_row =
  pr_dlmm :: string
  pr_pump :: string
  pr_token :: string
  pr_lb :: lbpair
  pr_p :: pump_pool
  pr_raw :: bytes
  pr_mint_x :: string
  pr_mint_y :: string
  pr_active :: int
  pr_bins :: "string list"

text \<open>The first pass over one pair: nothing where the loop continues, else the row and the keys to fetch next.\<close>

definition pair_row_of ::
  "(bytes \<Rightarrow> bytes) \<Rightarrow> (string, rpc_acc option) dict \<Rightarrow> string \<times> string \<times> string \<Rightarrow> (pair_row \<times> string list) option res" where
  "pair_row_of sha accs e =
    (case e of (dlmm, pump, tok) \<Rightarrow>
      (case got accs dlmm of None \<Rightarrow> Inr None
       | Some dacc \<Rightarrow> (case got accs pump of None \<Rightarrow> Inr None
       | Some pacc \<Rightarrow> (case parse_lbpair (ra_data dacc) of Inl _ \<Rightarrow> Inr None
       | Inr lb \<Rightarrow> (case parse_pump_pool (ra_data pacc) of None \<Rightarrow> Inr None
       | Some p \<Rightarrow>
         let mint_x = record_pk (lb_token_x lb); mint_y = record_pk (lb_token_y lb) in
         if mint_y \<noteq> xl_SOL then Inr None
         else rbind (rmap (bin_array_pda sha dlmm) (around (bin_array_index (lb_active_id lb)))) (\<lambda>bins.
              rbind (b58decode dlmm) (\<lambda>pair. rbind (xl_pda sha [ascii ''oracle'', pair] xl_DLMM) (\<lambda>oracle.
                Inr (Some (\<lparr> pr_dlmm = dlmm, pr_pump = pump, pr_token = tok, pr_lb = lb, pr_p = p, pr_raw = ra_data pacc,
                    pr_mint_x = mint_x, pr_mint_y = mint_y, pr_active = lb_active_id lb, pr_bins = bins \<rparr>,
                  bins @ [mint_x, oracle]))))))))))"

text \<open>\<^verbatim>\<open>oneshot_live.creator_from_pool\<close>\<close>

definition creator_from_pool :: "(bytes \<Rightarrow> bytes) \<Rightarrow> bytes \<Rightarrow> string \<Rightarrow> (string \<times> string) res" where
  "creator_from_pool sha raw quote =
    rbind (pump_fallback sha) (\<lambda>fb.
      if length raw < 243 \<or> slice 211 243 raw = zeros 32 then Inr (pi_creator_auth fb, pi_creator_ata fb)
      else rbind (xl_pda sha [ascii ''creator_vault'', slice 211 243 raw] xl_PUMP) (\<lambda>auth.
           rbind (ata sha auth quote TOKENKEG) (\<lambda>a. Inr (auth, a))))"

record plane_route =
  rt_dlmm :: string
  rt_pump :: string
  rt_token :: string
  rt_mint_x :: string
  rt_base_tok :: string
  rt_user_quote :: string
  rt_user_base :: string
  rt_static :: "string list"
  rt_wr :: "string list"
  rt_wr_buy :: "string list"
  rt_ro :: "string list"
  rt_need :: "string list"
  rt_active_id :: int

definition pair_acc :: "(bytes \<Rightarrow> bytes) \<Rightarrow> string \<Rightarrow> pair_row \<Rightarrow> string \<Rightarrow> string list \<Rightarrow> route_acc res" where
  "pair_acc sha wallet row base_tok bs =
    (let mint_x = pr_mint_x row; mint_y = pr_mint_y row in
     rbind (creator_from_pool sha (pr_raw row) mint_y) (\<lambda>(c_auth, c_ata).
     rbind (pump_fallback sha) (\<lambda>fb.
     rbind (ata sha FEE_RECIPIENT mint_y TOKENKEG) (\<lambda>fee_rec_quote.
     rbind (ata sha wallet xl_SOL TOKENKEG) (\<lambda>user_quote.
     rbind (ata sha wallet mint_x base_tok) (\<lambda>user_base.
     rbind (xl_pda sha [ascii ''__event_authority''] xl_DLMM) (\<lambda>event_dlmm.
     rbind (b58decode (pr_dlmm row)) (\<lambda>pair.
     rbind (xl_pda sha [ascii ''oracle'', pair] xl_DLMM) (\<lambda>oracle.
     rbind (xl_pda sha [ascii ''global_volume_accumulator''] xl_PUMP) (\<lambda>gvol.
     rbind (b58decode mint_x) (\<lambda>mx.
     rbind (xl_pda sha [ascii ''pool-v2'', mx] xl_PUMP) (\<lambda>pool_v2.
     rbind (b58decode wallet) (\<lambda>wl.
     rbind (xl_pda sha [ascii ''user_volume_accumulator'', wl] xl_PUMP) (\<lambda>uvol.
       Inr \<lparr> ac_pair_dlmm = Some (pr_dlmm row), ac_pair_pump = Some (pr_pump row), ac_mint_x = mint_x, ac_mint_y = mint_y,
             ac_user_quote = user_quote, ac_user_base = user_base, ac_event_dlmm = event_dlmm, ac_oracle = oracle,
             ac_bins = take 2 bs, ac_vault_x = record_pk (lb_vault_x (pr_lb row)), ac_vault_y = record_pk (lb_vault_y (pr_lb row)),
             ac_vault_b = record_pk (pp_vault_base (pr_p row)), ac_vault_q = record_pk (pp_vault_quote (pr_p row)),
             ac_pump = fb \<lparr> pi_creator_auth := c_auth, pi_creator_ata := c_ata \<rparr>, ac_fee_cfg = FEE_CFG_LIVE, ac_gvol = gvol,
             ac_pool_v2 = pool_v2, ac_uvol = uvol, ac_fee_recipient = FEE_RECIPIENT, ac_fee_rec_quote = fee_rec_quote,
             ac_active_id = pr_active row \<rparr>))))))))))))))"

text \<open>The second pass over one row.\<close>

definition resolve_row ::
  "(bytes \<Rightarrow> bytes) \<Rightarrow> (string, rpc_acc option) dict \<Rightarrow> string \<Rightarrow> string \<Rightarrow> pair_row \<Rightarrow> plane_route option res" where
  "resolve_row sha extra wallet our_exec row =
    (let base_tok = (case got extra (pr_mint_x row) of None \<Rightarrow> TOKEN2022 | Some a \<Rightarrow> if ra_owner a = [] then TOKEN2022 else ra_owner a);
         live_bins = filter (\<lambda>b. got extra b \<noteq> None) (pr_bins row)
     in if base_tok \<noteq> TOKENKEG \<and> base_tok \<noteq> TOKEN2022 \<or> length live_bins < 2 then Inr None
        else rbind (pair_acc sha wallet row base_tok live_bins) (\<lambda>acc.
             rbind (v0_parts wallet our_exec acc) (\<lambda>(static, wr, ro).
               let wr_buy = wr @ [ac_gvol acc] in
               Inr (Some \<lparr> rt_dlmm = pr_dlmm row, rt_pump = pr_pump row, rt_token = pr_token row, rt_mint_x = pr_mint_x row,
                 rt_base_tok = base_tok, rt_user_quote = ac_user_quote acc, rt_user_base = ac_user_base acc, rt_static = static,
                 rt_wr = wr, rt_wr_buy = wr_buy, rt_ro = ro, rt_need = uniq (wr_buy @ ro @ live_bins), rt_active_id = pr_active row \<rparr>))))"

fun keep_some :: "'a option list \<Rightarrow> 'a list" where
  "keep_some [] = []"
| "keep_some (None # xs) = keep_some xs"
| "keep_some (Some x # xs) = x # keep_some xs"

definition resolve_all :: "(bytes \<Rightarrow> bytes) \<Rightarrow> rpc_call \<Rightarrow> string \<Rightarrow> string \<Rightarrow> alt_pool list \<Rightarrow> plane_route list res" where
  "resolve_all sha rpc wallet our_exec pools =
    rbind (route0_pairs pools) (\<lambda>pairs.
    rbind (get_many rpc (concat (map (\<lambda>(a, b, _). [a, b]) pairs))) (\<lambda>accs.
    rbind (rmap (pair_row_of sha accs) pairs) (\<lambda>rows.
    rbind (ata sha wallet xl_SOL TOKENKEG) (\<lambda>uq.
    rbind (get_many rpc (concat (map snd (keep_some rows)) @ [uq])) (\<lambda>extra.
    rbind (rmap (resolve_row sha extra wallet our_exec) (map fst (keep_some rows))) (\<lambda>routes.
      Inr (keep_some routes)))))))"

section \<open>Packing\<close>

record pack =
  pk_pubkey :: "string option"
  pk_frozen :: nat
  pk_planned :: "string list"
  pk_addresses :: "string list"

definition existing_pack :: "plane_alt \<Rightarrow> pack" where
  "existing_pack alt = \<lparr> pk_pubkey = pa_pubkey alt, pk_frozen = length (pa_addresses alt), pk_planned = pa_addresses alt, pk_addresses = [] \<rparr>"

definition extra_of :: "string list \<Rightarrow> pack \<Rightarrow> string list" where
  "extra_of need p = filter (\<lambda>a. a \<notin> set (pk_planned p)) need"

text \<open>The packs after one route, and the index of the pack it is placed in.\<close>

fun place :: "string list \<Rightarrow> pack list \<Rightarrow> pack list \<times> nat" where
  "place need [] = ([\<lparr> pk_pubkey = None, pk_frozen = 0, pk_planned = uniq need, pk_addresses = [] \<rparr>], 0)"
| "place need (p # ps) =
     (if length (pk_planned p) + length (extra_of need p) \<le> ALT_MAX
      then (p \<lparr> pk_planned := pk_planned p @ extra_of need p \<rparr> # ps, 0)
      else case place need ps of (ps', j) \<Rightarrow> (p # ps', Suc j))"

fun pack_routes :: "pack list \<Rightarrow> plane_route list \<Rightarrow> pack list \<times> (plane_route \<times> nat) list" where
  "pack_routes packs [] = (packs, [])"
| "pack_routes packs (r # rs) =
     (case place (rt_need r) packs of (packs', j) \<Rightarrow>
      case pack_routes packs' rs of (packs'', js) \<Rightarrow> (packs'', (r, j) # js))"

definition greedy_pack :: "plane_route list \<Rightarrow> plane_alt list \<Rightarrow> pack list \<times> (plane_route \<times> nat) list" where
  "greedy_pack routes existing = pack_routes (map existing_pack existing) (sort_key (\<lambda>r. - int (length (rt_need r))) routes)"

section \<open>Materializing\<close>

definition spendable :: "int \<Rightarrow> int" where
  "spendable native = max 0 (native - RESERVE_LAMPORTS)"

text \<open>What the chain shows while one pack is processed.\<close>

record pack_env =
  pe_have :: "string list"
  pe_polls :: "string list list"
  pe_final :: "string list"
  pe_native :: int
  pe_slot :: int
  pe_seen :: "string list list"
  pe_after :: "string list"

definition materialize_pack :: "(bytes \<Rightarrow> bytes) \<Rightarrow> string \<Rightarrow> pack_env \<Rightarrow> pack \<Rightarrow> (instruction list \<times> pack) res" where
  "materialize_pack sha payer env p =
    (case truthy_key (pk_pubkey p) of
       pk # _ \<Rightarrow>
         let extra = drop (length (pe_have env)) (pk_planned p) in
         if extra = [] then Inr ([], p \<lparr> pk_addresses := pe_have env \<rparr>)
         else rbind (alt_extend payer pk extra) (\<lambda>ixs.
           let seen = (case find (\<lambda>g. length g \<ge> length (pe_have env) + length extra) (take 16 (pe_polls env)) of
                         Some g \<Rightarrow> g | None \<Rightarrow> pe_final env)
           in Inr (ixs, p \<lparr> pk_addresses := seen \<rparr>))
     | [] \<Rightarrow>
         if spendable (pe_native env) < 6000000 then Inr ([], p \<lparr> pk_addresses := [] \<rparr>)
         else rbind (alt_create sha payer (pe_slot env) (pe_seen env) (pk_planned p)) (\<lambda>(ixs, pk).
                Inr (ixs, p \<lparr> pk_pubkey := Some pk, pk_addresses := pe_after env \<rparr>)))"

definition materialize_packs ::
  "(bytes \<Rightarrow> bytes) \<Rightarrow> string \<Rightarrow> pack_env list \<Rightarrow> pack list \<Rightarrow> (instruction list \<times> pack list) res" where
  "materialize_packs sha payer envs packs =
    rbind (rmap (\<lambda>(env, p). materialize_pack sha payer env p) (zip envs packs)) (\<lambda>rows.
      Inr (concat (map fst rows), map snd rows))"

definition pack_alt :: "pack \<Rightarrow> plane_alt" where
  "pack_alt p = \<lparr> pa_pubkey = pk_pubkey p, pa_addresses = pk_addresses p \<rparr>"

definition live_plane :: "pack list \<Rightarrow> plane_alt list" where
  "live_plane packs = publish_plane (map pack_alt packs)"

section \<open>Readiness\<close>

text \<open>Before and after: what exists on the chain around the creation of the token account.\<close>

definition route_ata_ok :: "(bytes \<Rightarrow> bytes) \<Rightarrow> rpc_call \<Rightarrow> rpc_call \<Rightarrow> int \<Rightarrow> string \<Rightarrow> plane_route \<Rightarrow> bool res" where
  "route_ata_ok sha rpc rpc' native wallet r =
    rbind (exists_acc rpc (rt_user_base r)) (\<lambda>live.
      if live then Inr True
      else if spendable native < 3000000 then Inr False
      else Inr (case ensure_ata sha rpc wallet wallet (rt_mint_x r) (rt_base_tok r) of
                  Inl _ \<Rightarrow> False
                | Inr _ \<Rightarrow> (case exists_acc rpc' (rt_user_base r) of Inl _ \<Rightarrow> False | Inr b \<Rightarrow> b)))"

text \<open>\<^verbatim>\<open>except (AltPlaneMiss, SystemExit, RuntimeError, ValueError)\<close>\<close>

definition caught :: "py_error \<Rightarrow> bool" where
  "caught e = (case e of AltPlaneMiss _ \<Rightarrow> True | SystemExit _ \<Rightarrow> True | RuntimeError _ \<Rightarrow> True | ValueError _ \<Rightarrow> True | _ \<Rightarrow> False)"

definition try_template :: "(string \<times> bytes) res \<Rightarrow> (py_error + (string \<times> bytes)) res" where
  "try_template r = (case r of Inr x \<Rightarrow> Inr (Inr x) | Inl e \<Rightarrow> if caught e then Inr (Inl e) else Inl e)"

definition template_of :: "bool \<Rightarrow> plane_alt list \<Rightarrow> plane_route \<Rightarrow> (string \<times> bytes) res" where
  "template_of buy plane r =
    rbind (lookup_prepared plane (if buy then rt_wr_buy r else rt_wr r) (rt_ro r)) (\<lambda>(alt, wr, ro).
    rbind (compile_dir buy (rt_static r) alt (Some wr) (Some ro)) (\<lambda>t. Inr (alt, t)))"

record comp =
  cp_dir0 :: bool
  cp_dir1 :: bool
  cp_alt :: "string option"
  cp_tmpl0 :: "bytes option"
  cp_tmpl1 :: "bytes option"
  cp_err :: "py_error list"

definition compile_route :: "plane_alt list \<Rightarrow> plane_route \<Rightarrow> comp res" where
  "compile_route plane r =
    rbind (try_template (template_of False plane r)) (\<lambda>a.
    rbind (try_template (template_of True plane r)) (\<lambda>b.
      Inr \<lparr> cp_dir0 = \<not> isl a, cp_dir1 = \<not> isl b,
            cp_alt = (case b of Inr (k, _) \<Rightarrow> Some k | Inl _ \<Rightarrow> (case a of Inr (k, _) \<Rightarrow> Some k | Inl _ \<Rightarrow> None)),
            cp_tmpl0 = (case a of Inr (_, t) \<Rightarrow> Some t | Inl _ \<Rightarrow> None),
            cp_tmpl1 = (case b of Inr (_, t) \<Rightarrow> Some t | Inl _ \<Rightarrow> None),
            cp_err = (case a of Inl e \<Rightarrow> [e] | Inr _ \<Rightarrow> []) @ (case b of Inl e \<Rightarrow> [e] | Inr _ \<Rightarrow> []) \<rparr>))"

record ready_row =
  rr_dlmm :: string
  rr_pump :: string
  rr_token :: string
  rr_alt :: "string option"
  rr_dir0 :: bool
  rr_dir1 :: bool
  rr_ata_ok :: bool
  rr_race_ready :: bool
  rr_tmpl0 :: "bytes option"
  rr_tmpl1 :: "bytes option"
  rr_need_n :: nat

definition ready_row_of :: "rpc_call \<Rightarrow> plane_alt list \<Rightarrow> plane_route \<times> bool \<Rightarrow> ready_row res" where
  "ready_row_of rpc plane e =
    (case e of (r, ok) \<Rightarrow>
     rbind (compile_route plane r) (\<lambda>c.
     rbind (if ok then Inr True
            else rbind (exists_acc rpc (rt_user_quote r)) (\<lambda>q. if q then exists_acc rpc (rt_user_base r) else Inr False)) (\<lambda>ata_ok.
       let race = cp_dir0 c \<and> cp_dir1 c \<and> ata_ok in
       Inr \<lparr> rr_dlmm = rt_dlmm r, rr_pump = rt_pump r, rr_token = rt_token r, rr_alt = cp_alt c, rr_dir0 = cp_dir0 c,
             rr_dir1 = cp_dir1 c, rr_ata_ok = ata_ok, rr_race_ready = race, rr_tmpl0 = (if race then cp_tmpl0 c else None),
             rr_tmpl1 = (if race then cp_tmpl1 c else None), rr_need_n = length (rt_need r) \<rparr>)))"

text \<open>The rows written to the plane once the packs are materialized.\<close>

definition sync_rows :: "rpc_call \<Rightarrow> pack list \<Rightarrow> (plane_route \<times> bool) list \<Rightarrow> (plane_alt list \<times> ready_row list \<times> nat) res" where
  "sync_rows rpc packs routes =
    (let plane = live_plane packs in
     rbind (rmap (ready_row_of rpc plane) routes) (\<lambda>rows. Inr (plane, rows, length (filter rr_race_ready rows))))"

section \<open>Packing keeps tables and covers routes\<close>

text \<open>A pack grows only at its end, by addresses it did not have.\<close>

definition grows :: "pack \<Rightarrow> pack \<Rightarrow> bool" where
  "grows p q \<longleftrightarrow> pk_pubkey q = pk_pubkey p \<and> pk_frozen q = pk_frozen p
    \<and> (\<exists>zs. pk_planned q = pk_planned p @ zs \<and> distinct zs \<and> set zs \<inter> set (pk_planned p) = {})"

lemma grows_refl [simp]: "grows p p"
  by (auto simp: grows_def)

lemma grows_trans: "grows p q \<Longrightarrow> grows q r \<Longrightarrow> grows p r"
  by (fastforce simp: grows_def)

lemma grows_covers: "grows p q \<Longrightarrow> set (pk_planned p) \<subseteq> set (pk_planned q)"
  by (auto simp: grows_def)

lemma grows_extra: "distinct need \<Longrightarrow> grows p (p \<lparr> pk_planned := pk_planned p @ extra_of need p \<rparr>)"
  by (auto simp: grows_def extra_of_def)

definition all_grow :: "pack list \<Rightarrow> pack list \<Rightarrow> bool" where
  "all_grow ps qs \<longleftrightarrow> length ps \<le> length qs \<and> (\<forall>i<length ps. grows (ps ! i) (qs ! i))
    \<and> (\<forall>q\<in>set (drop (length ps) qs). pk_pubkey q = None \<and> distinct (pk_planned q))"

definition small :: "pack list \<Rightarrow> bool" where
  "small ps \<longleftrightarrow> (\<forall>p\<in>set ps. length (pk_planned p) \<le> ALT_MAX)"

lemma all_grow_refl [simp]: "all_grow ps ps"
  by (simp add: all_grow_def)

lemma grows_fresh: "grows p q \<Longrightarrow> pk_pubkey p = None \<and> distinct (pk_planned p) \<Longrightarrow> pk_pubkey q = None \<and> distinct (pk_planned q)"
  by (auto simp: grows_def)

lemma all_grow_trans:
  assumes "all_grow ps qs" "all_grow qs rs"
  shows "all_grow ps rs"
proof -
  have new: "pk_pubkey (rs ! i) = None \<and> distinct (pk_planned (rs ! i))" if i: "length ps \<le> i" "i < length rs" for i
  proof (cases "i < length qs")
    case True
    then have "qs ! i \<in> set (drop (length ps) qs)" using i by (auto simp: in_set_conv_nth intro!: exI [of _ "i - length ps"])
    then show ?thesis using assms True grows_fresh [of "qs ! i" "rs ! i"] by (auto simp: all_grow_def)
  next
    case False
    then have "rs ! i \<in> set (drop (length qs) rs)" using i by (auto simp: in_set_conv_nth intro!: exI [of _ "i - length qs"])
    then show ?thesis using assms(2) by (simp add: all_grow_def)
  qed
  have "grows (ps ! i) (rs ! i)" if "i < length ps" for i
    using assms that grows_trans [of "ps ! i" "qs ! i" "rs ! i"] by (simp add: all_grow_def)
  moreover have "pk_pubkey q = None \<and> distinct (pk_planned q)" if q: "q \<in> set (drop (length ps) rs)" for q
  proof -
    obtain i where "i < length rs - length ps" "q = rs ! (length ps + i)" using q by (auto simp: in_set_conv_nth)
    then show ?thesis using new [of "length ps + i"] by simp
  qed
  ultimately show ?thesis using assms by (auto simp: all_grow_def)
qed

lemma place_spec:
  assumes "place need ps = (qs, j)" "distinct need" "length need \<le> ALT_MAX" "small ps"
  shows "all_grow ps qs \<and> small qs \<and> j < length qs \<and> set need \<subseteq> set (pk_planned (qs ! j))"
  using assms
proof (induction need ps arbitrary: qs j rule: place.induct)
  case (1 need)
  have "uniq xs = xs" if "distinct xs" for xs :: "string list" using that by (induction xs) (auto intro: filter_True)
  then show ?case using 1 by (auto simp: all_grow_def small_def)
next
  case (2 need p ps)
  show ?case
  proof (cases "length (pk_planned p) + length (extra_of need p) \<le> ALT_MAX")
    case True
    then show ?thesis using 2 grows_extra [of need p]
      by (auto simp: all_grow_def small_def less_Suc_eq_0_disj extra_of_def)
  next
    case False
    then obtain qs' j' where q: "place need ps = (qs', j')" "qs = p # qs'" "j = Suc j'" using 2 by (auto split: prod.splits)
    then have "all_grow ps qs' \<and> small qs' \<and> j' < length qs' \<and> set need \<subseteq> set (pk_planned (qs' ! j'))"
      using 2 False by (auto simp: small_def)
    then show ?thesis using q 2 by (auto simp: all_grow_def small_def less_Suc_eq_0_disj)
  qed
qed

lemma pack_routes_spec:
  assumes "pack_routes ps rs = (qs, asg)" "\<forall>r\<in>set rs. distinct (rt_need r) \<and> length (rt_need r) \<le> ALT_MAX" "small ps"
  shows "all_grow ps qs \<and> small qs \<and> map fst asg = rs
    \<and> (\<forall>(r, j)\<in>set asg. j < length qs \<and> set (rt_need r) \<subseteq> set (pk_planned (qs ! j)))"
  using assms
proof (induction rs arbitrary: ps asg)
  case (Cons r rs)
  obtain ps' j asg' where p: "place (rt_need r) ps = (ps', j)" "pack_routes ps' rs = (qs, asg')" "asg = (r, j) # asg'"
    using Cons.prems(1) by (auto split: prod.splits)
  note pl = place_spec [OF p(1)]
  have IH: "all_grow ps' qs \<and> small qs \<and> map fst asg' = rs
    \<and> (\<forall>(r, j)\<in>set asg'. j < length qs \<and> set (rt_need r) \<subseteq> set (pk_planned (qs ! j)))"
    by (rule Cons.IH [OF p(2)]) (use Cons.prems pl in auto)
  have "j < length qs \<and> set (rt_need r) \<subseteq> set (pk_planned (qs ! j))"
    using pl Cons.prems IH grows_covers [of "ps' ! j" "qs ! j"] by (auto simp: all_grow_def)
  then show ?case using IH pl Cons.prems p(3) all_grow_trans [of ps ps' qs] by auto
qed simp

definition smp_plane_route :: plane_route where
  "smp_plane_route = \<lparr> rt_dlmm = ''d'', rt_pump = ''p'', rt_token = ''t'', rt_mint_x = ''t'', rt_base_tok = TOKENKEG, rt_user_quote = ''q'',
     rt_user_base = ''b'', rt_static = [], rt_wr = [''a''], rt_wr_buy = [''a'', ''b''], rt_ro = [], rt_need = [''a'', ''b''], rt_active_id = 0 \<rparr>"

text \<open>
  C15: First-fit packing covers every route and rewrites no table. Given tables of at most 256 addresses and
  routes that need at most 256 different addresses each, the packs after packing have at most 256 addresses
  each; the packs of the given tables come first, keep their key, and only have new addresses appended, each
  once; every further pack is new and free of duplicates; and each route is placed once, in a pack that
  holds every address it needs.
\<close>

theorem greedy_pack_sound:
  assumes "greedy_pack routes existing = (packs, asg)"
    and "\<forall>a\<in>set existing. length (pa_addresses a) \<le> 256"
    and "\<forall>r\<in>set routes. distinct (rt_need r) \<and> length (rt_need r) \<le> 256"
  shows "(\<forall>p\<in>set packs. length (pk_planned p) \<le> 256) \<and> length existing \<le> length packs
    \<and> (\<forall>i<length existing. pk_pubkey (packs ! i) = pa_pubkey (existing ! i)
         \<and> (\<exists>zs. pk_planned (packs ! i) = pa_addresses (existing ! i) @ zs \<and> distinct zs \<and> set zs \<inter> set (pa_addresses (existing ! i)) = {}))
    \<and> (\<forall>p\<in>set (drop (length existing) packs). pk_pubkey p = None \<and> distinct (pk_planned p))
    \<and> mset (map fst asg) = mset routes
    \<and> (\<forall>(r, j)\<in>set asg. j < length packs \<and> set (rt_need r) \<subseteq> set (pk_planned (packs ! j)))"
proof -
  have "small (map existing_pack existing)" using assms(2) by (auto simp: small_def existing_pack_def ALT_MAX_def)
  then have *: "all_grow (map existing_pack existing) packs \<and> small packs \<and> map fst asg = sort_key (\<lambda>r. - int (length (rt_need r))) routes
    \<and> (\<forall>(r, j)\<in>set asg. j < length packs \<and> set (rt_need r) \<subseteq> set (pk_planned (packs ! j)))"
    using pack_routes_spec [OF assms(1) [unfolded greedy_pack_def]] assms(3) by (simp add: ALT_MAX_def)
  then show ?thesis by (auto simp: all_grow_def small_def ALT_MAX_def grows_def existing_pack_def)
qed

theorem greedy_pack_sound_witness:
  "\<exists>packs asg. greedy_pack [smp_plane_route] [\<lparr> pa_pubkey = Some ''T'', pa_addresses = [''a''] \<rparr>] = (packs, asg)
    \<and> (\<forall>p\<in>set packs. length (pk_planned p) \<le> 256) \<and> mset (map fst asg) = {#smp_plane_route#}"
proof -
  obtain packs asg where g: "greedy_pack [smp_plane_route] [\<lparr> pa_pubkey = Some ''T'', pa_addresses = [''a''] \<rparr>] = (packs, asg)"
    by (rule prod.exhaust)
  then show ?thesis using greedy_pack_sound [OF g] by (simp add: smp_plane_route_def)
qed

section \<open>Every resolved route gets its templates\<close>

text \<open>What resolving gives a route.\<close>

definition route_shape :: "string \<Rightarrow> string \<Rightarrow> plane_route \<Rightarrow> bool" where
  "route_shape wallet our_exec r \<longleftrightarrow> length (rt_wr r) = 15 \<and> length (rt_wr_buy r) = 16 \<and> length (rt_ro r) = 10
    \<and> set (rt_wr r) \<subseteq> set (rt_wr_buy r) \<and> set (rt_wr_buy r) \<subseteq> set (rt_need r) \<and> set (rt_ro r) \<subseteq> set (rt_need r)
    \<and> distinct (rt_need r) \<and> length (rt_need r) \<le> 31
    \<and> rt_static r = [wallet, our_exec, CU_PROG, TOKENKEG, SYSTEM, ATA_PROG, MEMO, xl_DLMM, xl_PUMP, TOKEN2022, FEE_PROG]"

lemma length_uniq: "length (uniq xs) \<le> length xs"
  by (induction xs) (auto intro: le_trans [OF length_filter_le])

lemma resolve_row_shape:
  assumes "resolve_row sha extra wallet our_exec row = Inr (Some r)" "length (pr_bins row) \<le> 5"
  shows "route_shape wallet our_exec r"
proof -
  let ?lb = "filter (\<lambda>b. got extra b \<noteq> None) (pr_bins row)"
  obtain acc static wr ro where v: "v0_parts wallet our_exec acc = Inr (static, wr, ro)"
    and r: "rt_static r = static" "rt_wr r = wr" "rt_wr_buy r = wr @ [ac_gvol acc]" "rt_ro r = ro"
      "rt_need r = uniq ((wr @ [ac_gvol acc]) @ ro @ ?lb)"
    using assms(1) by (auto simp: resolve_row_def Let_def rbind_Inr_iff split: if_splits)
  have len: "length wr = 15" "length ro = 10"
    "static = [wallet, our_exec, CU_PROG, TOKENKEG, SYSTEM, ATA_PROG, MEMO, xl_DLMM, xl_PUMP, TOKEN2022, FEE_PROG]"
    using v by (auto simp: v0_parts_def split: if_splits)
  have "length ?lb \<le> 5" using assms(2) length_filter_le le_trans by blast
  then have "length (rt_need r) \<le> 31"
    unfolding r using length_uniq [of "(wr @ [ac_gvol acc]) @ ro @ ?lb"] len by simp
  then show ?thesis using len by (auto simp: route_shape_def r)
qed

lemma rmap_nth: "rmap f xs = Inr ys \<Longrightarrow> length ys = length xs \<and> (\<forall>i<length xs. f (xs ! i) = Inr (ys ! i))"
  by (induction xs arbitrary: ys) (auto simp: rbind_Inr_iff nth_Cons split: nat.splits)

lemma rmap_mem: "rmap f xs = Inr ys \<Longrightarrow> y \<in> set ys \<Longrightarrow> \<exists>x\<in>set xs. f x = Inr y"
  by (metis rmap_nth in_set_conv_nth)

lemma keep_some_mem: "x \<in> set (keep_some xs) \<longleftrightarrow> Some x \<in> set xs"
  by (induction xs rule: keep_some.induct) auto

lemma pair_row_bins: "pair_row_of sha accs e = Inr (Some (row, ks)) \<Longrightarrow> length (pr_bins row) = 5"
  by (cases e) (auto simp: pair_row_of_def Let_def rbind_Inr_iff around_def dest!: rmap_nth split: option.splits sum.splits if_splits)

lemma resolve_all_shape:
  assumes "resolve_all sha rpc wallet our_exec pools = Inr routes" "r \<in> set routes"
  shows "route_shape wallet our_exec r"
proof -
  obtain accs pairs rows extra outs where rows: "rmap (pair_row_of sha accs) pairs = Inr rows"
    and outs: "rmap (resolve_row sha extra wallet our_exec) (map fst (keep_some rows)) = Inr outs" "routes = keep_some outs"
    using assms(1) by (auto simp: resolve_all_def rbind_Inr_iff)
  then obtain row where row: "row \<in> set (map fst (keep_some rows))" "resolve_row sha extra wallet our_exec row = Inr (Some r)"
    using assms(2) rmap_mem [OF outs(1), of "Some r"] by (auto simp: keep_some_mem)
  then obtain ks where "Some (row, ks) \<in> set rows" by (auto simp: keep_some_mem)
  then obtain e where "pair_row_of sha accs e = Inr (Some (row, ks))" using rmap_mem [OF rows] by blast
  then show ?thesis using resolve_row_shape [OF row(2)] pair_row_bins by simp
qed

definition sane_plane :: "plane_alt list \<Rightarrow> bool" where
  "sane_plane plane \<longleftrightarrow> (\<forall>a\<in>set plane. length (pa_addresses a) \<le> 256 \<and> (\<exists>pk k. pa_pubkey a = Some pk \<and> b58decode pk = Inr k))"

lemma lookup_covered:
  assumes "sane_plane plane" "a \<in> set plane" "set (wr @ ro) \<subseteq> set (pa_addresses a)"
  shows "\<exists>pk k w r. lookup_prepared plane wr ro = Inr (pk, w, r) \<and> b58decode pk = Inr k \<and> length w = length wr \<and> length r = length ro"
proof -
  obtain res where res: "lookup_loop plane wr ro = Inr res"
    using lookup_loop_total [of plane wr ro] assms(1) by (fastforce simp: sane_plane_def)
  then obtain pk w r where x: "res = Some (pk, w, r)" using lookup_loop_miss [of plane wr ro a] assms(2,3) by (cases res) auto
  obtain b where b: "b \<in> set plane" "pa_pubkey b = Some pk" "set (wr @ ro) \<subseteq> set (pa_addresses b)"
    "positions (pa_addresses b) wr = Inr w" "positions (pa_addresses b) ro = Inr r"
    using lookup_loop_hit [OF res [unfolded x]] by blast
  have "length w = length wr" "length r = length ro"
    using positions_sound(1) [OF b(4)] positions_sound(1) [OF b(5)] b(3) by (metis Un_subset_iff length_map set_append)+
  moreover obtain k where "b58decode pk = Inr k" using assms(1) b(1,2) by (force simp: sane_plane_def)
  ultimately show ?thesis using res x by (auto simp: lookup_prepared_def)
qed

text \<open>
  What the template compiler relies on: a lookup into tables that cover the needed addresses finds a table
  with a key that decodes, and one index per address.
\<close>

locale prepared_tables =
  fixes covers :: "'p \<Rightarrow> string list \<Rightarrow> bool"
    and look :: "'p \<Rightarrow> string list \<Rightarrow> string list \<Rightarrow> (string \<times> bytes \<times> bytes) res"
  assumes look_covered: "covers p need \<Longrightarrow> set (wr @ ro) \<subseteq> set need \<Longrightarrow>
    \<exists>pk k w r. look p wr ro = Inr (pk, w, r) \<and> b58decode pk = Inr k \<and> length w = length wr \<and> length r = length ro"
begin

lemma compiles:
  assumes "covers p (rt_need r)" "route_shape wallet our_exec r" "b58decode wallet = Inr wk" "b58decode our_exec = Inr ek"
  shows "\<exists>k t. rbind (look p (if buy then rt_wr_buy r else rt_wr r) (rt_ro r)) (\<lambda>(alt, wr, ro).
    rbind (compile_dir buy (rt_static r) alt (Some wr) (Some ro)) (\<lambda>t. Inr (alt, t))) = Inr (k, t)"
proof -
  let ?wr = "if buy then rt_wr_buy r else rt_wr r"
  have "set (?wr @ rt_ro r) \<subseteq> set (rt_need r)" using assms(2) by (auto simp: route_shape_def)
  from look_covered [OF assms(1) this] obtain pk k w ro where
    l: "look p ?wr (rt_ro r) = Inr (pk, w, ro)" "b58decode pk = Inr k" "length w = length ?wr" "length ro = length (rt_ro r)" by blast
  have st: "rt_static r = wallet # our_exec # tl (tl sample_static)" "length (rt_static r) = 11"
    using assms(2) by (simp_all add: route_shape_def sample_static_def)
  then obtain keys where "rmap b58decode (rt_static r) = Inr keys"
    using rmap_decodes [of "rt_static r" b58decode] b58_consts assms(3,4) by (auto simp: sample_static_def)
  from compile_dir_bytes [OF this st(2) l(2), of w buy ro] show ?thesis
    using l assms(2) by (simp add: route_shape_def)
qed

end

definition plane_covers :: "plane_alt list \<Rightarrow> string list \<Rightarrow> bool" where
  "plane_covers plane need \<longleftrightarrow> sane_plane plane \<and> (\<exists>a\<in>set plane. set need \<subseteq> set (pa_addresses a))"

interpretation tables: prepared_tables plane_covers lookup_prepared
proof unfold_locales
  fix plane need wr ro
  assume "plane_covers plane need" "set (wr @ ro) \<subseteq> set need"
  then obtain a where "sane_plane plane" "a \<in> set plane" "set (wr @ ro) \<subseteq> set (pa_addresses a)" by (auto simp: plane_covers_def)
  then show "\<exists>pk k w r. lookup_prepared plane wr ro = Inr (pk, w, r) \<and> b58decode pk = Inr k \<and> length w = length wr \<and> length r = length ro"
    by (rule lookup_covered)
qed

lemma template_covered:
  assumes "sane_plane plane" "a \<in> set plane" "set (rt_need r) \<subseteq> set (pa_addresses a)" "route_shape wallet our_exec r"
    and "b58decode wallet = Inr wk" "b58decode our_exec = Inr ek"
  shows "\<exists>k t. template_of buy plane r = Inr (k, t)"
  unfolding template_of_def using assms(1-3) by (intro tables.compiles [OF _ assms(4-6)]) (auto simp: plane_covers_def)

lemma materialize_planned: "materialize_pack sha payer env p = Inr (ixs, q) \<Longrightarrow> pk_planned q = pk_planned p"
  by (auto simp: materialize_pack_def Let_def rbind_Inr_iff split: list.splits if_splits)

lemma materialize_packs_planned:
  assumes "materialize_packs sha payer envs packs = Inr (ixs, qs)" "length envs = length packs"
  shows "map pk_planned qs = map pk_planned packs"
proof -
  obtain rows where rows: "rmap (\<lambda>(env, p). materialize_pack sha payer env p) (zip envs packs) = Inr rows" "qs = map snd rows"
    using assms(1) by (auto simp: materialize_packs_def rbind_Inr_iff)
  note r = rmap_nth [OF rows(1)]
  show ?thesis
  proof (rule nth_equalityI)
    show "length (map pk_planned qs) = length (map pk_planned packs)" using r assms(2) rows(2) by simp
    fix i assume i: "i < length (map pk_planned qs)"
    then have "materialize_pack sha payer (envs ! i) (packs ! i) = Inr (fst (rows ! i), snd (rows ! i))"
      using r assms(2) rows(2) by auto
    from materialize_planned [OF this] show "map pk_planned qs ! i = map pk_planned packs ! i"
      using i r assms(2) rows(2) by simp
  qed
qed

lemma compile_covered:
  assumes "template_of False plane r = Inr (k0, t0)" "template_of True plane r = Inr (k1, t1)"
  shows "ready_row_of rpc plane (r, True) = Inr \<lparr> rr_dlmm = rt_dlmm r, rr_pump = rt_pump r, rr_token = rt_token r, rr_alt = Some k1,
    rr_dir0 = True, rr_dir1 = True, rr_ata_ok = True, rr_race_ready = True, rr_tmpl0 = Some t0, rr_tmpl1 = Some t1, rr_need_n = length (rt_need r) \<rparr>"
  using assms by (simp add: ready_row_of_def compile_route_def try_template_def Let_def)

lemma rmap_all:
  assumes "\<And>x. x \<in> set xs \<Longrightarrow> \<exists>y. f x = Inr y \<and> Q y"
  shows "\<exists>ys. rmap f xs = Inr ys \<and> list_all Q ys \<and> length ys = length xs"
  using assms by (induction xs) fastforce+


section \<open>A universe of one pair\<close>

definition smp_lb_data :: bytes where
  "smp_lb_data = LBPAIR_DISC @ zeros 112 @ sol_raw @ zeros 752"

definition univ_led :: "string \<Rightarrow> rpc_value option" where
  "univ_led k = Some \<lparr> rv_owner = TOKENKEG, rv_data = (if k = PAIR_DLMM then smp_lb_data else smp_data), rv_lamports = 1 \<rparr>"

definition univ_rpc :: rpc_call where
  "univ_rpc c m keys = Inr (7, map univ_led keys)"

definition univ_pools :: "alt_pool list" where
  "univ_pools = [\<lparr> al_token = Some ''T'', al_proto = Some ''dlmm'', al_kind = None, al_sol_side = True, al_pubkey = Some PAIR_DLMM \<rparr>,
     \<lparr> al_token = Some ''T'', al_proto = None, al_kind = Some ''pump'', al_sol_side = False, al_pubkey = Some PAIR_PUMP \<rparr>]"

lemma univ_get: "\<exists>accs. get_many univ_rpc ks = Inr accs \<and> (\<forall>k\<in>set ks. k \<noteq> [] \<longrightarrow> got accs k = map_option (acc_of_value 7) (univ_led k))"
proof -
  have "answers univ_rpc None None 7 univ_led" by (simp add: answers_def univ_rpc_def)
  from chunked_get [OF this, of 79 ks] show ?thesis by (auto simp: get_many_def got_def)
qed

lemma univ_pairs: "route0_pairs univ_pools = Inr [(PAIR_DLMM, PAIR_PUMP, ''T'')]"
  by (simp add: route0_pairs_def univ_pools_def add_pool_def al_venue_def or_empty_def or_text_def pair_of_def)

lemma univ_lb: "\<exists>lb. parse_lbpair smp_lb_data = Inr lb \<and> lb_token_x lb = zeros 32 \<and> lb_token_y lb = sol_raw \<and> lb_active_id lb = 0"
proof -
  have d: "length LBPAIR_DISC = 8" by (simp add: LBPAIR_DISC_def)
  have "slice 88 120 smp_lb_data = zeros 32" "slice 120 152 smp_lb_data = sol_raw" "slice 76 80 smp_lb_data = zeros 4"
    by (simp_all add: slice_def smp_lb_data_def d zeros_def)
  moreover have "length smp_lb_data = 904" "take 8 smp_lb_data = LBPAIR_DISC" by (simp_all add: smp_lb_data_def d)
  ultimately show ?thesis by (simp add: parse_lbpair_def i_at_def sint_le_def)
qed

lemma univ_bins: "\<exists>bs. rmap (bin_array_pda smp_sha PAIR_DLMM) (around 0) = Inr bs \<and> length bs = 5 \<and> [] \<notin> set bs"
proof -
  have "set rd_DLMM \<subseteq> set B58" by (simp add: rd_DLMM_def B58_def)
  then obtain p where p: "b58decode rd_DLMM = Inr p" using b58decode_total by blast
  have "\<exists>y. bin_array_pda smp_sha PAIR_DLMM i = Inr y \<and> y \<noteq> []" if "i \<in> set (around 0)" for i
    using that by (auto simp: bin_array_pda_def raw_decode p find_pda_off pack_i_def around_def record_pk_def Let_def simp del: le_bytes.simps)
  then have "\<exists>bs. rmap (bin_array_pda smp_sha PAIR_DLMM) (around 0) = Inr bs \<and> list_all (\<lambda>y. y \<noteq> []) bs \<and> length bs = length (around 0)"
    by (rule rmap_all)
  then show ?thesis by (auto simp: list_all_iff around_def)
qed

lemma univ_parse: "\<exists>p. parse_pump_pool smp_data = Some p"
  by (simp add: parse_pump_pool_def smp_data_def Let_def)

lemma univ_acc:
  assumes "pr_dlmm row = PAIR_DLMM" "pr_mint_x row = smp_mint" "pr_mint_y row = xl_SOL" "pr_raw row = smp_data"
  shows "\<exists>acc. pair_acc smp_sha PAIR_DLMM row TOKENKEG bs = Inr acc \<and> ac_bins acc = take 2 bs"
proof -
  obtain fb where fb: "pump_fallback smp_sha = Inr fb" using smp_fallback by blast
  obtain pu where pu: "b58decode xl_PUMP = Inr pu" using decodes by blast
  obtain fr where "b58decode FEE_RECIPIENT = Inr fr" using recipients_decode [of FEE_RECIPIENT] by auto
  then obtain x where x: "ata smp_sha FEE_RECIPIENT xl_SOL TOKENKEG = Inr (record_pk (smp_sha x))" using smp_ata raw_decode(1) by blast
  have "length smp_data < 243" by (simp add: smp_data_def)
  then have "creator_from_pool smp_sha smp_data xl_SOL = Inr (pi_creator_auth fb, pi_creator_ata fb)"
    by (simp add: creator_from_pool_def fb)
  then show ?thesis using assms
    by (simp add: pair_acc_def Let_def fb x smp_pk_ata raw_decode smp_mint_decode xl_pda_off [OF pu] xl_pda_off [OF raw_decode(4)])
qed

lemma univ_row:
  assumes "pr_dlmm row = PAIR_DLMM" "pr_mint_x row = smp_mint" "pr_mint_y row = xl_SOL" "pr_raw row = smp_data"
    and "got extra smp_mint = map_option (acc_of_value 7) (univ_led smp_mint)"
    and "\<forall>b\<in>set (pr_bins row). got extra b \<noteq> None" "length (pr_bins row) = 5"
  shows "\<exists>r. resolve_row smp_sha extra PAIR_DLMM PAIR_PUMP row = Inr (Some r)"
proof -
  have f: "filter (\<lambda>b. got extra b \<noteq> None) (pr_bins row) = pr_bins row" using assms(6) by (simp add: filter_id_conv)
  obtain acc where acc: "pair_acc smp_sha PAIR_DLMM row TOKENKEG (pr_bins row) = Inr acc" "ac_bins acc = take 2 (pr_bins row)"
    using univ_acc [OF assms(1-4)] by blast
  then obtain v where "v0_parts PAIR_DLMM PAIR_PUMP acc = Inr v" using assms(7) by (simp add: v0_parts_def)
  moreover have "TOKENKEG \<noteq> []" by (simp add: TOKENKEG_def)
  ultimately show ?thesis using acc assms(2,5,7) unfolding resolve_row_def Let_def f
    by (cases v) (simp add: univ_led_def acc_of_value_def)
qed

lemma univ_resolve: "\<exists>r. resolve_all smp_sha univ_rpc PAIR_DLMM PAIR_PUMP univ_pools = Inr [r]"
proof -
  obtain accs where accs: "get_many univ_rpc [PAIR_DLMM, PAIR_PUMP] = Inr accs"
    and at: "\<forall>k\<in>set [PAIR_DLMM, PAIR_PUMP]. k \<noteq> [] \<longrightarrow> got accs k = map_option (acc_of_value 7) (univ_led k)"
    using univ_get by blast
  obtain lb where lb: "parse_lbpair smp_lb_data = Inr lb" "lb_token_x lb = zeros 32" "lb_token_y lb = sol_raw" "lb_active_id lb = 0"
    using univ_lb by blast
  obtain p where p: "parse_pump_pool smp_data = Some p" using univ_parse by blast
  obtain bs where bs: "rmap (bin_array_pda smp_sha PAIR_DLMM) (around 0) = Inr bs" "length bs = 5" "[] \<notin> set bs" using univ_bins by blast
  define row where "row = \<lparr> pr_dlmm = PAIR_DLMM, pr_pump = PAIR_PUMP, pr_token = ''T'', pr_lb = lb, pr_p = p, pr_raw = smp_data,
    pr_mint_x = smp_mint, pr_mint_y = xl_SOL, pr_active = 0, pr_bins = bs \<rparr>"
  have g: "got accs PAIR_DLMM = map_option (acc_of_value 7) (univ_led PAIR_DLMM)" "got accs PAIR_PUMP = map_option (acc_of_value 7) (univ_led PAIR_PUMP)"
    using at by (simp_all add: PAIR_DLMM_def PAIR_PUMP_def)
  have ne: "PAIR_PUMP \<noteq> PAIR_DLMM" by (simp add: PAIR_PUMP_def PAIR_DLMM_def)
  obtain ks where row: "pair_row_of smp_sha accs (PAIR_DLMM, PAIR_PUMP, ''T'') = Inr (Some (row, ks))" "set bs \<subseteq> set ks" "smp_mint \<in> set ks"
    using g ne lb p bs(1)
    by (simp add: pair_row_of_def univ_led_def acc_of_value_def Let_def raw_pk raw_decode xl_pda_off [OF raw_decode(4)] row_def
        bin_array_index_def flip: smp_mint_def) auto
  obtain extra where extra: "get_many univ_rpc (ks @ [smp_pk xl_SOL]) = Inr extra"
    and ex: "\<forall>k\<in>set (ks @ [smp_pk xl_SOL]). k \<noteq> [] \<longrightarrow> got extra k = map_option (acc_of_value 7) (univ_led k)"
    using univ_get by blast
  have "smp_mint \<noteq> []" by (simp add: smp_mint_def record_pk_def Let_def)
  then have "got extra smp_mint = map_option (acc_of_value 7) (univ_led smp_mint)" using ex row(3) by simp
  moreover have "got extra b \<noteq> None" if b: "b \<in> set bs" for b
  proof -
    have "b \<noteq> []" "b \<in> set ks" using b bs(3) row(2) by auto
    then have "got extra b = map_option (acc_of_value 7) (univ_led b)" using ex by simp
    then show ?thesis by (simp add: univ_led_def)
  qed
  ultimately obtain r where "resolve_row smp_sha extra PAIR_DLMM PAIR_PUMP row = Inr (Some r)"
    using univ_row [of row extra] bs(2) by (auto simp: row_def)
  then show ?thesis using accs row(1) extra by (simp add: resolve_all_def univ_pairs smp_pk_ata)
qed


end
