(* ===== verification/Hops_Plane.thy ===== *)
theory Hops_Plane
  imports Hops_Sample
begin

text \<open>
  \<^verbatim>\<open>arb-exec/scripts/hops_plane.py\<close>, the readiness bookkeeping of \<^verbatim>\<open>hops_live.py\<close> (publish, hurdle,
  audit, table plan) and \<^verbatim>\<open>net_economics\<close> of \<^verbatim>\<open>hops_message.py\<close>. The plane is a file: its rows are
  carried from one run to the next, so its history is a step relation. Flags written as 0 or 1 are
  truth values here.
\<close>

section \<open>Templates of the plane\<close>

definition PLANE_IN :: int where "PLANE_IN = 50000000"

definition pack_ix :: "ix_hop list \<Rightarrow> bytes res" where
  "pack_ix hs =
    rbind (set_byte (set_range (zeros 40) 0 8 HOPS_MAGIC) 8 (int (length hs))) (\<lambda>buf.
    rbind (pack_u 8 PLANE_IN) (\<lambda>a. rbind (pack_u 8 MIN_PROFIT) (\<lambda>m.
      Inr (put_hops (splice (splice buf 9 a) 17 m) 0 hs))))"

definition hop_n :: "string \<Rightarrow> nat \<Rightarrow> nat" where
  "hop_n proto in_ata = (if proto = ''dlmm'' then 10 else if in_ata = 0 then 26 else 24)"

text \<open>The hop loop: \<open>ms\<close> are the mints so far, the last one the incoming.\<close>

fun plane_hops :: "hpool list \<Rightarrow> hroute \<Rightarrow> nat \<Rightarrow> string list \<Rightarrow> string list \<Rightarrow> (ix_hop list \<times> string list) res" where
  "plane_hops pools r hi ms [] = Inr ([], ms)"
| "plane_hops pools r hi ms (proto # protos) =
     rbind (pool_at pools r hi) (\<lambda>p.
       let incoming = last ms; outgoing = (if incoming = pool_mx p then pool_my p else pool_mx p); ms' = ms @ [outgoing];
           ina = user_slot ms' incoming; outa = user_slot ms' outgoing
       in rbind (plane_hops pools r (Suc hi) ms' protos) (\<lambda>(hs, mints).
            Inr (\<lparr> ih_proto = (if proto = ''dlmm'' then 1 else 2), ih_in = ina, ih_out = outa, ih_nacc = hop_n proto ina \<rparr> # hs, mints)))"

record hops_row =
  hw_id :: int
  hw_fam :: int
  hw_seq :: string
  hw_n_hop :: int
  hw_ix :: bytes
  hw_hops :: "ix_hop list"
  hw_mints :: "string list"
  hw_ata_ready :: bool
  hw_alt_ready :: bool
  hw_size_ok :: bool
  hw_vector_ready :: bool
  hw_race_ready :: bool

definition compile_row :: "hpool list \<Rightarrow> hroute \<times> int option \<Rightarrow> hops_row res" where
  "compile_row pools e =
    (case e of (r, fam) \<Rightarrow>
     rbind (plane_hops pools r 0 [xl_SOL] (split_dash (hr_seq r))) (\<lambda>(hs, mints).
     case hr_id r of None \<Rightarrow> Inl KeyError
     | Some i \<Rightarrow> (case fam of None \<Rightarrow> Inl KeyError
     | Some f \<Rightarrow> rbind (pack_ix hs) (\<lambda>ix.
         Inr \<lparr> hw_id = i, hw_fam = f, hw_seq = hr_seq r, hw_n_hop = hr_n_hop r, hw_ix = ix, hw_hops = hs, hw_mints = mints,
               hw_ata_ready = False, hw_alt_ready = False, hw_size_ok = False, hw_vector_ready = False, hw_race_ready = False \<rparr>))))"

text \<open>\<^verbatim>\<open>for k in (...): if old.get(k): row[k] = old[k]\<close>\<close>

definition carry :: "(int, hops_row) dict \<Rightarrow> hops_row \<Rightarrow> hops_row" where
  "carry prev row =
    (case dget prev (hw_id row) of None \<Rightarrow> row
     | Some old \<Rightarrow> row \<lparr> hw_ata_ready := hw_ata_ready row \<or> hw_ata_ready old, hw_alt_ready := hw_alt_ready row \<or> hw_alt_ready old,
         hw_size_ok := hw_size_ok row \<or> hw_size_ok old, hw_race_ready := hw_race_ready row \<or> hw_race_ready old \<rparr>)"

record hops_plane =
  hq_rows :: "hops_row list"
  hq_ata :: nat
  hq_vector :: nat
  hq_race :: nat

definition plane_main :: "(hroute \<times> int option) list \<Rightarrow> hpool list \<Rightarrow> hops_plane option \<Rightarrow> hops_plane res" where
  "plane_main routes pools old =
    rbind (rmap (compile_row pools) (filter (\<lambda>(r, _). hr_exec r) routes)) (\<lambda>compiled.
      let prev = (case old of None \<Rightarrow> [] | Some p \<Rightarrow> dupdate [] (map (\<lambda>w. (hw_id w, w)) (hq_rows p)));
          rows = map (carry prev) compiled
      in Inr \<lparr> hq_rows = rows, hq_ata = 0, hq_vector = 0,
               hq_race = length (filter (\<lambda>w. dget prev (hw_id w) \<noteq> None \<and> hw_race_ready w) rows) \<rparr>)"

section \<open>Publishing\<close>

definition V0_MAX :: int where "V0_MAX = 1232"

record size_row =
  sz_ok :: bool
  sz_raw :: "int option"

definition size_fits :: "size_row option \<Rightarrow> bool" where
  "size_fits sz =
    (case sz of None \<Rightarrow> False
     | Some z \<Rightarrow> sz_ok z \<and> (case sz_raw z of None \<Rightarrow> 9999 | Some n \<Rightarrow> if n = 0 then 9999 else n) \<le> V0_MAX)"

text \<open>\<^verbatim>\<open>all(exists(ata_of(wallet, m)) for m in mints if m)\<close>, stopping at the first that is missing\<close>

fun all_atas :: "(bytes \<Rightarrow> bytes) \<Rightarrow> rpc_call \<Rightarrow> string \<Rightarrow> string list \<Rightarrow> (hops_st, bool) sx" where
  "all_atas sha rpc wallet [] = sret True"
| "all_atas sha rpc wallet (m # ms) =
     (if m = [] then all_atas sha rpc wallet ms
      else sbind (ata_of sha rpc wallet m) (\<lambda>pk. sbind (slift (exists_acc rpc pk)) (\<lambda>live.
             if live then all_atas sha rpc wallet ms else sret False)))"

definition publish_row ::
  "(bytes \<Rightarrow> bytes) \<Rightarrow> rpc_call \<Rightarrow> string \<Rightarrow> (int, size_row) dict \<Rightarrow> bool \<Rightarrow> hops_row \<Rightarrow> (hops_st, hops_row) sx" where
  "publish_row sha rpc wallet sizes alts row =
    sbind (all_atas sha rpc wallet (hw_mints row)) (\<lambda>atas_ok.
      let size_ok = size_fits (dget sizes (hw_id row)); vector = atas_ok \<and> size_ok
      in sret (row \<lparr> hw_ata_ready := atas_ok, hw_size_ok := size_ok, hw_alt_ready := alts, hw_vector_ready := vector,
                     hw_race_ready := hw_race_ready row \<and> vector \<rparr>))"

definition publish_hops ::
  "(bytes \<Rightarrow> bytes) \<Rightarrow> rpc_call \<Rightarrow> string \<Rightarrow> (int, size_row) dict \<Rightarrow> bool \<Rightarrow> hops_plane \<Rightarrow> (hops_st, hops_plane) sx" where
  "publish_hops sha rpc wallet sizes alts plane =
    sbind (smap (publish_row sha rpc wallet sizes alts) (hq_rows plane)) (\<lambda>rows.
      sret (plane \<lparr> hq_rows := rows, hq_ata := length (filter hw_ata_ready rows),
                    hq_vector := length (filter hw_vector_ready rows), hq_race := length (filter hw_race_ready rows) \<rparr>))"

text \<open>\<^verbatim>\<open>arb-cap/fam6/stamp_plane.py\<close>\<close>

definition stamp_plane :: "hops_plane \<Rightarrow> hops_plane" where
  "stamp_plane plane = plane \<lparr> hq_race := 0 \<rparr>"

section \<open>Audit\<close>

text \<open>\<^verbatim>\<open>complete\<close>, from the routes with their family and the plane (empty when there is no file)\<close>

definition audit_complete :: "(hroute \<times> int option) list \<Rightarrow> hops_plane option \<Rightarrow> bool" where
  "audit_complete routes plane =
    (let n = length (filter (\<lambda>(r, _). hr_exec r) routes);
         tmpl = (case plane of None \<Rightarrow> 0 | Some p \<Rightarrow> length (hq_rows p));
         vec = (case plane of None \<Rightarrow> 0 | Some p \<Rightarrow> hq_vector p);
         race = (case plane of None \<Rightarrow> 0 | Some p \<Rightarrow> hq_race p)
     in n > 0 \<and> tmpl = n \<and> vec = n \<and> race = n
        \<and> length (filter (\<lambda>(r, _). \<not> hr_exec r) routes) = 0 \<and> length (filter (\<lambda>(_, f). f = Some 255) routes) = 0)"

definition cmd_audit :: "(hroute \<times> int option) list \<Rightarrow> hops_plane option \<Rightarrow> int" where
  "cmd_audit routes plane = (if audit_complete routes plane then 0 else 6)"

section \<open>Choosing routes and tables\<close>

definition pick_seq_route :: "hroute list \<Rightarrow> string \<Rightarrow> hroute option" where
  "pick_seq_route routes sq = find (\<lambda>r. hr_seq r = sq \<and> hr_exec r) routes"

definition seq_candidates :: "hroute list \<Rightarrow> string \<Rightarrow> nat \<Rightarrow> hroute list" where
  "seq_candidates routes sq limit =
    (let out = filter (\<lambda>r. hr_seq r = sq \<and> hr_exec r) routes in take (max 1 limit) out)"

definition plan_alts :: "string list \<Rightarrow> string list list" where
  "plan_alts addrs = (if addrs = [] then [[]] else chunks 255 addrs)"

datatype sim_err = NoErr | ErrText string | InstructionError int sim_code | OtherErr
and sim_code = Custom int | OtherCode

definition is_custom6 :: "sim_err \<Rightarrow> bool" where
  "is_custom6 err = (case err of InstructionError _ (Custom c) \<Rightarrow> c = 6 | _ \<Rightarrow> False)"

text \<open>A mint of Token-2022, or anything that fails, counts as one.\<close>

fun any_t22 :: "rpc_call \<Rightarrow> string list \<Rightarrow> (hops_st, bool) sx" where
  "any_t22 rpc [] = sret False"
| "any_t22 rpc (m # ms) = sbind (hl_mint_tok rpc m) (\<lambda>tok. if tok = TOKEN2022 then sret True else any_t22 rpc ms)"

definition route_has_t22 :: "rpc_call \<Rightarrow> hpool list \<Rightarrow> hroute \<Rightarrow> hops_st \<Rightarrow> bool \<times> hops_st" where
  "route_has_t22 rpc pools r s =
    (case sbind (slift (route_mints pools r)) (any_t22 rpc) s of (Inr b, s') \<Rightarrow> (b, s') | (Inl _, s') \<Rightarrow> (True, s'))"

section \<open>Hurdle\<close>

definition SWQOS :: int where "SWQOS = 150000"
definition HL_SAFETY :: int where "HL_SAFETY = 50000"
definition SIG :: int where "SIG = 5000"
definition HL_CU_PRICE :: int where "HL_CU_PRICE = 1000000"

definition SEQS :: "string list" where
  "SEQS = [''dlmm-dlmm'', ''dlmm-pump'', ''pump-dlmm'', ''pump-pump'', ''dlmm-dlmm-dlmm'', ''dlmm-dlmm-pump'', ''pump-dlmm-dlmm'']"

record sim_row =
  sr_seq :: string
  sr_ok :: bool
  sr_cu :: "int option"

record hurdle_row =
  hu_seq :: string
  hu_cu :: "int option"
  hu_cu_limit :: int
  hu_onchain :: int
  hu_min_gross :: int
  hu_custom6 :: bool

text \<open>The limit is \<^verbatim>\<open>int(cu * 12 / 10)\<close>: the quotient of compute units is far below the floating-point range.\<close>

definition cu_limit_of :: "int option \<Rightarrow> int" where
  "cu_limit_of c = (case c of None \<Rightarrow> 200000 | Some n \<Rightarrow> n * 12 div 10)"

definition hurdle_row_of :: "(string, sim_row) dict \<Rightarrow> string \<Rightarrow> hurdle_row" where
  "hurdle_row_of by_seq sq =
    (let row = dget by_seq sq; c = (case row of None \<Rightarrow> None | Some r \<Rightarrow> sr_cu r); lim = cu_limit_of c;
         onchain = SIG + (lim * HL_CU_PRICE) div 1000000
     in \<lparr> hu_seq = sq, hu_cu = c, hu_cu_limit = lim, hu_onchain = onchain, hu_min_gross = onchain + SWQOS + HL_SAFETY,
          hu_custom6 = (row \<noteq> None) \<rparr>)"

definition hurdle_rows :: "sim_row list \<Rightarrow> hurdle_row list" where
  "hurdle_rows rows =
    map (hurdle_row_of (dupdate [] (map (\<lambda>r. (sr_seq r, r)) (filter (\<lambda>r. sr_ok r \<and> sr_cu r \<noteq> None \<and> sr_cu r \<noteq> Some 0) rows)))) SEQS"

section \<open>Net economics\<close>

record economics =
  ec_success_cost :: int
  ec_failure_cost :: int
  ec_fixed_cost :: int
  ec_success_net :: "int option"
  ec_expected_net :: "int option"
  ec_break_even :: "int option"

definition net_economics ::
  "int option \<Rightarrow> int \<Rightarrow> int \<Rightarrow> int \<Rightarrow> int \<Rightarrow> int \<Rightarrow> int option \<Rightarrow> int option \<Rightarrow> economics res" where
  "net_economics gross success_fee failed_fee success_tip failed_tip fixed_cost success_bps charged_failure_bps =
    (if list_ex (\<lambda>c. c < 0) [success_fee, failed_fee, success_tip, failed_tip, fixed_cost]
     then Inl (ValueError ''Costs must be nonnegative integer lamports'')
     else
     let base = \<lparr> ec_success_cost = success_fee + success_tip, ec_failure_cost = failed_fee + failed_tip, ec_fixed_cost = fixed_cost,
                  ec_success_net = map_option (\<lambda>g. g - success_fee - success_tip - fixed_cost) gross,
                  ec_expected_net = None, ec_break_even = None \<rparr>
     in case success_bps of None \<Rightarrow> Inr base
     | Some sb \<Rightarrow> (case charged_failure_bps of None \<Rightarrow> Inr base
     | Some fb \<Rightarrow>
       if \<not> (0 \<le> sb \<and> sb \<le> 10000) \<or> \<not> (0 \<le> fb \<and> fb \<le> 10000) \<or> sb + fb > 10000
       then Inl (ValueError ''Invalid mutually exclusive outcome probabilities'')
       else let cost = sb * (success_fee + success_tip) + fb * (failed_fee + failed_tip) + 10000 * fixed_cost
            in Inr (base \<lparr> ec_break_even := (if sb \<noteq> 0 then Some ((cost + sb - 1) div sb) else None),
                           ec_expected_net := map_option (\<lambda>g. (sb * g - cost) div 10000) gross \<rparr>)))"

section \<open>The history of the plane\<close>

text \<open>
  The file can be compiled anew, published over any chain and size report, and stamped; it starts absent.
\<close>

inductive plane_hist :: "hops_plane option \<Rightarrow> bool" where
  Absent: "plane_hist None"
| Compiled: "plane_hist old \<Longrightarrow> plane_main routes pools old = Inr plane \<Longrightarrow> plane_hist (Some plane)"
| Published: "plane_hist (Some plane) \<Longrightarrow> publish_hops sha rpc wallet sizes alts plane s = (Inr plane', s') \<Longrightarrow> plane_hist (Some plane')"
| Stamped: "plane_hist (Some plane) \<Longrightarrow> plane_hist (Some (stamp_plane plane))"

definition no_race :: "hops_plane option \<Rightarrow> bool" where
  "no_race old \<longleftrightarrow> (case old of None \<Rightarrow> True | Some p \<Rightarrow> hq_race p = 0 \<and> (\<forall>w\<in>set (hq_rows p). \<not> hw_race_ready w))"

lemma compile_row_race: "compile_row pools e = Inr w \<Longrightarrow> \<not> hw_race_ready w"
  by (cases e; cases "hr_id (fst e)"; cases "snd e") (auto simp: compile_row_def rbind_Inr_iff)

lemma rmap_elem: "rmap f xs = Inr ys \<Longrightarrow> y \<in> set ys \<Longrightarrow> \<exists>x\<in>set xs. f x = Inr y"
  by (induction xs arbitrary: ys) (auto simp: rbind_Inr_iff)

lemma dget_pairs: "dget (foldl (\<lambda>m (k, v). dput k v m) d (map (\<lambda>w. (f w, w)) ws)) k = Some v \<Longrightarrow> dget d k = Some v \<or> v \<in> set ws"
  by (induction ws arbitrary: d) (fastforce split: if_splits)+

lemma plane_main_race:
  assumes "plane_main routes pools old = Inr plane" "no_race old"
  shows "no_race (Some plane)"
proof -
  define prev where "prev = (case old of None \<Rightarrow> [] | Some p \<Rightarrow> dupdate [] (map (\<lambda>w. (hw_id w, w)) (hq_rows p)))"
  obtain compiled where c: "rmap (compile_row pools) (filter (\<lambda>(r, _). hr_exec r) routes) = Inr compiled"
    and pl: "plane = \<lparr> hq_rows = map (carry prev) compiled, hq_ata = 0, hq_vector = 0,
      hq_race = length (filter (\<lambda>w. dget prev (hw_id w) \<noteq> None \<and> hw_race_ready w) (map (carry prev) compiled)) \<rparr>"
    using assms(1) unfolding plane_main_def prev_def Let_def by (auto simp: rbind_Inr_iff)
  have "\<not> hw_race_ready v" if "dget prev k = Some v" for k v
    using that assms(2) dget_pairs [where f = hw_id and d = "[]" and k = k and v = v] by (cases old) (auto simp: prev_def no_race_def dupdate_def)
  moreover have "\<not> hw_race_ready w" if "w \<in> set compiled" for w using rmap_elem [OF c that] compile_row_race by blast
  ultimately have "\<not> hw_race_ready w" if "w \<in> set (map (carry prev) compiled)" for w
    using that by (auto simp: carry_def split: option.splits)
  then show ?thesis by (auto simp: no_race_def pl filter_empty_conv)
qed

lemma publish_row_race: "publish_row sha rpc wallet sizes alts row s = (Inr row', s') \<Longrightarrow> hw_race_ready row' \<Longrightarrow> hw_race_ready row"
  by (auto simp: publish_row_def sbind_Inr Let_def)

lemma publish_race:
  assumes "publish_hops sha rpc wallet sizes alts plane s = (Inr plane', s')" "no_race (Some plane)"
  shows "no_race (Some plane')"
proof -
  obtain rows t t' where rows: "smap (publish_row sha rpc wallet sizes alts) (hq_rows plane) t = (Inr rows, t')"
    and pl: "hq_rows plane' = rows" "hq_race plane' = length (filter hw_race_ready rows)"
    using assms(1) by (auto simp: publish_hops_def sbind_Inr)
  have "\<not> hw_race_ready w" if w: "w \<in> set rows" for w
  proof -
    obtain i where i: "i < length rows" "w = rows ! i" using w by (auto simp: in_set_conv_nth)
    then obtain u u' where "publish_row sha rpc wallet sizes alts (hq_rows plane ! i) u = (Inr w, u')"
      using smap_Inr(2) [OF rows, of i] smap_Inr(1) [OF rows] by auto
    then show ?thesis using publish_row_race assms(2) i smap_Inr(1) [OF rows] by (fastforce simp: no_race_def)
  qed
  then show ?thesis by (simp add: no_race_def pl filter_empty_conv)
qed

text \<open>
  C34: No history of the plane ever marks a route race ready. Starting without a file, after any sequence of
  compilations, publications (over any chain, sizes and tables) and stampings, no row is race ready and the
  count is zero: publishing never invents the mark, and nothing else writes it. So the audit never completes,
  and always exits with 6.
\<close>

theorem race_ready_never_invented:
  assumes "plane_hist plane"
  shows "(case plane of None \<Rightarrow> True | Some p \<Rightarrow> hq_race p = 0 \<and> (\<forall>w\<in>set (hq_rows p). \<not> hw_race_ready w)) \<and> cmd_audit routes plane = 6"
proof -
  have "no_race plane" using assms
  proof induction
    case Absent
    then show ?case by (simp add: no_race_def)
  next
    case (Compiled old routes pools plane)
    then show ?case by (blast intro: plane_main_race)
  next
    case (Published plane sha rpc wallet sizes alts s plane' s')
    then show ?case by (blast intro: publish_race)
  next
    case (Stamped plane)
    then show ?case by (simp add: no_race_def stamp_plane_def)
  qed
  then show ?thesis by (auto simp: no_race_def cmd_audit_def audit_complete_def Let_def split: option.splits)
qed

section \<open>Break-even\<close>

text \<open>
  The break-even gross is exact. With valid costs and probabilities and a positive chance of success, the
  expected net of a gross is not negative exactly from the reported break-even on; it is the least gross that
  does not lose on average.
\<close>

lemma break_even_exact:
  assumes "net_economics (Some g) sf ff st ft fx (Some sb) (Some fb) = Inr e" "sb > 0"
  shows "\<exists>b n. ec_break_even e = Some b \<and> ec_expected_net e = Some n \<and> (0 \<le> n \<longleftrightarrow> b \<le> g)"
proof -
  define cost where "cost = sb * (sf + st) + fb * (ff + ft) + 10000 * fx"
  have e: "ec_break_even e = Some ((cost + sb - 1) div sb)" "ec_expected_net e = Some ((sb * g - cost) div 10000)"
    using assms unfolding net_economics_def Let_def option.case cost_def by (auto split: if_splits)
  have "0 \<le> (sb * g - cost) div 10000 \<longleftrightarrow> cost \<le> sb * g" by (simp add: pos_imp_zdiv_nonneg_iff)
  moreover have "(cost + sb - 1) div sb \<le> g \<longleftrightarrow> cost \<le> sb * g"
  proof -
    define k where "k = (cost + sb - 1) div sb"
    have "sb * k + (cost + sb - 1) mod sb = cost + sb - 1" by (simp add: k_def)
    then have k: "sb * k \<le> cost + sb - 1" "cost \<le> sb * k"
      using pos_mod_sign [OF assms(2), of "cost + sb - 1"] pos_mod_bound [OF assms(2), of "cost + sb - 1"] by linarith+
    have "cost \<le> sb * g" if "k \<le> g" using k(2) mult_left_mono [OF that, of sb] assms(2) by linarith
    moreover have "k \<le> g" if "cost \<le> sb * g"
    proof (rule ccontr)
      assume "\<not> k \<le> g"
      then have "sb * (g + 1) \<le> sb * k" using assms(2) by (intro mult_left_mono) linarith+
      then show False using k(1) that assms(2) by (simp add: distrib_left)
    qed
    ultimately show ?thesis unfolding k_def by blast
  qed
  ultimately show ?thesis using e by blast
qed

section \<open>The templates of the plane are those of the builder\<close>

definition ix_of :: "string list \<Rightarrow> nat \<Rightarrow> string \<Rightarrow> ix_hop" where
  "ix_of mints hi proto =
    \<lparr> ih_proto = (if proto = ''dlmm'' then 1 else 2), ih_in = user_slot mints (mints ! hi), ih_out = user_slot mints (mints ! (hi + 1)),
      ih_nacc = hop_n proto (user_slot mints (mints ! hi)) \<rparr>"

lemma user_slot_append: "2 \<le> length ms \<Longrightarrow> user_slot (ms @ xs) m = user_slot ms m"
  by (simp add: user_slot_def nth_append)

lemma plane_hops_mints:
  assumes "mints_loop pools r hi (last pre) ps = Inr ms" "length pre = Suc k"
  shows "plane_hops pools r hi pre ps = Inr (map (\<lambda>(j, proto). ix_of (pre @ ms) (k + j) proto) (zip [0..<length ps] ps), pre @ ms)"
  using assms
proof (induction ps arbitrary: hi pre k ms)
  case (Cons p ps)
  obtain q ms' where q: "pool_at pools r hi = Inr q" "ms = (if last pre = pool_mx q then pool_my q else pool_mx q) # ms'"
    "mints_loop pools r (Suc hi) (if last pre = pool_mx q then pool_my q else pool_mx q) ps = Inr ms'"
    using Cons.prems(1) by (auto simp: rbind_Inr_iff Let_def split: if_splits)
  define out where "out = (if last pre = pool_mx q then pool_my q else pool_mx q)"
  have IH: "plane_hops pools r (Suc hi) (pre @ [out]) ps
      = Inr (map (\<lambda>(j, proto). ix_of ((pre @ [out]) @ ms') (Suc k + j) proto) (zip [0..<length ps] ps), (pre @ [out]) @ ms')"
    by (rule Cons.IH) (use q(3) Cons.prems(2) in \<open>simp_all add: out_def\<close>)
  have ms: "pre @ ms = (pre @ [out]) @ ms'" using q(2) by (simp add: out_def)
  have "pre \<noteq> []" using Cons.prems(2) by auto
  then have at: "(pre @ ms) ! k = last pre" "(pre @ ms) ! (k + 1) = out"
    using Cons.prems(2) last_conv_nth [of pre] unfolding ms by (auto simp: nth_append)
  have us: "user_slot (pre @ ms) x = user_slot (pre @ [out]) x" for x
    unfolding ms by (rule user_slot_append) (use Cons.prems(2) in simp)
  have head: "\<lparr> ih_proto = (if p = ''dlmm'' then 1 else 2), ih_in = user_slot (pre @ [out]) (last pre), ih_out = user_slot (pre @ [out]) out,
      ih_nacc = hop_n p (user_slot (pre @ [out]) (last pre)) \<rparr> = ix_of (pre @ ms) k p"
    unfolding ix_of_def at us by (rule refl)
  have z: "zip [0..<length (p # ps)] (p # ps) = (0, p) # map (\<lambda>(j, x). (Suc j, x)) (zip [0..<length ps] ps)"
    by (simp add: upt_conv_Cons zip_map1 map_Suc_upt [symmetric] del: upt_Suc)
  show ?case
    unfolding z using q(1) IH head by (simp add: out_def [symmetric] Let_def case_prod_beta' comp_def ms)
qed simp

lemma update_agree: "length p = length q \<Longrightarrow> p ! j = q ! j \<Longrightarrow> p[k := v] ! j = q[k := v] ! j"
  by (cases "k < length p"; cases "k = j") (auto simp: list_update_beyond)

lemma put_hops_agree: "length p = length q \<Longrightarrow> p ! j = q ! j \<Longrightarrow> put_hops p i hs ! j = put_hops q i hs ! j"
proof (induction hs arbitrary: p q i)
  case (Cons h hs)
  show ?case unfolding put_hops.simps by (rule Cons.IH) (use Cons.prems in \<open>auto intro!: update_agree\<close>)
qed simp



text \<open>A plane compiled from the sample route.\<close>

lemma smp_plane: "\<exists>w. plane_main [(smp_route, Some 6)] smp_pools None = Inr \<lparr> hq_rows = [w], hq_ata = 0, hq_vector = 0, hq_race = 0 \<rparr>"
proof -
  obtain ms where ms: "mints_loop smp_pools smp_route 0 xl_SOL (split_dash (hr_seq smp_route)) = Inr ms"
    using smp_mints by (auto simp: route_mints_def rbind_Inr_iff)
  define hs where "hs = map (\<lambda>(j, proto). ix_of ([xl_SOL] @ ms) (0 + j) proto) (zip [0..<length (split_dash (hr_seq smp_route))] (split_dash (hr_seq smp_route)))"
  have h: "plane_hops smp_pools smp_route 0 [xl_SOL] (split_dash (hr_seq smp_route)) = Inr (hs, [xl_SOL] @ ms)"
    unfolding hs_def by (rule plane_hops_mints) (use ms in simp_all)
  have "length hs = 2" unfolding hs_def smp_split by simp
  then obtain ix where "pack_ix hs = Inr ix" by (simp add: pack_ix_def set_byte_def set_range_def pack_u_def PLANE_IN_def MIN_PROFIT_def)
  moreover have "hr_id smp_route = Some 5" "hr_exec smp_route" by (simp_all add: smp_route_def)
  ultimately obtain w where "compile_row smp_pools (smp_route, Some 6) = Inr w" "\<not> hw_race_ready w" using h by (simp add: compile_row_def)
  then show ?thesis using \<open>hr_exec smp_route\<close> by (simp add: plane_main_def carry_def)
qed

theorem race_ready_never_invented_witness:
  "\<exists>w. plane_hist (Some \<lparr> hq_rows = [w], hq_ata = 0, hq_vector = 0, hq_race = 0 \<rparr>)
    \<and> \<not> hw_race_ready w \<and> cmd_audit [(smp_route, Some 6)] (Some \<lparr> hq_rows = [w], hq_ata = 0, hq_vector = 0, hq_race = 0 \<rparr>) = 6"
proof -
  obtain w where "plane_main [(smp_route, Some 6)] smp_pools None = Inr \<lparr> hq_rows = [w], hq_ata = 0, hq_vector = 0, hq_race = 0 \<rparr>"
    using smp_plane by blast
  then have h: "plane_hist (Some \<lparr> hq_rows = [w], hq_ata = 0, hq_vector = 0, hq_race = 0 \<rparr>)" by (rule plane_hist.Compiled [OF plane_hist.Absent])
  then show ?thesis using race_ready_never_invented [OF h] by auto
qed

end
