(* ===== verification/Spec2Isabelle.thy ===== *)
theory Spec2Isabelle
  imports Pump_Overlay Dlmm_Orders Frame_Parse Auth_Reader Bank_Journal Tx_Expect Live_Univ Exec_Gates Shadow_Gate Recon_Log Dep_Map State_Props Hops_Props Hops_Validate Alt_Plane Hops_Plane
begin

text \<open>
  A verification development for the arbitrage system of this repository, whose Python side
  observes two Solana exchanges (Meteora DLMM and Pump AMM), keeps the pricing state of every
  pool it follows, predicts the state after a transaction, scores the prediction against the
  state that follows, and decides whether a trade may be sent. The theories below model that
  Python code; this one imports them and holds the properties that span them.

  \<^bold>\<open>How the program is put together.\<close> A stream of accounts, slots and transactions arrives at
  the state owner (\<^verbatim>\<open>arb-state/shyft\<close>). The framer cuts and decodes transactions; the account
  parsers turn account bytes into pool states; from the instructions of a transaction follows
  the set of accounts it must write. The barrier holds a pool back until exactly those writes
  have arrived, then freezes its read set; the pool's state is encoded and published into a
  shared memory ring, where readers in other processes find it. The overlay applies the same
  instructions to the last published state, and the shadow gate compares what was predicted
  with what was published. The quoting kernel prices a cycle through two pools, and the gates
  of the executor decide whether its transaction may go out.

  \<^bold>\<open>Theories and sources.\<close>
  \<^item> \<^verbatim>\<open>Py_Prelude\<close>: what the components share. Exceptions are the left side of a sum (\<^verbatim>\<open>rbind\<close>
    sequences fallible code), \<^verbatim>\<open>bytes\<close> are lists of 8-bit words, \<^verbatim>\<open>struct\<close> packing and unpacking
    with its range errors, hexadecimal text, dictionaries in order of insertion with bounded
    eviction; the locales \<^verbatim>\<open>fixed_codec\<close> (a value of fixed width survives encoding),
    \<^verbatim>\<open>guarded_steps\<close> (a run of guarded steps keeps an invariant), \<^verbatim>\<open>layered_fill\<close> (filling an
    amount against layers of inventory) and \<^verbatim>\<open>event_machine\<close> (every reachable state satisfies
    the invariant).
  \<^item> \<^verbatim>\<open>Base58\<close>: the Base58 encoders and decoders of \<^verbatim>\<open>arb-cap/record_dlmm.py\<close>,
    \<^verbatim>\<open>arb-exec/scripts/exec_gates.py\<close> and others; keys survive encoding and decoding.
  \<^item> \<^verbatim>\<open>Dlmm_Quote\<close>: the quoting kernel \<^verbatim>\<open>arb-cap/timer_decay/dlmm_quote.py\<close>: Q64.64 arithmetic, bin
    prices, dynamic fees, the walk over the bins, the constant-product leg, the cycle.
  \<^item> \<^verbatim>\<open>Dlmm_Orders\<close>: \<^verbatim>\<open>arb-cap/dlmm_orders\<close>: bins with limit orders, filled before the market
    maker; a swap conserves what it takes and gives.
  \<^item> \<^verbatim>\<open>Pump_Fee\<close>, \<^verbatim>\<open>Pump_Swap\<close>, \<^verbatim>\<open>Pump_Overlay\<close>: \<^verbatim>\<open>arb-cap/pump012\<close>: fee configuration and tiers,
    application of one swap (the constant product never falls), the instructions of a
    transaction in execution order and their application in sequence.
  \<^item> \<^verbatim>\<open>Frame_Parse\<close>: \<^verbatim>\<open>arb-cap/frame_v1/parse.py\<close>: the transaction framer; its verdict on a
    prefix never changes once it is final.
  \<^item> \<^verbatim>\<open>Wire_Accounts\<close>, \<^verbatim>\<open>Live_Univ\<close>: account parsers, bin-array addresses, pool snapshots
    (\<^verbatim>\<open>arb-cap/record_dlmm.py\<close>) and the encoded universe (\<^verbatim>\<open>arb-cap/live001.py\<close> with the loader of
    \<^verbatim>\<open>route0_cov.py\<close>).
  \<^item> \<^verbatim>\<open>Tx_Expect\<close>, \<^verbatim>\<open>Tx_Barrier\<close>: \<^verbatim>\<open>txexpect.py\<close>, \<^verbatim>\<open>overlay_n.py\<close> and \<^verbatim>\<open>txbarrier.py\<close>: expected
    writes, the barrier, frozen read sets.
  \<^item> \<^verbatim>\<open>Bank_Journal\<close>: \<^verbatim>\<open>bank_context.py\<close>: evidence about banks, conflicts, the context of a slot.
  \<^item> \<^verbatim>\<open>Auth_Ring\<close>, \<^verbatim>\<open>Auth_Reader\<close>: \<^verbatim>\<open>authpub.py\<close> and \<^verbatim>\<open>timer_decay/auth_ro.py\<close>: the shared ring of
    published states, its sequence lock store by store, the choice of a predecessor, and the
    reader.
  \<^item> \<^verbatim>\<open>Shadow_Gate\<close>: \<^verbatim>\<open>shadow.py\<close>: pending predictions, exact comparison, scores.
  \<^item> \<^verbatim>\<open>Recon_Log\<close>: \<^verbatim>\<open>recon.py\<close> and the readers of its log in \<^verbatim>\<open>timer_decay\<close>; what survives a crash.
  \<^item> \<^verbatim>\<open>Dep_Map\<close>: \<^verbatim>\<open>deps.py\<close>, \<^verbatim>\<open>submap.py\<close>: the accounts a pool is priced from, and their fetch.
  \<^item> \<^verbatim>\<open>State_Owner\<close>, \<^verbatim>\<open>State_Events\<close>: \<^verbatim>\<open>state008.py\<close>, which owns the pools and composes the parts
    above: its record \<^verbatim>\<open>s008\<close> has the fields of the Python object, its operations are
    computations on that record that may raise, and \<^verbatim>\<open>s_do\<close> is one turn of one of its threads.
    \<^verbatim>\<open>State_Invariant\<close> and \<^verbatim>\<open>State_Reach\<close> prove the invariant of the owner operation by operation
    and interpret \<^verbatim>\<open>guarded_steps\<close> on it; \<^verbatim>\<open>State_Sample\<close> is a concrete run, \<^verbatim>\<open>State_Props\<close> the
    properties.
  \<^item> \<^verbatim>\<open>Exec_Gates\<close>: \<^verbatim>\<open>arb-exec/scripts/exec_gates.py\<close>: the checks before a transaction is sent.
  \<^item> \<^verbatim>\<open>Exec_Template\<close>, \<^verbatim>\<open>Exec_Resolve\<close>: \<^verbatim>\<open>exec_live002b.py\<close>: compiling, patching and signing the two-venue
    template (the framer reads back what was meant), resolving its accounts, lookup tables.
  \<^item> \<^verbatim>\<open>Hops_Vector\<close>, \<^verbatim>\<open>Hops_Golden\<close>, \<^verbatim>\<open>Hops_Route\<close>: \<^verbatim>\<open>hops_vector.py\<close> and the route builder of
    \<^verbatim>\<open>hops_live.py\<close>: derived hops with their caches (computations on \<^verbatim>\<open>hops_st\<close> that may raise), golden
    fixtures, the account vector and the payload of a multi-hop route. \<^verbatim>\<open>Hops_Accounts\<close> relates the
    template's account order to the hops', \<^verbatim>\<open>Hops_Sample\<close> is a chain on which the builder runs,
    \<^verbatim>\<open>Hops_Props\<close> holds the theorems about vectors and fixtures, \<^verbatim>\<open>Hops_Validate\<close> the local validation of a
    vector and its soundness.
  \<^item> \<^verbatim>\<open>Alt_Plane\<close>: \<^verbatim>\<open>alt_plane.py\<close>: pairing, resolving and first-fit packing of every pair into lookup
    tables, and the readiness rows the gates read. \<^verbatim>\<open>Hops_Plane\<close>: \<^verbatim>\<open>hops_plane.py\<close> and the publish, hurdle
    and audit steps of \<^verbatim>\<open>hops_live.py\<close>, the plane file as a step relation.

  \<^bold>\<open>What the properties show.\<close> Bounds and safety of pricing (a quote never consumes more than
  its input or pays more than the bins hold; the product of the reserves never falls; inverse
  formulas invert); exactness of optimised arithmetic; round trips of every byte format that
  is both written and read; invariants of every reachable state of the ring, the journal, the
  barrier and the shadow gate, by \<^verbatim>\<open>event_machine\<close>, and of the state owner as a whole, by
  \<^verbatim>\<open>guarded_steps\<close>; refinement of the ring by its history; and,
  across components, that what is published is what is quoted and that no pool is published
  before every account of the swap has arrived; for execution, that a signed template frames to the
  intended message, that a built vector and its payload agree, that a vector that validates is the
  derived one, and that a synchronised table plane readies every resolved pair. Properties named in the comments as negative
  (dropped fees, a missed exact-out answer) state what the code does where it differs from
  what it means to do.

  \<^bold>\<open>Bounds.\<close> Loops of the source that end by a structural argument are structural or have a
  termination proof; the searches for program-derived addresses and square roots run over
  their fixed ranges. Python integers are unbounded \<^verbatim>\<open>int\<close>; where the code packs them into
  fixed width the range error is a branch of the model. Sizes of the source (ring of 16,
  4096 signatures, 512 predictions) are constants of the model.

  \<^bold>\<open>Parameters.\<close> SHA-256, the RPC transport, protobuf decoding of the stream and clocks are
  arguments of the definitions that use them.

  \<^bold>\<open>Not modelled.\<close> The C engine (\<^verbatim>\<open>arb-core\<close>, \<^verbatim>\<open>arb-feed\<close>, \<^verbatim>\<open>arb-nic\<close>) and the Rust programs are
  other languages. Of the Python, what only moves bytes over a network or a disk (RPC clients,
  gRPC loops, recorders' loops, launch scripts), one-off reductions over capture files
  (\<^verbatim>\<open>arb-cap/state00x\<close>, \<^verbatim>\<open>paper00x\<close>, \<^verbatim>\<open>trigger01x\<close>, \<^verbatim>\<open>alpha_census\<close>), tests and generated protobuf
  code. Of the execution scripts, sending, confirming, simulating and deploying are network
  calls (their results are arguments where a decision reads them), and the one-shot driver, the
  earlier executors \<^verbatim>\<open>exec_live001.py\<close> to \<^verbatim>\<open>exec_live003.py\<close>, the earlier state owner \<^verbatim>\<open>state007.py\<close> and the
  report scripts (\<^verbatim>\<open>template_audit.py\<close>, \<^verbatim>\<open>hist_funnel.py\<close>) are superseded by or built from the parts above.
\<close>

section \<open>Publication end to end\<close>

lemma refused_blob:
  assumes "\<not> publish_refused a i (pa \<lparr> pa_blob := [] \<rparr>)" and "length (pa_blob pa) \<le> BLOB"
  shows "\<not> publish_refused a i pa"
  using assms by (simp add: publish_refused_def)


definition sample_lb :: lbpair where
  "sample_lb = \<lparr> lb_base_factor = 1, lb_filter_period = 2, lb_decay_period = 3, lb_reduction_factor = 4,
     lb_variable_fee_control = 5, lb_max_volatility_accumulator = 6, lb_protocol_share = 7,
     lb_base_fee_power_factor = 0, lb_collect_fee_mode = 0, lb_vol_acc = 1, lb_vol_ref = 1, lb_idx_ref = - 4,
     lb_last_upd = 9, lb_active_id = - 4, lb_bin_step = 10, lb_status = 0, lb_token_x = [], lb_token_y = [],
     lb_vault_x = [], lb_vault_y = [] \<rparr>"

definition sample_snap :: dlmm_snap where
  "sample_snap = \<lparr> ds_lb = sample_lb, ds_bins = [\<lparr> rb_id = - 3, rb_x = 7, rb_y = 8 \<rparr>, \<lparr> rb_id = - 40, rb_x = 1, rb_y = 1 \<rparr>],
     ds_reserve_x = 7, ds_reserve_y = 8 \<rparr>"

lemma sample_write: "\<exists>bs. write_dlmm 11 sample_snap = Inr bs"
proof -
  have "window_bins sample_snap = [\<lparr> rb_id = - 3, rb_x = 7, rb_y = 8 \<rparr>]"
    by (simp add: window_bins_def sample_snap_def sample_lb_def near_def lv_K_def)
  then show ?thesis
    by (simp add: write_dlmm_def write_bin_def write_defs pack_u_def pack_i_def sample_snap_def sample_lb_def Let_def)
qed


section \<open>Publication waits for the whole transaction\<close>



end
